(* ===== verification/Das_Prelude.thy ===== *)
theory Das_Prelude
  imports Complex_Main "HOL-Library.AList" "HOL-Library.Word"
begin

text \<open>
  Shared vocabulary of the development: the C++ types the program uses, unordered maps as
  association lists, exceptions, doubles, and the generic facts on lists and maps that the
  component theories apply.

  \<^item> \<open>std::string\<close> is a \<open>string\<close> (a list of bytes); \<open>std::uint64_t\<close> and \<open>std::int64_t\<close>
    are \<open>64 word\<close>, so \<open>+ 1\<close> on a version wraps around as it does in the code, and a signed
    reading goes through \<open>sint\<close>; \<open>std::size_t\<close> is \<open>nat\<close>.
  \<^item> \<open>std::unordered_map\<close> is an association list. The iteration order of the C++ container
    is unspecified; the list fixes one, and no property depends on which.
  \<^item> \<open>double\<close> is one of the finite values (a superset of the IEEE ones), the two
    infinities and NaN, with the comparison of IEEE 754. Signed zeros are identified.
\<close>

type_synonym u64 = "64 word"

type_synonym i64 = "64 word"

type_synonym ('k, 'v) umap = "('k \<times> 'v) list"

text \<open>
  Collections of simplification rules: \<open>umap_simps\<close> for lookups in updated maps,
  \<open>das_defs\<close> for the definitions of small accessors that proofs unfold together.
\<close>

named_theorems umap_simps
named_theorems das_defs

section \<open>Unordered maps\<close>

definition umap_find :: "('k, 'v) umap \<Rightarrow> 'k \<Rightarrow> 'v option" where
  "umap_find m k = map_of m k"

definition umap_set :: "('k, 'v) umap \<Rightarrow> 'k \<Rightarrow> 'v \<Rightarrow> ('k, 'v) umap" where
  "umap_set m k v = AList.update k v m"

definition umap_erase :: "('k, 'v) umap \<Rightarrow> 'k \<Rightarrow> ('k, 'v) umap" where
  "umap_erase m k = AList.delete k m"

text \<open>\<open>emplace\<close> stores only where the key is new; it returns the stored value and whether it inserted.\<close>

definition umap_emplace :: "('k, 'v) umap \<Rightarrow> 'k \<Rightarrow> 'v \<Rightarrow> ('k, 'v) umap \<times> 'v \<times> bool" where
  "umap_emplace m k v =
     (case umap_find m k of
        None \<Rightarrow> (umap_set m k v, v, True)
      | Some w \<Rightarrow> (m, w, False))"

definition umap_wf :: "('k, 'v) umap \<Rightarrow> bool" where
  "umap_wf m \<longleftrightarrow> distinct (map fst m)"

lemma umap_find_Nil [simp, umap_simps]: "umap_find [] k = None"
  by (simp add: umap_find_def)

lemma umap_find_set [simp, umap_simps]:
  "umap_find (umap_set m k v) q = (if q = k then Some v else umap_find m q)"
  by (simp add: umap_find_def umap_set_def update_conv)

lemma umap_find_erase [simp, umap_simps]:
  "umap_find (umap_erase m k) q = (if q = k then None else umap_find m q)"
  by (simp add: umap_find_def umap_erase_def delete_conv)

lemma umap_wf_Nil [simp]: "umap_wf []"
  by (simp add: umap_wf_def)

lemma umap_wf_set [simp]: "umap_wf m \<Longrightarrow> umap_wf (umap_set m k v)"
  by (simp add: umap_wf_def umap_set_def distinct_update)

lemma umap_wf_erase [simp]: "umap_wf m \<Longrightarrow> umap_wf (umap_erase m k)"
  by (simp add: umap_wf_def umap_erase_def distinct_delete)

lemma umap_find_emplace:
  "umap_emplace m k v = (m', w, ins) \<Longrightarrow>
     (umap_find m' q = (if q = k then Some w else umap_find m q)) \<and>
     (ins \<longleftrightarrow> umap_find m k = None) \<and> (ins \<longrightarrow> w = v)"
  by (auto simp: umap_emplace_def split: option.splits)

lemma umap_wf_emplace: "umap_wf m \<Longrightarrow> umap_emplace m k v = (m', r) \<Longrightarrow> umap_wf m'"
  by (auto simp: umap_emplace_def split: option.splits)

lemma umap_find_mem: "umap_wf m \<Longrightarrow> umap_find m k = Some v \<longleftrightarrow> (k, v) \<in> set m"
  by (simp add: umap_wf_def umap_find_def)

lemma umap_find_None: "umap_find m k = None \<longleftrightarrow> k \<notin> fst ` set m"
  by (simp add: umap_find_def map_of_eq_None_iff)

text \<open>Undoing a store: the list itself comes back, not only the map it stands for.\<close>

lemma umap_set_same: "umap_find m k = Some v \<Longrightarrow> umap_set m k v = m"
  by (simp add: umap_find_def umap_set_def update_triv)

lemma umap_set_set: "umap_set (umap_set m k v) k w = umap_set m k w"
  by (simp add: umap_set_def)

lemma umap_undo_set: "umap_find m k = Some v \<Longrightarrow> umap_set (umap_set m k w) k v = m"
  by (simp add: umap_set_set umap_set_same)

lemma umap_undo_insert: "umap_find m k = None \<Longrightarrow> umap_erase (umap_set m k w) k = m"
  by (simp add: umap_set_def umap_erase_def delete_update_same umap_find_None)

text \<open>Storing the pairs of a list in turn, as a loop that fills a map does.\<close>

definition umap_store_all :: "('k, 'v) umap \<Rightarrow> ('k \<times> 'v) list \<Rightarrow> ('k, 'v) umap" where
  "umap_store_all m ps = fold (\<lambda>(k, v) m. umap_set m k v) ps m"

lemma umap_store_all_Nil [simp]: "umap_store_all m [] = m"
  by (simp add: umap_store_all_def)

lemma umap_store_all_Cons [simp]:
  "umap_store_all m ((k, v) # ps) = umap_store_all (umap_set m k v) ps"
  by (simp add: umap_store_all_def)

lemma umap_find_store_all:
  "umap_find (umap_store_all m ps) q =
     (case umap_find (rev ps) q of None \<Rightarrow> umap_find m q | Some v \<Rightarrow> Some v)"
proof (induction ps arbitrary: m)
  case Nil
  then show ?case by simp
next
  case (Cons p ps)
  obtain k v where p: "p = (k, v)" by (cases p)
  have "umap_find (rev ((k, v) # ps)) q =
      (case umap_find (rev ps) q of None \<Rightarrow> (if q = k then Some v else None) | Some w \<Rightarrow> Some w)"
    by (auto simp: umap_find_def map_add_def split: option.splits)
  with Cons show ?case by (auto simp: p split: option.splits)
qed

lemma umap_find_rev: "umap_wf ps \<Longrightarrow> umap_find (rev ps) q = umap_find ps q"
proof -
  assume "umap_wf ps"
  then have "umap_wf (rev ps)" by (simp add: umap_wf_def rev_map [symmetric])
  with \<open>umap_wf ps\<close> show ?thesis
    by (metis not_None_eq set_rev umap_find_mem)
qed

lemma umap_find_store_all_wf:
  "umap_wf ps \<Longrightarrow> umap_find (umap_store_all [] ps) q = umap_find ps q"
  by (simp add: umap_find_store_all umap_find_rev split: option.splits)

section \<open>Exceptions\<close>

text \<open>
  A C++ exception the program's functions let escape: \<open>std::runtime_error\<close> with its message,
  or the \<open>std::out_of_range\<close> of \<open>unordered_map::at\<close> and \<open>std::stoll\<close>, or the
  \<open>std::invalid_argument\<close> of \<open>std::stoll\<close>. A function that can throw returns \<open>Inl\<close> of the
  exception or \<open>Inr\<close> of its result.
\<close>

datatype exn = runtime_error string | out_of_range | invalid_argument

section \<open>Doubles\<close>

datatype double = DFin rat | DPosInf | DNegInf | DNaN

fun dless :: "double \<Rightarrow> double \<Rightarrow> bool" where
  "dless DNaN _ = False"
| "dless _ DNaN = False"
| "dless (DFin a) (DFin b) = (a < b)"
| "dless (DFin _) DPosInf = True"
| "dless (DFin _) DNegInf = False"
| "dless DNegInf DNegInf = False"
| "dless DNegInf _ = True"
| "dless DPosInf _ = False"

lemma dless_irrefl [simp]: "\<not> dless a a"
  by (cases a) auto

lemma dless_trans: "dless a b \<Longrightarrow> dless b c \<Longrightarrow> dless a c"
  by (cases a; cases b; cases c) auto

lemma dless_not_NaN: "dless a b \<Longrightarrow> a \<noteq> DNaN \<and> b \<noteq> DNaN"
  by (cases a; cases b) auto

lemma dless_linear: "a \<noteq> DNaN \<Longrightarrow> b \<noteq> DNaN \<Longrightarrow> \<not> dless a b \<Longrightarrow> \<not> dless b a \<Longrightarrow> a = b"
  by (cases a; cases b) auto

lemma dless_neg_trans: "b \<noteq> DNaN \<Longrightarrow> \<not> dless a b \<Longrightarrow> \<not> dless b c \<Longrightarrow> \<not> dless a c"
  by (cases a; cases b; cases c) auto

section \<open>Lists\<close>

text \<open>\<open>std::find_if\<close> on a vector: the index of the first element that satisfies a predicate.\<close>

fun find_index :: "('a \<Rightarrow> bool) \<Rightarrow> 'a list \<Rightarrow> nat option" where
  "find_index P [] = None"
| "find_index P (x # xs) = (if P x then Some 0 else map_option Suc (find_index P xs))"

lemma find_index_Some:
  "find_index P xs = Some i \<Longrightarrow> i < length xs \<and> P (xs ! i) \<and> (\<forall>j < i. \<not> P (xs ! j))"
proof (induction xs arbitrary: i)
  case Nil
  then show ?case by simp
next
  case (Cons x xs)
  show ?case
  proof (cases "P x")
    case True
    with Cons.prems show ?thesis by simp
  next
    case False
    with Cons.prems obtain j where "find_index P xs = Some j" "i = Suc j" by auto
    with Cons.IH [of j] False show ?thesis by (auto simp: less_Suc_eq_0_disj)
  qed
qed

lemma find_index_None: "find_index P xs = None \<longleftrightarrow> (\<forall>x \<in> set xs. \<not> P x)"
  by (induction xs) auto

lemma find_index_distinct:
  "distinct (map f xs) \<Longrightarrow> i < length xs \<Longrightarrow> find_index (\<lambda>x. f x = f (xs ! i)) xs = Some i"
proof (induction xs arbitrary: i)
  case Nil
  then show ?case by simp
next
  case (Cons x xs)
  then show ?case by (cases i) (auto simp: image_iff nth_mem)
qed

text \<open>Applying an update through the pointer that \<open>std::find_if\<close> returned.\<close>

fun update_first :: "('a \<Rightarrow> bool) \<Rightarrow> ('a \<Rightarrow> 'a) \<Rightarrow> 'a list \<Rightarrow> 'a list" where
  "update_first P f [] = []"
| "update_first P f (x # xs) = (if P x then f x # xs else x # update_first P f xs)"

lemma length_update_first [simp]: "length (update_first P f xs) = length xs"
  by (induction xs) auto

lemma update_first_list_update:
  "find_index P xs = Some i \<Longrightarrow> update_first P f xs = xs[i := f (xs ! i)]"
  by (induction xs arbitrary: i) auto

lemma update_first_None: "find_index P xs = None \<Longrightarrow> update_first P f xs = xs"
  by (induction xs) auto

lemma map_update_first:
  "(\<And>x. P x \<Longrightarrow> g (f x) = g x) \<Longrightarrow> map g (update_first P f xs) = map g xs"
  by (induction xs) auto

lemma find_update_first:
  "(\<And>x. P x \<Longrightarrow> P (f x)) \<Longrightarrow> find P (update_first P f xs) = map_option f (find P xs)"
  by (induction xs) auto

lemma find_update_first_other:
  "(\<And>x. P x \<Longrightarrow> \<not> Q x \<and> \<not> Q (f x)) \<Longrightarrow> find Q (update_first P f xs) = find Q xs"
  by (induction xs) auto

lemma set_update_first_subset: "set (update_first P f xs) \<subseteq> set xs \<union> f ` set xs"
  by (induction xs) auto

lemma find_append:
  "find P (xs @ ys) = (case find P xs of None \<Rightarrow> find P ys | Some x \<Rightarrow> Some x)"
  by (induction xs) auto

lemma butlast_snoc_induct_take: "length xs = Suc n \<Longrightarrow> butlast xs = take n xs"
  by (simp add: butlast_conv_take)

lemma those_map_Some: "(\<And>x. x \<in> set xs \<Longrightarrow> f x = Some (g x)) \<Longrightarrow> those (map f xs) = Some (map g xs)"
  by (induction xs) auto

lemma those_Some_iff:
  "those xs = Some ys \<longleftrightarrow> xs = map Some ys"
  by (induction xs arbitrary: ys) (auto split: option.splits simp: Cons_eq_map_conv)

end
