(* ===== verification/Cpp_Text.thy ===== *)
theory Cpp_Text
  imports Das_Prelude
begin

text \<open>
  The text layer of the program: the parts of the C++ standard library its readers and
  writers use (decimal output, \<open>strtoull\<close>, \<open>strtoll\<close>, \<open>from_chars\<close>, \<open>getline\<close>, the
  search for a separator) and the escaping scheme that every durable artifact shares. The
  escaping code is repeated in the sources of each artifact; here it is one pair of
  functions, and the locale \<open>text_codec\<close> is the contract the artifact formats rely on.
\<close>

section \<open>Characters\<close>

abbreviation TAB :: char where "TAB \<equiv> CHR 0x09"
abbreviation NL :: char where "NL \<equiv> CHR 0x0A"
abbreviation BSLASH :: char where "BSLASH \<equiv> CHR 0x5C"

definition is_digit :: "char \<Rightarrow> bool" where
  "is_digit c \<longleftrightarrow> 48 \<le> (of_char c :: nat) \<and> (of_char c :: nat) \<le> 57"

definition digit_val :: "char \<Rightarrow> nat" where
  "digit_val c = of_char c - 48"

definition digit_char :: "nat \<Rightarrow> char" where
  "digit_char d = char_of (48 + d)"

definition is_space :: "char \<Rightarrow> bool" where
  "is_space c \<longleftrightarrow> c = CHR '' '' \<or> (9 \<le> (of_char c :: nat) \<and> (of_char c :: nat) \<le> 13)"

lemma of_char_digit: "d < 10 \<Longrightarrow> (of_char (digit_char d) :: nat) = 48 + d"
  by (simp add: digit_char_def)

lemma digit_val_char [simp]: "d < 10 \<Longrightarrow> digit_val (digit_char d) = d"
  by (simp add: digit_val_def of_char_digit)

lemma is_digit_char [simp]: "d < 10 \<Longrightarrow> is_digit (digit_char d)"
  by (simp add: is_digit_def of_char_digit)

lemma is_digit_not_special:
  "is_digit c \<Longrightarrow> c \<noteq> TAB \<and> c \<noteq> NL \<and> c \<noteq> BSLASH \<and> c \<noteq> CHR ''-'' \<and> c \<noteq> CHR ''+'' \<and> \<not> is_space c"
  by (auto simp: is_digit_def is_space_def)

section \<open>Decimal numbers\<close>

fun nat_dec :: "nat \<Rightarrow> string" where
  "nat_dec n = (if n < 10 then [digit_char n] else nat_dec (n div 10) @ [digit_char (n mod 10)])"

declare nat_dec.simps [simp del]

definition int_dec :: "int \<Rightarrow> string" where
  "int_dec i = (if i < 0 then CHR ''-'' # nat_dec (nat (- i)) else nat_dec (nat i))"

definition u64_dec :: "u64 \<Rightarrow> string" where
  "u64_dec w = nat_dec (unat w)"

definition i64_dec :: "i64 \<Rightarrow> string" where
  "i64_dec w = int_dec (sint w)"

definition dec_val :: "string \<Rightarrow> nat" where
  "dec_val ds = foldl (\<lambda>a c. 10 * a + digit_val c) 0 ds"

lemma nat_dec_nonempty [simp]: "nat_dec n \<noteq> []"
  by (subst nat_dec.simps) simp

lemma nat_dec_digits: "c \<in> set (nat_dec n) \<Longrightarrow> is_digit c"
proof (induction n rule: nat_dec.induct)
  case (1 n)
  then show ?case
    by (cases "n < 10") (auto simp: nat_dec.simps [of n])
qed

lemma dec_val_snoc: "dec_val (ds @ [c]) = 10 * dec_val ds + digit_val c"
  by (simp add: dec_val_def)

lemma dec_val_nat_dec [simp]: "dec_val (nat_dec n) = n"
proof (induction n rule: nat_dec.induct)
  case (1 n)
  show ?case
  proof (cases "n < 10")
    case True
    then show ?thesis by (simp add: nat_dec.simps [of n] dec_val_def)
  next
    case False
    with 1 show ?thesis by (simp add: nat_dec.simps [of n] dec_val_snoc)
  qed
qed

lemma nat_dec_inj: "nat_dec m = nat_dec n \<Longrightarrow> m = n"
  by (metis dec_val_nat_dec)

lemma takeWhile_nat_dec [simp]: "takeWhile is_digit (nat_dec n) = nat_dec n"
  by (simp add: nat_dec_digits takeWhile_eq_all_conv)

lemma dropWhile_nat_dec [simp]: "dropWhile is_digit (nat_dec n) = []"
  by (simp add: nat_dec_digits)

lemma nat_dec_clean: "TAB \<notin> set (nat_dec n)" "NL \<notin> set (nat_dec n)"
  using nat_dec_digits is_digit_not_special by blast+

lemma u64_dec_clean [simp]:
  "TAB \<notin> set (u64_dec w)" "NL \<notin> set (u64_dec w)" "u64_dec w \<noteq> []"
  by (simp_all add: u64_dec_def nat_dec_clean)

lemma int_dec_clean [simp]:
  "TAB \<notin> set (int_dec i)" "NL \<notin> set (int_dec i)" "int_dec i \<noteq> []"
  by (simp_all add: int_dec_def nat_dec_clean)

lemma i64_dec_clean [simp]:
  "TAB \<notin> set (i64_dec w)" "NL \<notin> set (i64_dec w)" "i64_dec w \<noteq> []"
  by (simp_all add: i64_dec_def)

lemma nat_dec_hd:
  obtains c cs where "nat_dec n = c # cs" "is_digit c"
  by (metis list.exhaust list.set_intros(1) nat_dec_digits nat_dec_nonempty)

section \<open>Reading numbers\<close>

text \<open>
  \<open>strtoull(s, nullptr, 10)\<close> and \<open>strtoll\<close>: skip white space, take an optional sign, then
  the longest run of digits; no digits give 0. An out-of-range magnitude saturates; a minus
  sign negates the unsigned result modulo \<open>2 ^ 64\<close>.
\<close>

definition scan_sign :: "string \<Rightarrow> bool \<times> string" where
  "scan_sign s =
     (case s of
        [] \<Rightarrow> (False, [])
      | c # cs \<Rightarrow> (if c = CHR ''-'' then (True, cs) else if c = CHR ''+'' then (False, cs) else (False, s)))"

definition strtoull :: "string \<Rightarrow> nat" where
  "strtoull s =
     (let (neg, t) = scan_sign (dropWhile is_space s);
          n = dec_val (takeWhile is_digit t)
      in if 2 ^ 64 \<le> n then 2 ^ 64 - 1 else if neg then (2 ^ 64 - n) mod 2 ^ 64 else n)"

definition strtoll :: "string \<Rightarrow> int" where
  "strtoll s =
     (let (neg, t) = scan_sign (dropWhile is_space s);
          v = (if neg then - 1 else 1) * int (dec_val (takeWhile is_digit t))
      in max (- (2 ^ 63)) (min (2 ^ 63 - 1) v))"

lemma scan_sign_nat_dec [simp]: "scan_sign (dropWhile is_space (nat_dec n)) = (False, nat_dec n)"
proof -
  obtain c cs where c: "nat_dec n = c # cs" "is_digit c" by (rule nat_dec_hd)
  with is_digit_not_special [OF c(2)] show ?thesis by (simp add: scan_sign_def)
qed

lemma strtoull_nat_dec: "n < 2 ^ 64 \<Longrightarrow> strtoull (nat_dec n) = n"
  by (simp add: strtoull_def)

lemma strtoull_u64_dec [simp]: "of_nat (strtoull (u64_dec w)) = w"
proof -
  have "unat w < 2 ^ LENGTH(64)" by (rule unsigned_less)
  then show ?thesis by (simp add: u64_dec_def strtoull_nat_dec)
qed

lemma strtoull_bound: "strtoull s < 2 ^ 64"
  by (simp add: strtoull_def Let_def split: prod.split)

lemma strtoll_int_dec: "- (2 ^ 63) \<le> i \<Longrightarrow> i < 2 ^ 63 \<Longrightarrow> strtoll (int_dec i) = i"
proof -
  assume i: "- (2 ^ 63) \<le> i" "i < 2 ^ 63"
  show ?thesis
  proof (cases "i < 0")
    case True
    have "scan_sign (dropWhile is_space (CHR ''-'' # nat_dec (nat (- i)))) = (True, nat_dec (nat (- i)))"
      by (simp add: scan_sign_def is_space_def)
    with i True show ?thesis by (simp add: strtoll_def int_dec_def)
  next
    case False
    with i show ?thesis by (simp add: strtoll_def int_dec_def)
  qed
qed

lemma strtoll_i64_dec [simp]: "word_of_int (strtoll (i64_dec w)) = w"
proof -
  have "- (2 ^ 63) \<le> sint w" "sint w < 2 ^ 63"
    using sint_range_size [of w] by (auto simp: word_size)
  then show ?thesis by (simp add: i64_dec_def strtoll_int_dec)
qed

text \<open>
  \<open>std::from_chars\<close> into a \<open>long long\<close>: an optional minus sign and at least one digit, no
  white space and no plus sign; the value and the unread rest, or nothing on
  \<open>invalid_argument\<close> and \<open>result_out_of_range\<close>.
\<close>

definition from_chars_ll :: "string \<Rightarrow> (int \<times> string) option" where
  "from_chars_ll s =
     (let (neg, t) = (case s of c # cs \<Rightarrow> (if c = CHR ''-'' then (True, cs) else (False, s)) | [] \<Rightarrow> (False, []));
          ds = takeWhile is_digit t;
          v = (if neg then - int (dec_val ds) else int (dec_val ds))
      in if ds = [] \<or> v < - (2 ^ 63) \<or> 2 ^ 63 \<le> v then None else Some (v, dropWhile is_digit t))"

lemma from_chars_int_dec:
  "- (2 ^ 63) \<le> i \<Longrightarrow> i < 2 ^ 63 \<Longrightarrow> from_chars_ll (int_dec i) = Some (i, [])"
proof -
  assume i: "- (2 ^ 63) \<le> i" "i < 2 ^ 63"
  show ?thesis
  proof (cases "i < 0")
    case True
    with i show ?thesis by (simp add: int_dec_def from_chars_ll_def Let_def)
  next
    case False
    obtain c cs where c: "nat_dec (nat i) = c # cs" "is_digit c" by (rule nat_dec_hd)
    have "(case nat_dec (nat i) of
          c # cs \<Rightarrow> if c = CHR ''-'' then (True, cs) else (False, nat_dec (nat i))
        | [] \<Rightarrow> (False, [])) = (False, nat_dec (nat i))"
      using c is_digit_not_special [OF c(2)] by simp
    with i False show ?thesis by (simp add: int_dec_def from_chars_ll_def Let_def)
  qed
qed

lemma from_chars_range: "from_chars_ll s = Some (v, r) \<Longrightarrow> - (2 ^ 63) \<le> v \<and> v < 2 ^ 63"
  by (auto simp: from_chars_ll_def Let_def split: prod.splits if_splits)

text \<open>
  Arithmetic on \<open>long long\<close>. Signed overflow is undefined in C++; the model wraps, which is
  what the machine instruction does, and each property about a sum carries the hypothesis
  that it does not overflow.
\<close>

definition ll_fits :: "int \<Rightarrow> bool" where
  "ll_fits i \<longleftrightarrow> - (2 ^ 63) \<le> i \<and> i < 2 ^ 63"

definition ll_wrap :: "int \<Rightarrow> int" where
  "ll_wrap i = (i + 2 ^ 63) mod 2 ^ 64 - 2 ^ 63"

lemma ll_wrap_fits [simp]: "ll_fits i \<Longrightarrow> ll_wrap i = i"
  by (simp add: ll_fits_def ll_wrap_def)

lemma ll_fits_wrap [simp]: "ll_fits (ll_wrap i)"
  by (simp add: ll_fits_def ll_wrap_def)

lemma ll_wrap_wrap_add [simp]: "ll_wrap (a + ll_wrap b) = ll_wrap (a + b)"
  unfolding ll_wrap_def by (simp add: algebra_simps mod_simps)

section \<open>Reading lines and fields\<close>

text \<open>
  \<open>std::getline(stream, text, d)\<close> on the unread rest of a stream: it fails at the end of the
  stream, otherwise it reads up to the next \<open>d\<close> (dropped) or to the end.
\<close>

definition getline :: "char \<Rightarrow> string \<Rightarrow> (string \<times> string) option" where
  "getline d s =
     (if s = [] then None
      else Some (takeWhile (\<lambda>c. c \<noteq> d) s, drop 1 (dropWhile (\<lambda>c. c \<noteq> d) s)))"

lemma getline_Nil [simp]: "getline d [] = None"
  by (simp add: getline_def)

lemma getline_delim: "d \<notin> set x \<Longrightarrow> getline d (x @ d # r) = Some (x, r)"
proof -
  assume d: "d \<notin> set x"
  have "takeWhile (\<lambda>c. c \<noteq> d) (x @ d # r) = x"
    using d by (subst takeWhile_append2) auto
  moreover have "dropWhile (\<lambda>c. c \<noteq> d) (x @ d # r) = d # r"
    using d by (subst dropWhile_append2) auto
  ultimately show ?thesis by (simp add: getline_def)
qed

lemma getline_rest: "d \<notin> set x \<Longrightarrow> x \<noteq> [] \<Longrightarrow> getline d x = Some (x, [])"
proof -
  assume "d \<notin> set x" "x \<noteq> []"
  then have "\<forall>c \<in> set x. c \<noteq> d" by auto
  then have "takeWhile (\<lambda>c. c \<noteq> d) x = x" "dropWhile (\<lambda>c. c \<noteq> d) x = []"
    by (simp_all add: takeWhile_eq_all_conv dropWhile_eq_Nil_conv)
  note run = this
  show ?thesis unfolding getline_def run using \<open>x \<noteq> []\<close> by simp
qed

lemma getline_shorter: "getline d s = Some (l, r) \<Longrightarrow> length r < length s"
proof -
  assume "getline d s = Some (l, r)"
  then have s: "s \<noteq> []" and r: "r = drop 1 (dropWhile (\<lambda>c. c \<noteq> d) s)"
    by (auto simp: getline_def split: if_splits)
  have "length (dropWhile (\<lambda>c. c \<noteq> d) s) \<le> length s" by (rule length_dropWhile_le)
  with s r show ?thesis by (cases "dropWhile (\<lambda>c. c \<noteq> d) s") auto
qed

text \<open>The lines that a \<open>while (std::getline(input, line))\<close> loop sees.\<close>

function (sequential) getlines :: "string \<Rightarrow> string list" where
  "getlines s = (case getline NL s of None \<Rightarrow> [] | Some (l, r) \<Rightarrow> l # getlines r)"
  by pat_completeness auto
termination
  by (relation "measure length") (auto dest: getline_shorter)

declare getlines.simps [simp del]

lemma getlines_Nil [simp]: "getlines [] = []"
  by (subst getlines.simps) simp

lemma getlines_Cons [simp]: "NL \<notin> set l \<Longrightarrow> getlines (l @ NL # r) = l # getlines r"
  by (subst getlines.simps) (simp add: getline_delim)

text \<open>Text written as lines that each end with a newline is read back as those lines.\<close>

definition put_lines :: "string list \<Rightarrow> string" where
  "put_lines ls = concat (map (\<lambda>l. l @ [NL]) ls)"

lemma put_lines_Nil [simp]: "put_lines [] = []"
  by (simp add: put_lines_def)

lemma put_lines_Cons [simp]: "put_lines (l # ls) = l @ NL # put_lines ls"
  by (simp add: put_lines_def)

lemma put_lines_append [simp]: "put_lines (ls @ ms) = put_lines ls @ put_lines ms"
  by (simp add: put_lines_def)

lemma getlines_put_lines: "(\<And>l. l \<in> set ls \<Longrightarrow> NL \<notin> set l) \<Longrightarrow> getlines (put_lines ls) = ls"
  by (induction ls) auto

text \<open>The split of a line at \<open>'='\<close> with \<open>find\<close> and two \<open>substr\<close> calls; none when there is no \<open>'='\<close>.\<close>

definition split_eq :: "string \<Rightarrow> (string \<times> string) option" where
  "split_eq l =
     (if CHR ''='' \<in> set l
      then Some (takeWhile (\<lambda>c. c \<noteq> CHR ''='') l, drop 1 (dropWhile (\<lambda>c. c \<noteq> CHR ''='') l))
      else None)"

lemma split_eq_join [simp]:
  "CHR ''='' \<notin> set k \<Longrightarrow> split_eq (k @ CHR ''='' # v) = Some (k, v)"
  using getline_delim [of "CHR ''=''" k v] by (simp add: split_eq_def getline_def)

text \<open>The loop that cuts a line at every tab; it yields one part more than there are tabs.\<close>

fun split_tabs :: "string \<Rightarrow> string list" where
  "split_tabs [] = [[]]"
| "split_tabs (c # cs) =
     (if c = TAB then [] # split_tabs cs
      else (case split_tabs cs of p # ps \<Rightarrow> (c # p) # ps | [] \<Rightarrow> [[c]]))"

lemma split_tabs_nonempty [simp]: "split_tabs s \<noteq> []"
  by (cases s) (auto split: list.splits)

lemma split_tabs_clean: "TAB \<notin> set x \<Longrightarrow> split_tabs x = [x]"
  by (induction x) auto

lemma split_tabs_Cons: "TAB \<notin> set x \<Longrightarrow> split_tabs (x @ TAB # r) = x # split_tabs r"
  by (induction x) auto

section \<open>Escaping\<close>

fun escape_text :: "string \<Rightarrow> string" where
  "escape_text [] = []"
| "escape_text (c # cs) =
     (if c = BSLASH then BSLASH # BSLASH # escape_text cs
      else if c = TAB then BSLASH # CHR ''t'' # escape_text cs
      else if c = NL then BSLASH # CHR ''n'' # escape_text cs
      else c # escape_text cs)"

text \<open>The loop over the input with its flag \<open>escaped\<close>.\<close>

fun unescape_loop :: "bool \<Rightarrow> string \<Rightarrow> string" where
  "unescape_loop True [] = [BSLASH]"
| "unescape_loop False [] = []"
| "unescape_loop True (c # cs) =
     (if c = CHR ''t'' then TAB else if c = CHR ''n'' then NL else c) # unescape_loop False cs"
| "unescape_loop False (c # cs) =
     (if c = BSLASH then unescape_loop True cs else c # unescape_loop False cs)"

definition unescape_text :: "string \<Rightarrow> string" where
  "unescape_text s = unescape_loop False s"

lemma unescape_escape_loop: "unescape_loop False (escape_text s) = s"
  by (induction s) auto

text \<open>
  The contract between the artifact formats and the escaping scheme: decoding inverts
  encoding, encoded text never holds a separator, and only the empty text is encoded as
  empty text (so a field can be told from a missing one by its length).
\<close>

locale text_codec =
  fixes enc :: "string \<Rightarrow> string"
    and dec :: "string \<Rightarrow> string"
  assumes dec_enc: "dec (enc s) = s"
    and enc_no_TAB: "TAB \<notin> set (enc s)"
    and enc_no_NL: "NL \<notin> set (enc s)"
    and enc_Nil_iff: "enc s = [] \<longleftrightarrow> s = []"
begin

lemma enc_inj: "enc s = enc t \<Longrightarrow> s = t"
  by (metis dec_enc)

lemma enc_field: "getline TAB (enc s @ TAB # r) = Some (enc s, r)"
  by (simp add: getline_delim enc_no_TAB)

lemma enc_last_field: "s \<noteq> [] \<Longrightarrow> getline NL (enc s) = Some (enc s, [])"
  by (simp add: getline_rest enc_no_NL enc_Nil_iff)

lemma enc_part: "split_tabs (enc s @ TAB # r) = enc s # split_tabs r"
  by (simp add: split_tabs_Cons enc_no_TAB)

lemma enc_last_part: "split_tabs (enc s) = [enc s]"
  by (simp add: split_tabs_clean enc_no_TAB)

lemmas codec_simps = dec_enc enc_no_TAB enc_no_NL enc_Nil_iff enc_field enc_part enc_last_part

end

lemma escape_clean: "TAB \<notin> set (escape_text s)" "NL \<notin> set (escape_text s)"
  by (induction s) auto

lemma escape_Nil_iff: "escape_text s = [] \<longleftrightarrow> s = []"
  by (cases s) auto

interpretation escape: text_codec escape_text unescape_text
  by unfold_locales
    (simp_all add: unescape_text_def unescape_escape_loop escape_clean escape_Nil_iff)

end
