(* ===== verification/Disk.thy ===== *)
theory Disk
  imports Cpp_Text "HOL-Library.List_Lexorder" "HOL-Library.Char_ord"
begin

text \<open>
  The file system as the program sees it: the regular files with their bytes, the
  directories, and a script of what the environment does to the calls to come. Each call
  that can fail (opening for writing, writing and flushing, \<open>rename\<close>, \<open>remove\<close>, creating a
  directory) takes the next outcome of the script; an empty script means that the calls
  succeed. A write that fails after the file was opened leaves a prefix of the text behind.

  A crash of the process needs no notion of its own. The program gives up at the first
  failed call, so the disk after a crash just before a call is the disk after that call failed.
\<close>

datatype io_fault = NoFault | OpenFault | WriteFault nat

record world =
  files :: "(string, string) umap"
  dirs :: "string list"
  script :: "io_fault list"

text \<open>No failure is to come.\<close>

definition quiet :: "world \<Rightarrow> bool" where
  "quiet w \<longleftrightarrow> set (script w) \<subseteq> {NoFault}"

definition next_fault :: "world \<Rightarrow> io_fault \<times> world" where
  "next_fault w =
     (case script w of [] \<Rightarrow> (NoFault, w) | f # fs \<Rightarrow> (f, w\<lparr>script := fs\<rparr>))"

definition fs_read :: "string \<Rightarrow> world \<Rightarrow> string option" where
  "fs_read p w = umap_find (files w) p"

definition fs_put :: "string \<Rightarrow> string \<Rightarrow> world \<Rightarrow> world" where
  "fs_put p text w = w\<lparr>files := umap_set (files w) p text\<rparr>"

definition fs_drop :: "string \<Rightarrow> world \<Rightarrow> world" where
  "fs_drop p w = w\<lparr>files := umap_erase (files w) p\<rparr>"

text \<open>
  An \<open>std::ofstream\<close> opened with \<open>trunc\<close>, one text written to it and flushed: \<open>NotOpened\<close>
  when \<open>is_open\<close> is false, \<open>NotGood\<close> when the stream is not good after the flush.
\<close>

datatype write_result = NotOpened | NotGood | Written

definition write_file :: "string \<Rightarrow> string \<Rightarrow> world \<Rightarrow> write_result \<times> world" where
  "write_file p text w =
     (case next_fault w of
        (NoFault, w') \<Rightarrow> (Written, fs_put p text w')
      | (OpenFault, w') \<Rightarrow> (NotOpened, w')
      | (WriteFault n, w') \<Rightarrow> (NotGood, fs_put p (take n text) w'))"

definition rename_file :: "string \<Rightarrow> string \<Rightarrow> world \<Rightarrow> bool \<times> world" where
  "rename_file p q w =
     (case next_fault w of
        (NoFault, w') \<Rightarrow>
          (case fs_read p w' of
             None \<Rightarrow> (False, w')
           | Some text \<Rightarrow> (True, fs_put q text (fs_drop p w')))
      | (_, w') \<Rightarrow> (False, w'))"

definition remove_file :: "string \<Rightarrow> world \<Rightarrow> bool \<times> world" where
  "remove_file p w =
     (case next_fault w of
        (NoFault, w') \<Rightarrow> (if fs_read p w' = None then (False, w') else (True, fs_drop p w'))
      | (_, w') \<Rightarrow> (False, w'))"

text \<open>
  \<open>opendir\<close> and the \<open>readdir\<close> loop: the entry names of a directory, \<open>.\<close> and \<open>..\<close> among
  them, or nothing when the directory cannot be opened.
\<close>

definition dir_entries :: "string \<Rightarrow> world \<Rightarrow> string list option" where
  "dir_entries d w =
     (if d \<in> set (dirs w)
      then Some (''.'' # ''..'' #
             map (drop (length d + 1))
               (filter (\<lambda>p. take (length d + 1) p = d @ ''/'' \<and> CHR ''/'' \<notin> set (drop (length d + 1) p))
                 (map fst (files w))))
      else None)"

section \<open>Reading back what the calls leave\<close>

lemma fs_read_put [simp]: "fs_read q (fs_put p t w) = (if q = p then Some t else fs_read q w)"
  by (simp add: fs_read_def fs_put_def)

lemma fs_read_drop [simp]: "fs_read q (fs_drop p w) = (if q = p then None else fs_read q w)"
  by (simp add: fs_read_def fs_drop_def)

lemma script_put [simp]: "script (fs_put p t w) = script w"
  by (simp add: fs_put_def)

lemma script_drop [simp]: "script (fs_drop p w) = script w"
  by (simp add: fs_drop_def)

lemma quiet_put [simp]: "quiet (fs_put p t w) = quiet w"
  by (simp add: quiet_def)

lemma quiet_drop [simp]: "quiet (fs_drop p w) = quiet w"
  by (simp add: quiet_def)

lemma next_fault_files: "next_fault w = (f, w') \<Longrightarrow> fs_read p w' = fs_read p w"
  by (auto simp: next_fault_def fs_read_def split: list.splits)

lemma next_fault_quiet: "quiet w \<Longrightarrow> next_fault w = (f, w') \<Longrightarrow> f = NoFault \<and> quiet w'"
  by (auto simp: next_fault_def quiet_def split: list.splits)

lemma next_fault_quiet_ex:
  assumes "quiet w"
  shows "\<exists>w'. next_fault w = (NoFault, w') \<and> quiet w' \<and> (\<forall>p. fs_read p w' = fs_read p w)"
proof -
  obtain f w' where n: "next_fault w = (f, w')" by (cases "next_fault w")
  with assms have "f = NoFault" "quiet w'" by (auto dest: next_fault_quiet)
  with n show ?thesis by (auto intro: next_fault_files)
qed

lemma write_file_quiet:
  assumes "quiet w"
  shows "fst (write_file p t w) = Written"
    and "quiet (snd (write_file p t w))"
    and "fs_read q (snd (write_file p t w)) = (if q = p then Some t else fs_read q w)"
proof -
  obtain w' where "next_fault w = (NoFault, w')" "quiet w'" "\<forall>p. fs_read p w' = fs_read p w"
    using next_fault_quiet_ex [OF assms(1)] by blast
  with assms show "fst (write_file p t w) = Written"
    and "quiet (snd (write_file p t w))"
    and "fs_read q (snd (write_file p t w)) = (if q = p then Some t else fs_read q w)"
    by (simp_all add: write_file_def)
qed

lemma rename_file_quiet:
  assumes "quiet w" "fs_read p w = Some t"
  shows "fst (rename_file p q w)"
    and "quiet (snd (rename_file p q w))"
    and "fs_read r (snd (rename_file p q w)) =
           (if r = q then Some t else if r = p then None else fs_read r w)"
proof -
  obtain w' where "next_fault w = (NoFault, w')" "quiet w'" "\<forall>p. fs_read p w' = fs_read p w"
    using next_fault_quiet_ex [OF assms(1)] by blast
  with assms show "fst (rename_file p q w)"
    and "quiet (snd (rename_file p q w))"
    and "fs_read r (snd (rename_file p q w)) =
           (if r = q then Some t else if r = p then None else fs_read r w)"
    by (simp_all add: rename_file_def)
qed

lemma remove_file_quiet:
  assumes "quiet w" "fs_read p w = Some t"
  shows "fst (remove_file p w)"
    and "quiet (snd (remove_file p w))"
    and "fs_read r (snd (remove_file p w)) = (if r = p then None else fs_read r w)"
proof -
  obtain w' where "next_fault w = (NoFault, w')" "quiet w'" "\<forall>p. fs_read p w' = fs_read p w"
    using next_fault_quiet_ex [OF assms(1)] by blast
  with assms show "fst (remove_file p w)"
    and "quiet (snd (remove_file p w))"
    and "fs_read r (snd (remove_file p w)) = (if r = p then None else fs_read r w)"
    by (simp_all add: remove_file_def)
qed

lemmas file_quiet = write_file_quiet rename_file_quiet remove_file_quiet

text \<open>Whatever the environment does, a call only touches the paths it names.\<close>

lemma write_file_other: "q \<noteq> p \<Longrightarrow> fs_read q (snd (write_file p t w)) = fs_read q w"
  by (auto simp: write_file_def split: prod.splits io_fault.splits dest: next_fault_files)

lemma rename_file_other:
  "r \<noteq> p \<Longrightarrow> r \<noteq> q \<Longrightarrow> fs_read r (snd (rename_file p q w)) = fs_read r w"
  by (auto simp: rename_file_def split: prod.splits io_fault.splits option.splits dest: next_fault_files)

lemma remove_file_other: "q \<noteq> p \<Longrightarrow> fs_read q (snd (remove_file p w)) = fs_read q w"
  by (auto simp: remove_file_def split: prod.splits io_fault.splits dest: next_fault_files)

text \<open>What a call that may fail leaves behind.\<close>

lemma write_file_cases:
  obtains w' where "write_file p t w = (Written, fs_put p t w')" "\<And>q. fs_read q w' = fs_read q w"
  | w' where "write_file p t w = (NotOpened, w')" "\<And>q. fs_read q w' = fs_read q w"
  | w' n where "write_file p t w = (NotGood, fs_put p (take n t) w')" "\<And>q. fs_read q w' = fs_read q w"
proof -
  obtain f w' where n: "next_fault w = (f, w')" by (cases "next_fault w")
  then have r: "\<And>q. fs_read q w' = fs_read q w" by (rule next_fault_files)
  show thesis
    by (cases f) (use n r that in \<open>auto simp: write_file_def\<close>)
qed

lemma rename_file_cases:
  obtains w' t where "rename_file p q w = (True, fs_put q t (fs_drop p w'))" "fs_read p w = Some t"
      "\<And>r. fs_read r w' = fs_read r w"
  | w' where "rename_file p q w = (False, w')" "\<And>r. fs_read r w' = fs_read r w"
proof -
  obtain f w' where n: "next_fault w = (f, w')" by (cases "next_fault w")
  then have r: "\<And>q. fs_read q w' = fs_read q w" by (rule next_fault_files)
  show thesis
  proof (cases "f = NoFault")
    case True
    show thesis
      by (cases "fs_read p w'") (use True n r that in \<open>auto simp: rename_file_def\<close>)
  next
    case False
    then have "rename_file p q w = (False, w')"
      using n by (auto simp: rename_file_def split: io_fault.splits)
    with r that(2) show thesis by blast
  qed
qed

lemma remove_file_cases:
  obtains w' where "remove_file p w = (True, fs_drop p w')" "\<And>r. fs_read r w' = fs_read r w"
  | w' where "remove_file p w = (False, w')" "\<And>r. fs_read r w' = fs_read r w"
proof -
  obtain f w' where n: "next_fault w = (f, w')" by (cases "next_fault w")
  then have r: "\<And>q. fs_read q w' = fs_read q w" by (rule next_fault_files)
  show thesis
  proof (cases "f = NoFault \<and> fs_read p w' \<noteq> None")
    case True
    with n r that(1) show thesis by (auto simp: remove_file_def)
  next
    case False
    then have "remove_file p w = (False, w')"
      using n by (auto simp: remove_file_def split: io_fault.splits)
    with r that(2) show thesis by blast
  qed
qed

section \<open>Listing a directory by suffix\<close>

text \<open>\<open>EndsWith\<close> and \<open>ListPathsWithSuffix\<close>, used for commit logs, fallback artifacts and task logs.\<close>

definition EndsWith :: "string \<Rightarrow> string \<Rightarrow> bool" where
  "EndsWith v suffix =
     (if length v < length suffix then False
      else drop (length v - length suffix) v = suffix)"

definition ListPathsWithSuffix :: "string \<Rightarrow> string \<Rightarrow> world \<Rightarrow> string list" where
  "ListPathsWithSuffix dir_path suffix w =
     (case dir_entries dir_path w of
        None \<Rightarrow> []
      | Some names \<Rightarrow>
          sort (map (\<lambda>name. dir_path @ ''/'' @ name)
            (filter (\<lambda>name. \<not> (name = ''.'' \<or> name = ''..'') \<and> EndsWith name suffix) names)))"

lemma EndsWith_append [simp]: "EndsWith (p @ s) s"
  by (simp add: EndsWith_def)

lemma EndsWith_iff: "EndsWith v s \<longleftrightarrow> (\<exists>p. v = p @ s)"
proof
  assume "EndsWith v s"
  then have "v = take (length v - length s) v @ s"
    by (metis EndsWith_def append_take_drop_id)
  then show "\<exists>p. v = p @ s" by blast
qed auto

lemma ListPathsWithSuffix_sorted: "sorted (ListPathsWithSuffix d s w)"
  by (simp add: ListPathsWithSuffix_def split: option.splits)

lemma take_drop_join: "take n p = d \<Longrightarrow> d @ drop n p = p"
  by (metis append_take_drop_id)

lemma ListPathsWithSuffix_set:
  assumes "p \<in> set (ListPathsWithSuffix d s w)"
  shows "fs_read p w \<noteq> None" "EndsWith p s"
proof -
  let ?n = "length d + 1"
  from assms obtain name where p: "p = d @ ''/'' @ name" and e: "EndsWith name s"
      and "\<not> (name = ''.'' \<or> name = ''..'')"
      and "name \<in> set (''.'' # ''..'' # map (drop ?n)
             (filter (\<lambda>p. take ?n p = d @ ''/'' \<and> CHR ''/'' \<notin> set (drop ?n p)) (map fst (files w))))"
    by (auto simp: ListPathsWithSuffix_def dir_entries_def split: if_splits)
  then obtain q where q: "q \<in> fst ` set (files w)" "take ?n q = d @ ''/''" "name = drop ?n q"
    by auto
  then have "p = q" using p take_drop_join [of ?n q "d @ ''/''"] by simp
  with q show "fs_read p w \<noteq> None" by (simp add: fs_read_def umap_find_None)
  show "EndsWith p s" using p e by (auto simp: EndsWith_iff)
qed

end
