(* ===== verification/Storage.thy ===== *)
theory Storage
  imports Disk
begin

text \<open>
  \<open>storage/versioned_kv_store.h\<close>, \<open>memory_kv_store.h\<close>, \<open>non_batch_memory_kv_store.h\<close> and
  \<open>redis_adapter.h\<close>. The abstract class is a record of operations (its table of virtual
  functions) over a store state; the code above it takes such a record, as it takes a
  \<open>VersionedKVStore&\<close>. Operations that write run on a store state together with the disk,
  because one implementation persists itself. The locales state what the agent side relies on.
\<close>

record VersionedValue =
  vv_value :: string
  vv_version :: u64
  vv_exists :: bool

record VersionCheck =
  vc_key :: string
  vc_expected_version :: u64

record WriteOp =
  wo_key :: string
  wo_value :: string

type_synonym 's sys = "'s \<times> world"

record 's VersionedKVStore =
  SupportsAtomicBatchConditionalWrite :: bool
  kv_Get :: "'s \<Rightarrow> string \<Rightarrow> VersionedValue"
  kv_GetVersion :: "'s \<Rightarrow> string \<Rightarrow> u64"
  kv_Put :: "string \<Rightarrow> string \<Rightarrow> 's sys \<Rightarrow> bool \<times> 's sys"
  kv_PutIfVersion :: "string \<Rightarrow> u64 \<Rightarrow> string \<Rightarrow> 's sys \<Rightarrow> bool \<times> 's sys"
  kv_DeleteIfVersion :: "string \<Rightarrow> u64 \<Rightarrow> 's sys \<Rightarrow> bool \<times> 's sys"
  kv_BatchPutIfVersion :: "VersionCheck list \<Rightarrow> WriteOp list \<Rightarrow> 's sys \<Rightarrow> bool \<times> 's sys"

definition no_value :: VersionedValue where
  "no_value = \<lparr>vv_value = [], vv_version = 0, vv_exists = False\<rparr>"

section \<open>The contract of a store\<close>

text \<open>
  What a reader can see is the function from keys to versioned values. A write stores the
  value, adds one to the version and makes the key exist; a delete removes the key.
\<close>

type_synonym view = "string \<Rightarrow> VersionedValue"

definition view_put :: "string \<Rightarrow> string \<Rightarrow> view \<Rightarrow> view" where
  "view_put k v V = V(k := \<lparr>vv_value = v, vv_version = vv_version (V k) + 1, vv_exists = True\<rparr>)"

definition view_delete :: "string \<Rightarrow> view \<Rightarrow> view" where
  "view_delete k V = V(k := no_value)"

definition view_puts :: "WriteOp list \<Rightarrow> view \<Rightarrow> view" where
  "view_puts ws V = fold (\<lambda>w. view_put (wo_key w) (wo_value w)) ws V"

definition checks_hold :: "VersionCheck list \<Rightarrow> view \<Rightarrow> bool" where
  "checks_hold cs V \<longleftrightarrow> (\<forall>c \<in> set cs. vv_version (V (vc_key c)) = vc_expected_version c)"

text \<open>Equal up to whether keys without a value are reported to exist.\<close>

definition same_content :: "view \<Rightarrow> view \<Rightarrow> bool" where
  "same_content V W \<longleftrightarrow> (\<forall>k. vv_value (V k) = vv_value (W k) \<and> vv_version (V k) = vv_version (W k))"

lemma view_put_same [simp]:
  "view_put k v V k = \<lparr>vv_value = v, vv_version = vv_version (V k) + 1, vv_exists = True\<rparr>"
  by (simp add: view_put_def)

lemma view_put_other [simp]: "q \<noteq> k \<Longrightarrow> view_put k v V q = V q"
  by (simp add: view_put_def)

lemma view_delete_same [simp]: "view_delete k V k = no_value"
  by (simp add: view_delete_def)

lemma view_delete_other [simp]: "q \<noteq> k \<Longrightarrow> view_delete k V q = V q"
  by (simp add: view_delete_def)

lemma view_puts_Nil [simp]: "view_puts [] V = V"
  by (simp add: view_puts_def)

lemma view_puts_Cons [simp]:
  "view_puts (w # ws) V = view_puts ws (view_put (wo_key w) (wo_value w) V)"
  by (simp add: view_puts_def)

lemma view_puts_append: "view_puts (ws @ us) V = view_puts us (view_puts ws V)"
  by (simp add: view_puts_def)

lemma view_puts_other: "k \<notin> wo_key ` set ws \<Longrightarrow> view_puts ws V k = V k"
  by (induction ws arbitrary: V) auto

lemma view_puts_mem:
  "distinct (map wo_key ws) \<Longrightarrow> w \<in> set ws \<Longrightarrow>
     view_puts ws V (wo_key w) =
       \<lparr>vv_value = wo_value w, vv_version = vv_version (V (wo_key w)) + 1, vv_exists = True\<rparr>"
proof (induction ws arbitrary: V)
  case Nil
  then show ?case by simp
next
  case (Cons u us)
  show ?case
  proof (cases "w = u")
    case True
    with Cons.prems have "wo_key w \<notin> wo_key ` set us" by auto
    with True show ?thesis by (simp add: view_puts_other)
  next
    case False
    with Cons.prems have "wo_key u \<noteq> wo_key w" by auto
    with Cons False show ?thesis by simp
  qed
qed

lemma checks_hold_Nil [simp]: "checks_hold [] V"
  by (simp add: checks_hold_def)

lemma checks_hold_Cons [simp]:
  "checks_hold (c # cs) V \<longleftrightarrow> vv_version (V (vc_key c)) = vc_expected_version c \<and> checks_hold cs V"
  by (auto simp: checks_hold_def)

lemma same_content_refl [simp]: "same_content V V"
  by (simp add: same_content_def)

lemma same_content_trans: "same_content U V \<Longrightarrow> same_content V W \<Longrightarrow> same_content U W"
  by (simp add: same_content_def)

text \<open>
  The interface that the validation, commit and recovery code calls. A conditional write
  succeeds exactly when the version matches. When it does not, no value and no version
  changes, and the other keys do not change at all; the code does promise less about the
  key itself, see \<open>mem_PutIfVersion\<close>.
\<close>

locale versioned_store =
  fixes kv :: "'s VersionedKVStore"
    and inv :: "'s sys \<Rightarrow> bool"
  assumes get_version: "kv_GetVersion kv s k = vv_version (kv_Get kv s k)"
    and absent: "\<not> vv_exists (kv_Get kv s k) \<Longrightarrow> kv_Get kv s k = no_value"
    and put_ok: "inv st \<Longrightarrow> fst (kv_Put kv k v st)"
    and put_view: "inv st \<Longrightarrow>
      kv_Get kv (fst (snd (kv_Put kv k v st))) = view_put k v (kv_Get kv (fst st))"
    and put_inv: "inv st \<Longrightarrow> inv (snd (kv_Put kv k v st))"
    and put_if_ok: "inv st \<Longrightarrow>
      fst (kv_PutIfVersion kv k n v st) \<longleftrightarrow> vv_version (kv_Get kv (fst st) k) = n"
    and put_if_view: "inv st \<Longrightarrow> vv_version (kv_Get kv (fst st) k) = n \<Longrightarrow>
      kv_Get kv (fst (snd (kv_PutIfVersion kv k n v st))) = view_put k v (kv_Get kv (fst st))"
    and put_if_miss: "inv st \<Longrightarrow> vv_version (kv_Get kv (fst st) k) \<noteq> n \<Longrightarrow>
      same_content (kv_Get kv (fst (snd (kv_PutIfVersion kv k n v st)))) (kv_Get kv (fst st)) \<and>
      (\<forall>q. q \<noteq> k \<longrightarrow> kv_Get kv (fst (snd (kv_PutIfVersion kv k n v st))) q = kv_Get kv (fst st) q)"
    and put_if_inv: "inv st \<Longrightarrow> inv (snd (kv_PutIfVersion kv k n v st))"
    and delete_if_ok: "inv st \<Longrightarrow>
      fst (kv_DeleteIfVersion kv k n st) \<longleftrightarrow> vv_version (kv_Get kv (fst st) k) = n"
    and delete_if_view: "inv st \<Longrightarrow> vv_version (kv_Get kv (fst st) k) = n \<Longrightarrow>
      kv_Get kv (fst (snd (kv_DeleteIfVersion kv k n st))) = view_delete k (kv_Get kv (fst st))"
    and delete_if_miss: "inv st \<Longrightarrow> vv_version (kv_Get kv (fst st) k) \<noteq> n \<Longrightarrow>
      kv_Get kv (fst (snd (kv_DeleteIfVersion kv k n st))) = kv_Get kv (fst st)"
    and delete_if_inv: "inv st \<Longrightarrow> inv (snd (kv_DeleteIfVersion kv k n st))"
begin

lemmas store_ok = put_ok put_if_ok delete_if_ok
lemmas store_inv = put_inv put_if_inv delete_if_inv

text \<open>A failed conditional write is invisible where the key exists.\<close>

lemma put_if_miss_existing:
  assumes "inv st" "vv_version (kv_Get kv (fst st) k) \<noteq> n" "vv_exists (kv_Get kv (fst st) k)"
    and ex: "vv_exists (kv_Get kv (fst (snd (kv_PutIfVersion kv k n v st))) k)"
  shows "kv_Get kv (fst (snd (kv_PutIfVersion kv k n v st))) = kv_Get kv (fst st)"
proof
  fix q
  from put_if_miss [OF assms(1,2)] assms(3) ex
  show "kv_Get kv (fst (snd (kv_PutIfVersion kv k n v st))) q = kv_Get kv (fst st) q"
    by (cases "q = k") (auto simp: same_content_def)
qed

text \<open>A write that is repeated with the version it has consumed is refused.\<close>

lemma put_if_once:
  assumes "inv st" "vv_version (kv_Get kv (fst st) k) = n"
  shows "\<not> fst (kv_PutIfVersion kv k n v (snd (kv_PutIfVersion kv k n u st)))"
  using assms by (simp add: put_if_ok put_if_inv put_if_view)

end

text \<open>A store with atomic batches: all writes are applied when all checks hold, none otherwise.\<close>

locale batch_store = versioned_store +
  assumes batch_supported: "SupportsAtomicBatchConditionalWrite kv"
    and batch_ok: "inv st \<Longrightarrow>
      fst (kv_BatchPutIfVersion kv cs ws st) \<longleftrightarrow> checks_hold cs (kv_Get kv (fst st))"
    and batch_view: "inv st \<Longrightarrow>
      kv_Get kv (fst (snd (kv_BatchPutIfVersion kv cs ws st))) =
        (if checks_hold cs (kv_Get kv (fst st)) then view_puts ws (kv_Get kv (fst st))
         else kv_Get kv (fst st))"
    and batch_inv: "inv st \<Longrightarrow> inv (snd (kv_BatchPutIfVersion kv cs ws st))"

text \<open>A store that has no atomic batches.\<close>

locale sequential_store = versioned_store +
  assumes batch_unsupported: "\<not> SupportsAtomicBatchConditionalWrite kv"
    and batch_refused: "kv_BatchPutIfVersion kv cs ws st = (False, st)"

text \<open>A store that lives outside the agent's disk: its operations leave the disk alone.\<close>

locale detached_store = versioned_store +
  assumes put_disk: "snd (snd (kv_Put kv k v st)) = snd st"
    and put_if_disk: "snd (snd (kv_PutIfVersion kv k n v st)) = snd st"
    and delete_if_disk: "snd (snd (kv_DeleteIfVersion kv k n st)) = snd st"
    and inv_disk: "inv (s, w) \<Longrightarrow> inv (s, w')"
begin

lemmas store_disk = put_disk put_if_disk delete_if_disk

end

section \<open>MemoryKVStore\<close>

record mem_entry =
  me_value :: string
  me_version :: u64

type_synonym MemoryKVStore = "(string, mem_entry) umap"

definition new_entry :: mem_entry where
  "new_entry = \<lparr>me_value = [], me_version = 0\<rparr>"

definition mem_Get :: "MemoryKVStore \<Rightarrow> string \<Rightarrow> VersionedValue" where
  "mem_Get m key =
     (case umap_find m key of
        None \<Rightarrow> no_value
      | Some e \<Rightarrow> \<lparr>vv_value = me_value e, vv_version = me_version e, vv_exists = True\<rparr>)"

definition mem_GetVersion :: "MemoryKVStore \<Rightarrow> string \<Rightarrow> u64" where
  "mem_GetVersion m key = vv_version (mem_Get m key)"

text \<open>\<open>auto& entry = values_[key]\<close> creates the entry when the key is new.\<close>

definition mem_touch :: "MemoryKVStore \<Rightarrow> string \<Rightarrow> mem_entry \<times> MemoryKVStore" where
  "mem_touch m key =
     (case umap_find m key of
        None \<Rightarrow> (new_entry, umap_set m key new_entry)
      | Some e \<Rightarrow> (e, m))"

definition bump_entry :: "mem_entry \<Rightarrow> string \<Rightarrow> mem_entry" where
  "bump_entry e v = e\<lparr>me_value := v, me_version := me_version e + 1\<rparr>"

definition mem_Put :: "string \<Rightarrow> string \<Rightarrow> MemoryKVStore sys \<Rightarrow> bool \<times> MemoryKVStore sys" where
  "mem_Put key v st =
     (let (entry, m) = mem_touch (fst st) key
      in (True, umap_set m key (bump_entry entry v), snd st))"

definition mem_PutIfVersion ::
    "string \<Rightarrow> u64 \<Rightarrow> string \<Rightarrow> MemoryKVStore sys \<Rightarrow> bool \<times> MemoryKVStore sys" where
  "mem_PutIfVersion key expected_version v st =
     (let (entry, m) = mem_touch (fst st) key
      in if me_version entry \<noteq> expected_version then (False, m, snd st)
         else (True, umap_set m key (bump_entry entry v), snd st))"

definition mem_current_version :: "MemoryKVStore \<Rightarrow> string \<Rightarrow> u64" where
  "mem_current_version m key =
     (case umap_find m key of None \<Rightarrow> 0 | Some e \<Rightarrow> me_version e)"

definition mem_DeleteIfVersion ::
    "string \<Rightarrow> u64 \<Rightarrow> MemoryKVStore sys \<Rightarrow> bool \<times> MemoryKVStore sys" where
  "mem_DeleteIfVersion key expected_version st =
     (if mem_current_version (fst st) key \<noteq> expected_version then (False, st)
      else (True, umap_erase (fst st) key, snd st))"

fun mem_check_all :: "VersionCheck list \<Rightarrow> MemoryKVStore \<Rightarrow> bool" where
  "mem_check_all [] m = True"
| "mem_check_all (c # cs) m =
     (if mem_current_version m (vc_key c) \<noteq> vc_expected_version c then False
      else mem_check_all cs m)"

fun mem_write_all :: "WriteOp list \<Rightarrow> MemoryKVStore \<Rightarrow> MemoryKVStore" where
  "mem_write_all [] m = m"
| "mem_write_all (w # ws) m =
     (let (entry, m') = mem_touch m (wo_key w)
      in mem_write_all ws (umap_set m' (wo_key w) (bump_entry entry (wo_value w))))"

definition mem_BatchPutIfVersion ::
    "VersionCheck list \<Rightarrow> WriteOp list \<Rightarrow> MemoryKVStore sys \<Rightarrow> bool \<times> MemoryKVStore sys" where
  "mem_BatchPutIfVersion checks writes st =
     (if \<not> mem_check_all checks (fst st) then (False, st)
      else (True, mem_write_all writes (fst st), snd st))"

definition memory_store :: "MemoryKVStore VersionedKVStore" where
  "memory_store =
     \<lparr>SupportsAtomicBatchConditionalWrite = True,
      kv_Get = mem_Get, kv_GetVersion = mem_GetVersion, kv_Put = mem_Put,
      kv_PutIfVersion = mem_PutIfVersion, kv_DeleteIfVersion = mem_DeleteIfVersion,
      kv_BatchPutIfVersion = mem_BatchPutIfVersion\<rparr>"

subsection \<open>MemoryKVStore meets the contract\<close>

lemma mem_Get_touch:
  "mem_touch m k = (e, m') \<Longrightarrow>
     e = (case umap_find m k of None \<Rightarrow> new_entry | Some x \<Rightarrow> x) \<and>
     umap_find m' q = (if q = k then Some e else umap_find m q)"
  by (auto simp: mem_touch_def split: option.splits)

lemma mem_write_view:
  "mem_touch m k = (e, m') \<Longrightarrow>
     mem_Get (umap_set m' k (bump_entry e v)) = view_put k v (mem_Get m)"
  by (rule ext)
    (auto simp: mem_touch_def mem_Get_def view_put_def bump_entry_def new_entry_def no_value_def
      split: option.splits if_splits)

lemma mem_touch_version: "mem_touch m k = (e, m') \<Longrightarrow> me_version e = vv_version (mem_Get m k)"
  by (auto simp: mem_touch_def mem_Get_def new_entry_def no_value_def split: option.splits)

lemma mem_touch_content: "mem_touch m k = (e, m') \<Longrightarrow> same_content (mem_Get m') (mem_Get m)"
  by (auto simp: same_content_def mem_touch_def mem_Get_def new_entry_def no_value_def
      split: option.splits if_splits)

lemma mem_touch_other: "mem_touch m k = (e, m') \<Longrightarrow> q \<noteq> k \<Longrightarrow> mem_Get m' q = mem_Get m q"
  by (auto simp: mem_touch_def mem_Get_def split: option.splits)

lemma mem_current_version_Get: "mem_current_version m k = vv_version (mem_Get m k)"
  by (simp add: mem_current_version_def mem_Get_def no_value_def split: option.splits)

lemma mem_check_all_iff: "mem_check_all cs m \<longleftrightarrow> checks_hold cs (mem_Get m)"
  by (induction cs) (auto simp: mem_current_version_Get)

lemma mem_write_all_view: "mem_Get (mem_write_all ws m) = view_puts ws (mem_Get m)"
  by (induction ws m rule: mem_write_all.induct) (auto simp: mem_write_view split: prod.splits)

lemma mem_erase_view: "mem_Get (umap_erase m k) = view_delete k (mem_Get m)"
  by (rule ext) (simp add: mem_Get_def view_delete_def)

lemma mem_Put_view:
  "fst (mem_Put k v st)"
  "mem_Get (fst (snd (mem_Put k v st))) = view_put k v (mem_Get (fst st))"
  "snd (snd (mem_Put k v st)) = snd st"
  by (simp_all add: mem_Put_def mem_write_view split: prod.splits)

lemma mem_PutIfVersion_view:
  "fst (mem_PutIfVersion k n v st) \<longleftrightarrow> vv_version (mem_Get (fst st) k) = n"
  "vv_version (mem_Get (fst st) k) = n \<Longrightarrow>
     mem_Get (fst (snd (mem_PutIfVersion k n v st))) = view_put k v (mem_Get (fst st))"
  "vv_version (mem_Get (fst st) k) \<noteq> n \<Longrightarrow>
     same_content (mem_Get (fst (snd (mem_PutIfVersion k n v st)))) (mem_Get (fst st)) \<and>
     (\<forall>q. q \<noteq> k \<longrightarrow> mem_Get (fst (snd (mem_PutIfVersion k n v st))) q = mem_Get (fst st) q)"
  "snd (snd (mem_PutIfVersion k n v st)) = snd st"
  by (auto simp: mem_PutIfVersion_def mem_touch_version mem_write_view mem_touch_content mem_touch_other
      split: prod.splits)

lemma mem_DeleteIfVersion_view:
  "fst (mem_DeleteIfVersion k n st) \<longleftrightarrow> vv_version (mem_Get (fst st) k) = n"
  "vv_version (mem_Get (fst st) k) = n \<Longrightarrow>
     mem_Get (fst (snd (mem_DeleteIfVersion k n st))) = view_delete k (mem_Get (fst st))"
  "vv_version (mem_Get (fst st) k) \<noteq> n \<Longrightarrow>
     mem_Get (fst (snd (mem_DeleteIfVersion k n st))) = mem_Get (fst st)"
  "snd (snd (mem_DeleteIfVersion k n st)) = snd st"
  by (simp_all add: mem_DeleteIfVersion_def mem_current_version_Get mem_erase_view)

lemma mem_Batch_view:
  "fst (mem_BatchPutIfVersion cs ws st) \<longleftrightarrow> checks_hold cs (mem_Get (fst st))"
  "mem_Get (fst (snd (mem_BatchPutIfVersion cs ws st))) =
     (if checks_hold cs (mem_Get (fst st)) then view_puts ws (mem_Get (fst st)) else mem_Get (fst st))"
  by (simp_all add: mem_BatchPutIfVersion_def mem_check_all_iff mem_write_all_view)

lemma mem_absent: "\<not> vv_exists (mem_Get m k) \<Longrightarrow> mem_Get m k = no_value"
  by (simp add: mem_Get_def split: option.splits)

lemmas mem_views = mem_Put_view mem_PutIfVersion_view mem_DeleteIfVersion_view mem_Batch_view

lemma memory_store_ops [simp]:
  "SupportsAtomicBatchConditionalWrite memory_store"
  "kv_Get memory_store = mem_Get"
  "kv_GetVersion memory_store = mem_GetVersion"
  "kv_Put memory_store = mem_Put"
  "kv_PutIfVersion memory_store = mem_PutIfVersion"
  "kv_DeleteIfVersion memory_store = mem_DeleteIfVersion"
  "kv_BatchPutIfVersion memory_store = mem_BatchPutIfVersion"
  by (simp_all add: memory_store_def)

interpretation mem: batch_store memory_store "\<lambda>_. True"
  by unfold_locales (simp_all add: mem_GetVersion_def mem_absent mem_views)

interpretation mem_detached: detached_store memory_store "\<lambda>_. True"
  by unfold_locales (simp_all add: mem_views)

section \<open>NonBatchMemoryKVStore\<close>

definition nonbatch_BatchPutIfVersion ::
    "VersionCheck list \<Rightarrow> WriteOp list \<Rightarrow> MemoryKVStore sys \<Rightarrow> bool \<times> MemoryKVStore sys" where
  "nonbatch_BatchPutIfVersion checks writes st = (False, st)"

definition non_batch_memory_store :: "MemoryKVStore VersionedKVStore" where
  "non_batch_memory_store =
     \<lparr>SupportsAtomicBatchConditionalWrite = False,
      kv_Get = (\<lambda>m key. mem_Get m key),
      kv_GetVersion = (\<lambda>m key. mem_GetVersion m key),
      kv_Put = (\<lambda>key v. mem_Put key v),
      kv_PutIfVersion = (\<lambda>key expected_version v. mem_PutIfVersion key expected_version v),
      kv_DeleteIfVersion = (\<lambda>key expected_version. mem_DeleteIfVersion key expected_version),
      kv_BatchPutIfVersion = nonbatch_BatchPutIfVersion\<rparr>"

lemma non_batch_store_ops [simp]:
  "\<not> SupportsAtomicBatchConditionalWrite non_batch_memory_store"
  "kv_Get non_batch_memory_store = mem_Get"
  "kv_GetVersion non_batch_memory_store = mem_GetVersion"
  "kv_Put non_batch_memory_store = mem_Put"
  "kv_PutIfVersion non_batch_memory_store = mem_PutIfVersion"
  "kv_DeleteIfVersion non_batch_memory_store = mem_DeleteIfVersion"
  "kv_BatchPutIfVersion non_batch_memory_store = nonbatch_BatchPutIfVersion"
  by (simp_all add: non_batch_memory_store_def)

interpretation nonbatch: sequential_store non_batch_memory_store "\<lambda>_. True"
  by unfold_locales (simp_all add: mem_GetVersion_def mem_absent mem_views nonbatch_BatchPutIfVersion_def)

interpretation nonbatch_detached: detached_store non_batch_memory_store "\<lambda>_. True"
  by unfold_locales (simp_all add: mem_views)

section \<open>RedisAdapter\<close>

text \<open>
  The adapter is a \<open>MemoryKVStore\<close> behind a renaming of the keys. Its connection fields are
  kept, as in the source, although no operation reads the host and the port.
\<close>

record RedisAdapter =
  rd_fallback_store :: MemoryKVStore
  rd_host :: string
  rd_port :: "16 word"
  rd_database_index :: "32 word"
  rd_namespace_prefix :: string

definition NewRedisAdapter :: "string \<Rightarrow> 16 word \<Rightarrow> 32 word \<Rightarrow> string \<Rightarrow> RedisAdapter" where
  "NewRedisAdapter host port database_index namespace_prefix =
     \<lparr>rd_fallback_store = [], rd_host = host, rd_port = port,
      rd_database_index = database_index, rd_namespace_prefix = namespace_prefix\<rparr>"

definition NamespacedKey :: "RedisAdapter \<Rightarrow> string \<Rightarrow> string" where
  "NamespacedKey r key =
     (let prefix = ''db'' @ int_dec (sint (rd_database_index r));
          prefix = (if rd_namespace_prefix r \<noteq> [] then prefix @ '':'' @ rd_namespace_prefix r else prefix)
      in prefix @ '':'' @ key)"

text \<open>Running an operation of the store the adapter owns.\<close>

definition redis_forward ::
    "(MemoryKVStore sys \<Rightarrow> bool \<times> MemoryKVStore sys) \<Rightarrow> RedisAdapter sys \<Rightarrow> bool \<times> RedisAdapter sys" where
  "redis_forward f st =
     (let (ok, m, w) = f (rd_fallback_store (fst st), snd st)
      in (ok, (fst st)\<lparr>rd_fallback_store := m\<rparr>, w))"

definition redis_Get :: "RedisAdapter \<Rightarrow> string \<Rightarrow> VersionedValue" where
  "redis_Get r key = mem_Get (rd_fallback_store r) (NamespacedKey r key)"

definition redis_GetVersion :: "RedisAdapter \<Rightarrow> string \<Rightarrow> u64" where
  "redis_GetVersion r key = mem_GetVersion (rd_fallback_store r) (NamespacedKey r key)"

definition redis_Put :: "string \<Rightarrow> string \<Rightarrow> RedisAdapter sys \<Rightarrow> bool \<times> RedisAdapter sys" where
  "redis_Put key v st = redis_forward (mem_Put (NamespacedKey (fst st) key) v) st"

definition redis_PutIfVersion ::
    "string \<Rightarrow> u64 \<Rightarrow> string \<Rightarrow> RedisAdapter sys \<Rightarrow> bool \<times> RedisAdapter sys" where
  "redis_PutIfVersion key expected_version v st =
     redis_forward (mem_PutIfVersion (NamespacedKey (fst st) key) expected_version v) st"

definition redis_DeleteIfVersion ::
    "string \<Rightarrow> u64 \<Rightarrow> RedisAdapter sys \<Rightarrow> bool \<times> RedisAdapter sys" where
  "redis_DeleteIfVersion key expected_version st =
     redis_forward (mem_DeleteIfVersion (NamespacedKey (fst st) key) expected_version) st"

definition redis_BatchPutIfVersion ::
    "VersionCheck list \<Rightarrow> WriteOp list \<Rightarrow> RedisAdapter sys \<Rightarrow> bool \<times> RedisAdapter sys" where
  "redis_BatchPutIfVersion checks writes st =
     (let namespaced_checks = map (\<lambda>check. check\<lparr>vc_key := NamespacedKey (fst st) (vc_key check)\<rparr>) checks;
          namespaced_writes = map (\<lambda>write. write\<lparr>wo_key := NamespacedKey (fst st) (wo_key write)\<rparr>) writes
      in redis_forward (mem_BatchPutIfVersion namespaced_checks namespaced_writes) st)"

definition redis_store :: "RedisAdapter VersionedKVStore" where
  "redis_store =
     \<lparr>SupportsAtomicBatchConditionalWrite = True,
      kv_Get = redis_Get, kv_GetVersion = redis_GetVersion, kv_Put = redis_Put,
      kv_PutIfVersion = redis_PutIfVersion, kv_DeleteIfVersion = redis_DeleteIfVersion,
      kv_BatchPutIfVersion = redis_BatchPutIfVersion\<rparr>"

lemma NamespacedKey_inj [simp]: "NamespacedKey r k = NamespacedKey r q \<longleftrightarrow> k = q"
  by (simp add: NamespacedKey_def Let_def)

lemma NamespacedKey_store [simp]:
  "NamespacedKey (r\<lparr>rd_fallback_store := m\<rparr>) k = NamespacedKey r k"
  by (simp add: NamespacedKey_def Let_def)

text \<open>The view through the renaming.\<close>

lemma redis_Get_view: "redis_Get r = mem_Get (rd_fallback_store r) \<circ> NamespacedKey r"
  by (rule ext) (simp add: redis_Get_def)

lemma redis_Get_store: "redis_Get (r\<lparr>rd_fallback_store := m\<rparr>) = mem_Get m \<circ> NamespacedKey r"
  by (rule ext) (simp add: redis_Get_def)

lemma view_put_renamed:
  "view_put (NamespacedKey r k) v V \<circ> NamespacedKey r = view_put k v (V \<circ> NamespacedKey r)"
  by (rule ext) (simp add: view_put_def)

lemma view_delete_renamed:
  "view_delete (NamespacedKey r k) V \<circ> NamespacedKey r = view_delete k (V \<circ> NamespacedKey r)"
  by (rule ext) (simp add: view_delete_def)

lemma view_puts_renamed:
  "view_puts (map (\<lambda>w. w\<lparr>wo_key := NamespacedKey r (wo_key w)\<rparr>) ws) V \<circ> NamespacedKey r =
     view_puts ws (V \<circ> NamespacedKey r)"
  by (induction ws arbitrary: V) (simp_all add: view_put_renamed)

lemma checks_hold_renamed:
  "checks_hold (map (\<lambda>c. c\<lparr>vc_key := NamespacedKey r (vc_key c)\<rparr>) cs) V =
     checks_hold cs (V \<circ> NamespacedKey r)"
  by (induction cs) simp_all

lemma same_content_renamed: "same_content V W \<Longrightarrow> same_content (V \<circ> NamespacedKey r) (W \<circ> NamespacedKey r)"
  by (simp add: same_content_def)

lemma redis_forward_simps:
  "fst (redis_forward f st) = fst (f (rd_fallback_store (fst st), snd st))"
  "redis_Get (fst (snd (redis_forward f st))) =
     mem_Get (fst (snd (f (rd_fallback_store (fst st), snd st)))) \<circ> NamespacedKey (fst st)"
  "snd (snd (redis_forward f st)) = snd (snd (f (rd_fallback_store (fst st), snd st)))"
  by (simp_all add: redis_forward_def redis_Get_store split: prod.splits)

lemma redis_store_ops [simp]:
  "SupportsAtomicBatchConditionalWrite redis_store"
  "kv_Get redis_store = redis_Get"
  "kv_GetVersion redis_store = redis_GetVersion"
  "kv_Put redis_store = redis_Put"
  "kv_PutIfVersion redis_store = redis_PutIfVersion"
  "kv_DeleteIfVersion redis_store = redis_DeleteIfVersion"
  "kv_BatchPutIfVersion redis_store = redis_BatchPutIfVersion"
  by (simp_all add: redis_store_def)

lemmas redis_defs = redis_Put_def redis_PutIfVersion_def redis_DeleteIfVersion_def
  redis_BatchPutIfVersion_def redis_forward_simps

lemma redis_put_if_miss:
  assumes "vv_version (redis_Get (fst st) k) \<noteq> n"
  shows "same_content (redis_Get (fst (snd (redis_PutIfVersion k n v st)))) (redis_Get (fst st)) \<and>
    (\<forall>q. q \<noteq> k \<longrightarrow> redis_Get (fst (snd (redis_PutIfVersion k n v st))) q = redis_Get (fst st) q)"
proof -
  let ?st = "(rd_fallback_store (fst st), snd st)" and ?k = "NamespacedKey (fst st) k"
  from assms have "vv_version (mem_Get (fst ?st) ?k) \<noteq> n" by (simp add: redis_Get_def)
  from mem_PutIfVersion_view(3) [OF this, of v] show ?thesis
    unfolding redis_defs unfolding redis_Get_view by (simp add: same_content_renamed)
qed

lemma redis_views:
  "fst (redis_Put k v st)"
  "redis_Get (fst (snd (redis_Put k v st))) = view_put k v (redis_Get (fst st))"
  "fst (redis_PutIfVersion k n v st) \<longleftrightarrow> vv_version (redis_Get (fst st) k) = n"
  "vv_version (redis_Get (fst st) k) = n \<Longrightarrow>
     redis_Get (fst (snd (redis_PutIfVersion k n v st))) = view_put k v (redis_Get (fst st))"
  "fst (redis_DeleteIfVersion k n st) \<longleftrightarrow> vv_version (redis_Get (fst st) k) = n"
  "vv_version (redis_Get (fst st) k) = n \<Longrightarrow>
     redis_Get (fst (snd (redis_DeleteIfVersion k n st))) = view_delete k (redis_Get (fst st))"
  "vv_version (redis_Get (fst st) k) \<noteq> n \<Longrightarrow>
     redis_Get (fst (snd (redis_DeleteIfVersion k n st))) = redis_Get (fst st)"
  "fst (redis_BatchPutIfVersion cs ws st) \<longleftrightarrow> checks_hold cs (redis_Get (fst st))"
  "redis_Get (fst (snd (redis_BatchPutIfVersion cs ws st))) =
     (if checks_hold cs (redis_Get (fst st)) then view_puts ws (redis_Get (fst st))
      else redis_Get (fst st))"
  unfolding redis_defs Let_def unfolding redis_Get_view
  by (simp_all add: mem_views view_put_renamed view_delete_renamed view_puts_renamed checks_hold_renamed)

lemma redis_absent: "\<not> vv_exists (redis_Get r k) \<Longrightarrow> redis_Get r k = no_value"
  by (simp add: redis_Get_def mem_absent)

lemma redis_GetVersion_Get: "redis_GetVersion r k = vv_version (redis_Get r k)"
  by (simp add: redis_GetVersion_def mem_GetVersion_def redis_Get_def)

interpretation redis: batch_store redis_store "\<lambda>_. True"
  by unfold_locales (simp_all add: redis_put_if_miss redis_GetVersion_Get redis_views redis_absent)

interpretation redis_detached: detached_store redis_store "\<lambda>_. True"
  by unfold_locales (simp_all add: redis_Put_def redis_PutIfVersion_def redis_DeleteIfVersion_def redis_forward_simps mem_views)

end
