(* ===== verification/Intent.thy ===== *)
theory Intent
  imports Storage
begin

text \<open>
  \<open>intent/\<close> and \<open>cache/object_cache.h\<close>: the kinds of semantic writes, the log of intents, the
  cached object entry, and the policy that turns a buffered entry and its latest intent into
  the value to write against the store value found at commit time.
\<close>

text \<open>
  The last constructor of an enumeration stands for the values outside the listed enumerators,
  which \<open>static_cast\<close> from a persisted number can produce and which the code after each
  \<open>switch\<close> handles.
\<close>

datatype IntentType = kRead | kOverwrite | kAppend | kDelta | kCas | kIntentOther int

datatype ConditionType = kNone | kValueEquals | kConditionOther int

datatype ObjectType = kGeneric | kRow | kText | kCandidateResult | kObjectOther int

record Condition =
  cond_type :: ConditionType
  cond_expected_value :: string

definition no_condition :: Condition where
  "no_condition = \<lparr>cond_type = kNone, cond_expected_value = []\<rparr>"

record WriteIntent =
  wi_object_id :: string
  wi_intent_type :: IntentType
  wi_payload :: string
  wi_condition :: Condition

section \<open>IntentLog\<close>

type_synonym IntentLog = "WriteIntent list"

definition il_Append :: "WriteIntent \<Rightarrow> IntentLog \<Rightarrow> IntentLog" where
  "il_Append intent intents = intents @ [intent]"

definition il_Truncate :: "nat \<Rightarrow> IntentLog \<Rightarrow> IntentLog" where
  "il_Truncate n intents = (if n < length intents then take n intents else intents)"

definition il_Size :: "IntentLog \<Rightarrow> nat" where
  "il_Size intents = length intents"

lemma il_Truncate_take [simp]: "il_Truncate n intents = take n intents"
  by (simp add: il_Truncate_def)

section \<open>ObjectCacheEntry\<close>

record UndoRecord =
  ur_previous_value :: string
  ur_existed :: bool

record ObjectCacheEntry =
  ce_object_id :: string
  ce_object_type :: ObjectType
  ce_base_value :: string
  ce_base_version :: u64
  ce_current_value :: string
  ce_dirty :: bool
  ce_intent_type :: IntentType
  ce_undo_record :: UndoRecord

section \<open>PolicyDispatcher\<close>

datatype ConcurrencyClass = kReadOnly | kStrict | kCommutativeRebase | kConditionalRebase

record ResolveResult =
  rr_success :: bool
  rr_should_write :: bool
  rr_value :: string
  rr_reason :: string

definition default_ResolveResult :: ResolveResult where
  "default_ResolveResult =
     \<lparr>rr_success = True, rr_should_write = False, rr_value = [], rr_reason = []\<rparr>"

fun Classify :: "IntentType \<Rightarrow> ConcurrencyClass" where
  "Classify kRead = kReadOnly"
| "Classify kOverwrite = kStrict"
| "Classify kAppend = kCommutativeRebase"
| "Classify kDelta = kCommutativeRebase"
| "Classify kCas = kConditionalRebase"
| "Classify (kIntentOther _) = kStrict"

definition UsesSemanticRebase :: "IntentType \<Rightarrow> bool" where
  "UsesSemanticRebase t \<longleftrightarrow> Classify t \<noteq> kStrict \<and> Classify t \<noteq> kReadOnly"

fun ConcurrencyClassName_of :: "ConcurrencyClass \<Rightarrow> string" where
  "ConcurrencyClassName_of kReadOnly = ''read_only''"
| "ConcurrencyClassName_of kStrict = ''strict''"
| "ConcurrencyClassName_of kCommutativeRebase = ''commutative_rebase''"
| "ConcurrencyClassName_of kConditionalRebase = ''conditional_rebase''"

definition ConcurrencyClassName :: "IntentType \<Rightarrow> string" where
  "ConcurrencyClassName t = ConcurrencyClassName_of (Classify t)"

text \<open>The whole text must be one number in the range of \<open>long long\<close>.\<close>

definition ParseInt :: "string \<Rightarrow> int option" where
  "ParseInt text =
     (case from_chars_ll text of
        None \<Rightarrow> None
      | Some (v, rest) \<Rightarrow> if rest \<noteq> [] then None else Some v)"

definition ResolveWrite :: "ObjectCacheEntry \<Rightarrow> WriteIntent \<Rightarrow> string \<Rightarrow> ResolveResult" where
  "ResolveWrite entry intent current_store_value =
     (let result = default_ResolveResult in
      case wi_intent_type intent of
        kRead \<Rightarrow> result\<lparr>rr_should_write := False\<rparr>
      | kOverwrite \<Rightarrow> result\<lparr>rr_should_write := True, rr_value := ce_current_value entry\<rparr>
      | kAppend \<Rightarrow>
          (let result = result\<lparr>rr_should_write := True\<rparr> in
           if length (ce_base_value entry) \<le> length (ce_current_value entry) \<and>
              take (length (ce_base_value entry)) (ce_current_value entry) = ce_base_value entry
           then result\<lparr>rr_value :=
                  current_store_value @ drop (length (ce_base_value entry)) (ce_current_value entry)\<rparr>
           else result\<lparr>rr_value := current_store_value @ wi_payload intent\<rparr>)
      | kDelta \<Rightarrow>
          (let result = result\<lparr>rr_should_write := True\<rparr>;
               current = ParseInt current_store_value;
               base = ParseInt (ce_base_value entry);
               branch_value = ParseInt (ce_current_value entry) in
           case (current, base, branch_value) of
             (Some c, Some b, Some v) \<Rightarrow>
               result\<lparr>rr_value := int_dec (ll_wrap (c + ll_wrap (v - b)))\<rparr>
           | _ \<Rightarrow>
               (case (current, ParseInt (wi_payload intent)) of
                  (Some c, Some d) \<Rightarrow> result\<lparr>rr_value := int_dec (ll_wrap (c + d))\<rparr>
                | _ \<Rightarrow> result\<lparr>rr_success := False,
                           rr_reason := ''delta rebase requires integer base/current values''\<rparr>))
      | kCas \<Rightarrow>
          (if cond_type (wi_condition intent) = kValueEquals \<and>
              current_store_value \<noteq> cond_expected_value (wi_condition intent)
           then result\<lparr>rr_success := False, rr_reason := ''cas condition no longer holds''\<rparr>
           else result\<lparr>rr_should_write := True, rr_value := ce_current_value entry\<rparr>)
      | kIntentOther _ \<Rightarrow> result\<lparr>rr_success := False, rr_reason := ''unknown intent type''\<rparr>)"

section \<open>Numbers as values\<close>

lemma ParseInt_int_dec [simp]: "ll_fits i \<Longrightarrow> ParseInt (int_dec i) = Some i"
  by (simp add: ParseInt_def ll_fits_def from_chars_int_dec)

lemma ParseInt_fits: "ParseInt s = Some i \<Longrightarrow> ll_fits i"
  by (auto simp: ParseInt_def ll_fits_def dest: from_chars_range split: option.splits if_splits)

lemma ParseInt_wrap [simp]: "ParseInt (int_dec (ll_wrap i)) = Some (ll_wrap i)"
  by simp

section \<open>Properties of the policy\<close>

lemma UsesSemanticRebase_simps [simp]:
  "\<not> UsesSemanticRebase kRead" "\<not> UsesSemanticRebase kOverwrite" "UsesSemanticRebase kAppend"
  "UsesSemanticRebase kDelta" "UsesSemanticRebase kCas" "\<not> UsesSemanticRebase (kIntentOther n)"
  by (simp_all add: UsesSemanticRebase_def)

lemma ResolveWrite_success_reason:
  "rr_success (ResolveWrite e i cur) \<longleftrightarrow> rr_reason (ResolveWrite e i cur) = []"
  by (auto simp: ResolveWrite_def default_ResolveResult_def Let_def
      split: IntentType.splits option.splits)

lemma ResolveWrite_should_write:
  "rr_success (ResolveWrite e i cur) \<Longrightarrow>
     rr_should_write (ResolveWrite e i cur) \<longleftrightarrow> wi_intent_type i \<noteq> kRead"
  by (auto simp: ResolveWrite_def default_ResolveResult_def Let_def
      split: IntentType.splits option.splits if_splits)

lemma ResolveWrite_append:
  "wi_intent_type i = kAppend \<Longrightarrow> ce_current_value e = ce_base_value e @ s \<Longrightarrow>
     ResolveWrite e i cur =
       \<lparr>rr_success = True, rr_should_write = True, rr_value = cur @ s, rr_reason = []\<rparr>"
  by (simp add: ResolveWrite_def default_ResolveResult_def)

lemma ResolveWrite_delta:
  "wi_intent_type i = kDelta \<Longrightarrow> ParseInt cur = Some c \<Longrightarrow> ParseInt (ce_base_value e) = Some b \<Longrightarrow>
     ParseInt (ce_current_value e) = Some v \<Longrightarrow>
     ResolveWrite e i cur =
       \<lparr>rr_success = True, rr_should_write = True, rr_value = int_dec (ll_wrap (c + (v - b))), rr_reason = []\<rparr>"
  by (simp add: ResolveWrite_def default_ResolveResult_def)

lemma ResolveWrite_overwrite:
  "wi_intent_type i = kOverwrite \<Longrightarrow>
     ResolveWrite e i cur =
       \<lparr>rr_success = True, rr_should_write = True, rr_value = ce_current_value e, rr_reason = []\<rparr>"
  by (simp add: ResolveWrite_def default_ResolveResult_def)

text \<open>
  The compare-and-set policy: a CAS intent with a value condition is resolved to a write
  exactly when the store still holds the expected value, and then writes the branch's value.
\<close>

theorem ResolveWrite_cas:
  assumes "wi_intent_type i = kCas" and "cond_type (wi_condition i) = kValueEquals"
  shows "(rr_success (ResolveWrite e i cur) \<longleftrightarrow> cur = cond_expected_value (wi_condition i)) \<and>
      (cur = cond_expected_value (wi_condition i) \<longrightarrow>
         rr_should_write (ResolveWrite e i cur) \<and>
         rr_value (ResolveWrite e i cur) = ce_current_value e)"
  using assms by (simp add: ResolveWrite_def default_ResolveResult_def Let_def)

theorem ResolveWrite_cas_witness:
  "let i = \<lparr>wi_object_id = ''k'', wi_intent_type = kCas, wi_payload = ''done'',
            wi_condition = \<lparr>cond_type = kValueEquals, cond_expected_value = ''open''\<rparr>\<rparr>;
       e = \<lparr>ce_object_id = ''k'', ce_object_type = kGeneric, ce_base_value = ''open'', ce_base_version = 1,
            ce_current_value = ''done'', ce_dirty = True, ce_intent_type = kCas,
            ce_undo_record = \<lparr>ur_previous_value = ''open'', ur_existed = True\<rparr>\<rparr>
   in rr_value (ResolveWrite e i ''open'') = ''done'' \<and> \<not> rr_success (ResolveWrite e i ''shut'')"
  unfolding Let_def
  using ResolveWrite_cas [of "\<lparr>wi_object_id = ''k'', wi_intent_type = kCas, wi_payload = ''done'',
            wi_condition = \<lparr>cond_type = kValueEquals, cond_expected_value = ''open''\<rparr>\<rparr>"]
  by simp

end
