(* ===== verification/Cache.thy ===== *)
theory Cache
  imports Intent
begin

text \<open>
  \<open>cache/read_set.h\<close>, \<open>savepoint.h\<close> and \<open>write_buffer.h\<close>. The write buffer keeps the latest
  entry of each object, the order of first writes, and a log of changes from which \<open>Truncate\<close>
  undoes the last writes one by one. It refines the list of all entries written so far.
\<close>

record ReadRecord =
  rd_object_id :: string
  rd_observed_version :: u64

type_synonym ReadSet = "ReadRecord list"

definition rs_Record :: "string \<Rightarrow> u64 \<Rightarrow> ReadSet \<Rightarrow> ReadSet" where
  "rs_Record object_id observed_version entries =
     entries @ [\<lparr>rd_object_id = object_id, rd_observed_version = observed_version\<rparr>]"

record Savepoint =
  sp_savepoint_id :: string
  sp_write_log_position :: nat
  sp_intent_log_position :: nat

section \<open>WriteBuffer\<close>

text \<open>\<open>had_previous\<close> and \<open>previous_entry\<close> are one option.\<close>

record ChangeRecord =
  cr_object_id :: string
  cr_previous_entry :: "ObjectCacheEntry option"

record WriteBuffer =
  wb_order :: "string list"
  wb_entries :: "(string, ObjectCacheEntry) umap"
  wb_changes :: "ChangeRecord list"

definition empty_WriteBuffer :: WriteBuffer where
  "empty_WriteBuffer = \<lparr>wb_order = [], wb_entries = [], wb_changes = []\<rparr>"

definition wb_Upsert :: "ObjectCacheEntry \<Rightarrow> WriteBuffer \<Rightarrow> WriteBuffer" where
  "wb_Upsert entry wb =
     (let previous = umap_find (wb_entries wb) (ce_object_id entry);
          change = \<lparr>cr_object_id = ce_object_id entry, cr_previous_entry = previous\<rparr>;
          order = (case previous of Some _ \<Rightarrow> wb_order wb | None \<Rightarrow> wb_order wb @ [ce_object_id entry])
      in \<lparr>wb_order = order,
          wb_entries = umap_set (wb_entries wb) (ce_object_id entry) entry,
          wb_changes = wb_changes wb @ [change]\<rparr>)"

definition wb_Find :: "WriteBuffer \<Rightarrow> string \<Rightarrow> ObjectCacheEntry option" where
  "wb_Find wb object_id = umap_find (wb_entries wb) object_id"

text \<open>\<open>entries_.at\<close> throws where an ordered id has no entry: then the result is \<open>None\<close>.\<close>

definition wb_Entries :: "WriteBuffer \<Rightarrow> ObjectCacheEntry list option" where
  "wb_Entries wb = those (map (\<lambda>object_id. umap_find (wb_entries wb) object_id) (wb_order wb))"

definition wb_undo_last :: "WriteBuffer \<Rightarrow> WriteBuffer" where
  "wb_undo_last wb =
     (let change = last (wb_changes wb);
          changes = butlast (wb_changes wb)
      in case cr_previous_entry change of
           Some previous_entry \<Rightarrow>
             wb\<lparr>wb_entries := umap_set (wb_entries wb) (cr_object_id change) previous_entry,
                wb_changes := changes\<rparr>
         | None \<Rightarrow>
             wb\<lparr>wb_entries := umap_erase (wb_entries wb) (cr_object_id change),
                wb_order := remove1 (cr_object_id change) (wb_order wb),
                wb_changes := changes\<rparr>)"

lemma wb_undo_last_changes: "wb_changes (wb_undo_last wb) = butlast (wb_changes wb)"
  by (simp add: wb_undo_last_def Let_def split: option.splits)

function (sequential) wb_Truncate :: "nat \<Rightarrow> WriteBuffer \<Rightarrow> WriteBuffer" where
  "wb_Truncate n wb =
     (if n < length (wb_changes wb) then wb_Truncate n (wb_undo_last wb) else wb)"
  by pat_completeness auto
termination
  by (relation "measure (\<lambda>(n, wb). length (wb_changes wb))") (auto simp: wb_undo_last_changes)

declare wb_Truncate.simps [simp del]

definition wb_Size :: "WriteBuffer \<Rightarrow> nat" where
  "wb_Size wb = length (wb_changes wb)"

section \<open>The buffer as a log of entries\<close>

text \<open>The abstract state is the list of the entries written; the code's buffer is built from it.\<close>

definition wb_of :: "ObjectCacheEntry list \<Rightarrow> WriteBuffer" where
  "wb_of es = fold wb_Upsert es empty_WriteBuffer"

definition wb_ok :: "WriteBuffer \<Rightarrow> bool" where
  "wb_ok wb \<longleftrightarrow> distinct (wb_order wb) \<and> (\<forall>k. k \<in> set (wb_order wb) \<longleftrightarrow> umap_find (wb_entries wb) k \<noteq> None)"

definition latest_entry :: "ObjectCacheEntry list \<Rightarrow> string \<Rightarrow> ObjectCacheEntry option" where
  "latest_entry es k = find (\<lambda>e. ce_object_id e = k) (rev es)"

text \<open>The object ids in the order of their first write.\<close>

definition write_order :: "ObjectCacheEntry list \<Rightarrow> string list" where
  "write_order es = fold (\<lambda>e ks. if ce_object_id e \<in> set ks then ks else ks @ [ce_object_id e]) es []"

lemma wb_of_Nil [simp]: "wb_of [] = empty_WriteBuffer"
  by (simp add: wb_of_def)

lemma wb_of_snoc [simp]: "wb_of (es @ [e]) = wb_Upsert e (wb_of es)"
  by (simp add: wb_of_def)

lemma wb_ok_empty [simp]: "wb_ok empty_WriteBuffer"
  by (simp add: wb_ok_def empty_WriteBuffer_def)

lemma wb_ok_Upsert [simp]: "wb_ok wb \<Longrightarrow> wb_ok (wb_Upsert e wb)"
  by (auto simp: wb_ok_def wb_Upsert_def Let_def split: option.splits)

lemma wb_ok_of [simp]: "wb_ok (wb_of es)"
  by (induction es rule: rev_induct) auto

lemma wb_Size_of [simp]: "length (wb_changes (wb_of es)) = length es"
  by (induction es rule: rev_induct)
    (auto simp: empty_WriteBuffer_def wb_Upsert_def Let_def)

lemma wb_Find_of: "wb_Find (wb_of es) k = latest_entry es k"
  by (induction es rule: rev_induct)
    (auto simp: wb_Find_def latest_entry_def empty_WriteBuffer_def wb_Upsert_def Let_def)

lemma wb_order_of: "wb_order (wb_of es) = write_order es"
proof (induction es rule: rev_induct)
  case Nil
  then show ?case by (simp add: write_order_def empty_WriteBuffer_def)
next
  case (snoc e es)
  have "ce_object_id e \<in> set (wb_order (wb_of es)) \<longleftrightarrow>
      umap_find (wb_entries (wb_of es)) (ce_object_id e) \<noteq> None"
    using wb_ok_of [of es] by (simp add: wb_ok_def)
  with snoc show ?case by (auto simp: write_order_def wb_Upsert_def Let_def split: option.splits)
qed

text \<open>Undoing a write restores the buffer it was made on, as a value.\<close>

lemma wb_undo_Upsert: "wb_ok wb \<Longrightarrow> wb_undo_last (wb_Upsert e wb) = wb"
  by (cases wb)
    (auto simp: wb_ok_def wb_Upsert_def wb_undo_last_def Let_def umap_undo_set umap_undo_insert
      remove1_append split: option.splits)

lemma wb_Truncate_of: "wb_Truncate n (wb_of es) = wb_of (take n es)"
proof (induction es rule: rev_induct)
  case Nil
  then show ?case by (simp add: wb_Truncate.simps empty_WriteBuffer_def)
next
  case (snoc e es)
  show ?case
  proof (cases "n < length (es @ [e])")
    case True
    have undo: "wb_undo_last (wb_of (es @ [e])) = wb_of es" by (simp add: wb_undo_Upsert)
    have "wb_Truncate n (wb_of (es @ [e])) = wb_Truncate n (wb_of es)"
      using True by (subst wb_Truncate.simps) (simp add: undo del: wb_of_snoc)
    with snoc True show ?thesis by simp
  next
    case False
    then show ?thesis
      by (subst wb_Truncate.simps) (simp del: wb_of_snoc)
  qed
qed

lemma wb_Entries_of: "wb_Entries (wb_of es) = Some (map (\<lambda>k. the (latest_entry es k)) (write_order es))"
proof -
  have "umap_find (wb_entries (wb_of es)) k = Some (the (latest_entry es k))"
    if "k \<in> set (wb_order (wb_of es))" for k
    using that wb_ok_of [of es] wb_Find_of [of es k] by (auto simp: wb_ok_def wb_Find_def)
  then show ?thesis
    unfolding wb_Entries_def wb_order_of [symmetric] by (intro those_map_Some)
qed

lemma latest_entry_id: "latest_entry es k = Some e \<Longrightarrow> ce_object_id e = k \<and> e \<in> set es"
  by (auto simp: latest_entry_def find_Some_iff) (metis nth_mem set_rev length_rev)+

lemma set_write_order: "set (write_order es) = ce_object_id ` set es"
  by (induction es rule: rev_induct) (auto simp: write_order_def)

lemma distinct_write_order: "distinct (write_order es)"
  using wb_ok_of [of es] by (simp add: wb_ok_def wb_order_of)

lemma latest_entry_some: "k \<in> set (write_order es) \<Longrightarrow> latest_entry es k \<noteq> None"
  by (auto simp: set_write_order latest_entry_def find_None_iff)

lemma wb_Entries_ids:
  "wb_Entries (wb_of es) = Some xs \<Longrightarrow> map ce_object_id xs = write_order es"
proof -
  have "ce_object_id (the (latest_entry es k)) = k" if "k \<in> set (write_order es)" for k
    using latest_entry_some [OF that] by (auto dest: latest_entry_id)
  moreover assume "wb_Entries (wb_of es) = Some xs"
  ultimately show ?thesis by (auto simp: wb_Entries_of comp_def intro!: map_idI)
qed

lemma wb_Entries_mem:
  assumes "wb_Entries (wb_of es) = Some xs" "e \<in> set xs"
  shows "latest_entry es (ce_object_id e) = Some e"
proof -
  from assms obtain k where k: "k \<in> set (write_order es)" "e = the (latest_entry es k)"
    by (auto simp: wb_Entries_of)
  then obtain e' where "latest_entry es k = Some e'" using latest_entry_some by blast
  with k show ?thesis by (auto dest: latest_entry_id)
qed

section \<open>Properties of the write buffer\<close>

text \<open>
  C37. The buffer refines the log of its writes: whatever entries have been written, a truncation
  to a position gives exactly the buffer of the writes before that position; the size is the
  number of writes; a lookup finds the latest write of an object; and the entries come in the
  order of first writes without \<open>at\<close> ever throwing.
\<close>

theorem write_buffer_refines_log:
  "wb_Truncate n (wb_of es) = wb_of (take n es) \<and>
   wb_Size (wb_of es) = length es \<and>
   wb_Find (wb_of es) k = latest_entry es k \<and>
   wb_Entries (wb_of es) = Some (map (\<lambda>k. the (latest_entry es k)) (write_order es))"
  by (simp add: wb_Truncate_of wb_Size_def wb_Find_of wb_Entries_of)

end
