(* ===== verification/Branch.thy ===== *)
theory Branch
  imports Cache
begin

text \<open>
  \<open>branch/\<close>: the state of one candidate branch and the operations of \<open>BranchManager\<close> on it,
  together with the savepoint rollback of \<open>agent_txn/rollback_manager.h\<close>, which works on the
  same state. A store is seen through its \<open>Get\<close> only, so the read operations take a \<open>view\<close>.
\<close>

record CandidateResult =
  cr_score :: double
  cr_summary :: string

datatype BranchStatus =
  kCreated | kRunning | kStaged | kWinner | kLoser | kCommitted | kDiscarded | kAborted

record BranchContext =
  bc_branch_id :: string
  bc_status :: BranchStatus
  bc_read_set :: ReadSet
  bc_write_buffer :: WriteBuffer
  bc_intent_log :: IntentLog
  bc_candidate_result :: CandidateResult
  bc_savepoints :: "Savepoint list"

record ReadResult =
  rd_value :: string
  rd_version :: u64
  rd_exists :: bool

definition new_BranchContext :: "string \<Rightarrow> BranchContext" where
  "new_BranchContext branch_id =
     \<lparr>bc_branch_id = branch_id, bc_status = kCreated, bc_read_set = [],
      bc_write_buffer = empty_WriteBuffer, bc_intent_log = [],
      bc_candidate_result = \<lparr>cr_score = DFin 0, cr_summary = []\<rparr>, bc_savepoints = []\<rparr>"

section \<open>The branches of a transaction\<close>

definition bm_CreateBranch :: "string \<Rightarrow> BranchContext list \<Rightarrow> BranchContext list" where
  "bm_CreateBranch branch_id branches = branches @ [new_BranchContext branch_id]"

text \<open>\<open>FindBranch\<close> returns a pointer: the index of the first branch with the id, if any.\<close>

definition bm_FindBranch :: "BranchContext list \<Rightarrow> string \<Rightarrow> nat option" where
  "bm_FindBranch branches branch_id = find_index (\<lambda>b. bc_branch_id b = branch_id) branches"

text \<open>\<open>std::max_element\<close> with the comparison of scores: the first of the largest.\<close>

fun max_element_score :: "BranchContext \<Rightarrow> BranchContext list \<Rightarrow> BranchContext" where
  "max_element_score largest [] = largest"
| "max_element_score largest (b # bs) =
     (if dless (cr_score (bc_candidate_result largest)) (cr_score (bc_candidate_result b))
      then max_element_score b bs else max_element_score largest bs)"

definition bm_SelectWinner :: "BranchContext list \<Rightarrow> exn + string" where
  "bm_SelectWinner branches =
     (case branches of
        [] \<Rightarrow> Inl (runtime_error ''cannot select winner from empty branch list'')
      | b # bs \<Rightarrow> Inr (bc_branch_id (max_element_score b bs)))"

definition bm_MarkWinnerAndLosers :: "string \<Rightarrow> BranchContext list \<Rightarrow> BranchContext list" where
  "bm_MarkWinnerAndLosers winner_branch_id branches =
     map (\<lambda>b. if bc_branch_id b = winner_branch_id then b\<lparr>bc_status := kWinner\<rparr>
              else b\<lparr>bc_status := kLoser\<rparr>) branches"

section \<open>Operations on a branch\<close>

definition bm_ReadObject :: "string \<Rightarrow> view \<Rightarrow> BranchContext \<Rightarrow> ReadResult \<times> BranchContext" where
  "bm_ReadObject object_id store_Get branch =
     (let branch = branch\<lparr>bc_status := kRunning\<rparr> in
      case wb_Find (bc_write_buffer branch) object_id of
        Some buffered \<Rightarrow>
          (\<lparr>rd_value = ce_current_value buffered, rd_version = ce_base_version buffered,
            rd_exists = ur_existed (ce_undo_record buffered) \<or> ce_base_value buffered \<noteq> [] \<or>
              ce_current_value buffered \<noteq> []\<rparr>, branch)
      | None \<Rightarrow>
          (let v = store_Get object_id in
           (\<lparr>rd_value = vv_value v, rd_version = vv_version v, rd_exists = vv_exists v\<rparr>,
            branch\<lparr>bc_read_set := rs_Record object_id (vv_version v) (bc_read_set branch)\<rparr>)))"

definition bm_CreateSavepoint :: "string \<Rightarrow> BranchContext \<Rightarrow> BranchContext" where
  "bm_CreateSavepoint savepoint_id branch =
     branch\<lparr>bc_savepoints := bc_savepoints branch @
       [\<lparr>sp_savepoint_id = savepoint_id,
         sp_write_log_position = wb_Size (bc_write_buffer branch),
         sp_intent_log_position = il_Size (bc_intent_log branch)\<rparr>]\<rparr>"

definition bm_StageBranch :: "double \<Rightarrow> string \<Rightarrow> BranchContext \<Rightarrow> BranchContext" where
  "bm_StageBranch score summary branch =
     branch\<lparr>bc_candidate_result := \<lparr>cr_score = score, cr_summary = summary\<rparr>, bc_status := kStaged\<rparr>"

text \<open>The value a write intent gives an entry in the buffer.\<close>

definition intent_value :: "WriteIntent \<Rightarrow> ObjectCacheEntry \<Rightarrow> string" where
  "intent_value intent entry =
     (case wi_intent_type intent of
        kRead \<Rightarrow> ce_base_value entry
      | kOverwrite \<Rightarrow> wi_payload intent
      | kCas \<Rightarrow> wi_payload intent
      | kAppend \<Rightarrow> ce_current_value entry @ wi_payload intent
      | kDelta \<Rightarrow>
          (case (ParseInt (ce_current_value entry), ParseInt (wi_payload intent)) of
             (Some current, Some delta) \<Rightarrow> int_dec (ll_wrap (current + delta))
           | _ \<Rightarrow> ce_current_value entry)
      | kIntentOther _ \<Rightarrow> ce_current_value entry)"

definition fresh_entry :: "string \<Rightarrow> ObjectType \<Rightarrow> VersionedValue \<Rightarrow> ObjectCacheEntry" where
  "fresh_entry object_id object_type base =
     \<lparr>ce_object_id = object_id, ce_object_type = object_type,
      ce_base_value = vv_value base, ce_base_version = vv_version base,
      ce_current_value = vv_value base, ce_dirty = False, ce_intent_type = kRead,
      ce_undo_record = \<lparr>ur_previous_value = vv_value base, ur_existed = vv_exists base\<rparr>\<rparr>"

definition buffered_entry ::
    "string \<Rightarrow> ObjectType \<Rightarrow> WriteIntent \<Rightarrow> view \<Rightarrow> BranchContext \<Rightarrow> ObjectCacheEntry" where
  "buffered_entry object_id object_type intent store_Get branch =
     (let entry = (case wb_Find (bc_write_buffer branch) object_id of
                     Some existing \<Rightarrow> existing
                   | None \<Rightarrow> fresh_entry object_id object_type (store_Get object_id));
          entry = entry\<lparr>ce_object_type := object_type,
                    ce_dirty := (wi_intent_type intent \<noteq> kRead),
                    ce_intent_type := wi_intent_type intent\<rparr>
      in entry\<lparr>ce_current_value := intent_value intent entry\<rparr>)"

definition bm_BufferWrite ::
    "string \<Rightarrow> ObjectType \<Rightarrow> WriteIntent \<Rightarrow> view \<Rightarrow> BranchContext \<Rightarrow> BranchContext" where
  "bm_BufferWrite object_id object_type intent store_Get branch =
     (let branch = branch\<lparr>bc_status := kRunning\<rparr>;
          entry = buffered_entry object_id object_type intent store_Get branch
      in branch\<lparr>bc_write_buffer := wb_Upsert entry (bc_write_buffer branch),
                bc_intent_log := il_Append intent (bc_intent_log branch)\<rparr>)"

section \<open>Rolling back\<close>

definition rm_DiscardBranch :: "BranchContext \<Rightarrow> BranchContext" where
  "rm_DiscardBranch branch =
     branch\<lparr>bc_write_buffer := wb_Truncate 0 (bc_write_buffer branch),
            bc_intent_log := il_Truncate 0 (bc_intent_log branch),
            bc_savepoints := [],
            bc_status := kDiscarded\<rparr>"

definition rm_RollbackToSavepoint :: "string \<Rightarrow> BranchContext \<Rightarrow> bool \<times> BranchContext" where
  "rm_RollbackToSavepoint savepoint_id branch =
     (case find_index (\<lambda>sp. sp_savepoint_id sp = savepoint_id) (bc_savepoints branch) of
        None \<Rightarrow> (False, branch)
      | Some i \<Rightarrow>
          (let it = bc_savepoints branch ! i in
           (True, branch\<lparr>bc_write_buffer := wb_Truncate (sp_write_log_position it) (bc_write_buffer branch),
              bc_intent_log := il_Truncate (sp_intent_log_position it) (bc_intent_log branch),
              bc_savepoints := take (Suc i) (bc_savepoints branch)\<rparr>)))"

section \<open>Branch programs\<close>

text \<open>What a workload does to one branch, with the store it sees at each step.\<close>

datatype BranchOp =
    OpRead string view
  | OpWrite string ObjectType WriteIntent view
  | OpSavepoint string
  | OpRollback string
  | OpStage double string

fun branch_step :: "BranchOp \<Rightarrow> BranchContext \<Rightarrow> BranchContext" where
  "branch_step (OpRead k V) b = snd (bm_ReadObject k V b)"
| "branch_step (OpWrite k t i V) b = bm_BufferWrite k t i V b"
| "branch_step (OpSavepoint s) b = bm_CreateSavepoint s b"
| "branch_step (OpRollback s) b = snd (rm_RollbackToSavepoint s b)"
| "branch_step (OpStage d s) b = bm_StageBranch d s b"

definition branch_run :: "BranchOp list \<Rightarrow> BranchContext \<Rightarrow> BranchContext" where
  "branch_run ops b = fold branch_step ops b"

lemma branch_run_Nil [simp]: "branch_run [] b = b"
  by (simp add: branch_run_def)

lemma branch_run_Cons [simp]: "branch_run (op # ops) b = branch_run ops (branch_step op b)"
  by (simp add: branch_run_def)

text \<open>
  The invariant of a branch: its write buffer is that of a list of entries with one entry per
  logged intent, both logs are at the same length, and every savepoint points into them.
\<close>

definition branch_inv :: "BranchContext \<Rightarrow> bool" where
  "branch_inv b \<longleftrightarrow>
     (\<exists>es. bc_write_buffer b = wb_of es \<and> length es = length (bc_intent_log b)) \<and>
     (\<forall>sp \<in> set (bc_savepoints b). sp_write_log_position sp = sp_intent_log_position sp) \<and>
     (\<forall>sp \<in> set (bc_savepoints b). sp_intent_log_position sp \<le> length (bc_intent_log b)) \<and>
     sorted (map sp_intent_log_position (bc_savepoints b))"

lemma branch_inv_new [simp]: "branch_inv (new_BranchContext i)"
  by (auto simp: branch_inv_def new_BranchContext_def intro: exI [of _ "[]"])

lemma bm_ReadObject_frame:
  "bc_write_buffer (snd (bm_ReadObject k V b)) = bc_write_buffer b"
  "bc_intent_log (snd (bm_ReadObject k V b)) = bc_intent_log b"
  "bc_savepoints (snd (bm_ReadObject k V b)) = bc_savepoints b"
  "bc_branch_id (snd (bm_ReadObject k V b)) = bc_branch_id b"
  "bc_candidate_result (snd (bm_ReadObject k V b)) = bc_candidate_result b"
  by (simp_all add: bm_ReadObject_def Let_def split: option.splits)

lemma bm_BufferWrite_frame:
  "bc_write_buffer (bm_BufferWrite k t i V b) = wb_Upsert (buffered_entry k t i V b) (bc_write_buffer b)"
  "bc_intent_log (bm_BufferWrite k t i V b) = bc_intent_log b @ [i]"
  "bc_savepoints (bm_BufferWrite k t i V b) = bc_savepoints b"
  "bc_branch_id (bm_BufferWrite k t i V b) = bc_branch_id b"
  "bc_read_set (bm_BufferWrite k t i V b) = bc_read_set b"
  "bc_candidate_result (bm_BufferWrite k t i V b) = bc_candidate_result b"
  by (simp_all add: bm_BufferWrite_def Let_def il_Append_def buffered_entry_def)

lemma branch_inv_Read: "branch_inv b \<Longrightarrow> branch_inv (snd (bm_ReadObject k V b))"
  by (simp add: branch_inv_def bm_ReadObject_frame)

lemma branch_inv_Write:
  assumes "branch_inv b"
  shows "branch_inv (bm_BufferWrite k t i V b)"
proof -
  from assms obtain es where es: "bc_write_buffer b = wb_of es" "length es = length (bc_intent_log b)"
    by (auto simp: branch_inv_def)
  let ?e = "buffered_entry k t i V b"
  have "bc_write_buffer (bm_BufferWrite k t i V b) = wb_of (es @ [?e])"
    "length (es @ [?e]) = length (bc_intent_log (bm_BufferWrite k t i V b))"
    by (simp_all add: bm_BufferWrite_frame es)
  then have "\<exists>es. bc_write_buffer (bm_BufferWrite k t i V b) = wb_of es \<and>
      length es = length (bc_intent_log (bm_BufferWrite k t i V b))" by blast
  with assms show ?thesis by (auto simp: branch_inv_def bm_BufferWrite_frame)
qed

lemma branch_inv_Savepoint:
  assumes "branch_inv b"
  shows "branch_inv (bm_CreateSavepoint s b)"
  using assms
  by (auto simp: branch_inv_def bm_CreateSavepoint_def wb_Size_def il_Size_def sorted_append)

lemma bm_StageBranch_frame:
  "bc_write_buffer (bm_StageBranch d s b) = bc_write_buffer b"
  "bc_intent_log (bm_StageBranch d s b) = bc_intent_log b"
  "bc_savepoints (bm_StageBranch d s b) = bc_savepoints b"
  by (simp_all add: bm_StageBranch_def)

lemma branch_inv_Stage: "branch_inv b \<Longrightarrow> branch_inv (bm_StageBranch d s b)"
  by (simp add: branch_inv_def bm_StageBranch_frame)

lemma branch_inv_Rollback:
  assumes "branch_inv b"
  shows "branch_inv (snd (rm_RollbackToSavepoint s b))"
proof (cases "find_index (\<lambda>sp. sp_savepoint_id sp = s) (bc_savepoints b)")
  case None
  with assms show ?thesis by (simp add: rm_RollbackToSavepoint_def)
next
  case (Some i)
  let ?sps = "bc_savepoints b"
  from Some have i: "i < length ?sps" by (auto dest: find_index_Some)
  from assms obtain es where es: "bc_write_buffer b = wb_of es" "length es = length (bc_intent_log b)"
      and eq: "\<forall>sp \<in> set ?sps. sp_write_log_position sp = sp_intent_log_position sp"
      and le: "\<forall>sp \<in> set ?sps. sp_intent_log_position sp \<le> length (bc_intent_log b)"
      and srt: "sorted (map sp_intent_log_position ?sps)"
    unfolding branch_inv_def by blast
  let ?n = "sp_intent_log_position (?sps ! i)"
  have n: "sp_write_log_position (?sps ! i) = ?n" "?n \<le> length (bc_intent_log b)"
    using eq le i by auto
  have "sp_intent_log_position sp \<le> ?n" if "sp \<in> set (take (Suc i) ?sps)" for sp
  proof -
    from that obtain j where "j \<le> i" "sp = ?sps ! j" using i by (auto simp: in_set_conv_nth less_Suc_eq_le)
    then show ?thesis using srt i by (auto simp: sorted_iff_nth_mono)
  qed
  moreover have "sp_write_log_position sp = sp_intent_log_position sp" if "sp \<in> set (take (Suc i) ?sps)" for sp
    using that eq by (blast dest: in_set_takeD)
  moreover have "sorted (map sp_intent_log_position (take (Suc i) ?sps))"
    using srt by (simp add: take_map [symmetric] sorted_wrt_take)
  moreover have "wb_Truncate ?n (bc_write_buffer b) = wb_of (take ?n es)"
    by (simp add: es wb_Truncate_of)
  moreover have "length (take ?n es) = length (take ?n (bc_intent_log b))"
    by (simp add: es)
  ultimately show ?thesis
    using n(2) by (auto simp: branch_inv_def rm_RollbackToSavepoint_def Some Let_def n(1))
qed

lemma branch_inv_step: "branch_inv b \<Longrightarrow> branch_inv (branch_step op b)"
  by (cases op)
    (simp_all add: branch_inv_Read branch_inv_Write branch_inv_Savepoint branch_inv_Rollback branch_inv_Stage)

lemma branch_inv_run: "branch_inv b \<Longrightarrow> branch_inv (branch_run ops b)"
  by (induction ops arbitrary: b) (simp_all add: branch_inv_step)


section \<open>A savepoint and what follows it\<close>

text \<open>
  \<open>savepoint_held es il sps sp b\<close>: the branch still carries the writes \<open>es\<close>, the intents \<open>il\<close>
  and the savepoints \<open>sps @ [sp]\<close> it had when \<open>sp\<close> was made, followed by later ones.
\<close>

definition savepoint_held ::
    "ObjectCacheEntry list \<Rightarrow> IntentLog \<Rightarrow> Savepoint list \<Rightarrow> Savepoint \<Rightarrow> BranchContext \<Rightarrow> bool" where
  "savepoint_held es il sps sp b \<longleftrightarrow>
     (\<exists>es' il' sps'. bc_write_buffer b = wb_of (es @ es') \<and> bc_intent_log b = il @ il' \<and>
        length es' = length il' \<and> bc_savepoints b = sps @ sp # sps' \<and>
        (\<forall>x \<in> set sps'. sp_write_log_position x = sp_intent_log_position x \<and>
            length il \<le> sp_intent_log_position x))"

lemma savepoint_heldI:
  "bc_write_buffer b = wb_of (es @ es') \<Longrightarrow> bc_intent_log b = il @ il' \<Longrightarrow>
     length es' = length il' \<Longrightarrow> bc_savepoints b = sps @ sp # sps' \<Longrightarrow>
     (\<And>x. x \<in> set sps' \<Longrightarrow> sp_write_log_position x = sp_intent_log_position x \<and>
        length il \<le> sp_intent_log_position x) \<Longrightarrow> savepoint_held es il sps sp b"
  unfolding savepoint_held_def by blast

lemma find_index_append_skip:
  "(\<forall>x \<in> set xs. \<not> P x) \<Longrightarrow> find_index P (xs @ ys) = map_option (\<lambda>i. length xs + i) (find_index P ys)"
  by (induction xs; cases "find_index P ys") auto

lemma savepoint_held_Rollback:
  assumes held: "savepoint_held es il sps sp b" and len: "length es = length il"
    and sp: "sp_write_log_position sp = length il" "sp_intent_log_position sp = length il"
    and new: "\<forall>x \<in> set sps. sp_savepoint_id x \<noteq> r"
  shows "savepoint_held es il sps sp (snd (rm_RollbackToSavepoint r b))"
proof -
  from held obtain es' il' sps' where b: "bc_write_buffer b = wb_of (es @ es')"
      "bc_intent_log b = il @ il'" "length es' = length il'" "bc_savepoints b = sps @ sp # sps'"
      and later: "\<And>x. x \<in> set sps' \<Longrightarrow> sp_write_log_position x = sp_intent_log_position x \<and>
        length il \<le> sp_intent_log_position x"
    unfolding savepoint_held_def by blast
  show ?thesis
  proof (cases "find_index (\<lambda>x. sp_savepoint_id x = r) (sp # sps')")
    case None
    then have "find_index (\<lambda>x. sp_savepoint_id x = r) (bc_savepoints b) = None"
      using new by (simp add: b find_index_append_skip)
    with held show ?thesis by (simp add: rm_RollbackToSavepoint_def)
  next
    case (Some j)
    then have j: "j < length (sp # sps')" by (blast dest: find_index_Some)
    let ?it = "(sp # sps') ! j" and ?n = "sp_intent_log_position ((sp # sps') ! j)"
    have it: "sp_write_log_position ?it = ?n" "length il \<le> ?n"
      using later [of "sps' ! (j - 1)"] j sp by (auto simp: nth_Cons split: nat.splits)
    from Some new have fi: "find_index (\<lambda>x. sp_savepoint_id x = r) (bc_savepoints b) = Some (length sps + j)"
      by (simp add: b find_index_append_skip)
    have "bc_savepoints b ! (length sps + j) = ?it" by (simp add: b nth_append)
    then have r: "snd (rm_RollbackToSavepoint r b) =
        b\<lparr>bc_write_buffer := wb_of (es @ take (?n - length es) es'),
          bc_intent_log := il @ take (?n - length il) il',
          bc_savepoints := sps @ sp # take j sps'\<rparr>"
      using it len by (simp add: rm_RollbackToSavepoint_def fi Let_def) (simp add: b wb_Truncate_of)
    show ?thesis unfolding r
      by (rule savepoint_heldI [where es' = "take (?n - length es) es'" and il' = "take (?n - length il) il'"
            and sps' = "take j sps'"])
        (use b len later in \<open>auto dest: in_set_takeD\<close>)
  qed
qed

lemma savepoint_held_step:
  assumes held: "savepoint_held es il sps sp b" and len: "length es = length il"
    and sp: "sp_write_log_position sp = length il" "sp_intent_log_position sp = length il"
    and new: "\<And>r. op = OpRollback r \<Longrightarrow> \<forall>x \<in> set sps. sp_savepoint_id x \<noteq> r"
  shows "savepoint_held es il sps sp (branch_step op b)"
proof -
  from held obtain es' il' sps' where b: "bc_write_buffer b = wb_of (es @ es')"
      "bc_intent_log b = il @ il'" "length es' = length il'" "bc_savepoints b = sps @ sp # sps'"
      and later: "\<And>x. x \<in> set sps' \<Longrightarrow> sp_write_log_position x = sp_intent_log_position x \<and>
        length il \<le> sp_intent_log_position x"
    unfolding savepoint_held_def by blast
  show ?thesis
  proof (cases op)
    case (OpRead k V)
    show ?thesis unfolding OpRead branch_step.simps
      by (rule savepoint_heldI) (use b later in \<open>auto simp: bm_ReadObject_frame\<close>)
  next
    case (OpWrite k t i V)
    have "wb_Upsert (buffered_entry k t i V b) (wb_of (es @ es')) =
        wb_of (es @ es' @ [buffered_entry k t i V b])"
      by (simp add: wb_of_def)
    then show ?thesis unfolding OpWrite branch_step.simps
      by (intro savepoint_heldI [where es' = "es' @ [buffered_entry k t i V b]" and il' = "il' @ [i]"])
        (use b later in \<open>auto simp: bm_BufferWrite_frame\<close>)
  next
    case (OpSavepoint s)
    let ?x = "\<lparr>sp_savepoint_id = s, sp_write_log_position = wb_Size (bc_write_buffer b),
               sp_intent_log_position = il_Size (bc_intent_log b)\<rparr>"
    show ?thesis unfolding OpSavepoint branch_step.simps
      by (rule savepoint_heldI [where es' = es' and il' = il' and sps' = "sps' @ [?x]"])
        (use b later len in \<open>auto simp: bm_CreateSavepoint_def wb_Size_def il_Size_def\<close>)
  next
    case (OpRollback r)
    then show ?thesis using savepoint_held_Rollback [OF held len sp] new by simp
  next
    case (OpStage d s)
    show ?thesis unfolding OpStage branch_step.simps
      by (rule savepoint_heldI) (use b later in \<open>auto simp: bm_StageBranch_frame\<close>)
  qed
qed

lemma savepoint_held_run:
  assumes "savepoint_held es il sps sp b" and "length es = length il"
    and "sp_write_log_position sp = length il" "sp_intent_log_position sp = length il"
    and "\<forall>r. OpRollback r \<in> set ops \<longrightarrow> r \<notin> sp_savepoint_id ` set sps"
  shows "savepoint_held es il sps sp (branch_run ops b)"
  using assms
proof (induction ops arbitrary: b)
  case Nil
  then show ?case by simp
next
  case (Cons op ops)
  have "savepoint_held es il sps sp (branch_step op b)"
    by (rule savepoint_held_step) (use Cons.prems in \<open>auto simp: image_iff\<close>)
  with Cons show ?case by simp
qed


text \<open>
  C12. A savepoint restores the branch: after a savepoint with a fresh id, run any operations,
  with nested savepoints and rollbacks, as long as none rolls back to an older savepoint. Then
  \<open>RollbackToSavepoint\<close> finds it and the write buffer, the intent log and the savepoints are
  those of the moment it was made.
\<close>

theorem savepoint_restores_branch:
  assumes inv: "branch_inv b" and fresh: "s \<notin> sp_savepoint_id ` set (bc_savepoints b)"
    and ops: "\<forall>r. OpRollback r \<in> set ops \<longrightarrow> r \<notin> sp_savepoint_id ` set (bc_savepoints b)"
    and run: "rm_RollbackToSavepoint s (branch_run ops (bm_CreateSavepoint s b)) = (ok, b')"
  shows "ok \<and> bc_write_buffer b' = bc_write_buffer b \<and> bc_intent_log b' = bc_intent_log b \<and>
         bc_savepoints b' = bc_savepoints (bm_CreateSavepoint s b)"
proof -
  from inv obtain es where es: "bc_write_buffer b = wb_of es" "length es = length (bc_intent_log b)"
    unfolding branch_inv_def by blast
  let ?il = "bc_intent_log b" and ?sps = "bc_savepoints b"
  let ?sp = "\<lparr>sp_savepoint_id = s, sp_write_log_position = length ?il, sp_intent_log_position = length ?il\<rparr>"
  have start: "savepoint_held es ?il ?sps ?sp (bm_CreateSavepoint s b)"
    by (rule savepoint_heldI [where es' = "[]" and il' = "[]" and sps' = "[]"])
      (auto simp: bm_CreateSavepoint_def es wb_Size_def il_Size_def)
  have "savepoint_held es ?il ?sps ?sp (branch_run ops (bm_CreateSavepoint s b))"
    by (rule savepoint_held_run [OF start]) (use es ops in auto)
  then obtain es' il' sps' where b: "bc_write_buffer (branch_run ops (bm_CreateSavepoint s b)) = wb_of (es @ es')"
      "bc_intent_log (branch_run ops (bm_CreateSavepoint s b)) = ?il @ il'"
      "bc_savepoints (branch_run ops (bm_CreateSavepoint s b)) = ?sps @ ?sp # sps'"
    unfolding savepoint_held_def by blast
  have "find_index (\<lambda>x. sp_savepoint_id x = s) (?sps @ ?sp # sps') = Some (length ?sps)"
    using fresh find_index_append_skip [of ?sps "\<lambda>x. sp_savepoint_id x = s" "?sp # sps'"]
    by (auto simp: image_iff)
  moreover have "bc_savepoints (bm_CreateSavepoint s b) = ?sps @ [?sp]"
    by (simp add: bm_CreateSavepoint_def es wb_Size_def il_Size_def)
  ultimately show ?thesis using run
    by (auto simp: rm_RollbackToSavepoint_def b Let_def wb_Truncate_of es)
qed

definition demo_write :: "string \<Rightarrow> IntentType \<Rightarrow> string \<Rightarrow> BranchOp" where
  "demo_write k t p =
     OpWrite k kGeneric \<lparr>wi_object_id = k, wi_intent_type = t, wi_payload = p, wi_condition = no_condition\<rparr>
       (\<lambda>_. no_value)"

theorem savepoint_restores_branch_witness:
  "let b = branch_step (demo_write ''x'' kOverwrite ''1'') (new_BranchContext ''b'') in
   fst (rm_RollbackToSavepoint ''s''
     (branch_run [demo_write ''x'' kAppend ''2'', OpSavepoint ''t'', OpRollback ''t''] (bm_CreateSavepoint ''s'' b)))"
proof -
  let ?b = "branch_step (demo_write ''x'' kOverwrite ''1'') (new_BranchContext ''b'')"
  have "branch_inv ?b" by (rule branch_inv_step) simp
  moreover have "bc_savepoints ?b = []"
    by (simp add: demo_write_def bm_BufferWrite_frame new_BranchContext_def)
  ultimately show ?thesis
    using savepoint_restores_branch [of ?b "''s''"
        "[demo_write ''x'' kAppend ''2'', OpSavepoint ''t'', OpRollback ''t'']", OF _ _ _ prod.collapse [symmetric]]
    by (simp add: Let_def)
qed

section \<open>Choosing the winner\<close>

lemma max_element_score_sound:
  assumes "\<forall>b \<in> set (c # bs). cr_score (bc_candidate_result b) \<noteq> DNaN"
  shows "max_element_score c bs \<in> set (c # bs) \<and>
    (\<forall>b \<in> set (c # bs). \<not> dless (cr_score (bc_candidate_result (max_element_score c bs)))
       (cr_score (bc_candidate_result b)))"
  using assms
proof (induction bs arbitrary: c)
  case Nil
  then show ?case by simp
next
  case (Cons b bs)
  let ?s = "\<lambda>b. cr_score (bc_candidate_result b)"
  show ?case
  proof (cases "dless (?s c) (?s b)")
    case True
    let ?m = "max_element_score b bs"
    from Cons.IH [of b] Cons.prems have ih: "?m \<in> set (b # bs)" "\<forall>x \<in> set (b # bs). \<not> dless (?s ?m) (?s x)"
      by auto
    then have "\<not> dless (?s ?m) (?s c)" using True dless_trans [of "?s ?m" "?s c" "?s b"] by auto
    with True ih show ?thesis by auto
  next
    case False
    let ?m = "max_element_score c bs"
    from Cons.IH [of c] Cons.prems have ih: "?m \<in> set (c # bs)" "\<forall>x \<in> set (c # bs). \<not> dless (?s ?m) (?s x)"
      by auto
    then have "\<not> dless (?s ?m) (?s b)"
      using False Cons.prems dless_neg_trans [of "?s c" "?s ?m" "?s b"] by auto
    with False ih show ?thesis by auto
  qed
qed

lemma bm_FindBranch_created:
  "bm_FindBranch branches i = Some n \<Longrightarrow> n < length branches \<and> bc_branch_id (branches ! n) = i"
  by (auto simp: bm_FindBranch_def dest: find_index_Some)

lemma bm_SelectWinner_found:
  assumes "branches \<noteq> []" "\<forall>b \<in> set branches. cr_score (bc_candidate_result b) \<noteq> DNaN"
  shows "\<exists>b \<in> set branches. bm_SelectWinner branches = Inr (bc_branch_id b) \<and>
    (\<forall>c \<in> set branches. \<not> dless (cr_score (bc_candidate_result b)) (cr_score (bc_candidate_result c)))"
proof -
  from assms(1) obtain c bs where c: "branches = c # bs" by (cases branches) auto
  let ?m = "max_element_score c bs"
  from assms(2) have "?m \<in> set branches"
      "\<forall>x \<in> set branches. \<not> dless (cr_score (bc_candidate_result ?m)) (cr_score (bc_candidate_result x))"
    using max_element_score_sound [of c bs] unfolding c by blast+
  moreover have "bm_SelectWinner branches = Inr (bc_branch_id ?m)" by (simp add: bm_SelectWinner_def c)
  ultimately show ?thesis by blast
qed

text \<open>
  \<open>SelectWinner\<close> throws exactly on an empty list; otherwise, when no score is NaN, it
  returns the id of a branch of the list whose score no other branch exceeds.
\<close>

theorem SelectWinner_best:
  "(bm_SelectWinner branches = Inl (runtime_error ''cannot select winner from empty branch list'') \<longleftrightarrow>
      branches = []) \<and>
   (branches \<noteq> [] \<longrightarrow> (\<forall>b \<in> set branches. cr_score (bc_candidate_result b) \<noteq> DNaN) \<longrightarrow>
      (\<exists>b \<in> set branches. bm_SelectWinner branches = Inr (bc_branch_id b) \<and>
         (\<forall>c \<in> set branches.
            \<not> dless (cr_score (bc_candidate_result b)) (cr_score (bc_candidate_result c)))))"
  using bm_SelectWinner_found [of branches] by (auto simp: bm_SelectWinner_def split: list.splits)

theorem SelectWinner_best_witness:
  "let b = new_BranchContext ''lose''; c = bm_StageBranch (DFin 2) ''s'' (new_BranchContext ''win'')
   in bm_SelectWinner [b, c] = Inr ''win''"
proof -
  let ?b = "new_BranchContext ''lose''" and ?c = "bm_StageBranch (DFin 2) ''s'' (new_BranchContext ''win'')"
  have "\<forall>x \<in> set [?b, ?c]. cr_score (bc_candidate_result x) \<noteq> DNaN"
    "dless (cr_score (bc_candidate_result ?b)) (cr_score (bc_candidate_result ?c))"
    "bc_branch_id ?c = ''win''"
    by (simp_all add: new_BranchContext_def bm_StageBranch_def)
  moreover from this SelectWinner_best [of "[?b, ?c]"] obtain x where "x \<in> set [?b, ?c]"
      "bm_SelectWinner [?b, ?c] = Inr (bc_branch_id x)"
      "\<forall>y \<in> set [?b, ?c]. \<not> dless (cr_score (bc_candidate_result x)) (cr_score (bc_candidate_result y))"
    by blast
  ultimately show ?thesis unfolding Let_def by (metis list.set_intros set_ConsD empty_iff list.set(1))
qed

end
