(* ===== verification/Rebase.thy ===== *)
theory Rebase
  imports Branch
begin

text \<open>
  What a branch's buffered writes mean at commit time: the lemmas here follow one object through
  \<open>BranchManager::BufferWrite\<close> (in \<open>Branch\<close>) and \<open>PolicyDispatcher::ResolveWrite\<close> (in \<open>Intent\<close>).
\<close>

section \<open>Reads after writes\<close>

lemma wb_Find_Upsert:
  "wb_Find (wb_Upsert e wb) q = (if q = ce_object_id e then Some e else wb_Find wb q)"
  by (simp add: wb_Find_def wb_Upsert_def Let_def)

lemma wb_Find_id: "branch_inv b \<Longrightarrow> wb_Find (bc_write_buffer b) k = Some e \<Longrightarrow> ce_object_id e = k"
  by (auto simp: branch_inv_def wb_Find_of dest: latest_entry_id)

lemma buffered_entry_frame:
  assumes "branch_inv b"
  shows "ce_object_id (buffered_entry k t i V b) = k"
    "ce_current_value (buffered_entry k t i V b) =
       (let e = (case wb_Find (bc_write_buffer b) k of Some e \<Rightarrow> e | None \<Rightarrow> fresh_entry k t (V k))
        in intent_value i e)"
    "ce_base_value (buffered_entry k t i V b) =
       (case wb_Find (bc_write_buffer b) k of Some e \<Rightarrow> ce_base_value e | None \<Rightarrow> vv_value (V k))"
    "ce_base_version (buffered_entry k t i V b) =
       (case wb_Find (bc_write_buffer b) k of Some e \<Rightarrow> ce_base_version e | None \<Rightarrow> vv_version (V k))"
    "ce_intent_type (buffered_entry k t i V b) = wi_intent_type i"
  using wb_Find_id [OF assms]
  by (auto simp: buffered_entry_def Let_def fresh_entry_def intent_value_def
      split: option.splits IntentType.splits)

text \<open>The value the branch sees for a key: its own latest write, or the store's value.\<close>

definition branch_value :: "view \<Rightarrow> BranchContext \<Rightarrow> string \<Rightarrow> string" where
  "branch_value V b k =
     (case wb_Find (bc_write_buffer b) k of Some e \<Rightarrow> ce_current_value e | None \<Rightarrow> vv_value (V k))"

lemma wb_Find_new [simp]: "wb_Find (bc_write_buffer (new_BranchContext i)) k = None"
  by (simp add: new_BranchContext_def empty_WriteBuffer_def wb_Find_def)

lemma bm_ReadObject_value: "rd_value (fst (bm_ReadObject k V b)) = branch_value V b k"
  by (simp add: bm_ReadObject_def branch_value_def Let_def split: option.splits)

lemma wb_Find_BufferWrite:
  "branch_inv b \<Longrightarrow> wb_Find (bc_write_buffer (bm_BufferWrite k t i V b)) q =
     (if q = k then Some (buffered_entry k t i V b) else wb_Find (bc_write_buffer b) q)"
  by (simp add: bm_BufferWrite_frame wb_Find_Upsert buffered_entry_frame)

text \<open>
  A branch reads its own writes. After \<open>BufferWrite\<close> with a view \<open>V\<close>, a read of the key
  returns, whatever the store now holds, the payload of an overwrite or CAS, the value read
  before extended with the payload of an append, and the sum of a delta on numbers; reads of
  the other keys, and the recorded read set, are those of before.
\<close>

theorem branch_reads_its_writes:
  assumes inv: "branch_inv b"
  shows "(wi_intent_type i \<in> {kOverwrite, kCas} \<longrightarrow>
            rd_value (fst (bm_ReadObject k W (bm_BufferWrite k t i V b))) = wi_payload i) \<and>
    (wi_intent_type i = kAppend \<longrightarrow>
       rd_value (fst (bm_ReadObject k W (bm_BufferWrite k t i V b))) =
         rd_value (fst (bm_ReadObject k V b)) @ wi_payload i) \<and>
    (wi_intent_type i = kDelta \<longrightarrow> ParseInt (rd_value (fst (bm_ReadObject k V b))) = Some n \<longrightarrow>
       ParseInt (wi_payload i) = Some d \<longrightarrow>
       rd_value (fst (bm_ReadObject k W (bm_BufferWrite k t i V b))) = int_dec (ll_wrap (n + d))) \<and>
    (q \<noteq> k \<longrightarrow>
       fst (bm_ReadObject q W (bm_BufferWrite k t i V b)) = fst (bm_ReadObject q W b)) \<and>
    bc_read_set (snd (bm_ReadObject k W (bm_BufferWrite k t i V b))) = bc_read_set b"
proof -
  have "ce_current_value (fresh_entry k t (V k)) = vv_value (V k)" by (simp add: fresh_entry_def)
  then have "branch_value W (bm_BufferWrite k t i V b) k =
      (case wi_intent_type i of
         kOverwrite \<Rightarrow> wi_payload i | kCas \<Rightarrow> wi_payload i
       | kAppend \<Rightarrow> branch_value V b k @ wi_payload i
       | kDelta \<Rightarrow> (case (ParseInt (branch_value V b k), ParseInt (wi_payload i)) of
           (Some n, Some d) \<Rightarrow> int_dec (ll_wrap (n + d)) | _ \<Rightarrow> branch_value V b k)
       | _ \<Rightarrow> branch_value W (bm_BufferWrite k t i V b) k)"
    by (auto simp: branch_value_def wb_Find_BufferWrite [OF inv] buffered_entry_frame [OF inv] Let_def
        intent_value_def split: option.splits IntentType.splits)
  moreover have "fst (bm_ReadObject q W (bm_BufferWrite k t i V b)) = fst (bm_ReadObject q W b)" if "q \<noteq> k"
    using that by (simp add: bm_ReadObject_def Let_def wb_Find_BufferWrite [OF inv] split: option.splits)
  moreover have "bc_read_set (snd (bm_ReadObject k W (bm_BufferWrite k t i V b))) = bc_read_set b"
    by (simp add: bm_ReadObject_def Let_def wb_Find_BufferWrite [OF inv] bm_BufferWrite_frame(5))
  ultimately show ?thesis by (auto simp: bm_ReadObject_value)
qed

theorem branch_reads_its_writes_witness:
  "let i = \<lparr>wi_object_id = ''k'', wi_intent_type = kOverwrite, wi_payload = ''v'', wi_condition = no_condition\<rparr>
   in rd_value (fst (bm_ReadObject ''k'' (\<lambda>_. no_value)
        (bm_BufferWrite ''k'' kGeneric i (\<lambda>_. no_value) (new_BranchContext ''b'')))) = ''v''"
  unfolding Let_def
  using branch_reads_its_writes [OF branch_inv_new [of "''b''"], of
      "\<lparr>wi_object_id = ''k'', wi_intent_type = kOverwrite, wi_payload = ''v'', wi_condition = no_condition\<rparr>"]
  by simp

section \<open>Rebase of appends and deltas\<close>

text \<open>The writes of one branch to one object, all of one type, each with the store view it sees.\<close>

definition typed_intent :: "string \<Rightarrow> IntentType \<Rightarrow> string \<Rightarrow> WriteIntent" where
  "typed_intent k ty p =
     \<lparr>wi_object_id = k, wi_intent_type = ty, wi_payload = p, wi_condition = no_condition\<rparr>"

definition buffer_writes ::
    "string \<Rightarrow> ObjectType \<Rightarrow> IntentType \<Rightarrow> (string \<times> view) list \<Rightarrow> BranchContext \<Rightarrow> BranchContext" where
  "buffer_writes k t ty ps b = fold (\<lambda>(p, V). bm_BufferWrite k t (typed_intent k ty p) V) ps b"

lemma typed_intent_sel [simp]:
  "wi_intent_type (typed_intent k ty p) = ty" "wi_payload (typed_intent k ty p) = p"
  "wi_object_id (typed_intent k ty p) = k"
  by (simp_all add: typed_intent_def)

lemma buffer_writes_snoc:
  "buffer_writes k t ty (ps @ [(p, V)]) b = bm_BufferWrite k t (typed_intent k ty p) V (buffer_writes k t ty ps b)"
  by (simp add: buffer_writes_def)

lemma branch_inv_buffer_writes: "branch_inv b \<Longrightarrow> branch_inv (buffer_writes k t ty ps b)"
  by (induction ps rule: rev_induct) (auto simp: buffer_writes_def branch_inv_Write split_beta)

lemma appends_entry:
  assumes "branch_inv b" "wb_Find (bc_write_buffer b) k = None" "ps \<noteq> []"
  shows "\<exists>e. wb_Find (bc_write_buffer (buffer_writes k t kAppend ps b)) k = Some e \<and>
     ce_base_value e = vv_value (snd (hd ps) k) \<and>
     ce_current_value e = ce_base_value e @ concat (map fst ps)"
  using assms(3)
proof (induction ps rule: rev_induct)
  case Nil
  then show ?case by simp
next
  case (snoc p ps)
  let ?b = "buffer_writes k t kAppend ps b"
  have inv: "branch_inv ?b" by (rule branch_inv_buffer_writes [OF assms(1)])
  obtain s V where p: "p = (s, V)" by (cases p)
  show ?case
  proof (cases "ps = []")
    case True
    with assms show ?thesis
      by (auto simp: p buffer_writes_def wb_Find_BufferWrite buffered_entry_frame Let_def
          intent_value_def fresh_entry_def)
  next
    case False
    with snoc obtain e where "wb_Find (bc_write_buffer ?b) k = Some e"
        "ce_base_value e = vv_value (snd (hd ps) k)" "ce_current_value e = ce_base_value e @ concat (map fst ps)"
      by auto
    with False show ?thesis
      unfolding p buffer_writes_snoc
      by (auto simp: wb_Find_BufferWrite [OF inv] buffered_entry_frame [OF inv] Let_def intent_value_def)
  qed
qed

text \<open>
  Appends are rebased: when a branch has only appended to an object, the value resolved at
  commit time is whatever the store holds by then, extended with the payloads in their order.
  No other writer's text is lost.
\<close>

theorem appends_are_rebased:
  assumes "branch_inv b" and "wb_Find (bc_write_buffer b) k = None" and "ps \<noteq> []"
    and "wb_Find (bc_write_buffer (buffer_writes k t kAppend ps b)) k = Some e"
  shows "ResolveWrite e (typed_intent k kAppend p) current_store_value =
    \<lparr>rr_success = True, rr_should_write = True,
     rr_value = current_store_value @ concat (map fst ps), rr_reason = []\<rparr>"
  using appends_entry [OF assms(1-3), of t] assms(4) by (auto simp: ResolveWrite_append)

theorem appends_are_rebased_witness:
  "let b = buffer_writes ''k'' kText kAppend [(''a'', \<lambda>_. no_value), (''b'', \<lambda>_. no_value)] (new_BranchContext ''b'')
   in rr_value (ResolveWrite (the (wb_Find (bc_write_buffer b) ''k'')) (typed_intent ''k'' kAppend ''b'') ''x'') = ''xab''"
proof -
  let ?ps = "[(''a'', \<lambda>_. no_value), (''b'', \<lambda>_. no_value)] :: (string \<times> view) list"
  let ?n = "new_BranchContext ''b''"
  have new: "branch_inv ?n" "wb_Find (bc_write_buffer ?n) ''k'' = None" "?ps \<noteq> []"
    by simp_all
  obtain e where e: "wb_Find (bc_write_buffer (buffer_writes ''k'' kText kAppend ?ps ?n)) ''k'' = Some e"
    using appends_entry [OF new] by blast
  show ?thesis using appends_are_rebased [OF new e] by (simp add: Let_def e)
qed


fun sum_payloads :: "(string \<times> view) list \<Rightarrow> int option" where
  "sum_payloads [] = Some 0"
| "sum_payloads ((p, V) # ps) =
     (case (ParseInt p, sum_payloads ps) of (Some d, Some s) \<Rightarrow> Some (d + s) | _ \<Rightarrow> None)"

lemma sum_payloads_append:
  "sum_payloads (ps @ qs) =
     (case (sum_payloads ps, sum_payloads qs) of (Some a, Some b) \<Rightarrow> Some (a + b) | _ \<Rightarrow> None)"
  by (induction ps rule: sum_payloads.induct) (auto split: option.splits)

lemma deltas_entry:
  assumes "branch_inv b" "wb_Find (bc_write_buffer b) k = None" "ps \<noteq> []"
    and "ParseInt (vv_value (snd (hd ps) k)) = Some n" "sum_payloads ps = Some d"
  shows "\<exists>e. wb_Find (bc_write_buffer (buffer_writes k t kDelta ps b)) k = Some e \<and>
     ce_base_value e = vv_value (snd (hd ps) k) \<and>
     ce_current_value e = int_dec (ll_wrap (n + d))"
  using assms(3-)
proof (induction ps arbitrary: d rule: rev_induct)
  case Nil
  then show ?case by simp
next
  case (snoc p ps)
  let ?b = "buffer_writes k t kDelta ps b"
  have inv: "branch_inv ?b" by (rule branch_inv_buffer_writes [OF assms(1)])
  obtain s V where p: "p = (s, V)" by (cases p)
  from snoc.prems(3) obtain d1 d2 where d: "sum_payloads ps = Some d1" "ParseInt s = Some d2" "d = d1 + d2"
    by (auto simp: p sum_payloads_append split: option.splits)
  show ?case
  proof (cases "ps = []")
    case True
    with assms snoc.prems d show ?thesis
      by (auto simp: p buffer_writes_def wb_Find_BufferWrite buffered_entry_frame Let_def
          intent_value_def fresh_entry_def)
  next
    case False
    with snoc.IH [of d1] snoc.prems d obtain e where "wb_Find (bc_write_buffer ?b) k = Some e"
        "ce_base_value e = vv_value (snd (hd ps) k)" "ce_current_value e = int_dec (ll_wrap (n + d1))"
      by auto
    with False d show ?thesis
      unfolding p buffer_writes_snoc
      by (auto simp: wb_Find_BufferWrite [OF inv] buffered_entry_frame [OF inv] Let_def intent_value_def
          algebra_simps)
  qed
qed

lemma ll_wrap_rebase: "ll_wrap (c + (ll_wrap (n + d) - n)) = ll_wrap (c + d)"
proof -
  have "(c + (n + d + 2 ^ 63) mod 2 ^ 64 - n) mod 2 ^ 64 = ((c - n) + (n + d + 2 ^ 63) mod 2 ^ 64) mod (2 ^ 64 :: int)"
    by (simp add: algebra_simps)
  also have "\<dots> = (c + d + 2 ^ 63) mod 2 ^ 64"
    by (subst mod_add_right_eq) (simp add: algebra_simps)
  finally show ?thesis by (simp add: ll_wrap_def algebra_simps)
qed

text \<open>
  Deltas are rebased: when a branch has only added numbers to a numeric object, the value
  resolved at commit time is the number the store holds by then plus the sum of the deltas,
  in 64-bit arithmetic. Where no step overflows (the code's signed overflow is undefined
  behaviour, modelled as wrap-around) this is the exact sum.
\<close>

theorem deltas_are_rebased:
  assumes "branch_inv b" and "wb_Find (bc_write_buffer b) k = None" and "ps \<noteq> []"
    and "ParseInt (vv_value (snd (hd ps) k)) = Some n" and "sum_payloads ps = Some d"
    and "wb_Find (bc_write_buffer (buffer_writes k t kDelta ps b)) k = Some e"
    and "ParseInt current_store_value = Some c"
  shows "ResolveWrite e (typed_intent k kDelta p) current_store_value =
      \<lparr>rr_success = True, rr_should_write = True, rr_value = int_dec (ll_wrap (c + d)), rr_reason = []\<rparr> \<and>
    (ll_fits (c + d) \<longrightarrow> ParseInt (int_dec (ll_wrap (c + d))) = Some (c + d))"
proof -
  from deltas_entry [OF assms(1-5), of t] assms(6)
  have e: "ce_base_value e = vv_value (snd (hd ps) k)" "ce_current_value e = int_dec (ll_wrap (n + d))"
    by auto
  have "ParseInt (ce_base_value e) = Some n" "ParseInt (ce_current_value e) = Some (ll_wrap (n + d))"
    using assms(4) by (simp_all add: e)
  with assms(7) show ?thesis by (simp add: ResolveWrite_delta ll_wrap_rebase)
qed

theorem deltas_are_rebased_witness:
  "let V = (\<lambda>_. \<lparr>vv_value = int_dec 10, vv_version = 1, vv_exists = True\<rparr>);
       b = buffer_writes ''k'' kGeneric kDelta [(int_dec 1, V), (int_dec 2, V)] (new_BranchContext ''b'')
   in rr_value (ResolveWrite (the (wb_Find (bc_write_buffer b) ''k''))
        (typed_intent ''k'' kDelta (int_dec 2)) (int_dec 100)) = int_dec 103"
proof -
  let ?V = "(\<lambda>_. \<lparr>vv_value = int_dec 10, vv_version = 1, vv_exists = True\<rparr>) :: view"
  let ?ps = "[(int_dec 1, ?V), (int_dec 2, ?V)]"
  let ?n = "new_BranchContext ''b''"
  have fits: "ll_fits 1" "ll_fits 2" "ll_fits 10" "ll_fits 100" "ll_fits 103" by (simp_all add: ll_fits_def)
  have new: "branch_inv ?n" "wb_Find (bc_write_buffer ?n) ''k'' = None" "?ps \<noteq> []"
      "ParseInt (vv_value (snd (hd ?ps) ''k'')) = Some 10" "sum_payloads ?ps = Some 3"
    by (simp_all add: fits)
  obtain e where e: "wb_Find (bc_write_buffer (buffer_writes ''k'' kGeneric kDelta ?ps ?n)) ''k'' = Some e"
    using deltas_entry [OF new] by blast
  have "ParseInt (int_dec 100) = Some 100" by (simp add: fits)
  from deltas_are_rebased [OF new e this] show ?thesis by (simp add: Let_def e fits)
qed

text \<open>
  C36. What a commit makes of an overwrite followed by an append in the same branch. The branch
  itself reads the overwritten value with the appended text. At commit time the latest intent decides
  the policy, so that this value is rebased as an append: if it extends the value the key had when
  it was buffered (as on a new key, whose value is empty), what it adds to that value is put behind the
  store's value; otherwise only the payload of the append is, and the overwrite is lost.
\<close>

theorem overwrite_then_append_loses_overwrite:
  fixes V :: view
  assumes inv: "branch_inv b" and new: "wb_Find (bc_write_buffer b) k = None"
    and b': "b' = bm_BufferWrite k t (typed_intent k kAppend q) V
                    (bm_BufferWrite k t (typed_intent k kOverwrite p) V b)"
    and e: "wb_Find (bc_write_buffer b') k = Some e"
  shows "rd_value (fst (bm_ReadObject k V b')) = p @ q \<and>
    rr_success (ResolveWrite e (typed_intent k kAppend q) current_store_value) \<and>
    rr_value (ResolveWrite e (typed_intent k kAppend q) current_store_value) =
      current_store_value @
        (if take (length (vv_value (V k))) (p @ q) = vv_value (V k) then drop (length (vv_value (V k))) (p @ q) else q)"
proof -
  let ?b1 = "bm_BufferWrite k t (typed_intent k kOverwrite p) V b"
  have inv1: "branch_inv ?b1" by (rule branch_inv_Write [OF inv])
  from e have "ce_base_value e = vv_value (V k)" "ce_current_value e = p @ q"
    by (auto simp: b' wb_Find_BufferWrite [OF inv1] wb_Find_BufferWrite [OF inv]
        buffered_entry_frame [OF inv1] buffered_entry_frame [OF inv] new Let_def intent_value_def)
  moreover have "length (vv_value (V k)) \<le> length p + length q" if "p @ q = vv_value (V k)"
    using arg_cong [OF that, of length] by simp
  ultimately show ?thesis
    using e by (auto simp: bm_ReadObject_value branch_value_def ResolveWrite_def default_ResolveResult_def Let_def)
qed

theorem overwrite_then_append_loses_overwrite_witness:
  "let V = (\<lambda>_. \<lparr>vv_value = ''old'', vv_version = 1, vv_exists = True\<rparr>);
       b = bm_BufferWrite ''k'' kText (typed_intent ''k'' kAppend ''+'') V
             (bm_BufferWrite ''k'' kText (typed_intent ''k'' kOverwrite ''new'') V (new_BranchContext ''b''))
   in rr_value (ResolveWrite (the (wb_Find (bc_write_buffer b) ''k'')) (typed_intent ''k'' kAppend ''+'') ''old'')
        = ''old+''"
proof -
  let ?V = "(\<lambda>_. \<lparr>vv_value = ''old'', vv_version = 1, vv_exists = True\<rparr>) :: view"
  let ?b1 = "bm_BufferWrite ''k'' kText (typed_intent ''k'' kOverwrite ''new'') ?V (new_BranchContext ''b'')"
  let ?b = "bm_BufferWrite ''k'' kText (typed_intent ''k'' kAppend ''+'') ?V ?b1"
  obtain e where e: "wb_Find (bc_write_buffer ?b) ''k'' = Some e"
    by (simp add: wb_Find_BufferWrite branch_inv_Write)
  have "take (length (vv_value (?V ''k''))) (''new'' @ ''+'') \<noteq> vv_value (?V ''k'')" by simp
  from overwrite_then_append_loses_overwrite [OF branch_inv_new wb_Find_new refl e, of "''old''"] this
  show ?thesis by (simp add: Let_def e)
qed

end
