(* ===== verification/File_Store.thy ===== *)
theory File_Store
  imports Storage "HOL-Library.Monad_Syntax"
begin

text \<open>
  \<open>storage/file_kv_store.h\<close>: the file-backed store with its journal, temporary snapshot and
  recovery on load, and \<open>storage/rocksdb_adapter.h\<close>, which wraps it. The state is the path
  and the vals in memory; the disk is the world that every writing operation carries. The
  lock guards are left out: each operation runs to its end under the one mutex.
\<close>

record FileKVStore =
  fk_path :: string
  fk_values :: "(string, mem_entry) umap"

definition TempPath :: "FileKVStore \<Rightarrow> string" where
  "TempPath f = fk_path f @ ''.tmp''"

definition JournalPath :: "FileKVStore \<Rightarrow> string" where
  "JournalPath f = fk_path f @ ''.journal''"

definition kFileHeader :: string where
  "kFileHeader = ''DAS_KV_V1''"

definition kJournalHeader :: string where
  "kJournalHeader = ''DAS_KV_JOURNAL_V1''"

text \<open>The private pair \<open>Escape\<close> and \<open>Unescape\<close>.\<close>

definition file_Escape :: "string \<Rightarrow> string" where
  "file_Escape s = escape_text s"

definition file_Unescape :: "string \<Rightarrow> string" where
  "file_Unescape s = unescape_text s"

interpretation file_codec: text_codec file_Escape file_Unescape
  by unfold_locales
    (simp_all add: file_Escape_def file_Unescape_def escape.codec_simps)

section \<open>Writing\<close>

definition snapshot_line :: "string \<times> mem_entry \<Rightarrow> string" where
  "snapshot_line pair =
     file_Escape (fst pair) @ TAB # u64_dec (me_version (snd pair)) @ TAB # file_Escape (me_value (snd pair))"

definition snapshot_text :: "(string, mem_entry) umap \<Rightarrow> string" where
  "snapshot_text vals = put_lines (kFileHeader # map snapshot_line vals)"

definition WriteSnapshotUnlocked ::
    "string \<Rightarrow> (string, mem_entry) umap \<Rightarrow> world \<Rightarrow> bool \<times> world" where
  "WriteSnapshotUnlocked output_path vals w =
     (let (r, w) = write_file output_path (snapshot_text vals) w in (r = Written, w))"

definition journal_text :: "FileKVStore \<Rightarrow> string" where
  "journal_text f =
     put_lines [kJournalHeader, ''target='' @ file_Escape (fk_path f),
       ''temp='' @ file_Escape (TempPath f), ''mode=replace_with_temp'']"

definition WriteJournalUnlocked :: "FileKVStore \<Rightarrow> world \<Rightarrow> bool \<times> world" where
  "WriteJournalUnlocked f w =
     (let (r, w) = write_file (JournalPath f) (journal_text f) w in (r = Written, w))"

definition PersistToDisk :: "FileKVStore \<Rightarrow> world \<Rightarrow> bool \<times> world" where
  "PersistToDisk f w =
     (let (journal_ok, w) = WriteJournalUnlocked f w in
      if \<not> journal_ok then (False, w) else
      let (snapshot_ok, w) = WriteSnapshotUnlocked (TempPath f) (fk_values f) w in
      if \<not> snapshot_ok then (False, w) else
      let (renamed, w) = rename_file (TempPath f) (fk_path f) w in
      if \<not> renamed then (False, w) else
      remove_file (JournalPath f) w)"

section \<open>Loading\<close>

definition FileExistsUnlocked :: "string \<Rightarrow> world \<Rightarrow> bool" where
  "FileExistsUnlocked file_path w \<longleftrightarrow> fs_read file_path w \<noteq> None"

definition RecoverIfNeededUnlocked :: "FileKVStore \<Rightarrow> world \<Rightarrow> bool \<times> world" where
  "RecoverIfNeededUnlocked f w =
     (let has_journal = FileExistsUnlocked (JournalPath f) w;
          has_temp = FileExistsUnlocked (TempPath f) w in
      if has_journal \<and> has_temp then
        (let (renamed, w) = rename_file (TempPath f) (fk_path f) w in
         if \<not> renamed then (False, w) else remove_file (JournalPath f) w)
      else if has_journal \<and> \<not> has_temp then remove_file (JournalPath f) w
      else if \<not> has_journal \<and> has_temp then remove_file (TempPath f) w
      else (True, w))"

definition parse_snapshot_line :: "string \<Rightarrow> (string \<times> mem_entry) option" where
  "parse_snapshot_line line = do {
     (encoded_key, rest) \<leftarrow> getline TAB line;
     (version_text, rest) \<leftarrow> getline TAB rest;
     (encoded_value, rest) \<leftarrow> getline NL rest;
     Some (file_Unescape encoded_key,
       \<lparr>me_value = file_Unescape encoded_value, me_version = of_nat (strtoull version_text)\<rparr>)}"

text \<open>The reading loop; it stops at the first malformed line and keeps what it has read.\<close>

fun load_lines :: "string list \<Rightarrow> (string, mem_entry) umap \<Rightarrow> bool \<times> (string, mem_entry) umap" where
  "load_lines [] vals = (True, vals)"
| "load_lines (line # lines) vals =
     (if line = [] then load_lines lines vals
      else (case parse_snapshot_line line of
              None \<Rightarrow> (False, vals)
            | Some (k, entry) \<Rightarrow> load_lines lines (umap_set vals k entry)))"

definition LoadFromDiskUnlocked :: "FileKVStore sys \<Rightarrow> bool \<times> FileKVStore sys" where
  "LoadFromDiskUnlocked st =
     (let f = (fst st)\<lparr>fk_values := []\<rparr>;
          (recovered, w) = RecoverIfNeededUnlocked f (snd st) in
      if \<not> recovered then (False, f, w) else
      (case fs_read (fk_path f) w of
         None \<Rightarrow> (True, f, w)
       | Some text \<Rightarrow>
           (case getlines text of
              [] \<Rightarrow> (True, f, w)
            | line # lines \<Rightarrow>
                if line \<noteq> kFileHeader then (False, f, w)
                else (let (ok, vals) = load_lines lines [] in (ok, f\<lparr>fk_values := vals\<rparr>, w)))))"

definition file_Reload :: "FileKVStore sys \<Rightarrow> bool \<times> FileKVStore sys" where
  "file_Reload st = LoadFromDiskUnlocked st"

text \<open>The constructor ignores whether the load succeeded.\<close>

definition NewFileKVStore :: "string \<Rightarrow> world \<Rightarrow> FileKVStore sys" where
  "NewFileKVStore path w = snd (LoadFromDiskUnlocked (\<lparr>fk_path = path, fk_values = []\<rparr>, w))"

section \<open>The operations of the interface\<close>

definition file_Get :: "FileKVStore \<Rightarrow> string \<Rightarrow> VersionedValue" where
  "file_Get f key =
     (case umap_find (fk_values f) key of
        None \<Rightarrow> no_value
      | Some e \<Rightarrow> \<lparr>vv_value = me_value e, vv_version = me_version e, vv_exists = True\<rparr>)"

definition file_GetVersion :: "FileKVStore \<Rightarrow> string \<Rightarrow> u64" where
  "file_GetVersion f key = vv_version (file_Get f key)"

definition persist_values ::
    "(string, mem_entry) umap \<Rightarrow> FileKVStore sys \<Rightarrow> bool \<times> FileKVStore sys" where
  "persist_values vals st =
     (let f = (fst st)\<lparr>fk_values := vals\<rparr>;
          (ok, w) = PersistToDisk f (snd st)
      in (ok, f, w))"

definition file_Put :: "string \<Rightarrow> string \<Rightarrow> FileKVStore sys \<Rightarrow> bool \<times> FileKVStore sys" where
  "file_Put key v st =
     (let (entry, vals) = mem_touch (fk_values (fst st)) key
      in persist_values (umap_set vals key (bump_entry entry v)) st)"

definition file_PutIfVersion ::
    "string \<Rightarrow> u64 \<Rightarrow> string \<Rightarrow> FileKVStore sys \<Rightarrow> bool \<times> FileKVStore sys" where
  "file_PutIfVersion key expected_version v st =
     (let (entry, vals) = mem_touch (fk_values (fst st)) key
      in if me_version entry \<noteq> expected_version
         then (False, (fst st)\<lparr>fk_values := vals\<rparr>, snd st)
         else persist_values (umap_set vals key (bump_entry entry v)) st)"

definition file_DeleteIfVersion ::
    "string \<Rightarrow> u64 \<Rightarrow> FileKVStore sys \<Rightarrow> bool \<times> FileKVStore sys" where
  "file_DeleteIfVersion key expected_version st =
     (if mem_current_version (fk_values (fst st)) key \<noteq> expected_version then (False, st)
      else persist_values (umap_erase (fk_values (fst st)) key) st)"

definition file_BatchPutIfVersion ::
    "VersionCheck list \<Rightarrow> WriteOp list \<Rightarrow> FileKVStore sys \<Rightarrow> bool \<times> FileKVStore sys" where
  "file_BatchPutIfVersion checks writes st =
     (if \<not> mem_check_all checks (fk_values (fst st)) then (False, st)
      else persist_values (mem_write_all writes (fk_values (fst st))) st)"

definition file_Snapshot :: "FileKVStore \<Rightarrow> (string \<times> VersionedValue) list" where
  "file_Snapshot f =
     map (\<lambda>pair. (fst pair, \<lparr>vv_value = me_value (snd pair), vv_version = me_version (snd pair), vv_exists = True\<rparr>))
       (fk_values f)"

definition file_store :: "FileKVStore VersionedKVStore" where
  "file_store =
     \<lparr>SupportsAtomicBatchConditionalWrite = True,
      kv_Get = file_Get, kv_GetVersion = file_GetVersion, kv_Put = file_Put,
      kv_PutIfVersion = file_PutIfVersion, kv_DeleteIfVersion = file_DeleteIfVersion,
      kv_BatchPutIfVersion = file_BatchPutIfVersion\<rparr>"

lemma file_store_ops [simp]:
  "SupportsAtomicBatchConditionalWrite file_store"
  "kv_Get file_store = file_Get"
  "kv_GetVersion file_store = file_GetVersion"
  "kv_Put file_store = file_Put"
  "kv_PutIfVersion file_store = file_PutIfVersion"
  "kv_DeleteIfVersion file_store = file_DeleteIfVersion"
  "kv_BatchPutIfVersion file_store = file_BatchPutIfVersion"
  by (simp_all add: file_store_def)

section \<open>The paths\<close>

lemma paths_distinct [simp]:
  "TempPath f \<noteq> fk_path f" "fk_path f \<noteq> TempPath f"
  "JournalPath f \<noteq> fk_path f" "fk_path f \<noteq> JournalPath f"
  "TempPath f \<noteq> JournalPath f" "JournalPath f \<noteq> TempPath f"
  by (simp_all add: TempPath_def JournalPath_def)

lemma paths_values [simp]:
  "TempPath (f\<lparr>fk_values := v\<rparr>) = TempPath f"
  "JournalPath (f\<lparr>fk_values := v\<rparr>) = JournalPath f"
  "journal_text (f\<lparr>fk_values := v\<rparr>) = journal_text f"
  by (simp_all add: TempPath_def JournalPath_def journal_text_def)

section \<open>Writing and reading back a snapshot\<close>

text \<open>A record line is read back, unless its value is empty: then the last \<open>getline\<close> fails.\<close>

lemma parse_snapshot_line_ok:
  "me_value e \<noteq> [] \<Longrightarrow> parse_snapshot_line (snapshot_line (k, e)) = Some (k, e)"
  by (simp add: parse_snapshot_line_def snapshot_line_def file_codec.enc_field getline_delim
      file_codec.enc_last_field file_codec.dec_enc)

lemma parse_snapshot_line_empty:
  "me_value e = [] \<Longrightarrow> parse_snapshot_line (snapshot_line (k, e)) = None"
  by (simp add: parse_snapshot_line_def snapshot_line_def file_codec.enc_field getline_delim
      file_codec.enc_Nil_iff [THEN iffD2])

lemma snapshot_line_clean: "NL \<notin> set (snapshot_line p)" "snapshot_line p \<noteq> []"
  by (simp_all add: snapshot_line_def file_codec.enc_no_NL)

lemma kFileHeader_clean: "NL \<notin> set kFileHeader"
  by (simp add: kFileHeader_def)

lemma getlines_snapshot: "getlines (snapshot_text vals) = kFileHeader # map snapshot_line vals"
  unfolding snapshot_text_def
  by (rule getlines_put_lines) (auto simp: snapshot_line_clean kFileHeader_clean)

definition values_readable :: "(string, mem_entry) umap \<Rightarrow> bool" where
  "values_readable vals \<longleftrightarrow> umap_wf vals \<and> (\<forall>p \<in> set vals. me_value (snd p) \<noteq> [])"

lemma load_lines_snapshot:
  "(\<forall>p \<in> set vals. me_value (snd p) \<noteq> []) \<Longrightarrow>
     load_lines (map snapshot_line vals) acc = (True, umap_store_all acc vals)"
  by (induction vals arbitrary: acc)
    (auto simp: snapshot_line_clean parse_snapshot_line_ok)

lemma umap_store_all_append:
  "umap_wf (acc @ vals) \<Longrightarrow> umap_store_all acc vals = acc @ vals"
proof (induction vals arbitrary: acc)
  case Nil
  then show ?case by simp
next
  case (Cons p vals)
  obtain k v where p: "p = (k, v)" by (cases p)
  have "umap_set acc k v = acc @ [(k, v)]"
    using Cons.prems by (induction acc) (auto simp: umap_wf_def umap_set_def p)
  with Cons show ?case by (simp add: p)
qed

lemma load_lines_readable:
  "values_readable vals \<Longrightarrow> load_lines (map snapshot_line vals) [] = (True, vals)"
  by (simp add: values_readable_def load_lines_snapshot umap_store_all_append)

lemma load_lines_empty_value:
  "\<exists>p \<in> set vals. me_value (snd p) = [] \<Longrightarrow> \<not> fst (load_lines (map snapshot_line vals) acc)"
proof (induction vals arbitrary: acc)
  case Nil
  then show ?case by simp
next
  case (Cons p vals)
  obtain k e where p: "p = (k, e)" by (cases p)
  show ?case
    by (cases "me_value e = []")
      (use Cons p in \<open>auto simp: snapshot_line_clean parse_snapshot_line_ok parse_snapshot_line_empty\<close>)
qed

text \<open>The disk holds a snapshot of these values and no interrupted replacement.\<close>

definition disk_holds :: "FileKVStore \<Rightarrow> (string, mem_entry) umap \<Rightarrow> world \<Rightarrow> bool" where
  "disk_holds f vals w \<longleftrightarrow>
     fs_read (fk_path f) w = Some (snapshot_text vals) \<and>
     fs_read (TempPath f) w = None \<and> fs_read (JournalPath f) w = None"

lemma recover_clean:
  "fs_read (TempPath f) w = None \<Longrightarrow> fs_read (JournalPath f) w = None \<Longrightarrow>
     RecoverIfNeededUnlocked f w = (True, w)"
  by (simp add: RecoverIfNeededUnlocked_def FileExistsUnlocked_def)

lemma load_from_recovered:
  assumes "RecoverIfNeededUnlocked (f\<lparr>fk_values := []\<rparr>) w = (True, w')"
    and "fs_read (fk_path f) w' = Some (snapshot_text vals)" "values_readable vals"
  shows "LoadFromDiskUnlocked (f, w) = (True, f\<lparr>fk_values := vals\<rparr>, w')"
  using assms by (simp add: LoadFromDiskUnlocked_def getlines_snapshot load_lines_readable)

lemma load_disk_holds:
  assumes "disk_holds f vals w" "values_readable vals"
  shows "LoadFromDiskUnlocked (f, w) = (True, f\<lparr>fk_values := vals\<rparr>, w)"
  using assms by (simp add: disk_holds_def load_from_recovered recover_clean)

lemma load_disk_empty_value:
  assumes "disk_holds f vals w" "\<exists>p \<in> set vals. me_value (snd p) = []"
  shows "\<not> fst (LoadFromDiskUnlocked (f, w))"
  using assms
  by (simp add: disk_holds_def LoadFromDiskUnlocked_def recover_clean getlines_snapshot
      load_lines_empty_value split: prod.splits)
    (metis fst_conv load_lines_empty_value)

section \<open>Persisting\<close>

text \<open>Without failures a persist leaves exactly the new snapshot.\<close>

lemma PersistToDisk_quiet:
  assumes "quiet w"
  shows "fst (PersistToDisk f w)" "quiet (snd (PersistToDisk f w))"
    "disk_holds f (fk_values f) (snd (PersistToDisk f w))"
proof -
  obtain r1 w1 where 1: "write_file (JournalPath f) (journal_text f) w = (r1, w1)"
    by fastforce
  obtain r2 w2 where 2: "write_file (TempPath f) (snapshot_text (fk_values f)) w1 = (r2, w2)"
    by fastforce
  obtain r3 w3 where 3: "rename_file (TempPath f) (fk_path f) w2 = (r3, w3)" by fastforce
  obtain r4 w4 where 4: "remove_file (JournalPath f) w3 = (r4, w4)" by fastforce
  have q1: "r1 = Written" "quiet w1"
      "fs_read q w1 = (if q = JournalPath f then Some (journal_text f) else fs_read q w)" for q
    using write_file_quiet [OF assms, where p = "JournalPath f" and t = "journal_text f"] by (simp_all add: 1)
  have q2: "r2 = Written" "quiet w2"
      "fs_read q w2 = (if q = TempPath f then Some (snapshot_text (fk_values f)) else fs_read q w1)" for q
    using write_file_quiet [OF q1(2), where p = "TempPath f" and t = "snapshot_text (fk_values f)"] by (simp_all add: 2)
  have "fs_read (TempPath f) w2 = Some (snapshot_text (fk_values f))" by (simp add: q2)
  note rename_file_quiet [OF q2(2) this, where q = "fk_path f"]
  then have q3: "r3" "quiet w3"
      "fs_read q w3 = (if q = fk_path f then Some (snapshot_text (fk_values f))
         else if q = TempPath f then None else fs_read q w2)" for q
    by (simp_all add: 3)
  have "fs_read (JournalPath f) w3 = Some (journal_text f)" by (simp add: q3 q2 q1)
  note remove_file_quiet [OF q3(2) this]
  then have q4: "r4" "quiet w4" "fs_read q w4 = (if q = JournalPath f then None else fs_read q w3)" for q
    by (simp_all add: 4)
  have "PersistToDisk f w = (r4, w4)"
    by (simp add: PersistToDisk_def WriteJournalUnlocked_def WriteSnapshotUnlocked_def 1 2 3 4 q1 q2 q3)
  with q4 q3 show "fst (PersistToDisk f w)" "quiet (snd (PersistToDisk f w))"
      "disk_holds f (fk_values f) (snd (PersistToDisk f w))"
    by (simp_all add: disk_holds_def)
qed

lemma persist_values_quiet:
  assumes "quiet (snd st)"
  shows "fst (persist_values vals st)" "quiet (snd (snd (persist_values vals st)))"
    "fst (snd (persist_values vals st)) = (fst st)\<lparr>fk_values := vals\<rparr>"
    "disk_holds (fst st) vals (snd (snd (persist_values vals st)))"
  using PersistToDisk_quiet [OF assms, of "(fst st)\<lparr>fk_values := vals\<rparr>"]
  by (simp_all add: persist_values_def Let_def split_beta disk_holds_def)

section \<open>The file store meets the contract\<close>

lemma file_Get_mem: "file_Get f = mem_Get (fk_values f)"
  by (rule ext) (simp add: file_Get_def mem_Get_def)

lemma file_views:
  "quiet (snd st) \<Longrightarrow> fst (file_Put k v st)"
  "quiet (snd st) \<Longrightarrow> file_Get (fst (snd (file_Put k v st))) = view_put k v (file_Get (fst st))"
  "quiet (snd st) \<Longrightarrow> fst (file_PutIfVersion k n v st) \<longleftrightarrow> vv_version (file_Get (fst st) k) = n"
  "quiet (snd st) \<Longrightarrow> vv_version (file_Get (fst st) k) = n \<Longrightarrow>
     file_Get (fst (snd (file_PutIfVersion k n v st))) = view_put k v (file_Get (fst st))"
  "vv_version (file_Get (fst st) k) \<noteq> n \<Longrightarrow>
     same_content (file_Get (fst (snd (file_PutIfVersion k n v st)))) (file_Get (fst st)) \<and>
     (\<forall>q. q \<noteq> k \<longrightarrow> file_Get (fst (snd (file_PutIfVersion k n v st))) q = file_Get (fst st) q)"
  "quiet (snd st) \<Longrightarrow> fst (file_DeleteIfVersion k n st) \<longleftrightarrow> vv_version (file_Get (fst st) k) = n"
  "quiet (snd st) \<Longrightarrow> vv_version (file_Get (fst st) k) = n \<Longrightarrow>
     file_Get (fst (snd (file_DeleteIfVersion k n st))) = view_delete k (file_Get (fst st))"
  "vv_version (file_Get (fst st) k) \<noteq> n \<Longrightarrow>
     file_Get (fst (snd (file_DeleteIfVersion k n st))) = file_Get (fst st)"
  "quiet (snd st) \<Longrightarrow> fst (file_BatchPutIfVersion cs ws st) \<longleftrightarrow> checks_hold cs (file_Get (fst st))"
  "quiet (snd st) \<Longrightarrow> file_Get (fst (snd (file_BatchPutIfVersion cs ws st))) =
     (if checks_hold cs (file_Get (fst st)) then view_puts ws (file_Get (fst st)) else file_Get (fst st))"
  unfolding file_Get_mem
  by (auto simp: file_Put_def file_PutIfVersion_def file_DeleteIfVersion_def file_BatchPutIfVersion_def
      persist_values_quiet mem_touch_version mem_write_view mem_touch_content mem_touch_other
      mem_current_version_Get mem_erase_view mem_check_all_iff mem_write_all_view
      split: prod.splits)

lemma file_ops_quiet:
  "quiet (snd st) \<Longrightarrow> quiet (snd (snd (file_Put k v st)))"
  "quiet (snd st) \<Longrightarrow> quiet (snd (snd (file_PutIfVersion k n v st)))"
  "quiet (snd st) \<Longrightarrow> quiet (snd (snd (file_DeleteIfVersion k n st)))"
  "quiet (snd st) \<Longrightarrow> quiet (snd (snd (file_BatchPutIfVersion cs ws st)))"
  by (simp_all add: file_Put_def file_PutIfVersion_def file_DeleteIfVersion_def file_BatchPutIfVersion_def
      persist_values_quiet split: prod.splits)

lemma file_absent: "\<not> vv_exists (file_Get f k) \<Longrightarrow> file_Get f k = no_value"
  by (simp add: file_Get_mem mem_absent)

text \<open>The contract holds while the disk does not fail; what happens otherwise is stated below.\<close>

interpretation file_kv: batch_store file_store "\<lambda>st. quiet (snd st)"
  by unfold_locales (simp_all add: file_GetVersion_def file_views file_ops_quiet file_absent)

section \<open>Durability\<close>

text \<open>
  What a crash in the middle of a persist can leave behind, when the disk held a clean
  snapshot before: nothing has reached the snapshot yet; or the journal is there and the
  temporary file holds some prefix of the new text; or the snapshot is the new one.
\<close>

lemma PersistToDisk_outcomes:
  assumes old: "disk_holds f old w" and run: "PersistToDisk f w = (ok, w')"
  obtains (before) "\<not> ok" "fs_read (fk_path f) w' = Some (snapshot_text old)" "fs_read (TempPath f) w' = None"
  | (middle) n where "\<not> ok" "fs_read (TempPath f) w' = Some (take n (snapshot_text (fk_values f)))"
      "fs_read (JournalPath f) w' \<noteq> None"
  | (after) "fs_read (fk_path f) w' = Some (snapshot_text (fk_values f))" "fs_read (TempPath f) w' = None"
      "ok \<longrightarrow> fs_read (JournalPath f) w' = None"
proof (cases rule: write_file_cases [of "JournalPath f" "journal_text f" w])
  case (2 w1)
  with old run have "\<not> ok" "w' = w1" by (simp_all add: PersistToDisk_def WriteJournalUnlocked_def)
  with 2 old show thesis by (intro before) (simp_all add: disk_holds_def)
next
  case (3 w1 n)
  with old run have "\<not> ok" "w' = fs_put (JournalPath f) (take n (journal_text f)) w1"
    by (simp_all add: PersistToDisk_def WriteJournalUnlocked_def)
  with 3 old show thesis by (intro before) (simp_all add: disk_holds_def)
next
  case (1 w1)
  note journal = 1
  let ?w1 = "fs_put (JournalPath f) (journal_text f) w1"
  let ?new = "snapshot_text (fk_values f)"
  show thesis
  proof (cases rule: write_file_cases [of "TempPath f" ?new ?w1])
    case (2 w2)
    with journal old run have "\<not> ok" "w' = w2"
      by (simp_all add: PersistToDisk_def WriteJournalUnlocked_def WriteSnapshotUnlocked_def)
    with 2 journal old show thesis by (intro before) (simp_all add: disk_holds_def)
  next
    case (3 w2 n)
    with journal old run have "\<not> ok" "w' = fs_put (TempPath f) (take n ?new) w2"
      by (simp_all add: PersistToDisk_def WriteJournalUnlocked_def WriteSnapshotUnlocked_def)
    with 3 journal show thesis by (intro middle [of n]) simp_all
  next
    case (1 w2)
    note temp = 1
    let ?w2 = "fs_put (TempPath f) ?new w2"
    show thesis
    proof (cases rule: rename_file_cases [of "TempPath f" "fk_path f" ?w2])
      case (2 w3)
      with journal temp run have "\<not> ok" "w' = w3"
        by (simp_all add: PersistToDisk_def WriteJournalUnlocked_def WriteSnapshotUnlocked_def)
      with 2 temp journal show thesis by (intro middle [of "length ?new"]) simp_all
    next
      case (1 w3 t)
      let ?w3 = "fs_put (fk_path f) t (fs_drop (TempPath f) w3)"
      from 1 journal temp run have "remove_file (JournalPath f) ?w3 = (ok, w')" and "t = ?new"
        by (simp_all add: PersistToDisk_def WriteJournalUnlocked_def WriteSnapshotUnlocked_def)
      then show thesis
        by (cases rule: remove_file_cases [of "JournalPath f" ?w3]) (auto intro!: after)
    qed
  qed
qed

text \<open>A restart on a disk that works.\<close>

lemma quiet_script [simp]: "quiet (w\<lparr>script := []\<rparr>)"
  by (simp add: quiet_def)

lemma fs_read_script [simp]: "fs_read p (w\<lparr>script := s\<rparr>) = fs_read p w"
  by (simp add: fs_read_def)

lemma recover_after_temp:
  assumes "quiet w" "fs_read (TempPath f) w = Some t" "fs_read (JournalPath f) w \<noteq> None"
  shows "\<exists>w'. RecoverIfNeededUnlocked f w = (True, w') \<and> fs_read (fk_path f) w' = Some t"
proof -
  obtain r1 w1 where 1: "rename_file (TempPath f) (fk_path f) w = (r1, w1)" by fastforce
  obtain r2 w2 where 2: "remove_file (JournalPath f) w1 = (r2, w2)" by fastforce
  from rename_file_quiet [OF assms(1,2), where q = "fk_path f"]
  have q1: "r1" "quiet w1" "fs_read q w1 =
      (if q = fk_path f then Some t else if q = TempPath f then None else fs_read q w)" for q
    by (simp_all add: 1)
  obtain j where "fs_read (JournalPath f) w1 = Some j" using assms(3) by (auto simp: q1)
  from remove_file_quiet [OF q1(2) this] have "r2" "fs_read (fk_path f) w2 = Some t"
    by (simp_all add: 2 q1)
  with 1 2 q1 assms show ?thesis
    by (auto simp: RecoverIfNeededUnlocked_def FileExistsUnlocked_def)
qed

lemma recover_without_temp:
  assumes "quiet w" "fs_read (TempPath f) w = None"
  shows "\<exists>w'. RecoverIfNeededUnlocked f w = (True, w') \<and> fs_read (fk_path f) w' = fs_read (fk_path f) w"
proof (cases "fs_read (JournalPath f) w")
  case None
  with assms show ?thesis by (simp add: recover_clean)
next
  case (Some j)
  obtain r1 w1 where 1: "remove_file (JournalPath f) w = (r1, w1)" by fastforce
  from remove_file_quiet [OF assms(1) Some] have "r1" "fs_read (fk_path f) w1 = fs_read (fk_path f) w"
    by (simp_all add: 1)
  with 1 Some assms show ?thesis by (auto simp: RecoverIfNeededUnlocked_def FileExistsUnlocked_def)
qed

lemma recover_values [simp]:
  "RecoverIfNeededUnlocked (f\<lparr>fk_values := v\<rparr>) w = RecoverIfNeededUnlocked f w"
  by (simp add: RecoverIfNeededUnlocked_def Let_def split_beta)

lemma load_snapshot:
  assumes "\<exists>w'. RecoverIfNeededUnlocked f w = (True, w') \<and> fs_read (fk_path f) w' = Some (snapshot_text vals)"
    and "values_readable vals"
  shows "\<exists>w'. LoadFromDiskUnlocked (f, w) = (True, f\<lparr>fk_values := vals\<rparr>, w')"
  using assms by (auto intro!: load_from_recovered)

section \<open>Properties of the file store\<close>





text \<open>
  C40. The journal does not protect the snapshot while it is being written: it is in place
  before the temporary file is, so when the process stops after opening the temporary file and
  before writing to it, the next load installs the empty file, reports success and has lost
  every value.
\<close>

theorem torn_snapshot_loses_store:
  assumes "disk_holds f old w" and "script w = [NoFault, WriteFault 0]"
  shows "\<exists>w''. LoadFromDiskUnlocked (f, (snd (PersistToDisk f w))\<lparr>script := []\<rparr>) =
      (True, f\<lparr>fk_values := []\<rparr>, w'')"
proof -
  let ?w' = "snd (PersistToDisk f w)"
  have "fs_read (TempPath f) ?w' = Some []" "fs_read (JournalPath f) ?w' \<noteq> None"
    using assms(2)
    by (simp_all add: PersistToDisk_def WriteJournalUnlocked_def WriteSnapshotUnlocked_def
        write_file_def next_fault_def fs_put_def)
      (simp_all add: fs_read_def)
  then have "\<exists>w2. RecoverIfNeededUnlocked f (?w'\<lparr>script := []\<rparr>) = (True, w2) \<and>
      fs_read (fk_path f) w2 = Some []"
    by (intro recover_after_temp) auto
  then show ?thesis by (auto simp: LoadFromDiskUnlocked_def)
qed

theorem torn_snapshot_loses_store_witness:
  "let f = \<lparr>fk_path = ''s'', fk_values = [(''k'', \<lparr>me_value = ''new'', me_version = 2\<rparr>)]\<rparr>;
       old = [(''k'', \<lparr>me_value = ''old'', me_version = 1\<rparr>)];
       w = \<lparr>files = [(''s'', snapshot_text old)], dirs = [], script = [NoFault, WriteFault 0]\<rparr>
   in \<exists>w''. LoadFromDiskUnlocked (f, (snd (PersistToDisk f w))\<lparr>script := []\<rparr>) =
      (True, f\<lparr>fk_values := []\<rparr>, w'')"
  unfolding Let_def
  by (rule torn_snapshot_loses_store [of _ "[(''k'', \<lparr>me_value = ''old'', me_version = 1\<rparr>)]"])
    (simp_all add: disk_holds_def TempPath_def JournalPath_def fs_read_def umap_find_def)

text \<open>
  One refused conditional write on a key the store does not have makes the file unreadable
  after the next write to another key: the refused write leaves an entry with an empty value in
  memory, the next persist writes it out, and the reader cannot parse a line with an empty value.
\<close>

theorem refused_put_poisons_file:
  assumes "quiet (snd st)" and "umap_find (fk_values (fst st)) k = None" and "n \<noteq> 0" and "q \<noteq> k"
  shows "\<not> fst (file_PutIfVersion k n v st) \<and>
      fst (file_Put q u (snd (file_PutIfVersion k n v st))) \<and>
      \<not> fst (file_Reload (snd (file_Put q u (snd (file_PutIfVersion k n v st)))))"
proof -
  let ?vals1 = "umap_set (fk_values (fst st)) k new_entry"
  let ?st1 = "((fst st)\<lparr>fk_values := ?vals1\<rparr>, snd st)"
  have 1: "file_PutIfVersion k n v st = (False, ?st1)"
    using assms(2,3) by (simp add: file_PutIfVersion_def mem_touch_def new_entry_def)
  obtain e vals2 where touch: "mem_touch ?vals1 q = (e, vals2)" by fastforce
  let ?vals3 = "umap_set vals2 q (bump_entry e u)"
  have 2: "file_Put q u ?st1 = persist_values ?vals3 ?st1"
    by (simp add: file_Put_def touch)
  have q1: "quiet (snd ?st1)" using assms(1) by simp
  note persisted = persist_values_quiet [OF q1, of ?vals3]
  have "umap_find ?vals3 k = Some new_entry"
    using mem_Get_touch [OF touch, of k] assms(4) by simp
  then have "(k, new_entry) \<in> set ?vals3" by (simp add: umap_find_def map_of_SomeD)
  then have empty: "\<exists>p \<in> set ?vals3. me_value (snd p) = []"
    by (auto simp: new_entry_def intro!: bexI [of _ "(k, new_entry)"])
  obtain f3 w3 where st3: "snd (persist_values ?vals3 ?st1) = (f3, w3)" by fastforce
  with persisted(3,4) have "disk_holds f3 ?vals3 w3"
    by (simp add: disk_holds_def TempPath_def JournalPath_def)
  from load_disk_empty_value [OF this empty] persisted(1) show ?thesis
    by (simp add: 1 2 file_Reload_def st3)
qed

theorem refused_put_poisons_file_witness:
  "let st = (\<lparr>fk_path = ''s'', fk_values = []\<rparr>, \<lparr>files = [], dirs = [], script = []\<rparr>)
   in \<not> fst (file_PutIfVersion ''k'' 7 ''v'' st) \<and>
      fst (file_Put ''q'' ''u'' (snd (file_PutIfVersion ''k'' 7 ''v'' st))) \<and>
      \<not> fst (file_Reload (snd (file_Put ''q'' ''u'' (snd (file_PutIfVersion ''k'' 7 ''v'' st)))))"
  unfolding Let_def by (rule refused_put_poisons_file) (simp_all add: quiet_def)

text \<open>
  A batch that reports failure because its persist failed has taken effect in memory all
  the same: readers see every write of a commit that the caller takes for aborted.
\<close>

theorem failed_persist_keeps_writes:
  assumes "\<not> fst (PersistToDisk ((fst st)\<lparr>fk_values := mem_write_all ws (fk_values (fst st))\<rparr>) (snd st))"
    and "checks_hold cs (file_Get (fst st))"
  shows "\<not> fst (file_BatchPutIfVersion cs ws st) \<and>
      file_Get (fst (snd (file_BatchPutIfVersion cs ws st))) = view_puts ws (file_Get (fst st))"
proof -
  have "file_BatchPutIfVersion cs ws st = persist_values (mem_write_all ws (fk_values (fst st))) st"
    using assms(2) by (simp add: file_BatchPutIfVersion_def mem_check_all_iff file_Get_mem)
  with assms(1) show ?thesis
    by (simp add: persist_values_def Let_def split_beta file_Get_mem mem_write_all_view)
qed

theorem failed_persist_keeps_writes_witness:
  "let st = (\<lparr>fk_path = ''s'', fk_values = []\<rparr>, \<lparr>files = [], dirs = [], script = [OpenFault]\<rparr>);
       ws = [\<lparr>wo_key = ''k'', wo_value = ''v''\<rparr>]
   in \<not> fst (file_BatchPutIfVersion [] ws st) \<and>
      file_Get (fst (snd (file_BatchPutIfVersion [] ws st))) = view_puts ws (file_Get (fst st))"
  unfolding Let_def
  by (rule failed_persist_keeps_writes)
    (simp_all add: PersistToDisk_def WriteJournalUnlocked_def write_file_def next_fault_def)

end
