(* ===== verification/Store_Factory.thy ===== *)
theory Store_Factory
  imports File_Store
begin

text \<open>
  \<open>storage/rocksdb_adapter.h\<close>, the compatibility adapter over \<open>FileKVStore\<close>;
  \<open>storage/store_factory.h\<close>, which builds a backend from a configuration; and
  \<open>storage/store_config_io.h\<close>, the exported configuration.
\<close>

section \<open>RocksDbAdapter\<close>

record RocksDbAdapter =
  rk_root_path :: string
  rk_column_family :: string
  rk_fallback_store :: FileKVStore

definition rocks_StoreFilePath :: "string \<Rightarrow> string" where
  "rocks_StoreFilePath root_path = root_path @ ''/CURRENT.tsv''"

definition rocks_ManifestPath :: "RocksDbAdapter \<Rightarrow> string" where
  "rocks_ManifestPath r = rk_root_path r @ ''/MANIFEST.txt''"

text \<open>\<open>mkdir\<close>, its result ignored.\<close>

definition rocks_EnsureDirectory :: "string \<Rightarrow> world \<Rightarrow> world" where
  "rocks_EnsureDirectory root_path w =
     (case next_fault w of
        (NoFault, w') \<Rightarrow> (if root_path \<in> set (dirs w') then w' else w'\<lparr>dirs := dirs w' @ [root_path]\<rparr>)
      | (_, w') \<Rightarrow> w')"

definition rocks_WriteManifest :: "RocksDbAdapter \<Rightarrow> world \<Rightarrow> world" where
  "rocks_WriteManifest r w =
     snd (write_file (rocks_ManifestPath r)
       (put_lines [''engine=rocksdb_compat'', ''column_family='' @ rk_column_family r,
          ''current='' @ rocks_StoreFilePath (rk_root_path r)]) w)"

text \<open>The members are initialised in order, so the file is loaded before the directory is made.\<close>

definition NewRocksDbAdapter :: "string \<Rightarrow> string \<Rightarrow> world \<Rightarrow> RocksDbAdapter sys" where
  "NewRocksDbAdapter path column_family w =
     (let root_path = (if path = [] then ''/tmp/data_agent_system_rocksdb'' else path);
          (fallback, w) = NewFileKVStore (rocks_StoreFilePath root_path) w;
          r = \<lparr>rk_root_path = root_path, rk_column_family = column_family, rk_fallback_store = fallback\<rparr>
      in (r, rocks_WriteManifest r (rocks_EnsureDirectory root_path w)))"

text \<open>Every write makes the directory and the manifest again, then runs on the file store.\<close>

definition rocks_forward ::
    "(FileKVStore sys \<Rightarrow> bool \<times> FileKVStore sys) \<Rightarrow> RocksDbAdapter sys \<Rightarrow> bool \<times> RocksDbAdapter sys" where
  "rocks_forward f st =
     (let r = fst st;
          w = rocks_WriteManifest r (rocks_EnsureDirectory (rk_root_path r) (snd st));
          (ok, fallback, w) = f (rk_fallback_store r, w)
      in (ok, r\<lparr>rk_fallback_store := fallback\<rparr>, w))"

definition rocks_Get :: "RocksDbAdapter \<Rightarrow> string \<Rightarrow> VersionedValue" where
  "rocks_Get r key = file_Get (rk_fallback_store r) key"

definition rocks_GetVersion :: "RocksDbAdapter \<Rightarrow> string \<Rightarrow> u64" where
  "rocks_GetVersion r key = file_GetVersion (rk_fallback_store r) key"

definition rocks_Put :: "string \<Rightarrow> string \<Rightarrow> RocksDbAdapter sys \<Rightarrow> bool \<times> RocksDbAdapter sys" where
  "rocks_Put key v = rocks_forward (file_Put key v)"

definition rocks_PutIfVersion ::
    "string \<Rightarrow> u64 \<Rightarrow> string \<Rightarrow> RocksDbAdapter sys \<Rightarrow> bool \<times> RocksDbAdapter sys" where
  "rocks_PutIfVersion key expected_version v = rocks_forward (file_PutIfVersion key expected_version v)"

definition rocks_DeleteIfVersion ::
    "string \<Rightarrow> u64 \<Rightarrow> RocksDbAdapter sys \<Rightarrow> bool \<times> RocksDbAdapter sys" where
  "rocks_DeleteIfVersion key expected_version = rocks_forward (file_DeleteIfVersion key expected_version)"

definition rocks_BatchPutIfVersion ::
    "VersionCheck list \<Rightarrow> WriteOp list \<Rightarrow> RocksDbAdapter sys \<Rightarrow> bool \<times> RocksDbAdapter sys" where
  "rocks_BatchPutIfVersion checks writes = rocks_forward (file_BatchPutIfVersion checks writes)"

definition rocksdb_store :: "RocksDbAdapter VersionedKVStore" where
  "rocksdb_store =
     \<lparr>SupportsAtomicBatchConditionalWrite = True,
      kv_Get = rocks_Get, kv_GetVersion = rocks_GetVersion, kv_Put = rocks_Put,
      kv_PutIfVersion = rocks_PutIfVersion, kv_DeleteIfVersion = rocks_DeleteIfVersion,
      kv_BatchPutIfVersion = rocks_BatchPutIfVersion\<rparr>"

lemma rocksdb_store_ops [simp]:
  "SupportsAtomicBatchConditionalWrite rocksdb_store"
  "kv_Get rocksdb_store = rocks_Get"
  "kv_GetVersion rocksdb_store = rocks_GetVersion"
  "kv_Put rocksdb_store = rocks_Put"
  "kv_PutIfVersion rocksdb_store = rocks_PutIfVersion"
  "kv_DeleteIfVersion rocksdb_store = rocks_DeleteIfVersion"
  "kv_BatchPutIfVersion rocksdb_store = rocks_BatchPutIfVersion"
  by (simp_all add: rocksdb_store_def)

definition rocks_prepare :: "RocksDbAdapter sys \<Rightarrow> FileKVStore sys" where
  "rocks_prepare st = (rk_fallback_store (fst st),
     rocks_WriteManifest (fst st) (rocks_EnsureDirectory (rk_root_path (fst st)) (snd st)))"

lemma rocks_EnsureDirectory_quiet: "quiet w \<Longrightarrow> quiet (rocks_EnsureDirectory d w)"
  using next_fault_quiet_ex [of w] by (auto simp: rocks_EnsureDirectory_def quiet_def split: if_splits)

lemma rocks_prepare_quiet: "quiet (snd st) \<Longrightarrow> quiet (snd (rocks_prepare st))"
  by (simp add: rocks_prepare_def rocks_WriteManifest_def write_file_quiet rocks_EnsureDirectory_quiet)

lemma rocks_prepare_store [simp]: "fst (rocks_prepare st) = rk_fallback_store (fst st)"
  by (simp add: rocks_prepare_def)

lemma rocks_forward_simps:
  "fst (rocks_forward f st) = fst (f (rocks_prepare st))"
  "rocks_Get (fst (snd (rocks_forward f st))) = file_Get (fst (snd (f (rocks_prepare st))))"
  "snd (snd (rocks_forward f st)) = snd (snd (f (rocks_prepare st)))"
  by (simp_all add: rocks_forward_def rocks_prepare_def rocks_Get_def Let_def split_beta fun_eq_iff)

lemmas rocks_defs = rocks_Put_def rocks_PutIfVersion_def rocks_DeleteIfVersion_def
  rocks_BatchPutIfVersion_def rocks_forward_simps

lemma rocks_Get_file: "rocks_Get r = file_Get (rk_fallback_store r)"
  by (rule ext) (simp add: rocks_Get_def)

lemma rocks_views:
  assumes "quiet (snd st)"
  shows "fst (rocks_Put k v st)"
    "rocks_Get (fst (snd (rocks_Put k v st))) = view_put k v (rocks_Get (fst st))"
    "fst (rocks_PutIfVersion k n v st) \<longleftrightarrow> vv_version (rocks_Get (fst st) k) = n"
    "vv_version (rocks_Get (fst st) k) = n \<Longrightarrow>
       rocks_Get (fst (snd (rocks_PutIfVersion k n v st))) = view_put k v (rocks_Get (fst st))"
    "fst (rocks_DeleteIfVersion k n st) \<longleftrightarrow> vv_version (rocks_Get (fst st) k) = n"
    "vv_version (rocks_Get (fst st) k) = n \<Longrightarrow>
       rocks_Get (fst (snd (rocks_DeleteIfVersion k n st))) = view_delete k (rocks_Get (fst st))"
    "vv_version (rocks_Get (fst st) k) \<noteq> n \<Longrightarrow>
       rocks_Get (fst (snd (rocks_DeleteIfVersion k n st))) = rocks_Get (fst st)"
    "fst (rocks_BatchPutIfVersion cs ws st) \<longleftrightarrow> checks_hold cs (rocks_Get (fst st))"
    "rocks_Get (fst (snd (rocks_BatchPutIfVersion cs ws st))) =
       (if checks_hold cs (rocks_Get (fst st)) then view_puts ws (rocks_Get (fst st))
        else rocks_Get (fst st))"
  unfolding rocks_defs unfolding rocks_Get_file
  using rocks_prepare_quiet [OF assms] by (simp_all add: file_views)

lemma rocks_put_if_miss:
  "vv_version (rocks_Get (fst st) k) \<noteq> n \<Longrightarrow>
     same_content (rocks_Get (fst (snd (rocks_PutIfVersion k n v st)))) (rocks_Get (fst st)) \<and>
     (\<forall>q. q \<noteq> k \<longrightarrow> rocks_Get (fst (snd (rocks_PutIfVersion k n v st))) q = rocks_Get (fst st) q)"
  unfolding rocks_defs unfolding rocks_Get_file
  using file_views(5) [of "rocks_prepare st" k n v] by simp

lemma rocks_absent: "\<not> vv_exists (rocks_Get r k) \<Longrightarrow> rocks_Get r k = no_value"
  by (simp add: rocks_Get_def file_absent)

lemma rocks_GetVersion_Get: "rocks_GetVersion r k = vv_version (rocks_Get r k)"
  by (simp add: rocks_GetVersion_def file_GetVersion_def rocks_Get_def)

lemma rocks_quiet:
  assumes "quiet (snd st)"
  shows "quiet (snd (snd (rocks_Put k v st)))" "quiet (snd (snd (rocks_PutIfVersion k n v st)))"
    "quiet (snd (snd (rocks_DeleteIfVersion k n st)))" "quiet (snd (snd (rocks_BatchPutIfVersion cs ws st)))"
  unfolding rocks_defs using rocks_prepare_quiet [OF assms] by (simp_all add: file_ops_quiet)

interpretation rocks_kv: batch_store rocksdb_store "\<lambda>st. quiet (snd st)"
  by unfold_locales
    (simp_all add: rocks_views rocks_put_if_miss rocks_quiet rocks_GetVersion_Get rocks_absent)

section \<open>The store factory\<close>

datatype StoreKind = kMemory | kFile | kRocksDb | kRedis

record StoreConfig =
  sc_kind :: StoreKind
  sc_path :: string
  sc_namespace_prefix :: string
  sc_host :: string
  sc_port :: "16 word"
  sc_database_index :: "32 word"
  sc_column_family :: string

definition default_StoreConfig :: StoreConfig where
  "default_StoreConfig =
     \<lparr>sc_kind = kMemory, sc_path = [], sc_namespace_prefix = [], sc_host = ''127.0.0.1'',
      sc_port = 0, sc_database_index = 0, sc_column_family = ''default''\<rparr>"

fun StoreKindName :: "StoreKind \<Rightarrow> string" where
  "StoreKindName kMemory = ''memory''"
| "StoreKindName kFile = ''file''"
| "StoreKindName kRocksDb = ''rocksdb''"
| "StoreKindName kRedis = ''redis''"

text \<open>The output parameter and the boolean are one option.\<close>

definition ParseStoreKind :: "string \<Rightarrow> StoreKind option" where
  "ParseStoreKind name =
     (if name = ''memory'' then Some kMemory
      else if name = ''file'' then Some kFile
      else if name = ''rocksdb'' then Some kRocksDb
      else if name = ''redis'' then Some kRedis
      else None)"

text \<open>A \<open>unique_ptr<VersionedKVStore>\<close>: the object with the class it was made with.\<close>

datatype AnyStore =
    AMemory MemoryKVStore
  | AFile FileKVStore
  | ARocksDb RocksDbAdapter
  | ARedis RedisAdapter

definition CreateStore :: "StoreConfig \<Rightarrow> world \<Rightarrow> AnyStore \<times> world" where
  "CreateStore config w =
     (case sc_kind config of
        kMemory \<Rightarrow> (AMemory [], w)
      | kFile \<Rightarrow>
          (let path = (if sc_path config = [] then ''/tmp/data_agent_system_store.tsv'' else sc_path config);
               (f, w) = NewFileKVStore path w
           in (AFile f, w))
      | kRocksDb \<Rightarrow>
          (let path = (if sc_path config = [] then ''/tmp/data_agent_system_rocksdb'' else sc_path config);
               (r, w) = NewRocksDbAdapter path (sc_column_family config) w
           in (ARocksDb r, w))
      | kRedis \<Rightarrow>
          (ARedis (NewRedisAdapter (sc_host config) (sc_port config) (sc_database_index config)
             (sc_namespace_prefix config)), w))"

text \<open>The dynamic dispatch of a virtual \<open>Get\<close> on the object.\<close>

fun any_Get :: "AnyStore \<Rightarrow> view" where
  "any_Get (AMemory m) = kv_Get memory_store m"
| "any_Get (AFile f) = kv_Get file_store f"
| "any_Get (ARocksDb r) = kv_Get rocksdb_store r"
| "any_Get (ARedis r) = kv_Get redis_store r"

definition kStoreConfigHeader :: string where
  "kStoreConfigHeader = ''DAS_STORE_CONFIG_V1''"

definition EscapeStoreConfigText :: "string \<Rightarrow> string" where
  "EscapeStoreConfigText s = escape_text s"

interpretation config_codec: text_codec EscapeStoreConfigText unescape_text
  by unfold_locales (simp_all add: EscapeStoreConfigText_def escape.codec_simps)

definition store_config_lines :: "StoreConfig \<Rightarrow> string list" where
  "store_config_lines config =
     [kStoreConfigHeader,
      ''kind='' @ StoreKindName (sc_kind config),
      ''path='' @ EscapeStoreConfigText (sc_path config),
      ''namespace_prefix='' @ EscapeStoreConfigText (sc_namespace_prefix config),
      ''host='' @ EscapeStoreConfigText (sc_host config),
      ''port='' @ nat_dec (unat (sc_port config)),
      ''database_index='' @ int_dec (sint (sc_database_index config)),
      ''column_family='' @ EscapeStoreConfigText (sc_column_family config)]"

definition WriteStoreConfigArtifact :: "StoreConfig \<Rightarrow> string \<Rightarrow> world \<Rightarrow> bool \<times> world" where
  "WriteStoreConfigArtifact config output_path w =
     (let (r, w) = write_file output_path (put_lines (store_config_lines config)) w
      in (r = Written, w))"

lemma StoreKindName_clean: "NL \<notin> set (StoreKindName k)"
  by (cases k) simp_all

lemma StoreKindName_inj: "StoreKindName k = StoreKindName l \<Longrightarrow> k = l"
  by (cases k; cases l) simp_all

text \<open>
  The kind names are a faithful external form of the store kinds: parsing accepts exactly
  the four names, and parsing the name of a kind gives the kind.
\<close>

theorem ParseStoreKind_roundtrip: "ParseStoreKind name = Some k \<longleftrightarrow> name = StoreKindName k"
  by (cases k) (auto simp: ParseStoreKind_def)

lemma store_config_lines_clean: "l \<in> set (store_config_lines c) \<Longrightarrow> NL \<notin> set l"
  by (auto simp: store_config_lines_def kStoreConfigHeader_def StoreKindName_clean nat_dec_clean
      config_codec.enc_no_NL)

lemma int_dec_inj: "int_dec i = int_dec j \<Longrightarrow> i = j"
proof -
  assume eq: "int_dec i = int_dec j"
  have hd: "hd (nat_dec n) \<noteq> CHR ''-''" for n
    by (rule nat_dec_hd [of n]) (use is_digit_not_special in auto)
  show "i = j"
  proof (cases "i < 0"; cases "j < 0")
    show "i < 0 \<Longrightarrow> j < 0 \<Longrightarrow> i = j"
      using eq by (auto simp: int_dec_def dest!: nat_dec_inj)
    show "\<not> i < 0 \<Longrightarrow> \<not> j < 0 \<Longrightarrow> i = j"
      using eq by (auto simp: int_dec_def dest!: nat_dec_inj)
    show "i < 0 \<Longrightarrow> \<not> j < 0 \<Longrightarrow> i = j"
      using eq hd [of "nat j"] by (metis int_dec_def list.sel(1))
    show "\<not> i < 0 \<Longrightarrow> j < 0 \<Longrightarrow> i = j"
      using eq hd [of "nat i"] by (metis int_dec_def list.sel(1))
  qed
qed

lemma store_config_lines_inj:
  assumes "store_config_lines c = store_config_lines d"
  shows "c = d"
proof -
  have "sc_kind c = sc_kind d"
    using assms by (auto simp: store_config_lines_def intro: StoreKindName_inj)
  moreover have "sc_port c = sc_port d"
    using assms by (auto simp: store_config_lines_def word_unat_eq_iff dest: nat_dec_inj)
  moreover have "sc_database_index c = sc_database_index d"
    using assms by (auto simp: store_config_lines_def intro: signed_word_eqI dest: int_dec_inj)
  ultimately show ?thesis
    using assms
    by (cases c; cases d) (auto simp: store_config_lines_def dest: config_codec.enc_inj)
qed

text \<open>
  A configuration is recoverable from its artifact: two configurations whose artifacts have
  the same text are equal, whatever separators and newlines their fields contain.
\<close>

theorem store_config_artifact_injective:
  "put_lines (store_config_lines c) = put_lines (store_config_lines d) \<longleftrightarrow> c = d"
  by (metis getlines_put_lines store_config_lines_clean store_config_lines_inj)

end
