(* ===== verification/Txn.thy ===== *)
theory Txn
  imports Rebase Store_Factory
begin

text \<open>
  \<open>agent_txn/agent_txn_context.h\<close>, \<open>validation_manager.h\<close> and the transaction-wide part of
  \<open>rollback_manager.h\<close>.
\<close>

datatype TxnStatus = TxnRunning | TxnCommitted | TxnAborted

record ValidationResult =
  vr_success :: bool
  vr_reason :: string

definition default_ValidationResult :: ValidationResult where
  "default_ValidationResult = \<lparr>vr_success = False, vr_reason = []\<rparr>"

record CommitLogEntry =
  cle_key :: string
  cle_value :: string
  cle_expected_version :: u64

type_synonym CommitLog = "CommitLogEntry list"

record TxnMetrics =
  tm_branch_count :: nat
  tm_planned_loser_count :: nat
  tm_winner_commit_count :: nat
  tm_real_abort_count :: nat
  tm_conflict_abort_count :: nat
  tm_validation_fail_count :: nat
  tm_retry_count :: nat
  tm_commit_latency_us :: double

definition default_TxnMetrics :: TxnMetrics where
  "default_TxnMetrics =
     \<lparr>tm_branch_count = 0, tm_planned_loser_count = 0, tm_winner_commit_count = 0,
      tm_real_abort_count = 0, tm_conflict_abort_count = 0, tm_validation_fail_count = 0,
      tm_retry_count = 0, tm_commit_latency_us = DFin 0\<rparr>"

record FallbackCommitConfig =
  fcc_artifact_path :: string
  fcc_simulate_crash_after_apply_count :: nat

record AgentTxnContext =
  tx_txn_id :: string
  tx_task_id :: string
  tx_status :: TxnStatus
  tx_branches :: "BranchContext list"
  tx_winner_branch_id :: string
  tx_commit_log :: CommitLog
  tx_validation_result :: ValidationResult
  tx_metrics :: TxnMetrics
  tx_fallback_commit :: FallbackCommitConfig

section \<open>ValidationManager\<close>

definition latest_intents :: "IntentLog \<Rightarrow> (string, WriteIntent) umap" where
  "latest_intents intents = fold (\<lambda>intent m. umap_set m (wi_object_id intent) intent) intents []"

definition latest_intent_types :: "IntentLog \<Rightarrow> (string, IntentType) umap" where
  "latest_intent_types intents =
     fold (\<lambda>intent m. umap_set m (wi_object_id intent) (wi_intent_type intent)) intents []"

text \<open>The loop over the read set; it stops at the first read that fails.\<close>

fun validate_reads ::
    "(string, IntentType) umap \<Rightarrow> (string \<Rightarrow> u64) \<Rightarrow> ReadSet \<Rightarrow> ValidationResult" where
  "validate_reads latest store_GetVersion [] = \<lparr>vr_success = True, vr_reason = []\<rparr>"
| "validate_reads latest store_GetVersion (read # reads) =
     (case umap_find latest (rd_object_id read) of
        Some t \<Rightarrow>
          if UsesSemanticRebase t then validate_reads latest store_GetVersion reads
          else if store_GetVersion (rd_object_id read) \<noteq> rd_observed_version read
          then \<lparr>vr_success = False, vr_reason = ''strict validation failed for '' @ rd_object_id read\<rparr>
          else validate_reads latest store_GetVersion reads
      | None \<Rightarrow>
          if store_GetVersion (rd_object_id read) \<noteq> rd_observed_version read
          then \<lparr>vr_success = False, vr_reason = ''strict validation failed for '' @ rd_object_id read\<rparr>
          else validate_reads latest store_GetVersion reads)"

definition vm_ValidateWinner :: "BranchContext \<Rightarrow> (string \<Rightarrow> u64) \<Rightarrow> ValidationResult" where
  "vm_ValidateWinner winner store_GetVersion =
     validate_reads (latest_intent_types (bc_intent_log winner)) store_GetVersion (bc_read_set winner)"

section \<open>RollbackManager::AbortTransaction\<close>

definition rm_AbortTransaction :: "AgentTxnContext \<Rightarrow> AgentTxnContext" where
  "rm_AbortTransaction txn =
     txn\<lparr>tx_status := TxnAborted, tx_branches := map rm_DiscardBranch (tx_branches txn)\<rparr>"

section \<open>What validation establishes\<close>

definition latest_intent :: "IntentLog \<Rightarrow> string \<Rightarrow> WriteIntent option" where
  "latest_intent intents k = find (\<lambda>i. wi_object_id i = k) (rev intents)"

lemma latest_intents_find: "umap_find (latest_intents is) k = latest_intent is k"
  by (induction "is" rule: rev_induct) (auto simp: latest_intents_def latest_intent_def)

lemma latest_intent_types_find:
  "umap_find (latest_intent_types is) k = map_option wi_intent_type (latest_intent is k)"
  by (induction "is" rule: rev_induct) (auto simp: latest_intent_types_def latest_intent_def)

text \<open>A read is strict when no later semantic write of the branch covers its object.\<close>

definition strict_read :: "BranchContext \<Rightarrow> ReadRecord \<Rightarrow> bool" where
  "strict_read b r \<longleftrightarrow>
     (case latest_intent (bc_intent_log b) (rd_object_id r) of
        None \<Rightarrow> True | Some i \<Rightarrow> \<not> UsesSemanticRebase (wi_intent_type i))"

lemma validate_reads_success:
  "vr_success (validate_reads m G rs) \<longleftrightarrow>
     (\<forall>r \<in> set rs. (case umap_find m (rd_object_id r) of None \<Rightarrow> True | Some t \<Rightarrow> \<not> UsesSemanticRebase t) \<longrightarrow>
        G (rd_object_id r) = rd_observed_version r)"
  by (induction rs) (auto split: option.splits)

lemma vm_ValidateWinner_success:
  "vr_success (vm_ValidateWinner b G) \<longleftrightarrow>
     (\<forall>r \<in> set (bc_read_set b). strict_read b r \<longrightarrow> G (rd_object_id r) = rd_observed_version r)"
  by (auto simp: vm_ValidateWinner_def validate_reads_success strict_read_def latest_intent_types_find
      split: option.splits)

lemma validate_reads_reason: "vr_success (validate_reads m G rs) \<longleftrightarrow> vr_reason (validate_reads m G rs) = []"
  by (induction rs) (auto split: option.splits)

text \<open>
  Validation is exact: it succeeds if and only if every strict read of the winner (one whose
  object the branch has not last written with an append, delta or CAS) still has in the store
  the version the branch observed; on failure it names the object of the first such read that
  does not.
\<close>

theorem validation_is_exact:
  "(vr_success (vm_ValidateWinner b G) \<longleftrightarrow>
      (\<forall>r \<in> set (bc_read_set b). strict_read b r \<longrightarrow> G (rd_object_id r) = rd_observed_version r)) \<and>
   vr_reason (vm_ValidateWinner b G) =
     (case find (\<lambda>r. strict_read b r \<and> G (rd_object_id r) \<noteq> rd_observed_version r) (bc_read_set b) of
        None \<Rightarrow> []
      | Some r \<Rightarrow> ''strict validation failed for '' @ rd_object_id r)"
proof -
  have "vr_reason (validate_reads (latest_intent_types (bc_intent_log b)) G rs) =
     (case find (\<lambda>r. strict_read b r \<and> G (rd_object_id r) \<noteq> rd_observed_version r) rs of
        None \<Rightarrow> [] | Some r \<Rightarrow> ''strict validation failed for '' @ rd_object_id r)" for rs
    by (induction rs) (auto simp: strict_read_def latest_intent_types_find split: option.splits)
  then show ?thesis by (simp add: vm_ValidateWinner_success) (simp add: vm_ValidateWinner_def)
qed

theorem validation_is_exact_witness:
  "let b = snd (bm_ReadObject ''k'' (\<lambda>_. no_value) (new_BranchContext ''b'')) in
   vr_success (vm_ValidateWinner b (\<lambda>_. 0)) \<and> \<not> vr_success (vm_ValidateWinner b (\<lambda>_. 1))"
proof -
  let ?b = "snd (bm_ReadObject ''k'' (\<lambda>_. no_value) (new_BranchContext ''b''))"
  have r: "bc_read_set ?b = [\<lparr>rd_object_id = ''k'', rd_observed_version = 0\<rparr>]" "bc_intent_log ?b = []"
    by (simp_all add: bm_ReadObject_def Let_def new_BranchContext_def empty_WriteBuffer_def wb_Find_def
        rs_Record_def no_value_def)
  then have "strict_read ?b \<lparr>rd_object_id = ''k'', rd_observed_version = 0\<rparr>"
    by (simp add: strict_read_def latest_intent_def)
  then show ?thesis
    using validation_is_exact [of ?b "\<lambda>_. 0"] validation_is_exact [of ?b "\<lambda>_. 1"] by (simp add: r Let_def)
qed

end
