(* ===== verification/Fallback_Log.thy ===== *)
theory Fallback_Log
  imports Txn "HOL-Library.Monad_Syntax"
begin

text \<open>
  \<open>agent_txn/fallback_commit_log.h\<close>: the artifact that records a commit on a store without
  atomic batches, its text, and the write that replaces the file through a temporary one.
\<close>

definition kFallbackCommitHeader :: string where
  "kFallbackCommitHeader = ''DAS_FALLBACK_COMMIT_V1''"

datatype FallbackCommitPhase = FbPrepared | FbApplying | FbRollingBack | FbCommitted | FbRolledBack

record FallbackCommitEntry =
  fe_key :: string
  fe_expected_version :: u64
  fe_target_value :: string
  fe_previous_value :: string
  fe_previous_version :: u64
  fe_previous_exists :: bool

record FallbackCommitArtifact =
  fa_txn_id :: string
  fa_task_id :: string
  fa_phase :: FallbackCommitPhase
  fa_applied_count :: nat
  fa_entries :: "FallbackCommitEntry list"

definition default_FallbackCommitArtifact :: FallbackCommitArtifact where
  "default_FallbackCommitArtifact =
     \<lparr>fa_txn_id = [], fa_task_id = [], fa_phase = FbPrepared, fa_applied_count = 0, fa_entries = []\<rparr>"

fun FallbackCommitPhaseName :: "FallbackCommitPhase \<Rightarrow> string" where
  "FallbackCommitPhaseName FbPrepared = ''PREPARED''"
| "FallbackCommitPhaseName FbApplying = ''APPLYING''"
| "FallbackCommitPhaseName FbRollingBack = ''ROLLING_BACK''"
| "FallbackCommitPhaseName FbCommitted = ''COMMITTED''"
| "FallbackCommitPhaseName FbRolledBack = ''ROLLED_BACK''"

definition FallbackCommitPhaseFromName :: "string \<Rightarrow> FallbackCommitPhase" where
  "FallbackCommitPhaseFromName name =
     (if name = ''APPLYING'' then FbApplying
      else if name = ''ROLLING_BACK'' then FbRollingBack
      else if name = ''COMMITTED'' then FbCommitted
      else if name = ''ROLLED_BACK'' then FbRolledBack
      else FbPrepared)"

lemma PhaseFromName_Name [simp]: "FallbackCommitPhaseFromName (FallbackCommitPhaseName p) = p"
  by (cases p) (simp_all add: FallbackCommitPhaseFromName_def)

section \<open>Writing\<close>

definition EscapeCommitLogText :: "string \<Rightarrow> string" where
  "EscapeCommitLogText s = escape_text s"

definition UnescapeCommitLogText :: "string \<Rightarrow> string" where
  "UnescapeCommitLogText s = unescape_text s"

interpretation commit_codec: text_codec EscapeCommitLogText UnescapeCommitLogText
  by unfold_locales
    (simp_all add: EscapeCommitLogText_def UnescapeCommitLogText_def escape.codec_simps)

definition fallback_entry_line :: "FallbackCommitEntry \<Rightarrow> string" where
  "fallback_entry_line entry =
     EscapeCommitLogText (fe_key entry) @ TAB #
     u64_dec (fe_expected_version entry) @ TAB #
     EscapeCommitLogText (fe_target_value entry) @ TAB #
     EscapeCommitLogText (fe_previous_value entry) @ TAB #
     u64_dec (fe_previous_version entry) @ TAB #
     (if fe_previous_exists entry then ''1'' else ''0'')"

definition fallback_artifact_text :: "FallbackCommitArtifact \<Rightarrow> string" where
  "fallback_artifact_text artifact = put_lines
     ([kFallbackCommitHeader,
       ''txn_id='' @ EscapeCommitLogText (fa_txn_id artifact),
       ''task_id='' @ EscapeCommitLogText (fa_task_id artifact),
       ''phase='' @ FallbackCommitPhaseName (fa_phase artifact),
       ''applied_count='' @ nat_dec (fa_applied_count artifact),
       ''entry_count='' @ nat_dec (length (fa_entries artifact)),
       ''[entries]''] @ map fallback_entry_line (fa_entries artifact))"

definition WriteFallbackCommitArtifact :: "FallbackCommitArtifact \<Rightarrow> string \<Rightarrow> world \<Rightarrow> bool \<times> world" where
  "WriteFallbackCommitArtifact artifact output_path w =
     (let temp_path = output_path @ ''.tmp'';
          (r, w) = write_file temp_path (fallback_artifact_text artifact) w in
      case r of
        NotOpened \<Rightarrow> (False, w)
      | NotGood \<Rightarrow> (False, snd (remove_file temp_path w))
      | Written \<Rightarrow>
          (let (renamed, w) = rename_file temp_path output_path w in
           if \<not> renamed then (False, snd (remove_file temp_path w)) else (True, w)))"

section \<open>Parsing\<close>

definition parse_fallback_meta :: "string \<Rightarrow> FallbackCommitArtifact \<Rightarrow> FallbackCommitArtifact option" where
  "parse_fallback_meta line artifact =
     (case split_eq line of
        None \<Rightarrow> None
      | Some (key, v) \<Rightarrow>
          Some (if key = ''txn_id'' then artifact\<lparr>fa_txn_id := v\<rparr>
                else if key = ''task_id'' then artifact\<lparr>fa_task_id := v\<rparr>
                else if key = ''phase'' then artifact\<lparr>fa_phase := FallbackCommitPhaseFromName v\<rparr>
                else if key = ''applied_count'' then artifact\<lparr>fa_applied_count := strtoull v\<rparr>
                else artifact))"

definition parse_fallback_entry :: "string \<Rightarrow> FallbackCommitEntry option" where
  "parse_fallback_entry line = do {
     (encoded_key, rest) \<leftarrow> getline TAB line;
     (expected_version_text, rest) \<leftarrow> getline TAB rest;
     (encoded_target_value, rest) \<leftarrow> getline TAB rest;
     (encoded_previous_value, rest) \<leftarrow> getline TAB rest;
     (previous_version_text, rest) \<leftarrow> getline TAB rest;
     (previous_exists_text, rest) \<leftarrow> getline NL rest;
     Some \<lparr>fe_key = encoded_key,
           fe_expected_version = of_nat (strtoull expected_version_text),
           fe_target_value = encoded_target_value,
           fe_previous_value = encoded_previous_value,
           fe_previous_version = of_nat (strtoull previous_version_text),
           fe_previous_exists = (previous_exists_text = ''1'')\<rparr>}"

fun parse_fallback_lines ::
    "bool \<Rightarrow> string list \<Rightarrow> FallbackCommitArtifact \<Rightarrow> FallbackCommitArtifact option" where
  "parse_fallback_lines in_entries [] artifact = Some artifact"
| "parse_fallback_lines in_entries (line # lines) artifact =
     (if line = [] then parse_fallback_lines in_entries lines artifact
      else if line = ''[entries]'' then parse_fallback_lines True lines artifact
      else if \<not> in_entries then
        (case parse_fallback_meta line artifact of
           None \<Rightarrow> None
         | Some artifact \<Rightarrow> parse_fallback_lines in_entries lines artifact)
      else
        (case parse_fallback_entry line of
           None \<Rightarrow> None
         | Some entry \<Rightarrow>
             parse_fallback_lines in_entries lines
               (artifact\<lparr>fa_entries := fa_entries artifact @ [entry]\<rparr>)))"

definition unescape_fallback_entry :: "FallbackCommitEntry \<Rightarrow> FallbackCommitEntry" where
  "unescape_fallback_entry entry =
     entry\<lparr>fe_key := UnescapeCommitLogText (fe_key entry),
           fe_target_value := UnescapeCommitLogText (fe_target_value entry),
           fe_previous_value := UnescapeCommitLogText (fe_previous_value entry)\<rparr>"

definition parse_fallback_text ::
    "string \<Rightarrow> FallbackCommitArtifact \<Rightarrow> FallbackCommitArtifact option" where
  "parse_fallback_text text artifact =
     (case getlines text of
        [] \<Rightarrow> None
      | line # lines \<Rightarrow>
          if line \<noteq> kFallbackCommitHeader then None
          else (case parse_fallback_lines False lines (artifact\<lparr>fa_entries := []\<rparr>) of
                  None \<Rightarrow> None
                | Some artifact \<Rightarrow>
                    let artifact = artifact\<lparr>fa_txn_id := UnescapeCommitLogText (fa_txn_id artifact),
                          fa_task_id := UnescapeCommitLogText (fa_task_id artifact),
                          fa_entries := map unescape_fallback_entry (fa_entries artifact)\<rparr>
                    in if fa_applied_count artifact \<le> length (fa_entries artifact)
                       then Some artifact else None))"

text \<open>The output parameter and the boolean are one option; the caller passes a fresh artifact.\<close>

definition ParseFallbackCommitArtifact :: "string \<Rightarrow> world \<Rightarrow> FallbackCommitArtifact option" where
  "ParseFallbackCommitArtifact input_path w =
     (case fs_read input_path w of
        None \<Rightarrow> None
      | Some text \<Rightarrow> parse_fallback_text text default_FallbackCommitArtifact)"

section \<open>Reading back what was written\<close>

definition escape_fallback_entry :: "FallbackCommitEntry \<Rightarrow> FallbackCommitEntry" where
  "escape_fallback_entry entry =
     entry\<lparr>fe_key := EscapeCommitLogText (fe_key entry),
           fe_target_value := EscapeCommitLogText (fe_target_value entry),
           fe_previous_value := EscapeCommitLogText (fe_previous_value entry)\<rparr>"

lemma unescape_escape_entry [simp]: "unescape_fallback_entry (escape_fallback_entry e) = e"
  by (simp add: unescape_fallback_entry_def escape_fallback_entry_def commit_codec.codec_simps)

lemma parse_fallback_entry_line:
  "parse_fallback_entry (fallback_entry_line e) = Some (escape_fallback_entry e)"
proof -
  have "getline NL (if fe_previous_exists e then ''1'' else ''0'') =
      Some (if fe_previous_exists e then ''1'' else ''0'', [])"
    by (simp add: getline_rest)
  then show ?thesis
    by (simp add: parse_fallback_entry_def fallback_entry_line_def escape_fallback_entry_def
        commit_codec.codec_simps getline_delim)
qed

lemma fallback_entry_line_clean:
  "NL \<notin> set (fallback_entry_line e)" "fallback_entry_line e \<noteq> []" "fallback_entry_line e \<noteq> ''[entries]''"
proof -
  show "NL \<notin> set (fallback_entry_line e)" "fallback_entry_line e \<noteq> []"
    by (simp_all add: fallback_entry_line_def commit_codec.codec_simps)
  have "TAB \<in> set (fallback_entry_line e)" by (simp add: fallback_entry_line_def)
  moreover have "TAB \<notin> set ''[entries]''" by simp
  ultimately show "fallback_entry_line e \<noteq> ''[entries]''" by metis
qed

lemma parse_fallback_entry_lines:
  "parse_fallback_lines True (map fallback_entry_line es) a =
     Some (a\<lparr>fa_entries := fa_entries a @ map escape_fallback_entry es\<rparr>)"
  by (induction es arbitrary: a) (simp_all add: parse_fallback_entry_line fallback_entry_line_clean)

lemma FallbackCommitPhaseName_clean: "NL \<notin> set (FallbackCommitPhaseName p)"
  by (cases p) simp_all

definition fallback_ok :: "FallbackCommitArtifact \<Rightarrow> bool" where
  "fallback_ok a \<longleftrightarrow> fa_applied_count a \<le> length (fa_entries a) \<and> length (fa_entries a) < 2 ^ 64"

lemma parse_fallback_meta_join:
  "CHR ''='' \<notin> set k \<Longrightarrow>
     parse_fallback_meta (k @ CHR ''='' # v) a =
       Some (if k = ''txn_id'' then a\<lparr>fa_txn_id := v\<rparr>
             else if k = ''task_id'' then a\<lparr>fa_task_id := v\<rparr>
             else if k = ''phase'' then a\<lparr>fa_phase := FallbackCommitPhaseFromName v\<rparr>
             else if k = ''applied_count'' then a\<lparr>fa_applied_count := strtoull v\<rparr>
             else a)"
  by (simp add: parse_fallback_meta_def)

lemma parse_fallback_meta_lines:
  "parse_fallback_meta (''txn_id='' @ v) a = Some (a\<lparr>fa_txn_id := v\<rparr>)"
  "parse_fallback_meta (''task_id='' @ v) a = Some (a\<lparr>fa_task_id := v\<rparr>)"
  "parse_fallback_meta (''phase='' @ v) a = Some (a\<lparr>fa_phase := FallbackCommitPhaseFromName v\<rparr>)"
  "parse_fallback_meta (''applied_count='' @ v) a = Some (a\<lparr>fa_applied_count := strtoull v\<rparr>)"
  "parse_fallback_meta (''entry_count='' @ v) a = Some a"
  using parse_fallback_meta_join [of "''txn_id''" v a] parse_fallback_meta_join [of "''task_id''" v a]
    parse_fallback_meta_join [of "''phase''" v a] parse_fallback_meta_join [of "''applied_count''" v a]
    parse_fallback_meta_join [of "''entry_count''" v a]
  by simp_all

lemmas parse_fallback_meta_simps [simp] =
  parse_fallback_meta_lines [unfolded append_Cons append_Nil]

lemma parse_fallback_text_written:
  assumes "fallback_ok a"
  shows "parse_fallback_text (fallback_artifact_text a) b = Some a"
proof -
  have "getlines (fallback_artifact_text a) =
      [kFallbackCommitHeader,
       ''txn_id='' @ EscapeCommitLogText (fa_txn_id a),
       ''task_id='' @ EscapeCommitLogText (fa_task_id a),
       ''phase='' @ FallbackCommitPhaseName (fa_phase a),
       ''applied_count='' @ nat_dec (fa_applied_count a),
       ''entry_count='' @ nat_dec (length (fa_entries a)),
       ''[entries]''] @ map fallback_entry_line (fa_entries a)"
    unfolding fallback_artifact_text_def
    by (rule getlines_put_lines)
      (auto simp: kFallbackCommitHeader_def commit_codec.codec_simps FallbackCommitPhaseName_clean
        nat_dec_clean fallback_entry_line_clean)
  moreover have "strtoull (nat_dec (fa_applied_count a)) = fa_applied_count a"
    using assms by (intro strtoull_nat_dec) (simp add: fallback_ok_def)
  moreover have "map (unescape_fallback_entry \<circ> escape_fallback_entry) (fa_entries a) = fa_entries a"
    by (simp add: map_idI)
  ultimately show ?thesis
    using assms
    by (simp add: parse_fallback_text_def parse_fallback_entry_lines fallback_ok_def
        commit_codec.codec_simps)
qed

text \<open>The artifact at a path is one that was written there, or the file that was there before.\<close>

lemma WriteFallback_cases:
  obtains w' where "WriteFallbackCommitArtifact a p w = (True, w')"
      "fs_read p w' = Some (fallback_artifact_text a)" "\<And>q. q \<noteq> p \<Longrightarrow> q \<noteq> p @ ''.tmp'' \<Longrightarrow> fs_read q w' = fs_read q w"
  | w' where "WriteFallbackCommitArtifact a p w = (False, w')"
      "\<And>q. q \<noteq> p @ ''.tmp'' \<Longrightarrow> fs_read q w' = fs_read q w"
proof (cases rule: write_file_cases [of "p @ ''.tmp''" "fallback_artifact_text a" w])
  case (1 w1)
  show ?thesis
  proof (cases rule: rename_file_cases [of "p @ ''.tmp''" p "snd (write_file (p @ ''.tmp'') (fallback_artifact_text a) w)"])
    case r: (1 w2 t)
    show ?thesis
      by (rule that(1) [of "snd (rename_file (p @ ''.tmp'') p (snd (write_file (p @ ''.tmp'') (fallback_artifact_text a) w)))"])
        (use 1 r in \<open>auto simp: WriteFallbackCommitArtifact_def Let_def\<close>)
  next
    case r: (2 w2)
    show ?thesis
      by (rule that(2) [of "snd (remove_file (p @ ''.tmp'') w2)"])
        (use 1 r in \<open>auto simp: WriteFallbackCommitArtifact_def Let_def remove_file_other\<close>)
  qed
next
  case (2 w1)
  then show ?thesis
    by (intro that(2) [of w1]) (auto simp: WriteFallbackCommitArtifact_def Let_def)
next
  case (3 w1 n)
  then show ?thesis
    by (intro that(2) [of "snd (remove_file (p @ ''.tmp'') (fs_put (p @ ''.tmp'') (take n (fallback_artifact_text a)) w1))"])
      (auto simp: WriteFallbackCommitArtifact_def Let_def remove_file_other)
qed

lemma WriteFallback_quiet:
  assumes "quiet w"
  shows "fst (WriteFallbackCommitArtifact a p w)"
    "quiet (snd (WriteFallbackCommitArtifact a p w))"
    "fs_read p (snd (WriteFallbackCommitArtifact a p w)) = Some (fallback_artifact_text a)"
    "q \<noteq> p \<Longrightarrow> q \<noteq> p @ ''.tmp'' \<Longrightarrow> fs_read q (snd (WriteFallbackCommitArtifact a p w)) = fs_read q w"
proof -
  let ?t = "p @ ''.tmp''" and ?x = "fallback_artifact_text a"
  obtain r1 w1 where 1: "write_file ?t ?x w = (r1, w1)" by fastforce
  obtain r2 w2 where 2: "rename_file ?t p w1 = (r2, w2)" by fastforce
  have q1: "r1 = Written" "quiet w1" "fs_read q w1 = (if q = ?t then Some ?x else fs_read q w)" for q
    using write_file_quiet [OF assms, where p = ?t and t = ?x] by (simp_all add: 1)
  have "fs_read ?t w1 = Some ?x" by (simp add: q1)
  note rename_file_quiet [OF q1(2) this, where q = p]
  then have q2: "r2" "quiet w2"
      "fs_read q w2 = (if q = p then Some ?x else if q = ?t then None else fs_read q w1)" for q
    by (simp_all add: 2)
  have "WriteFallbackCommitArtifact a p w = (True, w2)"
    by (simp add: WriteFallbackCommitArtifact_def Let_def 1 2 q1 q2)
  then show "fst (WriteFallbackCommitArtifact a p w)"
    "quiet (snd (WriteFallbackCommitArtifact a p w))"
    "fs_read p (snd (WriteFallbackCommitArtifact a p w)) = Some ?x"
    "q \<noteq> p \<Longrightarrow> q \<noteq> ?t \<Longrightarrow> fs_read q (snd (WriteFallbackCommitArtifact a p w)) = fs_read q w"
    using q1 q2 by simp_all
qed

text \<open>The same calls under a script that lets this write pass, and one that fails to open the file.\<close>

lemma WriteFallback_pass:
  assumes "script w = NoFault # NoFault # fs"
  shows "\<exists>w'. WriteFallbackCommitArtifact a p w = (True, w') \<and> script w' = fs \<and>
     fs_read p w' = Some (fallback_artifact_text a)"
  using assms
  by (simp add: WriteFallbackCommitArtifact_def write_file_def rename_file_def next_fault_def fs_put_def
      fs_drop_def fs_read_def Let_def)

lemma WriteFallback_blocked:
  assumes "script w = OpenFault # fs"
  shows "WriteFallbackCommitArtifact a p w = (False, w\<lparr>script := fs\<rparr>)"
  using assms by (simp add: WriteFallbackCommitArtifact_def write_file_def next_fault_def Let_def)

text \<open>
  C11. The fallback artifact is replaced atomically and read back exactly. Whatever fails while it
  is written, parsing the path afterwards gives the new artifact if the write reported success
  and what it gave before if not; keys and values may contain any byte and may be empty.
\<close>

theorem fallback_artifact_atomic_roundtrip:
  assumes "fallback_ok a" and "WriteFallbackCommitArtifact a p w = (ok, w')"
  shows "ParseFallbackCommitArtifact p w' =
    (if ok then Some a else ParseFallbackCommitArtifact p w)"
  using assms
  by (cases rule: WriteFallback_cases [of a p w])
    (auto simp: ParseFallbackCommitArtifact_def parse_fallback_text_written)

theorem fallback_artifact_atomic_roundtrip_witness:
  "let a = default_FallbackCommitArtifact\<lparr>fa_entries := [\<lparr>fe_key = ''k'', fe_expected_version = 1,
             fe_target_value = [TAB, NL, BSLASH], fe_previous_value = [], fe_previous_version = 1,
             fe_previous_exists = True\<rparr>]\<rparr>;
       w = \<lparr>files = [], dirs = [], script = [WriteFault 3]\<rparr>;
       (ok, w1) = WriteFallbackCommitArtifact a ''f'' w;
       (ok', w2) = WriteFallbackCommitArtifact a ''f'' w1
   in ParseFallbackCommitArtifact ''f'' w1 = (if ok then Some a else None) \<and>
      ParseFallbackCommitArtifact ''f'' w2 = (if ok' then Some a else ParseFallbackCommitArtifact ''f'' w1)"
proof -
  let ?a = "default_FallbackCommitArtifact\<lparr>fa_entries := [\<lparr>fe_key = ''k'', fe_expected_version = 1,
             fe_target_value = [TAB, NL, BSLASH], fe_previous_value = [], fe_previous_version = 1,
             fe_previous_exists = True\<rparr>]\<rparr>"
  let ?w = "\<lparr>files = [], dirs = [], script = [WriteFault 3]\<rparr>"
  have ok: "fallback_ok ?a" by (simp add: fallback_ok_def default_FallbackCommitArtifact_def)
  have "ParseFallbackCommitArtifact ''f'' ?w = None"
    by (simp add: ParseFallbackCommitArtifact_def fs_read_def)
  then show ?thesis
    using fallback_artifact_atomic_roundtrip [OF ok prod.collapse [symmetric], of "''f''" ?w]
      fallback_artifact_atomic_roundtrip [OF ok prod.collapse [symmetric], of "''f''" "snd (WriteFallbackCommitArtifact ?a ''f'' ?w)"]
    by (simp add: Let_def split_beta)
qed

end
