(* ===== verification/Fallback_Recovery.thy ===== *)
theory Fallback_Recovery
  imports Fallback_Log
begin

text \<open>
  \<open>agent_txn/fallback_commit_recovery.h\<close>: finishing or undoing the commit an artifact describes.
  The store is a record of operations \<open>kv\<close>; \<open>st\<close> is its state with the disk. The result that the
  code fills in through a pointer is threaded through.
\<close>

record FallbackRecoveryResult =
  fr_recovered_artifact_count :: nat
  fr_skipped_terminal_artifact_count :: nat
  fr_rolled_forward_write_count :: nat
  fr_rolled_back_write_count :: nat
  fr_parse_failure_count :: nat
  fr_conflict_count :: nat
  fr_success :: bool
  fr_reason :: string

definition default_FallbackRecoveryResult :: FallbackRecoveryResult where
  "default_FallbackRecoveryResult =
     \<lparr>fr_recovered_artifact_count = 0, fr_skipped_terminal_artifact_count = 0,
      fr_rolled_forward_write_count = 0, fr_rolled_back_write_count = 0,
      fr_parse_failure_count = 0, fr_conflict_count = 0, fr_success = True, fr_reason = []\<rparr>"

definition fr_fail :: "string \<Rightarrow> FallbackRecoveryResult \<Rightarrow> FallbackRecoveryResult" where
  "fr_fail reason result = result\<lparr>fr_success := False, fr_reason := reason\<rparr>"

definition fr_conflict :: "string \<Rightarrow> FallbackRecoveryResult \<Rightarrow> FallbackRecoveryResult" where
  "fr_conflict reason result =
     result\<lparr>fr_success := False, fr_conflict_count := fr_conflict_count result + 1, fr_reason := reason\<rparr>"

definition FallbackEntryMatchesTarget :: "FallbackCommitEntry \<Rightarrow> VersionedValue \<Rightarrow> bool" where
  "FallbackEntryMatchesTarget entry current \<longleftrightarrow>
     vv_exists current \<and> vv_version current = fe_expected_version entry + 1 \<and>
     vv_value current = fe_target_value entry"

definition FallbackEntryMatchesPrevious :: "FallbackCommitEntry \<Rightarrow> VersionedValue \<Rightarrow> bool" where
  "FallbackEntryMatchesPrevious entry current \<longleftrightarrow>
     (if \<not> fe_previous_exists entry then \<not> vv_exists current \<and> vv_version current = 0
      else vv_exists current \<and> vv_version current = fe_previous_version entry \<and>
           vv_value current = fe_previous_value entry)"

fun target_prefix :: "view \<Rightarrow> FallbackCommitEntry list \<Rightarrow> nat" where
  "target_prefix V [] = 0"
| "target_prefix V (entry # entries) =
     (if FallbackEntryMatchesTarget entry (V (fe_key entry)) then Suc (target_prefix V entries) else 0)"

text \<open>More than the number of entries stands for a state that is not a prefix, as in the code.\<close>

definition DetectCommittedPrefix ::
    "'s VersionedKVStore \<Rightarrow> FallbackCommitArtifact \<Rightarrow> 's \<Rightarrow> FallbackRecoveryResult \<Rightarrow>
     nat \<times> FallbackRecoveryResult" where
  "DetectCommittedPrefix kv artifact s result =
     (let entries = fa_entries artifact;
          committed_prefix = target_prefix (kv_Get kv s) entries in
      case find (\<lambda>entry. \<not> FallbackEntryMatchesPrevious entry (kv_Get kv s (fe_key entry)))
             (drop committed_prefix entries) of
        Some entry \<Rightarrow>
          (length entries + 1,
           fr_conflict (''fallback recovery encountered non-prefix state at key: '' @ fe_key entry) result)
      | None \<Rightarrow> (committed_prefix, result))"

text \<open>The artifact written, and the state after it.\<close>

definition write_artifact ::
    "FallbackCommitArtifact \<Rightarrow> string \<Rightarrow> 's sys \<Rightarrow> bool \<times> 's sys" where
  "write_artifact artifact path st =
     (let (ok, w) = WriteFallbackCommitArtifact artifact path (snd st) in (ok, fst st, w))"

section \<open>Rolling forward\<close>

text \<open>The loop over the entries from \<open>i\<close> on.\<close>

fun resume_forward_loop ::
    "'s VersionedKVStore \<Rightarrow> string \<Rightarrow> nat \<Rightarrow> FallbackCommitEntry list \<Rightarrow> FallbackCommitArtifact \<Rightarrow>
     's sys \<Rightarrow> FallbackRecoveryResult \<Rightarrow> bool \<times> FallbackCommitArtifact \<times> 's sys \<times> FallbackRecoveryResult" where
  "resume_forward_loop kv path i [] artifact st result = (True, artifact, st, result)"
| "resume_forward_loop kv path i (entry # entries) artifact st result =
     (let (put_ok, st) = kv_PutIfVersion kv (fe_key entry) (fe_expected_version entry) (fe_target_value entry) st in
      if \<not> put_ok then
        (False, artifact, st,
         fr_conflict (''fallback recovery forward apply failed for key: '' @ fe_key entry) result)
      else
        (let artifact = artifact\<lparr>fa_applied_count := i + 1, fa_phase := FbApplying\<rparr>;
             (written, st) = write_artifact artifact path st in
         if \<not> written then
           (False, artifact, st, fr_fail (''failed to persist fallback forward progress: '' @ path) result)
         else resume_forward_loop kv path (i + 1) entries artifact st
                (result\<lparr>fr_rolled_forward_write_count := fr_rolled_forward_write_count result + 1\<rparr>)))"

definition ResumeForwardFallbackCommit ::
    "'s VersionedKVStore \<Rightarrow> FallbackCommitArtifact \<Rightarrow> string \<Rightarrow> 's sys \<Rightarrow> FallbackRecoveryResult \<Rightarrow>
     bool \<times> FallbackCommitArtifact \<times> 's sys \<times> FallbackRecoveryResult" where
  "ResumeForwardFallbackCommit kv artifact path st result =
     (let (committed_prefix, result) = DetectCommittedPrefix kv artifact (fst st) result in
      if committed_prefix > length (fa_entries artifact) then (False, artifact, st, result) else
      let artifact = artifact\<lparr>fa_applied_count := committed_prefix,
            fa_phase := (if committed_prefix = length (fa_entries artifact) then FbCommitted else FbApplying)\<rparr>;
          (written, st) = write_artifact artifact path st in
      if \<not> written then
        (False, artifact, st, fr_fail (''failed to persist fallback forward state: '' @ path) result)
      else
      let (applied, artifact, st, result) =
            resume_forward_loop kv path committed_prefix (drop committed_prefix (fa_entries artifact))
              artifact st result in
      if \<not> applied then (False, artifact, st, result) else
      let artifact = artifact\<lparr>fa_phase := FbCommitted\<rparr>;
          (written, st) = write_artifact artifact path st in
      if \<not> written then
        (False, artifact, st, fr_fail (''failed to persist fallback committed state: '' @ path) result)
      else (True, artifact, st, result))"

section \<open>Rolling back\<close>

text \<open>The loop that counts \<open>applied_count\<close> down; its argument is that count.\<close>

fun resume_rollback_loop ::
    "'s VersionedKVStore \<Rightarrow> string \<Rightarrow> nat \<Rightarrow> FallbackCommitArtifact \<Rightarrow>
     's sys \<Rightarrow> FallbackRecoveryResult \<Rightarrow> bool \<times> FallbackCommitArtifact \<times> 's sys \<times> FallbackRecoveryResult" where
  "resume_rollback_loop kv path 0 artifact st result = (True, artifact, st, result)"
| "resume_rollback_loop kv path (Suc entry_index) artifact st result =
     (let entry = fa_entries artifact ! entry_index;
          current = kv_Get kv (fst st) (fe_key entry);
          counted_down = artifact\<lparr>fa_applied_count := entry_index\<rparr> in
      if FallbackEntryMatchesPrevious entry current then
        (let (written, st) = write_artifact counted_down path st in
         if \<not> written then
           (False, counted_down, st, fr_fail (''failed to persist fallback rollback progress: '' @ path) result)
         else resume_rollback_loop kv path entry_index counted_down st result)
      else if \<not> FallbackEntryMatchesTarget entry current then
        (False, artifact, st, fr_conflict (''fallback recovery conflict for key: '' @ fe_key entry) result)
      else
        (let (rolled_back, st) =
               (if fe_previous_exists entry
                then kv_PutIfVersion kv (fe_key entry) (fe_previous_version entry + 1) (fe_previous_value entry) st
                else kv_DeleteIfVersion kv (fe_key entry) (fe_expected_version entry + 1) st) in
         if \<not> rolled_back then
           (False, artifact, st,
            fr_conflict (''fallback recovery rollback failed for key: '' @ fe_key entry) result)
         else
           (let (written, st) = write_artifact counted_down path st in
            if \<not> written then
              (False, counted_down, st, fr_fail (''failed to persist fallback rollback progress: '' @ path) result)
            else resume_rollback_loop kv path entry_index counted_down st
                   (result\<lparr>fr_rolled_back_write_count := fr_rolled_back_write_count result + 1\<rparr>))))"

definition ResumeRollbackFallbackCommit ::
    "'s VersionedKVStore \<Rightarrow> FallbackCommitArtifact \<Rightarrow> string \<Rightarrow> 's sys \<Rightarrow> FallbackRecoveryResult \<Rightarrow>
     bool \<times> FallbackCommitArtifact \<times> 's sys \<times> FallbackRecoveryResult" where
  "ResumeRollbackFallbackCommit kv artifact path st result =
     (let (committed_prefix, result) = DetectCommittedPrefix kv artifact (fst st) result in
      if committed_prefix > length (fa_entries artifact) then (False, artifact, st, result) else
      let artifact = artifact\<lparr>fa_applied_count := committed_prefix, fa_phase := FbRollingBack\<rparr>;
          (written, st) = write_artifact artifact path st in
      if \<not> written then
        (False, artifact, st, fr_fail (''failed to persist fallback rollback state: '' @ path) result)
      else
      let (rolled_back, artifact, st, result) =
            resume_rollback_loop kv path committed_prefix artifact st result in
      if \<not> rolled_back then (False, artifact, st, result) else
      let artifact = artifact\<lparr>fa_phase := FbRolledBack\<rparr>;
          (written, st) = write_artifact artifact path st in
      if \<not> written then
        (False, artifact, st, fr_fail (''failed to persist fallback terminal state: '' @ path) result)
      else (True, artifact, st, result))"

section \<open>Recovery over a list of artifacts\<close>

fun recover_artifacts_loop ::
    "'s VersionedKVStore \<Rightarrow> string list \<Rightarrow> 's sys \<Rightarrow> FallbackRecoveryResult \<Rightarrow>
     FallbackRecoveryResult \<times> 's sys" where
  "recover_artifacts_loop kv [] st result = (result, st)"
| "recover_artifacts_loop kv (artifact_path # artifact_paths) st result =
     (case ParseFallbackCommitArtifact artifact_path (snd st) of
        None \<Rightarrow>
          (fr_fail (''failed to parse fallback artifact: '' @ artifact_path)
             (result\<lparr>fr_parse_failure_count := fr_parse_failure_count result + 1\<rparr>), st)
      | Some artifact \<Rightarrow>
          if fa_phase artifact = FbCommitted \<or> fa_phase artifact = FbRolledBack then
            recover_artifacts_loop kv artifact_paths st
              (result\<lparr>fr_skipped_terminal_artifact_count := fr_skipped_terminal_artifact_count result + 1\<rparr>)
          else
            (let (recovered, artifact, st, result) =
                   (if fa_phase artifact = FbRollingBack
                    then ResumeRollbackFallbackCommit kv artifact artifact_path st result
                    else ResumeForwardFallbackCommit kv artifact artifact_path st result) in
             if \<not> recovered then (result, st)
             else recover_artifacts_loop kv artifact_paths st
                    (result\<lparr>fr_recovered_artifact_count := fr_recovered_artifact_count result + 1\<rparr>)))"

definition RecoverFallbackCommitArtifacts ::
    "'s VersionedKVStore \<Rightarrow> string list \<Rightarrow> 's sys \<Rightarrow> FallbackRecoveryResult \<times> 's sys" where
  "RecoverFallbackCommitArtifacts kv artifact_paths st =
     recover_artifacts_loop kv artifact_paths st default_FallbackRecoveryResult"

section \<open>A commit in progress\<close>

text \<open>
  \<open>entries_from V0 es\<close>: the entries were made from the store view \<open>V0\<close>, one per key.
  \<open>partly_applied V0 es n\<close> is the view after the first \<open>n\<close> of their writes.
\<close>

definition entries_from :: "view \<Rightarrow> FallbackCommitEntry list \<Rightarrow> bool" where
  "entries_from V0 es \<longleftrightarrow> distinct (map fe_key es) \<and>
     (\<forall>e \<in> set es. fe_expected_version e = vv_version (V0 (fe_key e)) \<and>
        fe_previous_value e = vv_value (V0 (fe_key e)) \<and>
        fe_previous_version e = vv_version (V0 (fe_key e)) \<and>
        fe_previous_exists e = vv_exists (V0 (fe_key e)) \<and>
        (\<not> vv_exists (V0 (fe_key e)) \<longrightarrow> V0 (fe_key e) = no_value))"

definition entry_write :: "FallbackCommitEntry \<Rightarrow> WriteOp" where
  "entry_write e = \<lparr>wo_key = fe_key e, wo_value = fe_target_value e\<rparr>"

definition partly_applied :: "view \<Rightarrow> FallbackCommitEntry list \<Rightarrow> nat \<Rightarrow> view" where
  "partly_applied V0 es n = view_puts (map entry_write (take n es)) V0"

lemma entry_write_sel [simp]: "wo_key (entry_write e) = fe_key e" "wo_value (entry_write e) = fe_target_value e"
  by (simp_all add: entry_write_def)

lemma partly_applied_0 [simp]: "partly_applied V0 es 0 = V0"
  by (simp add: partly_applied_def)

lemma entry_write_keys: "map wo_key (map entry_write es) = map fe_key es"
  by simp

lemma partly_applied_done:
  assumes "distinct (map fe_key es)" "i < n" "i < length es"
  shows "partly_applied V0 es n (fe_key (es ! i)) =
    \<lparr>vv_value = fe_target_value (es ! i), vv_version = vv_version (V0 (fe_key (es ! i))) + 1, vv_exists = True\<rparr>"
proof -
  have "distinct (map wo_key (map entry_write (take n es)))"
    using assms(1) by (simp add: take_map [symmetric] comp_def)
  moreover have "take n es ! i \<in> set (take n es)"
    using assms by (intro nth_mem) simp
  then have "entry_write (es ! i) \<in> set (map entry_write (take n es))"
    using assms by simp
  ultimately show ?thesis
    using view_puts_mem [of "map entry_write (take n es)" "entry_write (es ! i)" V0]
    by (simp add: partly_applied_def)
qed

lemma partly_applied_todo:
  assumes "distinct (map fe_key es)" "n \<le> i" "i < length es"
  shows "partly_applied V0 es n (fe_key (es ! i)) = V0 (fe_key (es ! i))"
proof -
  have "fe_key (es ! i) \<notin> fe_key ` set (take n es)"
    using assms by (auto simp: in_set_conv_nth distinct_conv_nth)
  then show ?thesis
    by (simp add: partly_applied_def view_puts_other image_image)
qed

lemma partly_applied_Suc:
  "n < length es \<Longrightarrow> partly_applied V0 es (Suc n) =
     view_put (fe_key (es ! n)) (fe_target_value (es ! n)) (partly_applied V0 es n)"
  by (simp add: partly_applied_def take_Suc_conv_app_nth view_puts_append)

lemma version_differs [simp]: "(v :: u64) + 1 \<noteq> v" "v \<noteq> v + 1"
  by simp_all

lemma target_prefix_partly:
  assumes "\<And>i. i < n \<Longrightarrow> FallbackEntryMatchesTarget (es ! i) (V (fe_key (es ! i)))"
    and "n < length es \<Longrightarrow> \<not> FallbackEntryMatchesTarget (es ! n) (V (fe_key (es ! n)))" "n \<le> length es"
  shows "target_prefix V es = n"
  using assms
proof (induction es arbitrary: n)
  case Nil
  then show ?case by simp
next
  case (Cons e es)
  show ?case
  proof (cases n)
    case 0
    with Cons.prems(2) show ?thesis by simp
  next
    case (Suc m)
    have "target_prefix V es = m"
      by (rule Cons.IH) (use Cons.prems(1) [of "Suc _"] Cons.prems(2,3) Suc in auto)
    with Cons.prems(1) [of 0] Suc show ?thesis by simp
  qed
qed

lemma entries_fromD:
  assumes "entries_from V0 es" "i < length es"
  shows "fe_expected_version (es ! i) = vv_version (V0 (fe_key (es ! i)))"
    "fe_previous_value (es ! i) = vv_value (V0 (fe_key (es ! i)))"
    "fe_previous_version (es ! i) = vv_version (V0 (fe_key (es ! i)))"
    "fe_previous_exists (es ! i) = vv_exists (V0 (fe_key (es ! i)))"
    "\<not> vv_exists (V0 (fe_key (es ! i))) \<Longrightarrow> V0 (fe_key (es ! i)) = no_value"
  using assms by (auto simp: entries_from_def)

lemma Detect_partly_applied:
  assumes es: "entries_from V0 (fa_entries a)" and n: "n \<le> length (fa_entries a)"
    and V: "kv_Get kv s = partly_applied V0 (fa_entries a) n"
  shows "DetectCommittedPrefix kv a s r = (n, r)"
proof -
  let ?es = "fa_entries a"
  have d: "distinct (map fe_key ?es)" using es by (simp add: entries_from_def)
  have prev: "FallbackEntryMatchesPrevious (?es ! i) (kv_Get kv s (fe_key (?es ! i)))"
    if "n \<le> i" "i < length ?es" for i
    using that entries_fromD [OF es that(2)]
    by (auto simp: V partly_applied_todo [OF d] FallbackEntryMatchesPrevious_def no_value_def)
  have "target_prefix (kv_Get kv s) ?es = n"
    using n entries_fromD [OF es]
    by (intro target_prefix_partly)
      (auto simp: V partly_applied_done [OF d] partly_applied_todo [OF d] FallbackEntryMatchesTarget_def)
  moreover have "find (\<lambda>e. \<not> FallbackEntryMatchesPrevious e (kv_Get kv s (fe_key e))) (drop n ?es) = None"
    using prev by (auto simp: find_None_iff in_set_conv_nth)
  ultimately show ?thesis by (simp add: DetectCommittedPrefix_def Let_def)
qed


section \<open>The commit that is pending\<close>

text \<open>
  What a commit leaves behind at every moment between its first artifact and its end: some
  prefix of the writes is in the store, and the artifact on the disk asks for the whole commit.
\<close>

definition asks_for ::
    "string \<Rightarrow> FallbackCommitEntry list \<Rightarrow> bool \<Rightarrow> world \<Rightarrow> bool" where
  "asks_for path es finished w \<longleftrightarrow>
     (\<exists>a. ParseFallbackCommitArtifact path w = Some a \<and> fa_entries a = es \<and>
        (fa_phase a \<in> {FbPrepared, FbApplying} \<or> fa_phase a = FbCommitted \<and> finished))"

definition commit_pending ::
    "'s VersionedKVStore \<Rightarrow> ('s sys \<Rightarrow> bool) \<Rightarrow> string \<Rightarrow> view \<Rightarrow> FallbackCommitEntry list \<Rightarrow> 's sys \<Rightarrow> bool" where
  "commit_pending kv ok_state path V0 es st \<longleftrightarrow> ok_state st \<and>
     (\<exists>n \<le> length es. kv_Get kv (fst st) = partly_applied V0 es n \<and> asks_for path es (n = length es) (snd st))"

lemma asks_for_mono: "asks_for p es f w \<Longrightarrow> (f \<Longrightarrow> g) \<Longrightarrow> asks_for p es g w"
  unfolding asks_for_def by blast

lemma write_artifact_sim:
  assumes "fallback_ok a" "write_artifact a p st = (ok, st')"
  shows "fst st' = fst st \<and>
    ParseFallbackCommitArtifact p (snd st') =
      (if ok then Some a else ParseFallbackCommitArtifact p (snd st))"
proof (cases rule: WriteFallback_cases [of a p "snd st"])
  case (1 w')
  from 1(1) assms(2) have "ok" "st' = (fst st, w')" by (simp_all add: write_artifact_def)
  moreover from 1(2) have "ParseFallbackCommitArtifact p w' = Some a"
    by (simp add: ParseFallbackCommitArtifact_def parse_fallback_text_written [OF assms(1)])
  ultimately show ?thesis by simp
next
  case (2 w')
  from 2(1) assms(2) have "\<not> ok" "st' = (fst st, w')" by (simp_all add: write_artifact_def)
  moreover from 2(2) [of p] have "ParseFallbackCommitArtifact p w' = ParseFallbackCommitArtifact p (snd st)"
    by (simp add: ParseFallbackCommitArtifact_def)
  ultimately show ?thesis by simp
qed

lemma write_artifact_quiet:
  "quiet (snd st) \<Longrightarrow> fst (write_artifact a p st) \<and> quiet (snd (snd (write_artifact a p st)))"
  by (simp add: write_artifact_def split_beta WriteFallback_quiet)

context detached_store
begin

lemma put_if_sys:
  assumes "inv st" "vv_version (kv_Get kv (fst st) k) = n" "kv_PutIfVersion kv k n v st = (ok, st')"
  shows "ok" "inv st'" "snd st' = snd st" "kv_Get kv (fst st') = view_put k v (kv_Get kv (fst st))"
  using assms put_if_ok [of st k n v] put_if_inv [of st k n v] put_if_view [of st k n v] put_if_disk [of k n v st]
  by auto

lemma write_artifact_inv: "inv st \<Longrightarrow> write_artifact a p st = (ok, st') \<Longrightarrow> inv st'"
  by (auto simp: write_artifact_def split_beta intro: inv_disk [of "fst st" "snd st"])

lemma forward_loop_pending:
  assumes es: "entries_from V0 es" and lt: "length es < 2 ^ 64" and a: "fa_entries a = es"
    and i: "i \<le> length es" "rest = drop i es" "fa_applied_count a = i"
    and inv: "inv st" and V: "kv_Get kv (fst st) = partly_applied V0 es i"
    and disk: "asks_for p es (i = length es) (snd st)"
    and run: "resume_forward_loop kv p i rest a st r = (ok, a', st', r')"
  shows "inv st' \<and> fa_entries a' = es \<and>
     (\<exists>n \<le> length es. kv_Get kv (fst st') = partly_applied V0 es n \<and>
        asks_for p es (n = length es) (snd st') \<and>
        (ok \<longrightarrow> n = length es)) \<and> fa_applied_count a' \<le> length es \<and>
     (quiet (snd st) \<longrightarrow> ok \<and> quiet (snd st'))"
  using i inv V disk run a
proof (induction rest arbitrary: i a st r)
  case Nil
  then have "i = length es" by (metis drop_eq_Nil le_antisym)
  with Nil show ?case by auto
next
  case (Cons e rest)
  from Cons.prems(1,2) have i: "i < length es" "e = es ! i" "rest = drop (Suc i) es"
    by (metis drop_eq_Nil list.distinct(1) not_le, metis Cons_nth_drop_Suc drop_eq_Nil list.inject list.distinct(1) not_le,
        metis Cons_nth_drop_Suc drop_eq_Nil list.inject list.distinct(1) not_le)
  have d: "distinct (map fe_key es)" using es by (simp add: entries_from_def)
  obtain ok1 st1 where put: "kv_PutIfVersion kv (fe_key e) (fe_expected_version e) (fe_target_value e) st = (ok1, st1)"
    by (metis surj_pair)
  have "vv_version (kv_Get kv (fst st) (fe_key e)) = fe_expected_version e"
    using Cons.prems(5) entries_fromD [OF es i(1)] i by (simp add: partly_applied_todo [OF d])
  from put_if_sys [OF Cons.prems(4) this put] Cons.prems(5) i
  have 1: "ok1" "inv st1" "snd st1 = snd st" "kv_Get kv (fst st1) = partly_applied V0 es (Suc i)"
    by (simp_all add: partly_applied_Suc)
  let ?a = "a\<lparr>fa_applied_count := i + 1, fa_phase := FbApplying\<rparr>"
  have okf: "fallback_ok ?a" using Cons.prems(8) i lt by (simp add: fallback_ok_def)
  obtain ok2 st2 where wr: "write_artifact ?a p st1 = (ok2, st2)" by (metis surj_pair)
  from write_artifact_sim [OF okf wr] Cons.prems(6) 1(3) i(1) Cons.prems(8)
  have 2: "fst st2 = fst st1" "asks_for p es (Suc i = length es) (snd st2)"
    by (auto simp: asks_for_def)
  have inv2: "inv st2" by (rule write_artifact_inv [OF 1(2) wr])
  have q2: "quiet (snd st) \<Longrightarrow> ok2 \<and> quiet (snd st2)"
    using write_artifact_quiet [of st1 ?a p] wr 1(3) by simp
  show ?case
  proof (cases ok2)
    case True
    have run: "resume_forward_loop kv p (Suc i) rest ?a st2
        (r\<lparr>fr_rolled_forward_write_count := fr_rolled_forward_write_count r + 1\<rparr>) = (ok, a', st', r')"
      using Cons.prems(7) put wr 1(1) True by simp
    have "kv_Get kv (fst st2) = partly_applied V0 es (Suc i)" using 1 2 by simp
    from Cons.IH [OF _ i(3) _ inv2 this 2(2) run] i(1) Cons.prems(8) q2
    show ?thesis by auto
  next
    case False
    then have "\<not> ok" "st' = st2" "a' = ?a" using Cons.prems(7) put wr 1(1) by auto
    moreover from q2 False have "\<not> quiet (snd st)" by blast
    ultimately show ?thesis using inv2 i(1) 1 2 Cons.prems(8) by (auto intro!: exI [of _ "Suc i"])
  qed
qed

lemma ResumeForward_pending:
  assumes es: "entries_from V0 es" and lt: "length es < 2 ^ 64" and a: "fa_entries a = es"
    and pending: "commit_pending kv inv p V0 es st"
    and run: "ResumeForwardFallbackCommit kv a p st r = (ok, a', st', r')"
  shows "commit_pending kv inv p V0 es st' \<and>
    (ok \<longrightarrow> kv_Get kv (fst st') = partly_applied V0 es (length es)) \<and>
    (quiet (snd st) \<longrightarrow> ok \<and> quiet (snd st'))"
proof -
  from pending obtain n where n: "n \<le> length es" "kv_Get kv (fst st) = partly_applied V0 es n"
      "asks_for p es (n = length es) (snd st)" and inv: "inv st"
    unfolding commit_pending_def by blast
  have det: "DetectCommittedPrefix kv a (fst st) r = (n, r)"
    by (rule Detect_partly_applied) (use es a n in auto)
  let ?a = "a\<lparr>fa_applied_count := n, fa_phase := (if n = length es then FbCommitted else FbApplying)\<rparr>"
  have okf: "fallback_ok ?a" using a n lt by (simp add: fallback_ok_def)
  obtain ok1 st1 where wr: "write_artifact ?a p st = (ok1, st1)" by (metis surj_pair)
  from write_artifact_sim [OF okf wr] n(3) a
  have 1: "fst st1 = fst st" "asks_for p es (n = length es) (snd st1)" by (auto simp: asks_for_def)
  have inv1: "inv st1" by (rule write_artifact_inv [OF inv wr])
  have q1: "quiet (snd st) \<Longrightarrow> ok1 \<and> quiet (snd st1)" using write_artifact_quiet [of st ?a p] wr by simp
  show ?thesis
  proof (cases ok1)
    case False
    then have "\<not> ok" "st' = st1" using run det wr n(1) a by (auto simp: ResumeForwardFallbackCommit_def)
    with False q1 inv1 1 n show ?thesis by (auto simp: commit_pending_def)
  next
    case True
    obtain ok2 a2 st2 r2 where loop: "resume_forward_loop kv p n (drop n es) ?a st1 r = (ok2, a2, st2, r2)"
      by (metis surj_pair)
    have V1: "kv_Get kv (fst st1) = partly_applied V0 es n" using 1 n by simp
    from forward_loop_pending [OF es lt _ n(1) refl _ inv1 V1 1(2) loop] a
    obtain m where m: "inv st2" "fa_entries a2 = es" "m \<le> length es" "kv_Get kv (fst st2) = partly_applied V0 es m"
        "asks_for p es (m = length es) (snd st2)"
        "ok2 \<longrightarrow> m = length es" "fa_applied_count a2 \<le> length es"
        "quiet (snd st1) \<longrightarrow> ok2 \<and> quiet (snd st2)"
      by auto
    show ?thesis
    proof (cases ok2)
      case False
      then have "\<not> ok" "st' = st2" using run det wr loop \<open>ok1\<close> n(1) a by (auto simp: ResumeForwardFallbackCommit_def)
      with False m q1 show ?thesis by (auto simp: commit_pending_def)
    next
      case ok2: True
      let ?c = "a2\<lparr>fa_phase := FbCommitted\<rparr>"
      have okc: "fallback_ok ?c" using m lt by (simp add: fallback_ok_def)
      obtain ok3 st3 where wr3: "write_artifact ?c p st2 = (ok3, st3)" by (metis surj_pair)
      from write_artifact_sim [OF okc wr3] m ok2
      have 3: "fst st3 = fst st2" "asks_for p es (m = length es) (snd st3)" by (auto simp: asks_for_def)
      have inv3: "inv st3" by (rule write_artifact_inv [OF m(1) wr3])
      have "ok = ok3" "st' = st3" using run det wr loop \<open>ok1\<close> ok2 wr3 n(1) a
        by (cases ok3; auto simp: ResumeForwardFallbackCommit_def Let_def split: if_splits)+
      moreover have "quiet (snd st) \<Longrightarrow> ok3 \<and> quiet (snd st3)"
        using write_artifact_quiet [of st2 ?c p] wr3 q1 m by simp
      ultimately show ?thesis using inv3 3 m ok2 by (auto simp: commit_pending_def)
    qed
  qed
qed

lemma Recover_pending:
  assumes es: "entries_from V0 es" and lt: "length es < 2 ^ 64" and pending: "commit_pending kv inv p V0 es st"
    and run: "RecoverFallbackCommitArtifacts kv [p] st = (r, st')"
  shows "commit_pending kv inv p V0 es st' \<and>
    (quiet (snd st) \<longrightarrow> quiet (snd st') \<and> kv_Get kv (fst st') = partly_applied V0 es (length es))"
proof -
  from pending obtain n a where n: "n \<le> length es" "kv_Get kv (fst st) = partly_applied V0 es n"
      and a: "ParseFallbackCommitArtifact p (snd st) = Some a" "fa_entries a = es"
        "fa_phase a \<in> {FbPrepared, FbApplying} \<or> fa_phase a = FbCommitted \<and> n = length es"
    by (auto simp: commit_pending_def asks_for_def)
  show ?thesis
  proof (cases "fa_phase a = FbCommitted")
    case True
    with run a n pending show ?thesis by (auto simp: RecoverFallbackCommitArtifacts_def)
  next
    case False
    obtain ok a' st1 r1 where fw:
      "ResumeForwardFallbackCommit kv a p st default_FallbackRecoveryResult = (ok, a', st1, r1)"
      by (metis surj_pair)
    have "st' = st1"
      using run a False by (auto simp: RecoverFallbackCommitArtifacts_def fw split: if_splits)
    with ResumeForward_pending [OF es lt a(2) pending fw] show ?thesis by blast
  qed
qed

end


section \<open>Undoing a commit\<close>

text \<open>Equal values and the same keys; the versions may differ.\<close>

definition same_values :: "view \<Rightarrow> view \<Rightarrow> bool" where
  "same_values V W \<longleftrightarrow> (\<forall>k. vv_value (V k) = vv_value (W k) \<and> vv_exists (V k) = vv_exists (W k))"

lemma same_values_refl [simp]: "same_values V V"
  by (simp add: same_values_def)

text \<open>The view while the first \<open>j\<close> writes are still in place and later ones have been undone.\<close>

definition undone_to :: "view \<Rightarrow> FallbackCommitEntry list \<Rightarrow> nat \<Rightarrow> view \<Rightarrow> bool" where
  "undone_to V0 es j V \<longleftrightarrow> same_values V (partly_applied V0 es j) \<and>
     (\<forall>i < j. V (fe_key (es ! i)) = partly_applied V0 es j (fe_key (es ! i)))"

lemma undone_to_partly [simp]: "undone_to V0 es j (partly_applied V0 es j)"
  by (simp add: undone_to_def)

lemma undone_to_0: "undone_to V0 es 0 V \<Longrightarrow> same_values V V0"
  by (simp add: undone_to_def)

lemma key_differs: "distinct (map fe_key es) \<Longrightarrow> i < j \<Longrightarrow> j < length es \<Longrightarrow> fe_key (es ! i) \<noteq> fe_key (es ! j)"
  by (auto simp: distinct_conv_nth)

lemma undone_to_step:
  assumes es: "entries_from V0 es" and j: "j < length es" and V: "undone_to V0 es (Suc j) V"
    and undo: "vv_exists (V0 (fe_key (es ! j))) \<Longrightarrow> V' = view_put (fe_key (es ! j)) (fe_previous_value (es ! j)) V"
      "\<not> vv_exists (V0 (fe_key (es ! j))) \<Longrightarrow> V' = view_delete (fe_key (es ! j)) V"
  shows "undone_to V0 es j V'"
proof -
  let ?k = "fe_key (es ! j)"
  have d: "distinct (map fe_key es)" using es by (simp add: entries_from_def)
  have other: "V' q = V q" "partly_applied V0 es (Suc j) q = partly_applied V0 es j q" if "q \<noteq> ?k" for q
    using that undo j by (cases "vv_exists (V0 ?k)"; simp add: partly_applied_Suc)+
  have here: "vv_value (V' ?k) = vv_value (V0 ?k)" "vv_exists (V' ?k) = vv_exists (V0 ?k)"
    using undo entries_fromD [OF es j] by (cases "vv_exists (V0 ?k)"; simp add: no_value_def)+
  have "same_values V' (partly_applied V0 es j)"
    unfolding same_values_def
  proof
    fix q
    from V have "vv_value (V q) = vv_value (partly_applied V0 es (Suc j) q)"
      "vv_exists (V q) = vv_exists (partly_applied V0 es (Suc j) q)"
      by (simp_all add: undone_to_def same_values_def)
    then show "vv_value (V' q) = vv_value (partly_applied V0 es j q) \<and>
        vv_exists (V' q) = vv_exists (partly_applied V0 es j q)"
      using other [of q] here partly_applied_todo [OF d order_refl j] by (cases "q = ?k") simp_all
  qed
  moreover have "V' (fe_key (es ! i)) = partly_applied V0 es j (fe_key (es ! i))" if "i < j" for i
    using V other [OF key_differs [OF d that j]] that by (simp add: undone_to_def)
  ultimately show ?thesis by (simp add: undone_to_def)
qed

lemma undone_to_entry:
  assumes es: "entries_from V0 es" and j: "j < length es" and V: "undone_to V0 es (Suc j) V"
  shows "V (fe_key (es ! j)) =
      \<lparr>vv_value = fe_target_value (es ! j), vv_version = fe_expected_version (es ! j) + 1, vv_exists = True\<rparr>"
    "FallbackEntryMatchesTarget (es ! j) (V (fe_key (es ! j)))"
    "\<not> FallbackEntryMatchesPrevious (es ! j) (V (fe_key (es ! j)))"
proof -
  have d: "distinct (map fe_key es)" using es by (simp add: entries_from_def)
  from V have "V (fe_key (es ! j)) = partly_applied V0 es (Suc j) (fe_key (es ! j))"
    by (simp add: undone_to_def)
  with partly_applied_done [OF d _ j, of "Suc j"] entries_fromD [OF es j]
  show v: "V (fe_key (es ! j)) =
      \<lparr>vv_value = fe_target_value (es ! j), vv_version = fe_expected_version (es ! j) + 1, vv_exists = True\<rparr>"
    by simp
  show "FallbackEntryMatchesTarget (es ! j) (V (fe_key (es ! j)))"
    "\<not> FallbackEntryMatchesPrevious (es ! j) (V (fe_key (es ! j)))"
    using entries_fromD [OF es j] by (auto simp: v FallbackEntryMatchesTarget_def FallbackEntryMatchesPrevious_def)
qed

context detached_store
begin

lemma delete_if_sys:
  assumes "inv st" "vv_version (kv_Get kv (fst st) k) = n" "kv_DeleteIfVersion kv k n st = (ok, st')"
  shows "ok" "inv st'" "snd st' = snd st" "kv_Get kv (fst st') = view_delete k (kv_Get kv (fst st))"
  using assms delete_if_ok [of st k n] delete_if_inv [of st k n] delete_if_view [of st k n] delete_if_disk [of k n st]
  by auto

text \<open>One round of undoing on the store, as both rollback routines do it.\<close>

lemma undo_entry:
  assumes es: "entries_from V0 es" and j: "j < length es" and V: "undone_to V0 es (Suc j) (kv_Get kv (fst st))"
    and inv: "inv st"
    and run: "(if fe_previous_exists (es ! j)
        then kv_PutIfVersion kv (fe_key (es ! j)) (fe_previous_version (es ! j) + 1) (fe_previous_value (es ! j)) st
        else kv_DeleteIfVersion kv (fe_key (es ! j)) (fe_expected_version (es ! j) + 1) st) = (ok, st')"
  shows "ok" "inv st'" "snd st' = snd st" "undone_to V0 es j (kv_Get kv (fst st'))"
    "fe_previous_exists (es ! j) \<Longrightarrow> kv_Get kv (fst st') =
       view_put (fe_key (es ! j)) (fe_previous_value (es ! j)) (kv_Get kv (fst st))"
proof -
  let ?e = "es ! j" and ?V = "kv_Get kv (fst st)"
  have ver: "vv_version (?V (fe_key ?e)) = fe_expected_version ?e + 1"
    "fe_previous_version ?e = fe_expected_version ?e"
    using undone_to_entry(1) [OF es j V] entries_fromD [OF es j] by simp_all
  have both: "ok \<and> inv st' \<and> snd st' = snd st \<and> kv_Get kv (fst st') =
      (if fe_previous_exists ?e then view_put (fe_key ?e) (fe_previous_value ?e) ?V else view_delete (fe_key ?e) ?V)"
  proof (cases "fe_previous_exists ?e")
    case True
    then have "kv_PutIfVersion kv (fe_key ?e) (fe_previous_version ?e + 1) (fe_previous_value ?e) st = (ok, st')"
      using run by simp
    from put_if_sys [OF inv _ this] ver True show ?thesis by simp
  next
    case False
    then have "kv_DeleteIfVersion kv (fe_key ?e) (fe_expected_version ?e + 1) st = (ok, st')"
      using run by simp
    from delete_if_sys [OF inv _ this] ver False show ?thesis by simp
  qed
  then show "ok" "inv st'" "snd st' = snd st" "fe_previous_exists ?e \<Longrightarrow> kv_Get kv (fst st') =
       view_put (fe_key ?e) (fe_previous_value ?e) ?V" by simp_all
  show "undone_to V0 es j (kv_Get kv (fst st'))"
    by (rule undone_to_step [OF es j V])
      (simp_all add: both entries_fromD(4) [OF es j, symmetric])
qed

lemma rollback_loop_quiet:
  assumes es: "entries_from V0 es" and a: "fa_entries a = es"
    and j: "j \<le> length es" and V: "undone_to V0 es j (kv_Get kv (fst st))"
    and inv: "inv st" "quiet (snd st)"
    and run: "resume_rollback_loop kv p j a st r = (ok, a', st', r')"
  shows "ok \<and> inv st' \<and> quiet (snd st') \<and> fa_entries a' = es \<and> undone_to V0 es 0 (kv_Get kv (fst st')) \<and>
    (fa_applied_count a = j \<longrightarrow> fa_applied_count a' = 0)"
  using assms(2-)
proof (induction j arbitrary: a st r)
  case 0
  then show ?case by auto
next
  case (Suc j)
  have j: "j < length es" using Suc.prems(2) by simp
  let ?a = "a\<lparr>fa_applied_count := j\<rparr>"
  obtain ok1 st1 where undo: "(if fe_previous_exists (es ! j)
        then kv_PutIfVersion kv (fe_key (es ! j)) (fe_previous_version (es ! j) + 1) (fe_previous_value (es ! j)) st
        else kv_DeleteIfVersion kv (fe_key (es ! j)) (fe_expected_version (es ! j) + 1) st) = (ok1, st1)"
    by (metis surj_pair)
  note u = undo_entry [OF es j Suc.prems(3) Suc.prems(4) undo]
  obtain ok2 st2 where wr: "write_artifact ?a p st1 = (ok2, st2)" by (metis surj_pair)
  have w: "ok2" "quiet (snd st2)" using write_artifact_quiet [of st1 ?a p] wr u(3) Suc.prems(5) by simp_all
  have f: "fst st2 = fst st1" using wr by (auto simp: write_artifact_def split_beta)
  have inv2: "inv st2" by (rule write_artifact_inv [OF u(2) wr])
  have "resume_rollback_loop kv p j ?a st2
      (r\<lparr>fr_rolled_back_write_count := fr_rolled_back_write_count r + 1\<rparr>) = (ok, a', st', r')"
    using Suc.prems(6) undone_to_entry [OF es j Suc.prems(3)] undo u(1) wr w(1)
    by (simp add: Suc.prems(1) Let_def split: if_splits)
  from Suc.IH [OF _ _ _ inv2 w(2) this] u(4) j Suc.prems(1) show ?case by (simp add: f)
qed

lemma ResumeRollback_quiet:
  assumes es: "entries_from V0 es" and lt: "length es < 2 ^ 64" and a: "fa_entries a = es"
    and n: "n \<le> length es" and V: "kv_Get kv (fst st) = partly_applied V0 es n"
    and inv: "inv st" "quiet (snd st)"
    and run: "ResumeRollbackFallbackCommit kv a p st r = (ok, a', st', r')"
  shows "ok \<and> inv st' \<and> quiet (snd st') \<and> same_values (kv_Get kv (fst st')) V0 \<and>
    ParseFallbackCommitArtifact p (snd st') = Some a' \<and> fa_phase a' = FbRolledBack"
proof -
  have det: "DetectCommittedPrefix kv a (fst st) r = (n, r)"
    by (rule Detect_partly_applied) (use es a n V in auto)
  let ?a = "a\<lparr>fa_applied_count := n, fa_phase := FbRollingBack\<rparr>"
  obtain ok1 st1 where wr: "write_artifact ?a p st = (ok1, st1)" by (metis surj_pair)
  have w: "ok1" "quiet (snd st1)" "fst st1 = fst st"
    using write_artifact_quiet [of st ?a p] wr inv(2) by (auto simp: write_artifact_def split_beta)
  have inv1: "inv st1" by (rule write_artifact_inv [OF inv(1) wr])
  obtain ok2 a2 st2 r2 where loop: "resume_rollback_loop kv p n ?a st1 r = (ok2, a2, st2, r2)"
    by (metis surj_pair)
  have l: "ok2" "inv st2" "quiet (snd st2)" "fa_entries a2 = es" "undone_to V0 es 0 (kv_Get kv (fst st2))"
      "fa_applied_count a2 = 0"
    using rollback_loop_quiet [OF es _ n _ inv1 w(2) loop] a V w(3) by simp_all
  let ?c = "a2\<lparr>fa_phase := FbRolledBack\<rparr>"
  have okc: "fallback_ok ?c" using l lt by (simp add: fallback_ok_def)
  obtain ok3 st3 where wr3: "write_artifact ?c p st2 = (ok3, st3)" by (metis surj_pair)
  have w3: "ok3" "quiet (snd st3)" using write_artifact_quiet [of st2 ?c p] wr3 l(3) by simp_all
  have "ok" "st' = st3" "a' = ?c"
    using run det wr loop w(1) l(1) wr3 w3(1) n a by (simp_all add: ResumeRollbackFallbackCommit_def Let_def)
  moreover from write_artifact_sim [OF okc wr3] w3
  have "fst st3 = fst st2" "ParseFallbackCommitArtifact p (snd st3) = Some ?c" by simp_all
  ultimately show ?thesis
    using write_artifact_inv [OF l(2) wr3] w3 undone_to_0 [OF l(5)] by simp
qed

end


section \<open>Properties of recovery\<close>

text \<open>The conditions under which a rolled back entry is met again: its version is two steps on.\<close>

lemma rolled_back_entry_conflicts:
  assumes es: "entries_from V0 (fa_entries a)" and j: "j < length (fa_entries a)"
    and ex: "vv_exists (V0 (fe_key (fa_entries a ! j)))"
    and applied: "\<And>i. i < j \<Longrightarrow> FallbackEntryMatchesTarget (fa_entries a ! i) (kv_Get kv s (fe_key (fa_entries a ! i)))"
    and v: "vv_version (kv_Get kv s (fe_key (fa_entries a ! j))) = vv_version (V0 (fe_key (fa_entries a ! j))) + 2"
  shows "\<exists>r'. DetectCommittedPrefix kv a s r = (length (fa_entries a) + 1, r') \<and> \<not> fr_success r'"
proof -
  let ?es = "fa_entries a" and ?e = "fa_entries a ! j"
  have differ: "(x :: u64) + 2 \<noteq> x + 1" "(x :: u64) + 2 \<noteq> x" for x by simp_all
  have "target_prefix (kv_Get kv s) ?es = j"
    using applied j v entries_fromD [OF es j] differ
    by (intro target_prefix_partly) (auto simp: FallbackEntryMatchesTarget_def)
  moreover have "\<not> FallbackEntryMatchesPrevious ?e (kv_Get kv s (fe_key ?e))"
    using ex v entries_fromD [OF es j] differ by (auto simp: FallbackEntryMatchesPrevious_def)
  then have "find (\<lambda>e. \<not> FallbackEntryMatchesPrevious e (kv_Get kv s (fe_key e))) (drop j ?es) \<noteq> None"
    using j by (auto simp: find_None_iff Cons_nth_drop_Suc [symmetric])
  ultimately show ?thesis by (auto simp: DetectCommittedPrefix_def Let_def fr_conflict_def)
qed

text \<open>
  C9. A rollback that is interrupted after its first step cannot be finished. The commit has
  applied its first \<open>j + 1\<close> writes, the last to an existing key; the process stops after it has
  undone that one write and before it records so. On a healthy disk every later recovery then
  reports a conflict and changes nothing: the undone key has its old value at a version two
  steps on, which the recovery accepts neither as committed nor as previous, while the other \<open>j\<close>
  writes of the aborted transaction stay in the store.
\<close>

theorem interrupted_rollback_is_stuck:
  assumes kv: "detached_store kv ok_state" and ok: "ok_state st"
    and es: "entries_from V0 es" and lt: "length es < 2 ^ 64" and a: "fa_entries a = es"
    and j: "j < length es" and ex: "vv_exists (V0 (fe_key (es ! j)))"
    and V: "kv_Get kv (fst st) = partly_applied V0 es (Suc j)"
    and crash: "script (snd st) = [NoFault, NoFault, OpenFault]"
    and run: "ResumeRollbackFallbackCommit kv a p st r = (done_ok, a', st', r')"
    and again: "RecoverFallbackCommitArtifacts kv [p] st' = (r'', st'')"
  shows "\<not> done_ok \<and> quiet (snd st') \<and> \<not> fr_success r'' \<and> st'' = st' \<and>
    vv_value (kv_Get kv (fst st'') (fe_key (es ! j))) = vv_value (V0 (fe_key (es ! j))) \<and>
    (\<forall>i < j. vv_value (kv_Get kv (fst st'') (fe_key (es ! i))) = fe_target_value (es ! i))"
proof -
  have d: "distinct (map fe_key es)" using es by (simp add: entries_from_def)
  have det: "DetectCommittedPrefix kv a (fst st) r = (Suc j, r)"
    by (rule Detect_partly_applied) (use es a j V in auto)
  let ?a = "a\<lparr>fa_applied_count := Suc j, fa_phase := FbRollingBack\<rparr>" and ?b = "a\<lparr>fa_phase := FbRollingBack, fa_applied_count := j\<rparr>"
  have okf: "fallback_ok ?a" using a j lt by (simp add: fallback_ok_def)
  obtain w1 where w1: "WriteFallbackCommitArtifact ?a p (snd st) = (True, w1)" "script w1 = [OpenFault]"
      "fs_read p w1 = Some (fallback_artifact_text ?a)"
    using WriteFallback_pass [OF crash] by blast
  have wr1: "write_artifact ?a p st = (True, fst st, w1)" by (simp add: write_artifact_def w1)
  have inv1: "ok_state (fst st, w1)" by (rule detached_store.write_artifact_inv [OF kv ok wr1])
  have V1: "undone_to V0 es (Suc j) (kv_Get kv (fst (fst st, w1)))" by (simp add: V)
  obtain ok1 st1 where undo: "(if fe_previous_exists (es ! j)
        then kv_PutIfVersion kv (fe_key (es ! j)) (fe_previous_version (es ! j) + 1) (fe_previous_value (es ! j)) (fst st, w1)
        else kv_DeleteIfVersion kv (fe_key (es ! j)) (fe_expected_version (es ! j) + 1) (fst st, w1)) = (ok1, st1)"
    by (metis surj_pair)
  note u = detached_store.undo_entry [OF kv es j V1 inv1 undo]
  have s1: "snd st1 = w1" using u(3) by simp
  have pe: "fe_previous_exists (es ! j)" using ex entries_fromD(4) [OF es j] by simp
  with undo u(1) have undo': "kv_PutIfVersion kv (fe_key (es ! j)) (fe_previous_version (es ! j) + 1)
      (fe_previous_value (es ! j)) (fst st, w1) = (True, st1)" by simp
  have wr2: "write_artifact ?b p st1 = (False, fst st1, w1\<lparr>script := []\<rparr>)"
    by (simp add: write_artifact_def s1 WriteFallback_blocked [OF w1(2)])
  have "ResumeRollbackFallbackCommit kv a p st r =
      (False, ?b, (fst st1, w1\<lparr>script := []\<rparr>), fr_fail (''failed to persist fallback rollback progress: '' @ p) r)"
    using det j undo' wr1 wr2 undone_to_entry(2,3) [OF es j V1] pe
    by (simp add: ResumeRollbackFallbackCommit_def Let_def a)
  with run have st': "\<not> done_ok" "st' = (fst st1, w1\<lparr>script := []\<rparr>)" by simp_all
  have val: "kv_Get kv (fst st') (fe_key (es ! j)) =
      \<lparr>vv_value = vv_value (V0 (fe_key (es ! j))), vv_version = vv_version (V0 (fe_key (es ! j))) + 2, vv_exists = True\<rparr>"
    using u(5) ex entries_fromD [OF es j] undone_to_entry(1) [OF es j V1] by (simp add: st' add.assoc)
  have targets: "kv_Get kv (fst st') (fe_key (es ! i)) =
      \<lparr>vv_value = fe_target_value (es ! i), vv_version = fe_expected_version (es ! i) + 1, vv_exists = True\<rparr>"
    if "i < j" for i
    using u(4) that j entries_fromD(1) [OF es, of i] partly_applied_done [OF d that, of V0]
    by (simp add: st' undone_to_def)
  have parsed: "ParseFallbackCommitArtifact p (snd st') = Some ?a"
    using w1(3) by (simp add: ParseFallbackCommitArtifact_def st' fs_read_def parse_fallback_text_written [OF okf])
  have "\<exists>r'. DetectCommittedPrefix kv ?a (fst st') default_FallbackRecoveryResult = (length (fa_entries ?a) + 1, r') \<and> \<not> fr_success r'"
    by (rule rolled_back_entry_conflicts [where j = j]) (use es j ex val targets a in \<open>auto simp: FallbackEntryMatchesTarget_def\<close>)
  then obtain r3 where r3: "DetectCommittedPrefix kv ?a (fst st') default_FallbackRecoveryResult = (length (fa_entries ?a) + 1, r3)"
      "\<not> fr_success r3" by blast
  then have "RecoverFallbackCommitArtifacts kv [p] st' = (r3, st')"
    by (simp add: RecoverFallbackCommitArtifacts_def parsed ResumeRollbackFallbackCommit_def)
  with again r3 st' val targets show ?thesis by (auto simp: quiet_def)
qed

theorem interrupted_rollback_is_stuck_witness:
  "let V0 = (\<lambda>k. if k = ''a'' \<or> k = ''b'' then \<lparr>vv_value = ''old'', vv_version = 1, vv_exists = True\<rparr> else no_value);
       e = (\<lambda>k. \<lparr>fe_key = k, fe_expected_version = 1, fe_target_value = ''new'', fe_previous_value = ''old'',
                fe_previous_version = 1, fe_previous_exists = True\<rparr>);
       m = [(''a'', \<lparr>me_value = ''new'', me_version = 2\<rparr>), (''b'', \<lparr>me_value = ''new'', me_version = 2\<rparr>)];
       st = (m, \<lparr>files = [], dirs = [], script = [NoFault, NoFault, OpenFault]\<rparr>);
       a = default_FallbackCommitArtifact\<lparr>fa_entries := [e ''a'', e ''b'']\<rparr>;
       (done_ok, a', st', r') = ResumeRollbackFallbackCommit non_batch_memory_store a ''f'' st default_FallbackRecoveryResult;
       (r'', st'') = RecoverFallbackCommitArtifacts non_batch_memory_store [''f''] st'
   in \<not> fr_success r'' \<and> vv_value (mem_Get (fst st'') ''a'') = ''new'' \<and> vv_value (mem_Get (fst st'') ''b'') = ''old''"
proof -
  let ?V0 = "(\<lambda>k. if k = ''a'' \<or> k = ''b'' then \<lparr>vv_value = ''old'', vv_version = 1, vv_exists = True\<rparr> else no_value) :: view"
  let ?e = "(\<lambda>k. \<lparr>fe_key = k, fe_expected_version = 1, fe_target_value = ''new'', fe_previous_value = ''old'',
                fe_previous_version = 1, fe_previous_exists = True\<rparr>)"
  let ?m = "[(''a'', \<lparr>me_value = ''new'', me_version = 2\<rparr>), (''b'', \<lparr>me_value = ''new'', me_version = 2\<rparr>)]"
  let ?st = "(?m, \<lparr>files = [], dirs = [], script = [NoFault, NoFault, OpenFault]\<rparr>)"
  let ?a = "default_FallbackCommitArtifact\<lparr>fa_entries := [?e ''a'', ?e ''b'']\<rparr>"
  have es: "entries_from ?V0 [?e ''a'', ?e ''b'']" by (simp add: entries_from_def)
  have V: "kv_Get non_batch_memory_store (fst ?st) = partly_applied ?V0 [?e ''a'', ?e ''b''] (Suc 1)"
    by (rule ext) (simp add: partly_applied_def mem_Get_def umap_find_def view_put_def no_value_def)
  obtain ok a' st' r' where run: "ResumeRollbackFallbackCommit non_batch_memory_store ?a ''f'' ?st
      default_FallbackRecoveryResult = (ok, a', st', r')" by (metis surj_pair)
  obtain r'' st'' where again: "RecoverFallbackCommitArtifacts non_batch_memory_store [''f''] st' = (r'', st'')"
    by (metis surj_pair)
  have "\<not> fr_success r''" "vv_value (mem_Get (fst st'') ''b'') = ''old''" "vv_value (mem_Get (fst st'') ''a'') = ''new''"
    using interrupted_rollback_is_stuck [OF nonbatch_detached.detached_store_axioms TrueI es _ _ _ _ V _ run again]
    by (auto simp: default_FallbackCommitArtifact_def)
  then show ?thesis by (simp only: Let_def run again prod.case simp_thms)
qed

end
