(* ===== verification/Commit.thy ===== *)
theory Commit
  imports Fallback_Recovery
begin

text \<open>
  \<open>agent_txn/commit_manager.h\<close>. \<open>CommitWinner\<close> first turns the winner's reads, buffered entries
  and intents into version checks and writes (\<open>plan_commit\<close>, which changes nothing), then hands
  them to the store in one batch or, where the store has no batches, write by write, with or
  without an artifact on the disk.
\<close>

definition vr_fail :: "string \<Rightarrow> ValidationResult" where
  "vr_fail reason = \<lparr>vr_success = False, vr_reason = reason\<rparr>"

section \<open>From the winner to checks and writes\<close>

fun collect_reads ::
    "ReadSet \<Rightarrow> (string, u64) umap \<Rightarrow> ValidationResult + (string, u64) umap" where
  "collect_reads [] seen_checks = Inr seen_checks"
| "collect_reads (read # reads) seen_checks =
     (let (seen_checks, it, inserted) =
            umap_emplace seen_checks (rd_object_id read) (rd_observed_version read) in
      if \<not> inserted \<and> it \<noteq> rd_observed_version read
      then Inl (vr_fail (''inconsistent read versions for '' @ rd_object_id read))
      else collect_reads reads seen_checks)"

definition AddOrVerifyCheck ::
    "string \<Rightarrow> u64 \<Rightarrow> (string, u64) umap \<Rightarrow> ValidationResult \<Rightarrow> (string, u64) umap \<times> ValidationResult" where
  "AddOrVerifyCheck object_id version seen_checks failure =
     (let (seen_checks, it, inserted) = umap_emplace seen_checks object_id version
      in (seen_checks,
          if \<not> inserted \<and> it \<noteq> version
          then vr_fail (''conflicting expected versions for '' @ object_id) else failure))"

text \<open>The loop over the buffered entries: \<open>Inl\<close> when it returns \<open>false\<close>.\<close>

fun resolve_entries ::
    "view \<Rightarrow> (string, WriteIntent) umap \<Rightarrow> ObjectCacheEntry list \<Rightarrow> (string, u64) umap \<Rightarrow>
     WriteOp list \<Rightarrow> ValidationResult \<Rightarrow> ValidationResult + (string, u64) umap \<times> WriteOp list \<times> ValidationResult" where
  "resolve_entries store_Get latest [] seen_checks writes failure = Inr (seen_checks, writes, failure)"
| "resolve_entries store_Get latest (entry # entries) seen_checks writes failure =
     (case umap_find latest (ce_object_id entry) of
        None \<Rightarrow> Inl (vr_fail (''missing latest intent for '' @ ce_object_id entry))
      | Some intent \<Rightarrow>
          (let current = store_Get (ce_object_id entry);
               resolved = ResolveWrite entry intent (vv_value current) in
           if \<not> rr_success resolved then
             Inl (vr_fail (if rr_reason resolved = []
                           then ''failed to resolve write intent for '' @ ce_object_id entry
                           else rr_reason resolved @ '' for '' @ ce_object_id entry))
           else if \<not> rr_should_write resolved then
             resolve_entries store_Get latest entries seen_checks writes failure
           else
             (let semantic_rebase = UsesSemanticRebase (wi_intent_type intent);
                  expected_version = (if semantic_rebase then vv_version current else ce_base_version entry);
                  (seen_checks, failure) =
                    (if semantic_rebase
                     then (umap_set seen_checks (ce_object_id entry) expected_version, failure)
                     else AddOrVerifyCheck (ce_object_id entry) expected_version seen_checks failure) in
              if \<not> vr_success failure \<and> vr_reason failure \<noteq> [] then Inl failure
              else resolve_entries store_Get latest entries seen_checks
                     (writes @ [\<lparr>wo_key = ce_object_id entry, wo_value = rr_value resolved\<rparr>]) failure)))"

definition checks_of :: "(string, u64) umap \<Rightarrow> VersionCheck list" where
  "checks_of seen_checks = map (\<lambda>(key, version). \<lparr>vc_key = key, vc_expected_version = version\<rparr>) seen_checks"

text \<open>The first part of \<open>CommitWinner\<close>. The buffer's \<open>at\<close> can throw; a planned failure is \<open>Inl\<close>.\<close>

definition plan_commit ::
    "BranchContext \<Rightarrow> view \<Rightarrow> ValidationResult \<Rightarrow>
     exn + (ValidationResult + (string, u64) umap \<times> WriteOp list \<times> ValidationResult)" where
  "plan_commit winner store_Get failure =
     (case collect_reads (bc_read_set winner) [] of
        Inl f \<Rightarrow> Inr (Inl f)
      | Inr seen_checks \<Rightarrow>
          (case wb_Entries (bc_write_buffer winner) of
             None \<Rightarrow> Inl out_of_range
           | Some entries \<Rightarrow>
               Inr (resolve_entries store_Get (latest_intents (bc_intent_log winner)) entries
                      seen_checks [] failure)))"

section \<open>Stores without batches\<close>

record AppliedWrite =
  aw_key :: string
  aw_previous_value :: string
  aw_previous_version :: u64
  aw_previous_exists :: bool

text \<open>The loop runs over the applied writes from the last to the first.\<close>

fun rollback_applied_loop ::
    "'s VersionedKVStore \<Rightarrow> AppliedWrite list \<Rightarrow> 's sys \<Rightarrow> ValidationResult \<Rightarrow>
     bool \<times> 's sys \<times> ValidationResult" where
  "rollback_applied_loop kv [] st failure = (True, st, failure)"
| "rollback_applied_loop kv (it # its) st failure =
     (let rollback_expected_version = aw_previous_version it + 1;
          (rolled_back, st) =
            (if aw_previous_exists it
             then kv_PutIfVersion kv (aw_key it) rollback_expected_version (aw_previous_value it) st
             else kv_DeleteIfVersion kv (aw_key it) rollback_expected_version st) in
      if \<not> rolled_back then (False, st, vr_fail (''fallback rollback failed for '' @ aw_key it))
      else rollback_applied_loop kv its st failure)"

definition RollbackAppliedWrites ::
    "'s VersionedKVStore \<Rightarrow> AppliedWrite list \<Rightarrow> 's sys \<Rightarrow> ValidationResult \<Rightarrow>
     bool \<times> 's sys \<times> ValidationResult" where
  "RollbackAppliedWrites kv applied_writes st failure =
     rollback_applied_loop kv (rev applied_writes) st failure"

definition expected_versions_of :: "VersionCheck list \<Rightarrow> (string, u64) umap" where
  "expected_versions_of checks =
     umap_store_all [] (map (\<lambda>check. (vc_key check, vc_expected_version check)) checks)"

definition or_reason :: "string \<Rightarrow> ValidationResult \<Rightarrow> ValidationResult" where
  "or_reason reason failure = (if vr_reason failure = [] then vr_fail reason else failure)"

fun apply_writes ::
    "'s VersionedKVStore \<Rightarrow> (string, u64) umap \<Rightarrow> WriteOp list \<Rightarrow> AppliedWrite list \<Rightarrow> 's sys \<Rightarrow>
     ValidationResult \<Rightarrow> bool \<times> 's sys \<times> ValidationResult" where
  "apply_writes kv expected_versions [] applied_writes st failure = (True, st, failure)"
| "apply_writes kv expected_versions (write # writes) applied_writes st failure =
     (case umap_find expected_versions (wo_key write) of
        None \<Rightarrow> (False, st, vr_fail (''missing expected version for '' @ wo_key write))
      | Some expected \<Rightarrow>
          (let current = kv_Get kv (fst st) (wo_key write) in
           if vv_version current \<noteq> expected then
             (let (_, st, failure) = RollbackAppliedWrites kv applied_writes st failure
              in (False, st, or_reason (''fallback write version changed for '' @ wo_key write) failure))
           else
             (let (put_ok, st) = kv_PutIfVersion kv (wo_key write) expected (wo_value write) st in
              if \<not> put_ok then
                (let (_, st, failure) = RollbackAppliedWrites kv applied_writes st failure
                 in (False, st, or_reason (''fallback conditional write failed for '' @ wo_key write) failure))
              else
                apply_writes kv expected_versions writes
                  (applied_writes @ [\<lparr>aw_key = wo_key write, aw_previous_value = vv_value current,
                     aw_previous_version = vv_version current, aw_previous_exists = vv_exists current\<rparr>])
                  st failure)))"

section \<open>The crash-safe variant\<close>

definition RollbackCrashSafeArtifact ::
    "'s VersionedKVStore \<Rightarrow> FallbackCommitArtifact \<Rightarrow> string \<Rightarrow> 's sys \<Rightarrow> ValidationResult \<Rightarrow>
     bool \<times> 's sys \<times> ValidationResult" where
  "RollbackCrashSafeArtifact kv artifact artifact_path st failure =
     (let (ok, artifact, st, recovery) =
            ResumeRollbackFallbackCommit kv artifact artifact_path st default_FallbackRecoveryResult
      in if \<not> ok
         then (False, st,
               or_reason (if fr_reason recovery = [] then ''fallback rollback failed'' else fr_reason recovery) failure)
         else (False, st, failure))"

text \<open>The entries of the artifact, or the reason why a write cannot be prepared.\<close>

fun prepare_entries ::
    "view \<Rightarrow> (string, u64) umap \<Rightarrow> WriteOp list \<Rightarrow> ValidationResult + FallbackCommitEntry list" where
  "prepare_entries store_Get expected_versions [] = Inr []"
| "prepare_entries store_Get expected_versions (write # writes) =
     (case umap_find expected_versions (wo_key write) of
        None \<Rightarrow> Inl (vr_fail (''missing expected version for '' @ wo_key write))
      | Some expected \<Rightarrow>
          (let current = store_Get (wo_key write) in
           if vv_version current \<noteq> expected then
             Inl (vr_fail (''fallback write version changed for '' @ wo_key write))
           else
             (case prepare_entries store_Get expected_versions writes of
                Inl f \<Rightarrow> Inl f
              | Inr entries \<Rightarrow>
                  Inr (\<lparr>fe_key = wo_key write, fe_expected_version = expected, fe_target_value = wo_value write,
                        fe_previous_value = vv_value current, fe_previous_version = vv_version current,
                        fe_previous_exists = vv_exists current\<rparr> # entries))))"

fun apply_entries ::
    "'s VersionedKVStore \<Rightarrow> FallbackCommitConfig \<Rightarrow> FallbackCommitEntry list \<Rightarrow> FallbackCommitArtifact \<Rightarrow>
     's sys \<Rightarrow> ValidationResult \<Rightarrow> (bool \<times> 's sys \<times> ValidationResult) + FallbackCommitArtifact \<times> 's sys" where
  "apply_entries kv config [] artifact st failure = Inr (artifact, st)"
| "apply_entries kv config (entry # entries) artifact st failure =
     (let current = kv_Get kv (fst st) (fe_key entry) in
      if vv_version current \<noteq> fe_expected_version entry \<or> \<not> vv_exists current then
        Inl (RollbackCrashSafeArtifact kv artifact (fcc_artifact_path config) st
          (vr_fail (''fallback write version changed for '' @ fe_key entry)))
      else
      let (put_ok, st) = kv_PutIfVersion kv (fe_key entry) (fe_expected_version entry) (fe_target_value entry) st in
      if \<not> put_ok then
        Inl (RollbackCrashSafeArtifact kv artifact (fcc_artifact_path config) st
          (vr_fail (''fallback conditional write failed for '' @ fe_key entry)))
      else
      let artifact = artifact\<lparr>fa_applied_count := fa_applied_count artifact + 1, fa_phase := FbApplying\<rparr>;
          (written, st) = write_artifact artifact (fcc_artifact_path config) st in
      if \<not> written then Inl (False, st, vr_fail ''failed to persist fallback apply progress'')
      else if fcc_simulate_crash_after_apply_count config > 0 \<and>
              fa_applied_count artifact = fcc_simulate_crash_after_apply_count config
      then Inl (False, st, vr_fail ''simulated crash during fallback commit'')
      else apply_entries kv config entries artifact st failure)"

definition CommitWinnerWithoutBatchCrashSafe ::
    "'s VersionedKVStore \<Rightarrow> AgentTxnContext \<Rightarrow> VersionCheck list \<Rightarrow> WriteOp list \<Rightarrow> 's sys \<Rightarrow>
     ValidationResult \<Rightarrow> bool \<times> 's sys \<times> ValidationResult" where
  "CommitWinnerWithoutBatchCrashSafe kv txn checks writes st failure =
     (let config = tx_fallback_commit txn;
          expected_versions = expected_versions_of checks in
      case prepare_entries (kv_Get kv (fst st)) expected_versions writes of
        Inl f \<Rightarrow> (False, st, f)
      | Inr entries \<Rightarrow>
          (let artifact = \<lparr>fa_txn_id = tx_txn_id txn, fa_task_id = tx_task_id txn, fa_phase = FbPrepared,
                 fa_applied_count = 0, fa_entries = entries\<rparr>;
               (written, st) = write_artifact artifact (fcc_artifact_path config) st in
           if \<not> written then (False, st, vr_fail ''failed to persist fallback prepare artifact'')
           else
             (case apply_entries kv config (fa_entries artifact) artifact st failure of
                Inl r \<Rightarrow> r
              | Inr (artifact, st) \<Rightarrow>
                  (let artifact = artifact\<lparr>fa_phase := FbCommitted\<rparr>;
                       (written, st) = write_artifact artifact (fcc_artifact_path config) st in
                   if \<not> written then (False, st, vr_fail ''failed to persist fallback commit state'')
                   else (True, st, failure)))))"

definition CommitWinnerWithoutBatch ::
    "'s VersionedKVStore \<Rightarrow> AgentTxnContext \<Rightarrow> VersionCheck list \<Rightarrow> WriteOp list \<Rightarrow> 's sys \<Rightarrow>
     ValidationResult \<Rightarrow> bool \<times> 's sys \<times> ValidationResult" where
  "CommitWinnerWithoutBatch kv txn checks writes st failure =
     (if fcc_artifact_path (tx_fallback_commit txn) \<noteq> []
      then CommitWinnerWithoutBatchCrashSafe kv txn checks writes st failure
      else apply_writes kv (expected_versions_of checks) writes [] st failure)"

section \<open>CommitWinner\<close>

definition commit_log_of :: "(string, u64) umap \<Rightarrow> WriteOp list \<Rightarrow> CommitLog" where
  "commit_log_of seen_checks writes =
     map (\<lambda>write. \<lparr>cle_key = wo_key write, cle_value = wo_value write,
        cle_expected_version = (case umap_find seen_checks (wo_key write) of None \<Rightarrow> 0 | Some v \<Rightarrow> v)\<rparr>) writes"

definition CommitWinner ::
    "'s VersionedKVStore \<Rightarrow> AgentTxnContext \<Rightarrow> BranchContext \<Rightarrow> 's sys \<Rightarrow> ValidationResult \<Rightarrow>
     exn + bool \<times> AgentTxnContext \<times> 's sys \<times> ValidationResult" where
  "CommitWinner kv txn winner st failure =
     (case plan_commit winner (kv_Get kv (fst st)) failure of
        Inl e \<Rightarrow> Inl e
      | Inr (Inl f) \<Rightarrow> Inr (False, txn, st, f)
      | Inr (Inr (seen_checks, writes, failure)) \<Rightarrow>
          (let checks = checks_of seen_checks;
               batch = SupportsAtomicBatchConditionalWrite kv;
               (committed, st, failure) =
                 (if batch
                  then (let (ok, st) = kv_BatchPutIfVersion kv checks writes st in (ok, st, failure))
                  else CommitWinnerWithoutBatch kv txn checks writes st failure) in
           if \<not> committed then
             Inr (False, txn, st,
               or_reason (if batch then ''batch conditional write failed'' else ''fallback conditional write failed'')
                 failure)
           else Inr (True, txn\<lparr>tx_commit_log := commit_log_of seen_checks writes\<rparr>, st, failure)))"

section \<open>What the plan contains\<close>

lemma expected_versions_of_checks:
  "umap_wf seen \<Longrightarrow> umap_find (expected_versions_of (checks_of seen)) k = umap_find seen k"
  by (simp add: expected_versions_of_def checks_of_def comp_def split_beta umap_find_store_all_wf)

lemma checks_hold_of:
  "umap_wf seen \<Longrightarrow> checks_hold (checks_of seen) V \<longleftrightarrow> (\<forall>k n. umap_find seen k = Some n \<longrightarrow> vv_version (V k) = n)"
  by (auto simp: checks_hold_def checks_of_def umap_find_mem split_beta)

lemma collect_reads_sound:
  assumes "collect_reads rs seen = Inr seen'" "umap_wf seen"
  shows "umap_wf seen' \<and> (\<forall>r \<in> set rs. umap_find seen' (rd_object_id r) = Some (rd_observed_version r)) \<and>
    (\<forall>k v. umap_find seen k = Some v \<longrightarrow> umap_find seen' k = Some v) \<and>
    (\<forall>k v. umap_find seen' k = Some v \<longrightarrow> umap_find seen k = Some v \<or>
       (\<exists>r \<in> set rs. rd_object_id r = k \<and> rd_observed_version r = v))"
  using assms
proof (induction rs arbitrary: seen)
  case Nil
  then show ?case by simp
next
  case (Cons r rs)
  obtain m it ins where e: "umap_emplace seen (rd_object_id r) (rd_observed_version r) = (m, it, ins)"
    by (metis surj_pair)
  from Cons.prems(1) e have run: "collect_reads rs m = Inr seen'" and it: "ins \<or> it = rd_observed_version r"
    by (auto split: if_splits)
  have wf: "umap_wf m" by (rule umap_wf_emplace [OF Cons.prems(2) e])
  have m: "umap_find m q = (if q = rd_object_id r then Some it else umap_find seen q)" for q
    using umap_find_emplace [OF e] by blast
  have "it = rd_observed_version r" using it umap_find_emplace [OF e] by blast
  with m have m: "umap_find m q = (if q = rd_object_id r then Some (rd_observed_version r) else umap_find seen q)" for q
    by simp
  have old: "umap_find seen (rd_object_id r) = None \<or> umap_find seen (rd_object_id r) = Some (rd_observed_version r)"
    using e \<open>it = rd_observed_version r\<close> by (auto simp: umap_emplace_def split: option.splits)
  note ih = Cons.IH [OF run wf]
  have "umap_find seen' (rd_object_id r) = Some (rd_observed_version r)"
    using ih m [of "rd_object_id r"] by auto
  moreover have "umap_find seen' k = Some v" if "umap_find seen k = Some v" for k v
    using that ih m [of k] old by (metis option.distinct(1))
  moreover have "umap_find seen k = Some v \<or> (\<exists>x \<in> set (r # rs). rd_object_id x = k \<and> rd_observed_version x = v)"
    if "umap_find seen' k = Some v" for k v
    using that ih m [of k] by (cases "k = rd_object_id r") (auto, metis)
  ultimately show ?case using ih by (intro conjI) auto
qed


text \<open>
  \<open>planned V latest seen0 seen es u\<close>: the write \<open>u\<close> comes from one of the buffered entries, with
  the value its policy gives against the store view \<open>V\<close>, and is checked at the version found
  (for a rebased intent) or at the version the branch based it on, which its reads agree with.
\<close>

definition planned ::
    "view \<Rightarrow> (string, WriteIntent) umap \<Rightarrow> (string, u64) umap \<Rightarrow> (string, u64) umap \<Rightarrow>
     ObjectCacheEntry list \<Rightarrow> WriteOp \<Rightarrow> bool" where
  "planned V latest seen0 seen es u \<longleftrightarrow>
     (\<exists>e \<in> set es. \<exists>i. wo_key u = ce_object_id e \<and> umap_find latest (ce_object_id e) = Some i \<and>
        wi_intent_type i \<noteq> kRead \<and>
        rr_success (ResolveWrite e i (vv_value (V (ce_object_id e)))) \<and>
        wo_value u = rr_value (ResolveWrite e i (vv_value (V (ce_object_id e)))) \<and>
        (if UsesSemanticRebase (wi_intent_type i)
         then umap_find seen (ce_object_id e) = Some (vv_version (V (ce_object_id e)))
         else umap_find seen (ce_object_id e) = Some (ce_base_version e) \<and>
              umap_find seen0 (ce_object_id e) \<in> {None, Some (ce_base_version e)}))"

lemma planned_later:
  "planned V latest seen1 seen es u \<Longrightarrow> umap_find seen1 (wo_key u) = umap_find seen0 (wo_key u) \<Longrightarrow>
     planned V latest seen0 seen (e # es) u"
  unfolding planned_def by (metis list.set_intros(2))

lemma resolve_entries_sound:
  assumes "resolve_entries V latest es seen ws f = Inr (seen', ws', f')"
    and "distinct (map ce_object_id es)" and "umap_wf seen" and "vr_reason f = []"
  shows "\<exists>us. ws' = ws @ us \<and> f' = f \<and> umap_wf seen' \<and> distinct (map wo_key us) \<and>
     wo_key ` set us \<subseteq> ce_object_id ` set es \<and>
     (\<forall>q. q \<notin> wo_key ` set us \<longrightarrow> umap_find seen' q = umap_find seen q) \<and>
     (\<forall>u \<in> set us. planned V latest seen seen' es u) \<and>
     (\<forall>e \<in> set es. \<exists>i. umap_find latest (ce_object_id e) = Some i \<and>
        (wi_intent_type i \<noteq> kRead \<longrightarrow> ce_object_id e \<in> wo_key ` set us))"
  using assms
proof (induction es arbitrary: seen ws)
  case Nil
  then show ?case by (auto intro: exI [of _ "[]"])
next
  case (Cons e es)
  let ?k = "ce_object_id e"
  from Cons.prems(1) obtain i where i: "umap_find latest ?k = Some i"
    by (auto split: option.splits)
  let ?r = "ResolveWrite e i (vv_value (V ?k))"
  have succ: "rr_success ?r" using Cons.prems(1) i by (auto simp: Let_def split: if_splits)
  show ?case
  proof (cases "wi_intent_type i = kRead")
    case True
    then have "resolve_entries V latest es seen ws f = Inr (seen', ws', f')"
      using Cons.prems(1) i succ ResolveWrite_should_write [OF succ] by (simp add: Let_def)
    from Cons.IH [OF this] Cons.prems(2-4) obtain us where us: "ws' = ws @ us" "f' = f" "umap_wf seen'"
        "distinct (map wo_key us)" "wo_key ` set us \<subseteq> ce_object_id ` set es"
        "\<forall>q. q \<notin> wo_key ` set us \<longrightarrow> umap_find seen' q = umap_find seen q"
        "\<forall>u \<in> set us. planned V latest seen seen' es u"
        "\<forall>e \<in> set es. \<exists>i. umap_find latest (ce_object_id e) = Some i \<and>
           (wi_intent_type i \<noteq> kRead \<longrightarrow> ce_object_id e \<in> wo_key ` set us)"
      by auto
    then show ?thesis using i True by (intro exI [of _ us]) (auto intro: planned_later)
  next
    case False
    let ?sem = "UsesSemanticRebase (wi_intent_type i)"
    let ?x = "if ?sem then vv_version (V ?k) else ce_base_version e"
    let ?u = "\<lparr>wo_key = ?k, wo_value = rr_value ?r\<rparr>"
    obtain m f1 where m: "(if ?sem then (umap_set seen ?k ?x, f) else AddOrVerifyCheck ?k ?x seen f) = (m, f1)"
      by (metis surj_pair)
    have run0: "(if \<not> vr_success f1 \<and> vr_reason f1 \<noteq> [] then Inl f1
        else resolve_entries V latest es m (ws @ [?u]) f1) = Inr (seen', ws', f')"
      using Cons.prems(1) i succ ResolveWrite_should_write [OF succ] False m by (simp add: Let_def)
    have f1: "f1 = f" and wfm: "umap_wf m"
      and mk: "umap_find m q = (if q = ?k then Some ?x else umap_find seen q)"
      and agree: "\<not> ?sem \<Longrightarrow> umap_find seen ?k \<in> {None, Some (ce_base_version e)}" for q
      using m run0 Cons.prems(3,4)
      by (auto simp: AddOrVerifyCheck_def Let_def umap_emplace_def vr_fail_def split: if_splits option.splits)
    have run: "resolve_entries V latest es m (ws @ [?u]) f = Inr (seen', ws', f')"
      using run0 f1 Cons.prems(4) by simp
    from Cons.IH [OF run _ wfm Cons.prems(4)] Cons.prems(2) obtain us where us: "ws' = ws @ [?u] @ us" "f' = f" "umap_wf seen'"
        "distinct (map wo_key us)" "wo_key ` set us \<subseteq> ce_object_id ` set es"
        "\<forall>q. q \<notin> wo_key ` set us \<longrightarrow> umap_find seen' q = umap_find m q"
        "\<forall>u \<in> set us. planned V latest m seen' es u"
        "\<forall>e \<in> set es. \<exists>i. umap_find latest (ce_object_id e) = Some i \<and>
           (wi_intent_type i \<noteq> kRead \<longrightarrow> ce_object_id e \<in> wo_key ` set us)"
      by auto
    have new: "?k \<notin> wo_key ` set us" using us(5) Cons.prems(2) by auto
    have "planned V latest seen seen' (e # es) ?u"
      using i succ False us(6) new mk [of ?k] agree by (auto simp: planned_def)
    moreover have "planned V latest seen seen' (e # es) u" if "u \<in> set us" for u
    proof -
      have "wo_key u \<noteq> ?k" using that new by (metis imageI)
      then show ?thesis using us(7) that mk [of "wo_key u"] by (auto intro: planned_later)
    qed
    moreover have "umap_find seen' q = umap_find seen q" if "q \<notin> wo_key ` set (?u # us)" for q
      using that us(6) mk [of q] by auto
    ultimately show ?thesis
      using us new i by (intro exI [of _ "?u # us"]) auto
  qed
qed


section \<open>Facts about a successful plan\<close>

definition buffered_keys :: "BranchContext \<Rightarrow> string set" where
  "buffered_keys b = set (wb_order (bc_write_buffer b))"

lemma wb_Entries_inv:
  assumes "branch_inv b"
  obtains xs where "wb_Entries (bc_write_buffer b) = Some xs" "distinct (map ce_object_id xs)"
    "ce_object_id ` set xs = buffered_keys b"
    "\<And>e. e \<in> set xs \<Longrightarrow> wb_Find (bc_write_buffer b) (ce_object_id e) = Some e"
proof -
  from assms obtain es where es: "bc_write_buffer b = wb_of es" unfolding branch_inv_def by blast
  let ?xs = "map (\<lambda>k. the (latest_entry es k)) (write_order es)"
  have x: "wb_Entries (bc_write_buffer b) = Some ?xs" by (simp add: es wb_Entries_of)
  have ids: "map ce_object_id ?xs = write_order es" by (rule wb_Entries_ids) (simp add: wb_Entries_of)
  show ?thesis
  proof (rule that [OF x])
    show "distinct (map ce_object_id ?xs)" unfolding ids by (rule distinct_write_order)
    show "ce_object_id ` set ?xs = buffered_keys b"
      using ids by (metis buffered_keys_def es list.set_map wb_order_of)
    show "wb_Find (bc_write_buffer b) (ce_object_id e) = Some e" if "e \<in> set ?xs" for e
      using wb_Entries_mem [OF _ that] by (simp add: es wb_Entries_of wb_Find_of)
  qed
qed

text \<open>The writes of a plan, described without the loops of the code.\<close>

definition committed_value :: "BranchContext \<Rightarrow> view \<Rightarrow> string \<Rightarrow> string" where
  "committed_value b V k =
     (case (wb_Find (bc_write_buffer b) k, latest_intent (bc_intent_log b) k) of
        (Some e, Some i) \<Rightarrow> rr_value (ResolveWrite e i (vv_value (V k)))
      | _ \<Rightarrow> [])"

definition rebased_key :: "BranchContext \<Rightarrow> string \<Rightarrow> bool" where
  "rebased_key b k \<longleftrightarrow>
     (case latest_intent (bc_intent_log b) k of None \<Rightarrow> False | Some i \<Rightarrow> UsesSemanticRebase (wi_intent_type i))"

definition writes_key :: "BranchContext \<Rightarrow> string \<Rightarrow> bool" where
  "writes_key b k \<longleftrightarrow> k \<in> buffered_keys b \<and>
     (case latest_intent (bc_intent_log b) k of None \<Rightarrow> False | Some i \<Rightarrow> wi_intent_type i \<noteq> kRead)"

definition base_version_of :: "BranchContext \<Rightarrow> string \<Rightarrow> u64" where
  "base_version_of b k =
     (case wb_Find (bc_write_buffer b) k of None \<Rightarrow> 0 | Some e \<Rightarrow> ce_base_version e)"

lemma plan_commit_sound:
  assumes inv: "branch_inv b" and f: "vr_reason f = []"
    and plan: "plan_commit b V f = Inr (Inr (seen, ws, f'))"
  shows "f' = f" "umap_wf seen" "distinct (map wo_key ws)"
    "wo_key ` set ws = {k. writes_key b k}"
    "w \<in> set ws \<Longrightarrow> wo_value w = committed_value b V (wo_key w)"
    "w \<in> set ws \<Longrightarrow> umap_find seen (wo_key w) =
       Some (if rebased_key b (wo_key w) then vv_version (V (wo_key w)) else base_version_of b (wo_key w))"
    "r \<in> set (bc_read_set b) \<Longrightarrow> \<not> (rebased_key b (rd_object_id r) \<and> writes_key b (rd_object_id r)) \<Longrightarrow>
       umap_find seen (rd_object_id r) = Some (rd_observed_version r)"
    "umap_find seen k = Some n \<Longrightarrow> writes_key b k \<or> (\<exists>r \<in> set (bc_read_set b). rd_object_id r = k \<and> rd_observed_version r = n)"
proof -
  obtain xs where xs: "wb_Entries (bc_write_buffer b) = Some xs" "distinct (map ce_object_id xs)"
      "ce_object_id ` set xs = buffered_keys b"
      "\<And>e. e \<in> set xs \<Longrightarrow> wb_Find (bc_write_buffer b) (ce_object_id e) = Some e"
    by (rule wb_Entries_inv [OF inv]) blast
  from plan xs obtain seen0 where c: "collect_reads (bc_read_set b) [] = Inr seen0"
      and r: "resolve_entries V (latest_intents (bc_intent_log b)) xs seen0 [] f = Inr (seen, ws, f')"
    by (auto simp: plan_commit_def split: sum.splits)
  note cs = collect_reads_sound [OF c umap_wf_Nil]
  from resolve_entries_sound [OF r xs(2) _ f] cs
  have s: "f' = f" "umap_wf seen" "distinct (map wo_key ws)" "wo_key ` set ws \<subseteq> buffered_keys b"
      "\<And>q. q \<notin> wo_key ` set ws \<Longrightarrow> umap_find seen q = umap_find seen0 q"
      "\<And>u. u \<in> set ws \<Longrightarrow> planned V (latest_intents (bc_intent_log b)) seen0 seen xs u"
      "\<And>e. e \<in> set xs \<Longrightarrow> \<exists>i. latest_intent (bc_intent_log b) (ce_object_id e) = Some i \<and>
         (wi_intent_type i \<noteq> kRead \<longrightarrow> ce_object_id e \<in> wo_key ` set ws)"
    by (auto simp: xs(3) latest_intents_find)
  show "f' = f" "umap_wf seen" "distinct (map wo_key ws)" by (rule s(1-3))+
  have pl: "\<exists>e i. e \<in> set xs \<and> wo_key u = ce_object_id e \<and> wb_Find (bc_write_buffer b) (wo_key u) = Some e \<and>
      latest_intent (bc_intent_log b) (wo_key u) = Some i \<and> wi_intent_type i \<noteq> kRead \<and>
      wo_value u = rr_value (ResolveWrite e i (vv_value (V (wo_key u)))) \<and>
      umap_find seen (wo_key u) = Some (if UsesSemanticRebase (wi_intent_type i) then vv_version (V (wo_key u)) else ce_base_version e) \<and>
      (\<not> UsesSemanticRebase (wi_intent_type i) \<longrightarrow> umap_find seen0 (wo_key u) \<in> {None, Some (ce_base_version e)})"
    if "u \<in> set ws" for u
    using s(6) [OF that] xs(4) by (fastforce simp: planned_def latest_intents_find split: if_splits)
  show keys: "wo_key ` set ws = {k. writes_key b k}"
  proof
    show "wo_key ` set ws \<subseteq> {k. writes_key b k}"
      using pl s(4) by (fastforce simp: writes_key_def)
    show "{k. writes_key b k} \<subseteq> wo_key ` set ws"
    proof
      fix k assume "k \<in> {k. writes_key b k}"
      then obtain i where k: "k \<in> ce_object_id ` set xs" "latest_intent (bc_intent_log b) k = Some i"
          "wi_intent_type i \<noteq> kRead"
        by (auto simp: writes_key_def xs(3) split: option.splits)
      then show "k \<in> wo_key ` set ws" using s(7) by force
    qed
  qed
  show "wo_value w = committed_value b V (wo_key w)" if "w \<in> set ws"
    using pl [OF that] by (auto simp: committed_value_def)
  show "umap_find seen (wo_key w) =
      Some (if rebased_key b (wo_key w) then vv_version (V (wo_key w)) else base_version_of b (wo_key w))"
    if "w \<in> set ws" using pl [OF that] by (auto simp: rebased_key_def base_version_of_def)
  show "umap_find seen (rd_object_id r) = Some (rd_observed_version r)"
    if r: "r \<in> set (bc_read_set b)" and nr: "\<not> (rebased_key b (rd_object_id r) \<and> writes_key b (rd_object_id r))"
  proof (cases "rd_object_id r \<in> wo_key ` set ws")
    case False
    with s(5) cs r show ?thesis by auto
  next
    case True
    then obtain u where u: "u \<in> set ws" "wo_key u = rd_object_id r" by auto
    from pl [OF u(1)] nr True cs r show ?thesis unfolding u(2) keys by (auto simp: rebased_key_def)
  qed
  show "writes_key b k \<or> (\<exists>r \<in> set (bc_read_set b). rd_object_id r = k \<and> rd_observed_version r = n)"
    if "umap_find seen k = Some n"
  proof (cases "k \<in> wo_key ` set ws")
    case True
    then show ?thesis by (simp add: keys)
  next
    case False
    with that s(5) cs show ?thesis by auto
  qed
qed

lemma plan_commit_keys:
  assumes "branch_inv b" "vr_reason f = []" "plan_commit b V f = Inr (Inr (seen, ws, f'))"
  shows "writes_key b k \<Longrightarrow> \<exists>w \<in> set ws. wo_key w = k" "w \<in> set ws \<Longrightarrow> writes_key b (wo_key w)"
proof -
  note keys = plan_commit_sound(4) [OF assms]
  show "\<exists>w \<in> set ws. wo_key w = k" if "writes_key b k"
  proof -
    from that have "k \<in> wo_key ` set ws" unfolding keys by simp
    then show ?thesis by auto
  qed
  show "writes_key b (wo_key w)" if "w \<in> set ws"
  proof -
    from that have "wo_key w \<in> wo_key ` set ws" by simp
    then show ?thesis unfolding keys by simp
  qed
qed

lemma plan_commit_no_exn: "branch_inv b \<Longrightarrow> plan_commit b V f \<noteq> Inl e"
  by (auto simp: plan_commit_def elim!: wb_Entries_inv split: sum.splits option.splits)


lemma CommitWinner_no_exn: "branch_inv winner \<Longrightarrow> CommitWinner kv txn winner st f \<noteq> Inl e"
  using plan_commit_no_exn [of winner "kv_Get kv (fst st)" f e]
  by (auto simp: CommitWinner_def Let_def split: sum.splits prod.splits)

lemma CommitWinner_returns:
  assumes "branch_inv winner"
  obtains ok txn' st' f' where "CommitWinner kv txn winner st f = Inr (ok, txn', st', f')"
  using CommitWinner_no_exn [OF assms] by (metis sum.exhaust surj_pair)

lemma collect_reads_reason: "collect_reads rs seen = Inl g \<Longrightarrow> vr_reason g \<noteq> []"
  by (induction rs arbitrary: seen) (auto simp: vr_fail_def Let_def split: prod.splits if_splits)

lemma resolve_entries_reason: "resolve_entries V latest es seen ws f = Inl g \<Longrightarrow> vr_reason g \<noteq> []"
proof (induction es arbitrary: seen ws f)
  case Nil
  then show ?case by simp
next
  case (Cons e es)
  then show ?case by (auto simp: vr_fail_def Let_def split: option.splits if_splits prod.splits)
qed

lemma plan_commit_reason: "plan_commit b V f = Inr (Inl g) \<Longrightarrow> vr_reason g \<noteq> []"
  by (auto simp: plan_commit_def dest: collect_reads_reason resolve_entries_reason
      split: sum.splits option.splits)

section \<open>When a plan succeeds\<close>

definition reads_agree :: "BranchContext \<Rightarrow> bool" where
  "reads_agree b \<longleftrightarrow> (\<forall>r \<in> set (bc_read_set b). \<forall>r' \<in> set (bc_read_set b).
     rd_object_id r = rd_object_id r' \<longrightarrow> rd_observed_version r = rd_observed_version r')"

text \<open>Every buffered object has an intent, and its policy can resolve it against the view.\<close>

definition writes_resolve :: "BranchContext \<Rightarrow> view \<Rightarrow> bool" where
  "writes_resolve b V \<longleftrightarrow> (\<forall>k \<in> buffered_keys b.
     case (wb_Find (bc_write_buffer b) k, latest_intent (bc_intent_log b) k) of
       (Some e, Some i) \<Rightarrow> rr_success (ResolveWrite e i (vv_value (V k)))
     | _ \<Rightarrow> False)"

definition base_versions_agree :: "BranchContext \<Rightarrow> bool" where
  "base_versions_agree b \<longleftrightarrow> (\<forall>r \<in> set (bc_read_set b).
     writes_key b (rd_object_id r) \<longrightarrow> \<not> rebased_key b (rd_object_id r) \<longrightarrow>
     rd_observed_version r = base_version_of b (rd_object_id r))"

lemma collect_reads_complete:
  "(\<forall>r \<in> set rs. \<forall>r' \<in> set rs. rd_object_id r = rd_object_id r' \<longrightarrow> rd_observed_version r = rd_observed_version r') \<Longrightarrow>
   (\<forall>r \<in> set rs. umap_find seen (rd_object_id r) \<in> {None, Some (rd_observed_version r)}) \<Longrightarrow>
     \<exists>seen'. collect_reads rs seen = Inr seen'"
proof (induction rs arbitrary: seen)
  case Nil
  then show ?case by simp
next
  case (Cons r rs)
  obtain m it ins where e: "umap_emplace seen (rd_object_id r) (rd_observed_version r) = (m, it, ins)"
    by (metis surj_pair)
  note f = umap_find_emplace [OF e]
  have "umap_find seen (rd_object_id r) \<in> {None, Some (rd_observed_version r)}" using Cons.prems(2) by simp
  then have it: "it = rd_observed_version r"
    using e by (auto simp: umap_emplace_def)
  have "\<forall>q \<in> set rs. umap_find m (rd_object_id q) \<in> {None, Some (rd_observed_version q)}"
  proof
    fix q assume q: "q \<in> set rs"
    have "rd_object_id q = rd_object_id r \<longrightarrow> rd_observed_version q = rd_observed_version r"
      using bspec [OF bspec [OF Cons.prems(1), of q], of r] q by auto
    moreover have "umap_find m (rd_object_id q) =
        (if rd_object_id q = rd_object_id r then Some it else umap_find seen (rd_object_id q))"
      by (rule f [THEN conjunct1])
    moreover have "umap_find seen (rd_object_id q) \<in> {None, Some (rd_observed_version q)}"
      using Cons.prems(2) q by simp
    ultimately show "umap_find m (rd_object_id q) \<in> {None, Some (rd_observed_version q)}"
      using it by (cases "rd_object_id q = rd_object_id r") simp_all
  qed
  moreover have "\<forall>q \<in> set rs. \<forall>q' \<in> set rs. rd_object_id q = rd_object_id q' \<longrightarrow>
      rd_observed_version q = rd_observed_version q'"
    using Cons.prems(1) by (meson list.set_intros(2))
  ultimately have "\<exists>seen'. collect_reads rs m = Inr seen'" by (rule Cons.IH [rotated])
  then obtain seen' where "collect_reads rs m = Inr seen'" by blast
  then show ?case by (simp add: e it)
qed

lemma resolve_entries_complete:
  "distinct (map ce_object_id es) \<Longrightarrow> vr_reason f = [] \<Longrightarrow>
   (\<forall>e \<in> set es. \<exists>i. umap_find latest (ce_object_id e) = Some i \<and>
      rr_success (ResolveWrite e i (vv_value (V (ce_object_id e)))) \<and>
      (wi_intent_type i \<noteq> kRead \<longrightarrow> \<not> UsesSemanticRebase (wi_intent_type i) \<longrightarrow>
         umap_find seen (ce_object_id e) \<in> {None, Some (ce_base_version e)})) \<Longrightarrow>
     \<exists>x. resolve_entries V latest es seen ws f = Inr x"
proof (induction es arbitrary: seen ws)
  case Nil
  then show ?case by simp
next
  case (Cons e es)
  let ?k = "ce_object_id e"
  from Cons.prems(3) obtain i where i: "umap_find latest ?k = Some i"
      "rr_success (ResolveWrite e i (vv_value (V ?k)))"
      "wi_intent_type i \<noteq> kRead \<Longrightarrow> \<not> UsesSemanticRebase (wi_intent_type i) \<Longrightarrow>
         umap_find seen ?k \<in> {None, Some (ce_base_version e)}"
    by auto
  note sw = ResolveWrite_should_write [OF i(2)]
  show ?case
  proof (cases "wi_intent_type i = kRead")
    case True
    with Cons i sw show ?thesis by (simp add: Let_def)
  next
    case False
    let ?sem = "UsesSemanticRebase (wi_intent_type i)"
    let ?x = "if ?sem then vv_version (V ?k) else ce_base_version e"
    obtain m f1 where m: "(if ?sem then (umap_set seen ?k ?x, f) else AddOrVerifyCheck ?k ?x seen f) = (m, f1)"
      by (metis surj_pair)
    have f1: "f1 = f" and mk: "q \<noteq> ?k \<Longrightarrow> umap_find m q = umap_find seen q" for q
      using m i(3) [OF False]
      by (auto simp: AddOrVerifyCheck_def Let_def umap_emplace_def split: if_splits option.splits)
    have "umap_find m (ce_object_id e') = umap_find seen (ce_object_id e')" if "e' \<in> set es" for e'
      using that Cons.prems(1) by (intro mk) (auto simp: image_iff)
    then obtain x where "resolve_entries V latest es m (ws @ [\<lparr>wo_key = ?k, wo_value = rr_value (ResolveWrite e i (vv_value (V ?k)))\<rparr>]) f = Inr x"
      using Cons.IH [of m] Cons.prems by fastforce
    then show ?thesis using i sw False m f1 Cons.prems(2) by (cases x) (simp add: Let_def)
  qed
qed

lemma resolve_entries_resolved:
  "resolve_entries V latest es seen ws f = Inr x \<Longrightarrow> e \<in> set es \<Longrightarrow>
     \<exists>i. umap_find latest (ce_object_id e) = Some i \<and> rr_success (ResolveWrite e i (vv_value (V (ce_object_id e))))"
  by (induction es arbitrary: seen ws f)
    (auto simp: Let_def split: option.splits if_splits prod.splits)

lemma plan_commit_iff:
  assumes inv: "branch_inv b" and f: "vr_reason f = []"
  shows "(\<exists>y. plan_commit b V f = Inr (Inr y)) \<longleftrightarrow> reads_agree b \<and> writes_resolve b V \<and> base_versions_agree b"
proof -
  obtain xs where xs: "wb_Entries (bc_write_buffer b) = Some xs" "distinct (map ce_object_id xs)"
      "ce_object_id ` set xs = buffered_keys b"
      "\<And>e. e \<in> set xs \<Longrightarrow> wb_Find (bc_write_buffer b) (ce_object_id e) = Some e"
    by (rule wb_Entries_inv [OF inv]) blast
  have find: "\<exists>e \<in> set xs. ce_object_id e = k \<and> wb_Find (bc_write_buffer b) k = Some e" if "k \<in> buffered_keys b" for k
    using that xs(3,4) by (metis imageE)
  show ?thesis
  proof
    assume "\<exists>y. plan_commit b V f = Inr (Inr y)"
    then obtain seen ws f' where p: "plan_commit b V f = Inr (Inr (seen, ws, f'))" by (metis surj_pair)
    then obtain seen0 where c: "collect_reads (bc_read_set b) [] = Inr seen0"
        and r: "resolve_entries V (latest_intents (bc_intent_log b)) xs seen0 [] f = Inr (seen, ws, f')"
      using xs(1) by (auto simp: plan_commit_def split: sum.splits)
    note cs = collect_reads_sound [OF c umap_wf_Nil]
    from cs have "reads_agree b" unfolding reads_agree_def by (metis option.inject)
    moreover have "writes_resolve b V"
      unfolding writes_resolve_def
    proof
      fix k assume "k \<in> buffered_keys b"
      then obtain e where e: "e \<in> set xs" "ce_object_id e = k" "wb_Find (bc_write_buffer b) k = Some e"
        using find by blast
      from resolve_entries_resolved [OF r e(1)] e(2,3)
      show "case (wb_Find (bc_write_buffer b) k, latest_intent (bc_intent_log b) k) of
          (Some e, Some i) \<Rightarrow> rr_success (ResolveWrite e i (vv_value (V k))) | _ \<Rightarrow> False"
        by (auto simp: latest_intents_find)
    qed
    moreover have "base_versions_agree b"
      unfolding base_versions_agree_def
    proof (intro ballI impI)
      fix q assume q: "q \<in> set (bc_read_set b)" "writes_key b (rd_object_id q)" "\<not> rebased_key b (rd_object_id q)"
      note ps = plan_commit_sound [OF inv f p] and pk = plan_commit_keys [OF inv f p]
      obtain w where "w \<in> set ws" "wo_key w = rd_object_id q" using pk(1) [OF q(2)] by blast
      with ps(6) [of w] ps(7) [OF q(1)] q(3)
      show "rd_observed_version q = base_version_of b (rd_object_id q)" by simp
    qed
    ultimately show "reads_agree b \<and> writes_resolve b V \<and> base_versions_agree b" by blast
  next
    assume h: "reads_agree b \<and> writes_resolve b V \<and> base_versions_agree b"
    have "\<exists>seen0. collect_reads (bc_read_set b) [] = Inr seen0"
    proof (rule collect_reads_complete)
      show "\<forall>r \<in> set (bc_read_set b). \<forall>r' \<in> set (bc_read_set b).
          rd_object_id r = rd_object_id r' \<longrightarrow> rd_observed_version r = rd_observed_version r'"
        using h unfolding reads_agree_def by (rule conjunct1)
    qed simp
    then obtain seen0 where c: "collect_reads (bc_read_set b) [] = Inr seen0" by blast
    note cs = collect_reads_sound [OF c umap_wf_Nil]
    have "\<exists>x. resolve_entries V (latest_intents (bc_intent_log b)) xs seen0 [] f = Inr x"
    proof (rule resolve_entries_complete [OF xs(2) f], rule ballI)
      fix e assume e: "e \<in> set xs"
      let ?k = "ce_object_id e"
      have k: "?k \<in> buffered_keys b" "wb_Find (bc_write_buffer b) ?k = Some e" using e xs(3,4) by auto
      with h obtain i where i: "latest_intent (bc_intent_log b) ?k = Some i"
          "rr_success (ResolveWrite e i (vv_value (V ?k)))"
        unfolding writes_resolve_def by (force split: option.splits)
      have "umap_find seen0 ?k \<in> {None, Some (ce_base_version e)}"
        if "wi_intent_type i \<noteq> kRead" "\<not> UsesSemanticRebase (wi_intent_type i)"
      proof (cases "umap_find seen0 ?k")
        case (Some v)
        with cs obtain q where q: "q \<in> set (bc_read_set b)" "rd_object_id q = ?k" "rd_observed_version q = v"
          by force
        have "writes_key b ?k" "\<not> rebased_key b ?k" using that k i by (simp_all add: writes_key_def rebased_key_def)
        with h q have "v = base_version_of b ?k" unfolding base_versions_agree_def by metis
        with Some k show ?thesis by (simp add: base_version_of_def)
      qed simp
      with i show "\<exists>i. umap_find (latest_intents (bc_intent_log b)) ?k = Some i \<and>
          rr_success (ResolveWrite e i (vv_value (V ?k))) \<and>
          (wi_intent_type i \<noteq> kRead \<longrightarrow> \<not> UsesSemanticRebase (wi_intent_type i) \<longrightarrow>
             umap_find seen0 ?k \<in> {None, Some (ce_base_version e)})"
        by (auto simp: latest_intents_find)
    qed
    then show "\<exists>y. plan_commit b V f = Inr (Inr y)" using c xs(1) by (auto simp: plan_commit_def)
  qed
qed

end
