(* ===== verification/Commit_Correct.thy ===== *)
theory Commit_Correct
  imports Commit
begin

text \<open>
  The correctness of \<open>CommitManager\<close> on the three kinds of stores, against one specification:
  \<open>commit_view b V\<close> is the view a commit of branch \<open>b\<close> makes of the view \<open>V\<close>, and
  \<open>versions_ok b V\<close> are the versions it requires.
\<close>

section \<open>The specification of a commit\<close>

definition commit_view :: "BranchContext \<Rightarrow> view \<Rightarrow> view" where
  "commit_view b V = (\<lambda>k. if writes_key b k
     then \<lparr>vv_value = committed_value b V k, vv_version = vv_version (V k) + 1, vv_exists = True\<rparr> else V k)"

definition versions_ok :: "BranchContext \<Rightarrow> view \<Rightarrow> bool" where
  "versions_ok b V \<longleftrightarrow>
     (\<forall>k. writes_key b k \<longrightarrow> \<not> rebased_key b k \<longrightarrow> vv_version (V k) = base_version_of b k) \<and>
     (\<forall>r \<in> set (bc_read_set b). \<not> (rebased_key b (rd_object_id r) \<and> writes_key b (rd_object_id r)) \<longrightarrow>
        vv_version (V (rd_object_id r)) = rd_observed_version r)"

text \<open>The commit log describes the step from one view to the other.\<close>

definition log_describes :: "CommitLog \<Rightarrow> view \<Rightarrow> view \<Rightarrow> bool" where
  "log_describes entries V V' \<longleftrightarrow> distinct (map cle_key entries) \<and>
     (\<forall>e \<in> set entries. vv_version (V (cle_key e)) = cle_expected_version e \<and>
        V' (cle_key e) = \<lparr>vv_value = cle_value e, vv_version = cle_expected_version e + 1, vv_exists = True\<rparr>) \<and>
     (\<forall>k. k \<notin> cle_key ` set entries \<longrightarrow> V' k = V k)"

lemma planned_view:
  assumes "branch_inv b" "vr_reason f = []" "plan_commit b V f = Inr (Inr (seen, ws, f'))"
  shows "view_puts ws V = commit_view b V"
proof
  fix k
  note p = plan_commit_sound [OF assms] and pk = plan_commit_keys [OF assms]
  show "view_puts ws V k = commit_view b V k"
  proof (cases "writes_key b k")
    case True
    then obtain w where w: "w \<in> set ws" "wo_key w = k" using pk(1) by blast
    from view_puts_mem [OF p(3) w(1), of V] p(5) [OF w(1)] True w(2) show ?thesis
      by (simp add: commit_view_def)
  next
    case False
    then have "k \<notin> wo_key ` set ws" using pk(2) by blast
    with False show ?thesis by (simp add: view_puts_other commit_view_def)
  qed
qed

lemma planned_checks:
  assumes "branch_inv b" "vr_reason f = []" "plan_commit b V f = Inr (Inr (seen, ws, f'))"
  shows "checks_hold (checks_of seen) V \<longleftrightarrow> versions_ok b V"
proof -
  note p = plan_commit_sound [OF assms] and pk = plan_commit_keys [OF assms]
  show ?thesis
  proof
    assume "checks_hold (checks_of seen) V"
    then have c: "\<And>k n. umap_find seen k = Some n \<Longrightarrow> vv_version (V k) = n" using p(2) checks_hold_of by blast
    have "vv_version (V k) = base_version_of b k" if "writes_key b k" "\<not> rebased_key b k" for k
    proof -
      from that pk(1) obtain w where w: "w \<in> set ws" "wo_key w = k" by blast
      from p(6) [OF w(1)] that(2) w(2) have "umap_find seen k = Some (base_version_of b k)" by simp
      then show ?thesis by (rule c)
    qed
    moreover have "vv_version (V (rd_object_id r)) = rd_observed_version r"
      if "r \<in> set (bc_read_set b)" "\<not> (rebased_key b (rd_object_id r) \<and> writes_key b (rd_object_id r))" for r
      by (rule c) (rule p(7) [OF that])
    ultimately show "versions_ok b V" unfolding versions_ok_def by blast
  next
    assume ok: "versions_ok b V"
    have "vv_version (V k) = n" if s: "umap_find seen k = Some n" for k n
    proof (cases "writes_key b k")
      case True
      then obtain w where w: "w \<in> set ws" "wo_key w = k" using pk(1) by blast
      from p(6) [OF w(1)] s w(2) have "n = (if rebased_key b k then vv_version (V k) else base_version_of b k)"
        by simp
      with True ok show ?thesis by (simp add: versions_ok_def)
    next
      case False
      with p(8) [OF s] obtain r where "r \<in> set (bc_read_set b)" "rd_object_id r = k" "rd_observed_version r = n"
        by blast
      with ok False show ?thesis by (auto simp: versions_ok_def)
    qed
    then show "checks_hold (checks_of seen) V" using p(2) checks_hold_of by blast
  qed
qed

text \<open>What the writes themselves need; the checks of keys that are only read are left out.\<close>

definition write_versions_ok :: "BranchContext \<Rightarrow> view \<Rightarrow> bool" where
  "write_versions_ok b V \<longleftrightarrow>
     (\<forall>k. writes_key b k \<longrightarrow> \<not> rebased_key b k \<longrightarrow> vv_version (V k) = base_version_of b k)"

lemma planned_write_versions:
  assumes "branch_inv b" "vr_reason f = []" "plan_commit b V f = Inr (Inr (seen, ws, f'))"
  shows "(\<forall>w \<in> set ws. umap_find seen (wo_key w) = Some (vv_version (V (wo_key w)))) \<longleftrightarrow> write_versions_ok b V"
proof -
  note p = plan_commit_sound [OF assms] and pk = plan_commit_keys [OF assms]
  show ?thesis
  proof
    assume s: "\<forall>w \<in> set ws. umap_find seen (wo_key w) = Some (vv_version (V (wo_key w)))"
    show "write_versions_ok b V"
      unfolding write_versions_ok_def
    proof (intro allI impI)
      fix k assume k: "writes_key b k" "\<not> rebased_key b k"
      with pk(1) obtain w where w: "w \<in> set ws" "wo_key w = k" by blast
      from s w(1) have "umap_find seen (wo_key w) = Some (vv_version (V (wo_key w)))" by blast
      with p(6) [OF w(1)] k w(2) show "vv_version (V k) = base_version_of b k" by simp
    qed
  next
    assume v: "write_versions_ok b V"
    show "\<forall>w \<in> set ws. umap_find seen (wo_key w) = Some (vv_version (V (wo_key w)))"
    proof
      fix w assume w: "w \<in> set ws"
      then have "writes_key b (wo_key w)" by (rule pk(2))
      with v p(6) [OF w] show "umap_find seen (wo_key w) = Some (vv_version (V (wo_key w)))"
        by (simp add: write_versions_ok_def)
    qed
  qed
qed

lemma versions_ok_writes: "versions_ok b V \<Longrightarrow> write_versions_ok b V"
  by (simp add: versions_ok_def write_versions_ok_def)

lemma planned_log:
  assumes "branch_inv b" "vr_reason f = []" "plan_commit b V f = Inr (Inr (seen, ws, f'))"
    and ok: "write_versions_ok b V"
  shows "log_describes (commit_log_of seen ws) V (commit_view b V)"
proof -
  note p = plan_commit_sound [OF assms(1-3)] and pk = plan_commit_keys [OF assms(1-3)]
  have seen: "\<forall>w \<in> set ws. umap_find seen (wo_key w) = Some (vv_version (V (wo_key w)))"
    using planned_write_versions [OF assms(1-3)] ok by blast
  have "distinct (map cle_key (commit_log_of seen ws))" using p(3) by (simp add: commit_log_of_def comp_def)
  moreover have "commit_view b V k = V k" if "k \<notin> cle_key ` set (commit_log_of seen ws)" for k
  proof -
    have "k \<notin> wo_key ` set ws" using that by (auto simp: commit_log_of_def image_image)
    then show ?thesis using pk(1) [of k] by (auto simp: commit_view_def)
  qed
  moreover have "vv_version (V (cle_key e)) = cle_expected_version e \<and>
      commit_view b V (cle_key e) =
        \<lparr>vv_value = cle_value e, vv_version = cle_expected_version e + 1, vv_exists = True\<rparr>"
    if "e \<in> set (commit_log_of seen ws)" for e
  proof -
    from that obtain w where w: "w \<in> set ws" "e = \<lparr>cle_key = wo_key w, cle_value = wo_value w,
        cle_expected_version = vv_version (V (wo_key w))\<rparr>"
      using seen by (auto simp: commit_log_of_def)
    moreover have "writes_key b (wo_key w)" by (rule pk(2) [OF w(1)])
    ultimately show ?thesis using p(5) [OF w(1)] by (simp add: commit_view_def)
  qed
  ultimately show ?thesis by (simp add: log_describes_def)
qed

text \<open>
  A commit is possible when its versions hold, every buffered write can be resolved, and the
  branch has not read one object at two versions.
\<close>

definition commit_possible :: "BranchContext \<Rightarrow> view \<Rightarrow> bool" where
  "commit_possible b V \<longleftrightarrow> versions_ok b V \<and> writes_resolve b V \<and> reads_agree b"

lemma versions_ok_base: "versions_ok b V \<Longrightarrow> base_versions_agree b"
  unfolding versions_ok_def base_versions_agree_def by metis

section \<open>Stores with atomic batches\<close>

lemma batch_commit_atomic_lemma:
  assumes kv: "batch_store kv ok_state" and st: "ok_state st" and inv: "branch_inv winner"
    and f: "vr_reason f = []"
  shows "\<exists>ok txn' st' f'. CommitWinner kv txn winner st f = Inr (ok, txn', st', f') \<and> ok_state st' \<and>
    (ok \<longleftrightarrow> commit_possible winner (kv_Get kv (fst st))) \<and>
    (ok \<longrightarrow> kv_Get kv (fst st') = commit_view winner (kv_Get kv (fst st)) \<and>
       log_describes (tx_commit_log txn') (kv_Get kv (fst st)) (kv_Get kv (fst st'))) \<and>
    (\<not> ok \<longrightarrow> kv_Get kv (fst st') = kv_Get kv (fst st) \<and> txn' = txn \<and> vr_reason f' \<noteq> [])"
proof -
  let ?V = "kv_Get kv (fst st)"
  obtain x where plan: "plan_commit winner ?V f = Inr x"
    using plan_commit_no_exn [OF inv] by (cases "plan_commit winner ?V f") auto
  show ?thesis
  proof (cases x)
    case (Inl g)
    have g: "vr_reason g \<noteq> []" by (rule plan_commit_reason [OF plan [unfolded Inl]])
    have "\<not> commit_possible winner ?V"
      using plan Inl plan_commit_iff [OF inv f, of ?V] versions_ok_base by (auto simp: commit_possible_def)
    with g plan Inl st show ?thesis by (auto simp: CommitWinner_def)
  next
    case (Inr y)
    then obtain seen ws f' where y: "x = Inr (seen, ws, f')" by (cases y) auto
    note p = inv f plan [unfolded y]
    obtain ok st' where b: "kv_BatchPutIfVersion kv (checks_of seen) ws st = (ok, st')" by (metis surj_pair)
    note batch = batch_store.batch_ok [OF kv st, of "checks_of seen" ws]
      batch_store.batch_view [OF kv st, of "checks_of seen" ws] batch_store.batch_inv [OF kv st, of "checks_of seen" ws]
    have poss: "commit_possible winner ?V \<longleftrightarrow> versions_ok winner ?V"
      using plan [unfolded y] plan_commit_iff [OF inv f, of ?V] by (auto simp: commit_possible_def)
    show ?thesis
      unfolding poss using batch batch_store.batch_supported [OF kv] plan [unfolded y] planned_view [OF p] planned_checks [OF p]
        planned_log [OF p] versions_ok_writes
      by (cases ok) (auto simp: CommitWinner_def b or_reason_def vr_fail_def split: if_splits)
  qed
qed

text \<open>
  C3. A commit on a store with atomic batches is atomic and exact. It never throws. It succeeds
  if and only if every version the branch relied on still holds, every buffered write can be
  resolved against the store and the branch has not read an object at two versions. Then the
  store has made exactly the step to \<open>commit_view\<close> and the commit log describes that step;
  otherwise no key has changed, the transaction is as before and a reason is given.
\<close>

theorem batch_commit_atomic:
  assumes kv: "batch_store kv ok_state" and st: "ok_state st" and inv: "branch_inv winner"
    and f: "vr_reason f = []"
  shows "\<exists>ok txn' st' f'. CommitWinner kv txn winner st f = Inr (ok, txn', st', f') \<and> ok_state st' \<and>
    (ok \<longleftrightarrow> commit_possible winner (kv_Get kv (fst st))) \<and>
    (ok \<longrightarrow> kv_Get kv (fst st') = commit_view winner (kv_Get kv (fst st)) \<and>
       log_describes (tx_commit_log txn') (kv_Get kv (fst st)) (kv_Get kv (fst st'))) \<and>
    (\<not> ok \<longrightarrow> kv_Get kv (fst st') = kv_Get kv (fst st) \<and> txn' = txn \<and> vr_reason f' \<noteq> [])"
  by (rule batch_commit_atomic_lemma [OF assms])


text \<open>A branch that reads and appends, used to exercise the properties.\<close>

definition demo_branch :: "view \<Rightarrow> BranchContext" where
  "demo_branch V = bm_BufferWrite ''k'' kText (typed_intent ''k'' kAppend ''+'') V
     (snd (bm_ReadObject ''k'' V (new_BranchContext ''b'')))"

definition demo_txn :: "string \<Rightarrow> AgentTxnContext" where
  "demo_txn path =
     \<lparr>tx_txn_id = ''t'', tx_task_id = ''task'', tx_status = TxnRunning, tx_branches = [],
      tx_winner_branch_id = ''b'', tx_commit_log = [], tx_validation_result = default_ValidationResult,
      tx_metrics = default_TxnMetrics,
      tx_fallback_commit = \<lparr>fcc_artifact_path = path, fcc_simulate_crash_after_apply_count = 1\<rparr>\<rparr>"

definition demo_mem :: MemoryKVStore where
  "demo_mem = [(''k'', \<lparr>me_value = ''old'', me_version = 3\<rparr>)]"

definition calm :: world where
  "calm = \<lparr>files = [], dirs = [], script = []\<rparr>"

lemma demo_branch_inv [simp]: "branch_inv (demo_branch V)"
  by (simp add: demo_branch_def branch_inv_Write branch_inv_Read)

lemma demo_branch_facts:
  "bc_intent_log (demo_branch V) = [typed_intent ''k'' kAppend ''+'']"
  "writes_key (demo_branch V) k \<longleftrightarrow> k = ''k''" "rebased_key (demo_branch V) ''k''"
  "buffered_keys (demo_branch V) = {''k''}"
  "committed_value (demo_branch V) W ''k'' = vv_value (W ''k'') @ ''+''"
  "bc_read_set (demo_branch V) = [\<lparr>rd_object_id = ''k'', rd_observed_version = vv_version (V ''k'')\<rparr>]"
  "writes_resolve (demo_branch V) W"
proof -
  let ?b = "snd (bm_ReadObject ''k'' V (new_BranchContext ''b''))"
  have inv: "branch_inv ?b" by (simp add: branch_inv_Read)
  have wb: "bc_write_buffer ?b = empty_WriteBuffer" "bc_intent_log ?b = []"
    by (simp_all add: bm_ReadObject_frame new_BranchContext_def)
  show log: "bc_intent_log (demo_branch V) = [typed_intent ''k'' kAppend ''+'']"
    by (simp add: demo_branch_def bm_BufferWrite_frame wb)
  have i: "latest_intent (bc_intent_log (demo_branch V)) k = (if k = ''k'' then Some (typed_intent ''k'' kAppend ''+'') else None)" for k
    by (simp add: log latest_intent_def)
  show buf: "buffered_keys (demo_branch V) = {''k''}"
    by (simp add: buffered_keys_def demo_branch_def bm_BufferWrite_frame wb wb_Upsert_def empty_WriteBuffer_def
        buffered_entry_frame [OF inv])
  show "writes_key (demo_branch V) k \<longleftrightarrow> k = ''k''" by (simp add: writes_key_def buf i)
  show "rebased_key (demo_branch V) ''k''" by (simp add: rebased_key_def i)
  have none: "wb_Find (bc_write_buffer ?b) ''k'' = None" by (simp add: wb wb_Find_def empty_WriteBuffer_def)
  obtain e where e: "wb_Find (bc_write_buffer (demo_branch V)) ''k'' = Some e" "ce_base_value e = vv_value (V ''k'')"
      "ce_current_value e = vv_value (V ''k'') @ ''+''"
    by (simp add: demo_branch_def wb_Find_BufferWrite [OF inv] buffered_entry_frame [OF inv] none Let_def
        intent_value_def fresh_entry_def)
  then show "committed_value (demo_branch V) W ''k'' = vv_value (W ''k'') @ ''+''"
    by (simp add: committed_value_def i ResolveWrite_append)
  from e show "writes_resolve (demo_branch V) W"
    by (simp add: writes_resolve_def buf i ResolveWrite_append)
  show "bc_read_set (demo_branch V) = [\<lparr>rd_object_id = ''k'', rd_observed_version = vv_version (V ''k'')\<rparr>]"
    by (simp add: demo_branch_def bm_BufferWrite_frame bm_ReadObject_def Let_def new_BranchContext_def
        wb_Find_def empty_WriteBuffer_def rs_Record_def)
qed

theorem batch_commit_atomic_witness:
  "let st = (demo_mem, calm); b = demo_branch (\<lambda>_. no_value) in
   case CommitWinner memory_store (demo_txn []) b st default_ValidationResult of
     Inl _ \<Rightarrow> False
   | Inr (ok, txn', st', f') \<Rightarrow>
       mem_Get (fst st') ''k'' = (if ok then \<lparr>vv_value = ''old+'', vv_version = 4, vv_exists = True\<rparr>
         else \<lparr>vv_value = ''old'', vv_version = 3, vv_exists = True\<rparr>)"
proof -
  have f: "vr_reason default_ValidationResult = []" by (simp add: default_ValidationResult_def)
  have g: "mem_Get demo_mem ''k'' = \<lparr>vv_value = ''old'', vv_version = 3, vv_exists = True\<rparr>"
    by (simp add: demo_mem_def mem_Get_def umap_find_def)
  obtain ok txn' st' f' where r: "CommitWinner memory_store (demo_txn []) (demo_branch (\<lambda>_. no_value))
      (demo_mem, calm) default_ValidationResult = Inr (ok, txn', st', f')"
      "ok \<longrightarrow> mem_Get (fst st') = commit_view (demo_branch (\<lambda>_. no_value)) (mem_Get demo_mem)"
      "\<not> ok \<longrightarrow> mem_Get (fst st') = mem_Get demo_mem"
    using batch_commit_atomic [where st = "(demo_mem, calm)" and txn = "demo_txn []" and winner = "demo_branch (\<lambda>_. no_value)",
        OF mem.batch_store_axioms TrueI demo_branch_inv f]
    by auto
  then show ?thesis by (cases ok) (simp_all add: Let_def commit_view_def demo_branch_facts g)
qed

section \<open>Stores without batches\<close>

text \<open>The entries a list of writes stands for in a view.\<close>

definition entries_for :: "view \<Rightarrow> WriteOp list \<Rightarrow> FallbackCommitEntry list" where
  "entries_for V ws = map (\<lambda>w. \<lparr>fe_key = wo_key w, fe_expected_version = vv_version (V (wo_key w)),
     fe_target_value = wo_value w, fe_previous_value = vv_value (V (wo_key w)),
     fe_previous_version = vv_version (V (wo_key w)), fe_previous_exists = vv_exists (V (wo_key w))\<rparr>) ws"

lemma entries_for_simps [simp]:
  "length (entries_for V ws) = length ws" "map fe_key (entries_for V ws) = map wo_key ws"
  "i < length ws \<Longrightarrow> fe_key (entries_for V ws ! i) = wo_key (ws ! i)"
  "i < length ws \<Longrightarrow> fe_target_value (entries_for V ws ! i) = wo_value (ws ! i)"
  by (simp_all add: entries_for_def comp_def)

lemma entries_for_from:
  "distinct (map wo_key ws) \<Longrightarrow> (\<And>k. \<not> vv_exists (V k) \<Longrightarrow> V k = no_value) \<Longrightarrow> entries_from V (entries_for V ws)"
  by (auto simp: entries_from_def entries_for_def comp_def)

lemma partly_applied_all: "partly_applied V (entries_for V ws) (length ws) = view_puts ws V"
proof -
  have "map entry_write (entries_for V ws) = ws"
    by (simp add: entries_for_def comp_def entry_write_def map_idI)
  then show ?thesis by (simp add: partly_applied_def)
qed

definition applied_of :: "FallbackCommitEntry \<Rightarrow> AppliedWrite" where
  "applied_of e = \<lparr>aw_key = fe_key e, aw_previous_value = fe_previous_value e,
     aw_previous_version = fe_previous_version e, aw_previous_exists = fe_previous_exists e\<rparr>"

lemma applied_of_sel [simp]:
  "aw_key (applied_of e) = fe_key e" "aw_previous_value (applied_of e) = fe_previous_value e"
  "aw_previous_version (applied_of e) = fe_previous_version e"
  "aw_previous_exists (applied_of e) = fe_previous_exists e"
  by (simp_all add: applied_of_def)

context detached_store
begin

lemma rollback_applied_restores:
  assumes es: "entries_from V0 es" and n: "n \<le> length es"
    and V: "undone_to V0 es n (kv_Get kv (fst st))" and inv: "inv st"
    and run: "rollback_applied_loop kv (rev (map applied_of (take n es))) st f = (ok, st', f')"
  shows "ok \<and> f' = f \<and> inv st' \<and> snd st' = snd st \<and> same_values (kv_Get kv (fst st')) V0"
  using assms(2-)
proof (induction n arbitrary: st)
  case 0
  then show ?case by (auto dest: undone_to_0)
next
  case (Suc n)
  then have n: "n < length es" by simp
  have ver: "fe_previous_version (es ! n) = fe_expected_version (es ! n)"
    using entries_fromD [OF es n] by simp
  obtain ok1 st1 where undo: "(if fe_previous_exists (es ! n)
        then kv_PutIfVersion kv (fe_key (es ! n)) (fe_previous_version (es ! n) + 1) (fe_previous_value (es ! n)) st
        else kv_DeleteIfVersion kv (fe_key (es ! n)) (fe_expected_version (es ! n) + 1) st) = (ok1, st1)"
    by (metis surj_pair)
  note u = undo_entry [OF es n Suc.prems(2) Suc.prems(3) undo]
  have "rollback_applied_loop kv (rev (map applied_of (take n es))) st1 f = (ok, st', f')"
    using Suc.prems(4) undo u(1) ver
    by (simp add: take_Suc_conv_app_nth [OF n] Let_def split: if_splits)
  from Suc.IH [OF _ u(4) u(2) this] n u(3) show ?case by simp
qed

lemma apply_writes_correct:
  assumes es: "entries_from V0 (entries_for V0 ws)" and n: "n \<le> length ws"
    and V: "kv_Get kv (fst st) = partly_applied V0 (entries_for V0 ws) n" and inv: "inv st"
    and ev: "\<And>w. w \<in> set ws \<Longrightarrow> umap_find ev (wo_key w) \<noteq> None" and f: "vr_reason f = []"
    and run: "apply_writes kv ev (drop n ws) (map applied_of (take n (entries_for V0 ws))) st f = (ok, st', f')"
  shows "inv st' \<and>
    (ok \<longrightarrow> (\<forall>w \<in> set (drop n ws). umap_find ev (wo_key w) = Some (vv_version (V0 (wo_key w)))) \<and>
       kv_Get kv (fst st') = view_puts ws V0) \<and>
    (\<not> ok \<longrightarrow> same_values (kv_Get kv (fst st')) V0 \<and> vr_reason f' \<noteq> [])"
  using n V inv run
proof (induction "length ws - n" arbitrary: n st)
  case 0
  then have "n = length ws" by simp
  with 0 show ?case by (auto simp: partly_applied_all)
next
  case (Suc m)
  let ?es = "entries_for V0 ws"
  from Suc.hyps(2) have n: "n < length ws" by simp
  then have drop: "drop n ws = ws ! n # drop (Suc n) ws" by (simp add: Cons_nth_drop_Suc)
  have d: "distinct (map fe_key ?es)" using es by (simp add: entries_from_def)
  have Vn: "kv_Get kv (fst st) (wo_key (ws ! n)) = V0 (wo_key (ws ! n))"
    using partly_applied_todo [OF d order_refl, of n V0] n Suc.prems(2) by simp
  obtain x where x: "umap_find ev (wo_key (ws ! n)) = Some x" using ev [OF nth_mem [OF n]] by auto
  show ?case
  proof (cases "vv_version (V0 (wo_key (ws ! n))) = x")
    case False
    obtain ok1 st1 f1 where rb: "rollback_applied_loop kv (rev (map applied_of (take n ?es))) st f = (ok1, st1, f1)"
      by (metis surj_pair)
    have "undone_to V0 ?es n (kv_Get kv (fst st))" using Suc.prems(2) by simp
    from rollback_applied_restores [OF es _ this Suc.prems(3) rb] n
    have "f1 = f" "inv st1" "same_values (kv_Get kv (fst st1)) V0" by simp_all
    moreover have "\<not> ok" "st' = st1" "f' = or_reason (''fallback write version changed for '' @ wo_key (ws ! n)) f1"
      using Suc.prems(4) False Vn x rb by (simp_all add: drop RollbackAppliedWrites_def)
    ultimately show ?thesis using f by (simp add: or_reason_def vr_fail_def)
  next
    case True
    obtain ok1 st1 where put: "kv_PutIfVersion kv (wo_key (ws ! n)) x (wo_value (ws ! n)) st = (ok1, st1)"
      by (metis surj_pair)
    have "vv_version (kv_Get kv (fst st) (wo_key (ws ! n))) = x" using Vn True by simp
    note u = put_if_sys [OF Suc.prems(3) this put]
    have V1: "kv_Get kv (fst st1) = partly_applied V0 ?es (Suc n)"
      using u(4) n by (simp add: partly_applied_Suc Suc.prems(2))
    have "applied_of (?es ! n) = \<lparr>aw_key = wo_key (ws ! n), aw_previous_value = vv_value (V0 (wo_key (ws ! n))),
        aw_previous_version = vv_version (V0 (wo_key (ws ! n))), aw_previous_exists = vv_exists (V0 (wo_key (ws ! n)))\<rparr>"
      using n by (simp add: applied_of_def entries_for_def)
    then have "apply_writes kv ev (drop (Suc n) ws) (map applied_of (take (Suc n) ?es)) st1 f = (ok, st', f')"
      using Suc.prems(4) Vn True x put u(1) n by (simp add: drop take_Suc_conv_app_nth Let_def)
    from Suc.hyps(1) [OF _ _ V1 u(2) this] Suc.hyps(2) n True x show ?thesis by (simp add: drop)
  qed
qed

end

end
