(* ===== verification/Commit_Crash.thy ===== *)
theory Commit_Crash
  imports Commit_Correct
begin

text \<open>
  The crash-safe commit of \<open>agent_txn/commit_manager.h\<close> together with the recovery of
  \<open>fallback_commit_recovery.h\<close>. A crash is a failing call of the environment's script (the code
  returns at the first one) or the simulated crash of the configuration; the store outlives it,
  so it is a \<open>detached_store\<close>.
\<close>

lemma prepare_entries_sound:
  "prepare_entries V ev ws = Inr es \<Longrightarrow>
     es = entries_for V ws \<and> (\<forall>w \<in> set ws. umap_find ev (wo_key w) = Some (vv_version (V (wo_key w))))"
  by (induction ws arbitrary: es)
    (auto simp: entries_for_def Let_def split: option.splits if_splits sum.splits)

lemma prepare_entries_reason: "prepare_entries V ev ws = Inl g \<Longrightarrow> vr_reason g \<noteq> []"
  by (induction ws) (auto simp: vr_fail_def Let_def split: option.splits if_splits sum.splits)

context detached_store
begin

lemma apply_entries_pending:
  assumes es: "entries_from V0 es" and lt: "length es < 2 ^ 64"
    and ex: "\<And>e. e \<in> set es \<Longrightarrow> vv_exists (V0 (fe_key e))"
    and p: "p = fcc_artifact_path config"
    and i: "i \<le> length es" "rest = drop i es" "fa_applied_count a = i" and a: "fa_entries a = es"
    and inv: "inv st" and V: "kv_Get kv (fst st) = partly_applied V0 es i"
    and disk: "asks_for p es (i = length es) (snd st)"
    and run: "apply_entries kv config rest a st f = r"
  shows "case r of
      Inl (ok, st', f') \<Rightarrow> \<not> ok \<and> commit_pending kv inv p V0 es st'
    | Inr (a', st') \<Rightarrow> fa_entries a' = es \<and> fa_applied_count a' \<le> length es \<and>
        inv st' \<and> kv_Get kv (fst st') = partly_applied V0 es (length es) \<and> asks_for p es True (snd st')"
  using i a inv V disk run
proof (induction rest arbitrary: i a st)
  case Nil
  then have "i = length es" by (metis drop_eq_Nil le_antisym)
  with Nil show ?case by auto
next
  case (Cons e rest)
  from Cons.prems(2) have i: "i < length es" by (metis drop_eq_Nil list.distinct(1) not_le)
  with Cons.prems(2) have e: "e = es ! i" "rest = drop (Suc i) es"
    by (simp_all add: Cons_nth_drop_Suc [symmetric])
  have d: "distinct (map fe_key es)" using es by (simp add: entries_from_def)
  have cur: "kv_Get kv (fst st) (fe_key e) = V0 (fe_key e)"
    using Cons.prems(6) i e by (simp add: partly_applied_todo [OF d])
  have good: "vv_version (V0 (fe_key e)) = fe_expected_version e" "vv_exists (V0 (fe_key e))"
    using entries_fromD [OF es i] ex i e by simp_all
  obtain ok1 st1 where put: "kv_PutIfVersion kv (fe_key e) (fe_expected_version e) (fe_target_value e) st = (ok1, st1)"
    by (metis surj_pair)
  have "vv_version (kv_Get kv (fst st) (fe_key e)) = fe_expected_version e" using cur good by simp
  from put_if_sys [OF Cons.prems(5) this put] Cons.prems(6) i e
  have 1: "ok1" "inv st1" "snd st1 = snd st" "kv_Get kv (fst st1) = partly_applied V0 es (Suc i)"
    by (simp_all add: partly_applied_Suc)
  let ?a = "a\<lparr>fa_applied_count := Suc i, fa_phase := FbApplying\<rparr>"
  have okf: "fallback_ok ?a" using Cons.prems(4) i lt by (simp add: fallback_ok_def)
  obtain ok2 st2 where wr: "write_artifact ?a p st1 = (ok2, st2)" by (metis surj_pair)
  from write_artifact_sim [OF okf wr] Cons.prems(7) 1(3) i Cons.prems(4)
  have 2: "fst st2 = fst st1" "asks_for p es (Suc i = length es) (snd st2)"
    by (auto simp: asks_for_def)
  have inv2: "inv st2" by (rule write_artifact_inv [OF 1(2) wr])
  have pend: "commit_pending kv inv p V0 es st2"
    using inv2 2 1(4) i by (auto simp: commit_pending_def intro!: exI [of _ "Suc i"])
  have step: "apply_entries kv config (e # rest) a st f =
      (if \<not> ok2 then Inl (False, st2, vr_fail ''failed to persist fallback apply progress'')
       else if fcc_simulate_crash_after_apply_count config > 0 \<and>
               Suc i = fcc_simulate_crash_after_apply_count config
       then Inl (False, st2, vr_fail ''simulated crash during fallback commit'')
       else apply_entries kv config rest ?a st2 f)"
    using put wr 1(1) cur good Cons.prems(3) by (simp add: p Let_def)
  show ?case
  proof (cases "ok2 \<and> \<not> (fcc_simulate_crash_after_apply_count config > 0 \<and>
      Suc i = fcc_simulate_crash_after_apply_count config)")
    case True
    then have run: "apply_entries kv config rest ?a st2 f = r" using step Cons.prems(8) by (auto simp del: apply_entries.simps)
    have "kv_Get kv (fst st2) = partly_applied V0 es (Suc i)" using 1 2 by simp
    from Cons.IH [OF _ e(2) _ _ inv2 this 2(2) run] i Cons.prems(4) show ?thesis by simp
  next
    case False
    then obtain g where "r = Inl (False, st2, g)" using step Cons.prems(8)
      by (cases ok2) (auto simp del: apply_entries.simps)
    with pend show ?thesis by simp
  qed
qed

text \<open>A key that does not exist stops the loop, and what was applied is undone.\<close>

lemma apply_entries_new_key:
  assumes es: "entries_from V0 es" and lt: "length es < 2 ^ 64"
    and p: "p = fcc_artifact_path config" and nocrash: "fcc_simulate_crash_after_apply_count config = 0"
    and i: "i \<le> length es" "rest = drop i es" "fa_applied_count a = i" and a: "fa_entries a = es"
    and inv: "inv st" "quiet (snd st)" and V: "kv_Get kv (fst st) = partly_applied V0 es i"
    and new: "\<exists>e \<in> set rest. \<not> vv_exists (V0 (fe_key e))"
    and run: "apply_entries kv config rest a st f = r"
  shows "\<exists>st' f'. r = Inl (False, st', f') \<and> same_values (kv_Get kv (fst st')) V0 \<and> vr_reason f' \<noteq> []"
  using i a inv V new run
proof (induction rest arbitrary: i a st)
  case Nil
  then show ?case by simp
next
  case (Cons e rest)
  from Cons.prems(2) have i: "i < length es" by (metis drop_eq_Nil list.distinct(1) not_le)
  with Cons.prems(2) have e: "e = es ! i" "rest = drop (Suc i) es"
    by (simp_all add: Cons_nth_drop_Suc [symmetric])
  have d: "distinct (map fe_key es)" using es by (simp add: entries_from_def)
  have cur: "kv_Get kv (fst st) (fe_key e) = V0 (fe_key e)"
    using Cons.prems(7) i e by (simp add: partly_applied_todo [OF d])
  have good: "vv_version (V0 (fe_key e)) = fe_expected_version e"
    using entries_fromD [OF es i] i e by simp
  show ?case
  proof (cases "vv_exists (V0 (fe_key e))")
    case False
    let ?g = "vr_fail (''fallback write version changed for '' @ fe_key e)"
    obtain ok1 a1 st1 r1 where rb: "ResumeRollbackFallbackCommit kv a p st default_FallbackRecoveryResult = (ok1, a1, st1, r1)"
      by (metis surj_pair)
    from ResumeRollback_quiet [OF es lt Cons.prems(4) _ Cons.prems(7) Cons.prems(5,6) rb] i
    have "ok1" "same_values (kv_Get kv (fst st1)) V0" by simp_all
    moreover have "r = Inl (RollbackCrashSafeArtifact kv a p st ?g)"
      using Cons.prems(9) cur False p by simp
    ultimately show ?thesis by (simp add: RollbackCrashSafeArtifact_def rb vr_fail_def)
  next
    case True
    obtain ok1 st1 where put: "kv_PutIfVersion kv (fe_key e) (fe_expected_version e) (fe_target_value e) st = (ok1, st1)"
      by (metis surj_pair)
    have "vv_version (kv_Get kv (fst st) (fe_key e)) = fe_expected_version e" using cur good by simp
    from put_if_sys [OF Cons.prems(5) this put] Cons.prems(7) i e
    have 1: "ok1" "inv st1" "snd st1 = snd st" "kv_Get kv (fst st1) = partly_applied V0 es (Suc i)"
      by (simp_all add: partly_applied_Suc)
    let ?a = "a\<lparr>fa_applied_count := Suc i, fa_phase := FbApplying\<rparr>"
    obtain ok2 st2 where wr: "write_artifact ?a p st1 = (ok2, st2)" by (metis surj_pair)
    have w: "ok2" "quiet (snd st2)" "fst st2 = fst st1"
      using write_artifact_quiet [of st1 ?a p] wr Cons.prems(6) 1(3) by (auto simp: write_artifact_def split_beta)
    have inv2: "inv st2" by (rule write_artifact_inv [OF 1(2) wr])
    have run: "apply_entries kv config rest ?a st2 f = r"
      using Cons.prems(9) put wr 1(1) cur good True Cons.prems(3) w(1) nocrash by (simp add: p Let_def)
    have V2: "kv_Get kv (fst st2) = partly_applied V0 es (Suc i)" using 1 w by simp
    have "\<exists>e \<in> set rest. \<not> vv_exists (V0 (fe_key e))" using Cons.prems(8) True by auto
    from Cons.IH [OF _ e(2) _ _ inv2 w(2) V2 this run] i Cons.prems(4) show ?thesis by simp
  qed
qed

text \<open>The whole routine, on existing keys, under any faults.\<close>

lemma crash_safe_pending:
  assumes inv: "inv st" and d: "distinct (map wo_key ws)" and lt: "length ws < 2 ^ 64"
    and ex: "\<And>w. w \<in> set ws \<Longrightarrow> vv_exists (kv_Get kv (fst st) (wo_key w))"
    and p: "p = fcc_artifact_path (tx_fallback_commit txn)"
    and run: "CommitWinnerWithoutBatchCrashSafe kv txn checks ws st f = (ok, st', f')"
  shows "(\<not> ok \<and> inv st' \<and> kv_Get kv (fst st') = kv_Get kv (fst st) \<and>
      ParseFallbackCommitArtifact p (snd st') = ParseFallbackCommitArtifact p (snd st)) \<or>
    ((\<forall>w \<in> set ws. umap_find (expected_versions_of checks) (wo_key w) = Some (vv_version (kv_Get kv (fst st) (wo_key w)))) \<and>
     commit_pending kv inv p (kv_Get kv (fst st)) (entries_for (kv_Get kv (fst st)) ws) st' \<and>
     (ok \<longrightarrow> kv_Get kv (fst st') = view_puts ws (kv_Get kv (fst st))))"
proof -
  let ?V = "kv_Get kv (fst st)" and ?c = "tx_fallback_commit txn"
  have es: "entries_from ?V (entries_for ?V ws)" by (rule entries_for_from [OF d absent])
  have exe: "vv_exists (?V (fe_key e))" if "e \<in> set (entries_for ?V ws)" for e
    using that ex by (auto simp: entries_for_def)
  show ?thesis
  proof (cases "prepare_entries ?V (expected_versions_of checks) ws")
    case (Inl g)
    then show ?thesis using run inv by (auto simp: CommitWinnerWithoutBatchCrashSafe_def Let_def)
  next
    case (Inr es0)
    from prepare_entries_sound [OF Inr] have es0: "es0 = entries_for ?V ws"
        and ev: "\<forall>w \<in> set ws. umap_find (expected_versions_of checks) (wo_key w) = Some (vv_version (?V (wo_key w)))"
      by simp_all
    let ?a = "\<lparr>fa_txn_id = tx_txn_id txn, fa_task_id = tx_task_id txn, fa_phase = FbPrepared,
                 fa_applied_count = 0, fa_entries = es0\<rparr>"
    have okf: "fallback_ok ?a" using lt by (simp add: fallback_ok_def es0)
    obtain ok1 st1 where wr: "write_artifact ?a p st = (ok1, st1)" by (metis surj_pair)
    note w = write_artifact_sim [OF okf wr]
    have inv1: "inv st1" by (rule write_artifact_inv [OF inv wr])
    show ?thesis
    proof (cases ok1)
      case False
      then have "ok = False" "st' = st1" using run Inr wr by (simp_all add: CommitWinnerWithoutBatchCrashSafe_def Let_def p)
      with w False inv1 show ?thesis by simp
    next
      case True
      have start: "kv_Get kv (fst st1) = partly_applied ?V es0 0"
        "asks_for p es0 (0 = length es0) (snd st1)"
        using w True by (simp_all add: asks_for_def)
      obtain r where r: "apply_entries kv ?c es0 ?a st1 f = r" by simp
      note pend = apply_entries_pending [OF es [folded es0] _ exe [folded es0] p, of 0 es0 ?a st1 f r]
      have pr: "case r of
          Inl (ok, st', f') \<Rightarrow> \<not> ok \<and> commit_pending kv inv p ?V es0 st'
        | Inr (a', st') \<Rightarrow> fa_entries a' = es0 \<and> fa_applied_count a' \<le> length es0 \<and>
            inv st' \<and> kv_Get kv (fst st') = partly_applied ?V es0 (length es0) \<and> asks_for p es0 True (snd st')"
        by (rule pend) (use lt inv1 start r es0 in simp_all)
      show ?thesis
      proof (cases r)
        case (Inl q)
        with run Inr wr True r have "q = (ok, st', f')"
          by (simp add: CommitWinnerWithoutBatchCrashSafe_def Let_def p)
        with pr Inl ev show ?thesis by (simp add: es0)
      next
        case r2: (Inr q)
        obtain a2 st2 where q: "q = (a2, st2)" by (cases q)
        let ?b = "a2\<lparr>fa_phase := FbCommitted\<rparr>"
        from pr r2 q have 2: "fa_entries a2 = es0" "fa_applied_count a2 \<le> length es0" "inv st2"
            "kv_Get kv (fst st2) = partly_applied ?V es0 (length es0)" "asks_for p es0 True (snd st2)" by simp_all
        have okb: "fallback_ok ?b" using 2 lt by (simp add: fallback_ok_def es0)
        obtain ok3 st3 where wr3: "write_artifact ?b p st2 = (ok3, st3)" by (metis surj_pair)
        from write_artifact_sim [OF okb wr3] 2 have 3: "fst st3 = fst st2" "asks_for p es0 True (snd st3)"
          by (auto simp: asks_for_def)
        have "ok = ok3 \<and> st' = st3" using run Inr wr True r r2 q wr3
          by (cases ok3) (simp_all add: CommitWinnerWithoutBatchCrashSafe_def Let_def p)
        moreover have "inv st3" by (rule write_artifact_inv [OF 2(3) wr3])
        ultimately show ?thesis
          using 3 2(4) ev partly_applied_all [of ?V ws] by (auto simp: commit_pending_def es0)
      qed
    qed
  qed
qed

end


section \<open>Crashes and recoveries\<close>

text \<open>
  Recoveries of one artifact, each under a script of its own that may interrupt it, as after a
  sequence of restarts; then one on a healthy disk.
\<close>

definition with_script :: "io_fault list \<Rightarrow> 's sys \<Rightarrow> 's sys" where
  "with_script fs st = (fst st, (snd st)\<lparr>script := fs\<rparr>)"

definition restarts :: "'s VersionedKVStore \<Rightarrow> string \<Rightarrow> io_fault list list \<Rightarrow> 's sys \<Rightarrow> 's sys" where
  "restarts kv path scripts st =
     fold (\<lambda>fs st. snd (RecoverFallbackCommitArtifacts kv [path] (with_script fs st))) scripts st"

definition recover_calmly :: "'s VersionedKVStore \<Rightarrow> string \<Rightarrow> 's sys \<Rightarrow> 's sys" where
  "recover_calmly kv path st = snd (RecoverFallbackCommitArtifacts kv [path] (with_script [] st))"

lemma Parse_script [simp]: "ParseFallbackCommitArtifact p (w\<lparr>script := fs\<rparr>) = ParseFallbackCommitArtifact p w"
  by (simp add: ParseFallbackCommitArtifact_def)

lemma with_script_sel [simp]: "fst (with_script fs st) = fst st" "quiet (snd (with_script [] st))"
  by (simp_all add: with_script_def quiet_def)

lemma recover_unreadable:
  "ParseFallbackCommitArtifact p (snd st) = None \<Longrightarrow> snd (RecoverFallbackCommitArtifacts kv [p] st) = st"
  by (simp add: RecoverFallbackCommitArtifacts_def)

lemma restarts_unreadable:
  assumes "ParseFallbackCommitArtifact p (snd st) = None"
  shows "fst (restarts kv p scripts st) = fst st \<and> ParseFallbackCommitArtifact p (snd (restarts kv p scripts st)) = None"
  using assms
proof (induction scripts arbitrary: st)
  case Nil
  then show ?case by (simp add: restarts_def)
next
  case (Cons fs scripts)
  have "snd (RecoverFallbackCommitArtifacts kv [p] (with_script fs st)) = with_script fs st"
    by (rule recover_unreadable) (simp add: with_script_def Cons.prems)
  with Cons.IH [of "with_script fs st"] Cons.prems show ?case by (simp add: restarts_def with_script_def)
qed

context detached_store
begin

lemma pending_script: "commit_pending kv inv p V0 es st \<Longrightarrow> commit_pending kv inv p V0 es (with_script fs st)"
  using inv_disk [of "fst st" "snd st"]
  by (auto simp: commit_pending_def with_script_def asks_for_def)

lemma restarts_pending:
  assumes "entries_from V0 es" "length es < 2 ^ 64" "commit_pending kv inv p V0 es st"
  shows "commit_pending kv inv p V0 es (restarts kv p scripts st)"
  using assms(3)
proof (induction scripts arbitrary: st)
  case Nil
  then show ?case by (simp add: restarts_def)
next
  case (Cons fs scripts)
  have "commit_pending kv inv p V0 es (snd (RecoverFallbackCommitArtifacts kv [p] (with_script fs st)))"
    using Recover_pending [OF assms(1,2) pending_script [OF Cons.prems] prod.collapse [symmetric]] by blast
  from Cons.IH [OF this] show ?case by (simp add: restarts_def)
qed

lemma recover_calmly_pending:
  assumes "entries_from V0 es" "length es < 2 ^ 64" "commit_pending kv inv p V0 es st"
  shows "kv_Get kv (fst (recover_calmly kv p st)) = partly_applied V0 es (length es)"
  unfolding recover_calmly_def
  using Recover_pending [OF assms(1,2) pending_script [OF assms(3)] prod.collapse [symmetric]] by simp

end

text \<open>
  C2. The crash-safe commit is all or nothing across crashes, for a winner that writes only to
  existing keys, when no readable artifact is at the path before, and on a store without batches
  that is not kept on the failing disk, so that only the calls for the artifact can fail. Whichever
  of these calls fail during the commit, whenever the simulated crash strikes, and however many
  recoveries are themselves interrupted: after one recovery on a healthy disk the store is either
  exactly as before the commit or exactly at \<open>commit_view\<close>. When the commit reported success, it
  was there at once and stays there. For a winner that creates a key see the refusal further down,
  and for a rollback that is interrupted after its first key \<open>Fallback_Recovery\<close>.
\<close>

theorem crash_safe_commit_all_or_nothing:
  assumes kv: "detached_store kv ok_state" and nb: "\<not> SupportsAtomicBatchConditionalWrite kv"
    and st: "ok_state st" and inv: "branch_inv winner" and f: "vr_reason f = []"
    and p: "p = fcc_artifact_path (tx_fallback_commit txn)" "p \<noteq> []"
    and fresh: "ParseFallbackCommitArtifact p (snd st) = None"
    and few: "card (buffered_keys winner) < 2 ^ 64"
    and ex: "\<And>k. writes_key winner k \<Longrightarrow> vv_exists (kv_Get kv (fst st) k)"
    and run: "CommitWinner kv txn winner st f = Inr (ok, txn', st', f')"
  shows "kv_Get kv (fst (recover_calmly kv p (restarts kv p scripts st'))) \<in>
      {kv_Get kv (fst st), commit_view winner (kv_Get kv (fst st))} \<and>
    (ok \<longrightarrow> kv_Get kv (fst st') = commit_view winner (kv_Get kv (fst st)) \<and>
       kv_Get kv (fst (recover_calmly kv p (restarts kv p scripts st'))) = commit_view winner (kv_Get kv (fst st)))"
proof -
  let ?V = "kv_Get kv (fst st)" and ?fin = "recover_calmly kv p (restarts kv p scripts st')"
  have untouched: "kv_Get kv (fst ?fin) = kv_Get kv (fst st')" if "ParseFallbackCommitArtifact p (snd st') = None"
  proof -
    let ?r = "restarts kv p scripts st'"
    note u = restarts_unreadable [OF that, of kv scripts]
    then have "snd (RecoverFallbackCommitArtifacts kv [p] (with_script [] ?r)) = with_script [] ?r"
      by (intro recover_unreadable) (simp add: with_script_def)
    with u show ?thesis by (simp add: recover_calmly_def)
  qed
  obtain x where plan: "plan_commit winner ?V f = Inr x"
    using plan_commit_no_exn [OF inv] by (cases "plan_commit winner ?V f") auto
  show ?thesis
  proof (cases x)
    case (Inl g)
    with run plan have "\<not> ok" "st' = st" by (simp_all add: CommitWinner_def)
    with untouched fresh show ?thesis by simp
  next
    case (Inr y)
    then obtain seen ws f0 where y: "x = Inr (seen, ws, f0)" by (cases y) auto
    note pl = inv f plan [unfolded y]
    note s = plan_commit_sound [OF pl]
    obtain ok1 st1 f1 where cs: "CommitWinnerWithoutBatchCrashSafe kv txn (checks_of seen) ws st f = (ok1, st1, f1)"
      by (metis surj_pair)
    have r: "ok = ok1" "st' = st1"
      using run plan y nb p cs s(1) by (auto simp: CommitWinner_def CommitWinnerWithoutBatch_def split: if_splits)
    have "wo_key ` set ws \<subseteq> buffered_keys winner" using plan_commit_keys(2) [OF pl] by (auto simp: writes_key_def)
    then have "card (wo_key ` set ws) \<le> card (buffered_keys winner)"
      by (intro card_mono) (simp_all add: buffered_keys_def)
    then have lt: "length ws < 2 ^ 64" using few s(3) distinct_card [of "map wo_key ws"] by simp
    have exw: "vv_exists (?V (wo_key w))" if "w \<in> set ws" for w
      by (rule ex) (rule plan_commit_keys(2) [OF pl that])
    have es: "entries_from ?V (entries_for ?V ws)"
      by (intro entries_for_from s(3)) (rule versioned_store.absent [OF detached_store.axioms(1) [OF kv]])
    have lte: "length (entries_for ?V ws) < 2 ^ 64" using lt by simp
    from detached_store.crash_safe_pending [OF kv st s(3) lt exw p(1) cs]
    consider (unstarted) "\<not> ok1" "kv_Get kv (fst st1) = ?V" "ParseFallbackCommitArtifact p (snd st1) = None"
      | (started) "commit_pending kv ok_state p ?V (entries_for ?V ws) st1" "ok1 \<longrightarrow> kv_Get kv (fst st1) = view_puts ws ?V"
      using fresh by auto
    then show ?thesis
    proof cases
      case unstarted
      with r untouched show ?thesis by simp
    next
      case started
      have "commit_pending kv ok_state p ?V (entries_for ?V ws) (restarts kv p scripts st1)"
        by (rule detached_store.restarts_pending [OF kv es lte started(1)])
      from detached_store.recover_calmly_pending [OF kv es lte this]
      have "kv_Get kv (fst (recover_calmly kv p (restarts kv p scripts st1))) = commit_view winner ?V"
        by (simp add: partly_applied_all planned_view [OF pl])
      with started(2) r show ?thesis by (simp add: planned_view [OF pl])
    qed
  qed
qed

theorem crash_safe_commit_all_or_nothing_witness:
  "let st = (demo_mem, \<lparr>files = [], dirs = [], script = [NoFault, NoFault, WriteFault 5]\<rparr>);
       b = demo_branch (\<lambda>_. no_value)
   in case CommitWinner non_batch_memory_store (demo_txn ''f'') b st default_ValidationResult of
        Inl _ \<Rightarrow> False
      | Inr (ok, txn', st', f') \<Rightarrow>
          vv_value (mem_Get (fst (recover_calmly non_batch_memory_store ''f''
            (restarts non_batch_memory_store ''f'' [[OpenFault]] st'))) ''k'') \<in> {''old'', ''old+''}"
proof -
  let ?b = "demo_branch (\<lambda>_. no_value)"
  let ?st = "(demo_mem, \<lparr>files = [], dirs = [], script = [NoFault, NoFault, WriteFault 5]\<rparr>)"
  have f: "vr_reason default_ValidationResult = []" by (simp add: default_ValidationResult_def)
  have p: "''f'' = fcc_artifact_path (tx_fallback_commit (demo_txn ''f''))" by (simp add: demo_txn_def)
  have nb: "\<not> SupportsAtomicBatchConditionalWrite non_batch_memory_store" by simp
  have g: "mem_Get demo_mem ''k'' = \<lparr>vv_value = ''old'', vv_version = 3, vv_exists = True\<rparr>"
    by (simp add: demo_mem_def mem_Get_def umap_find_def)
  have fresh: "ParseFallbackCommitArtifact ''f'' (snd ?st) = None"
    by (simp add: ParseFallbackCommitArtifact_def fs_read_def)
  have few: "card (buffered_keys ?b) < 2 ^ 64" by (simp add: demo_branch_facts)
  have ex: "vv_exists (kv_Get non_batch_memory_store (fst ?st) k)" if "writes_key ?b k" for k
    using that by (simp add: demo_branch_facts g)
  obtain ok txn' st' f' where r: "CommitWinner non_batch_memory_store (demo_txn ''f'') ?b ?st default_ValidationResult = Inr (ok, txn', st', f')"
    by (rule CommitWinner_returns [OF demo_branch_inv])
  from crash_safe_commit_all_or_nothing [OF nonbatch_detached.detached_store_axioms nb TrueI demo_branch_inv f p _ fresh few ex r,
      of "[[OpenFault]]"]
  show ?thesis by (auto simp: r Let_def commit_view_def demo_branch_facts g)
qed

text \<open>
  C10. The crash-safe commit cannot create a key. On a healthy disk, when the winner writes a key
  that the store does not have yet, the commit fails, whatever the versions: the loop that applies
  the prepared entries takes a missing key for a changed one and rolls back. The same winner
  commits on a store with batches, and without the artifact.
\<close>

theorem crash_safe_commit_refuses_new_keys:
  assumes kv: "detached_store kv ok_state" and nb: "\<not> SupportsAtomicBatchConditionalWrite kv"
    and st: "ok_state st" "quiet (snd st)" and inv: "branch_inv winner" and f: "vr_reason f = []"
    and p: "fcc_artifact_path (tx_fallback_commit txn) \<noteq> []"
      "fcc_simulate_crash_after_apply_count (tx_fallback_commit txn) = 0"
    and few: "card (buffered_keys winner) < 2 ^ 64"
    and new: "writes_key winner k" "\<not> vv_exists (kv_Get kv (fst st) k)"
    and run: "CommitWinner kv txn winner st f = Inr (ok, txn', st', f')"
  shows "\<not> ok \<and> same_values (kv_Get kv (fst st')) (kv_Get kv (fst st)) \<and> vr_reason f' \<noteq> []"
proof -
  let ?V = "kv_Get kv (fst st)" and ?c = "tx_fallback_commit txn"
  let ?p = "fcc_artifact_path ?c"
  obtain x where plan: "plan_commit winner ?V f = Inr x"
    using plan_commit_no_exn [OF inv] by (cases "plan_commit winner ?V f") auto
  show ?thesis
  proof (cases x)
    case (Inl g)
    have "vr_reason g \<noteq> []" by (rule plan_commit_reason [OF plan [unfolded Inl]])
    with run plan Inl show ?thesis by (simp add: CommitWinner_def)
  next
    case (Inr y)
    then obtain seen ws f0 where y: "x = Inr (seen, ws, f0)" by (cases y) auto
    note pl = inv f plan [unfolded y]
    note s = plan_commit_sound [OF pl]
    have "wo_key ` set ws \<subseteq> buffered_keys winner" using plan_commit_keys(2) [OF pl] by (auto simp: writes_key_def)
    then have "card (wo_key ` set ws) \<le> card (buffered_keys winner)"
      by (intro card_mono) (simp_all add: buffered_keys_def)
    then have lt: "length (entries_for ?V ws) < 2 ^ 64" using few s(3) distinct_card [of "map wo_key ws"] by simp
    have es: "entries_from ?V (entries_for ?V ws)"
      by (intro entries_for_from s(3)) (rule versioned_store.absent [OF detached_store.axioms(1) [OF kv]])
    obtain ok1 st1 f1 where cs: "CommitWinnerWithoutBatchCrashSafe kv txn (checks_of seen) ws st f = (ok1, st1, f1)"
      by (metis surj_pair)
    have "\<not> ok1 \<and> same_values (kv_Get kv (fst st1)) ?V \<and> vr_reason f1 \<noteq> []"
    proof (cases "prepare_entries ?V (expected_versions_of (checks_of seen)) ws")
      case (Inl g)
      with cs prepare_entries_reason [OF Inl] show ?thesis
        by (auto simp: CommitWinnerWithoutBatchCrashSafe_def Let_def)
    next
      case pe: (Inr es0)
      then have es0: "es0 = entries_for ?V ws" by (blast dest: prepare_entries_sound)
      let ?a = "\<lparr>fa_txn_id = tx_txn_id txn, fa_task_id = tx_task_id txn, fa_phase = FbPrepared,
                 fa_applied_count = 0, fa_entries = es0\<rparr>"
      obtain ok2 st2 where wr: "write_artifact ?a ?p st = (ok2, st2)" by (metis surj_pair)
      have w: "ok2" "quiet (snd st2)" "fst st2 = fst st"
        using write_artifact_quiet [OF st(2), of ?a ?p] wr by (auto simp: write_artifact_def split_beta)
      have inv2: "ok_state st2" by (rule detached_store.write_artifact_inv [OF kv st(1) wr])
      obtain u where u: "u \<in> set ws" "wo_key u = k" using plan_commit_keys(1) [OF pl new(1)] by blast
      then have newe: "\<exists>e \<in> set es0. \<not> vv_exists (?V (fe_key e))"
        using new(2) by (auto simp: es0 entries_for_def)
      obtain r where r: "apply_entries kv ?c es0 ?a st2 f = r" by simp
      have "\<exists>st' f'. r = Inl (False, st', f') \<and> same_values (kv_Get kv (fst st')) ?V \<and> vr_reason f' \<noteq> []"
        by (rule detached_store.apply_entries_new_key [OF kv es lt refl p(2), where i = 0 and a = ?a and st = st2 and rest = es0])
          (use inv2 w newe r es0 in simp_all)
      with cs pe wr w(1) r show ?thesis
        by (auto simp: CommitWinnerWithoutBatchCrashSafe_def Let_def)
    qed
    then show ?thesis
      using run plan y nb p cs s(1)
      by (auto simp: CommitWinner_def CommitWinnerWithoutBatch_def or_reason_def split: if_splits)
  qed
qed


theorem crash_safe_commit_refuses_new_keys_witness:
  "let b = demo_branch (\<lambda>_. no_value);
       txn = demo_txn []\<lparr>tx_fallback_commit := \<lparr>fcc_artifact_path = ''f'', fcc_simulate_crash_after_apply_count = 0\<rparr>\<rparr>
   in case CommitWinner non_batch_memory_store txn b ([], calm) default_ValidationResult of
        Inl _ \<Rightarrow> False
      | Inr (ok, txn', st', f') \<Rightarrow> \<not> ok"
proof -
  let ?b = "demo_branch (\<lambda>_. no_value)"
  let ?txn = "demo_txn []\<lparr>tx_fallback_commit := \<lparr>fcc_artifact_path = ''f'', fcc_simulate_crash_after_apply_count = 0\<rparr>\<rparr>"
  have f: "vr_reason default_ValidationResult = []" by (simp add: default_ValidationResult_def)
  have nb: "\<not> SupportsAtomicBatchConditionalWrite non_batch_memory_store" by simp
  have p: "fcc_artifact_path (tx_fallback_commit ?txn) \<noteq> []"
    "fcc_simulate_crash_after_apply_count (tx_fallback_commit ?txn) = 0" by simp_all
  have few: "card (buffered_keys ?b) < 2 ^ 64" by (simp add: demo_branch_facts)
  have q: "quiet (snd ([] :: MemoryKVStore, calm))" by (simp add: calm_def quiet_def)
  have new: "writes_key ?b ''k''" "\<not> vv_exists (kv_Get non_batch_memory_store (fst ([] :: MemoryKVStore, calm)) ''k'')"
    by (simp_all add: demo_branch_facts mem_Get_def no_value_def)
  obtain ok txn' st' f' where r: "CommitWinner non_batch_memory_store ?txn ?b ([], calm) default_ValidationResult = Inr (ok, txn', st', f')"
    by (rule CommitWinner_returns [OF demo_branch_inv])
  from crash_safe_commit_refuses_new_keys [OF nonbatch_detached.detached_store_axioms nb TrueI q demo_branch_inv f p few new r]
  show ?thesis by (simp add: r Let_def)
qed

end
