(* ===== verification/Cpp_Double.thy ===== *)
theory Cpp_Double
  imports Cpp_Text
begin

text \<open>
  How the standard library prints a \<open>double\<close>: \<open>operator<<\<close> with the default precision is
  \<open>printf("%g")\<close>, that is six significant digits, rounded half to even, without trailing zeros,
  in scientific form when the exponent is below -4 or at least 6.
\<close>

definition round_half_even :: "rat \<Rightarrow> int" where
  "round_half_even q =
     (let f = \<lfloor>q\<rfloor>; r = q - of_int f
      in if r < 1 / 2 \<or> r = 1 / 2 \<and> even f then f else f + 1)"

text \<open>The exponent of the leading decimal digit of a positive number.\<close>

definition dec_exponent :: "rat \<Rightarrow> int" where
  "dec_exponent q =
     (if 1 \<le> q then int (length (nat_dec (nat \<lfloor>q\<rfloor>))) - 1
      else - int (length (nat_dec (nat (\<lceil>1 / q\<rceil> - 1)))))"

definition six_digits :: "rat \<Rightarrow> string \<times> int" where
  "six_digits q =
     (let e = dec_exponent q;
          scaled = (if e \<le> 5 then q * 10 ^ nat (5 - e) else q / 10 ^ nat (e - 5));
          d = nat (round_half_even scaled)
      in if 1000000 \<le> d then (nat_dec (d div 10), e + 1) else (nat_dec d, e))"

definition strip_zeros :: "string \<Rightarrow> string" where
  "strip_zeros s = rev (dropWhile (\<lambda>c. c = CHR ''0'') (rev s))"

definition with_fraction :: "string \<Rightarrow> string \<Rightarrow> string" where
  "with_fraction whole fraction =
     (let f = strip_zeros fraction in if f = [] then whole else whole @ ''.'' @ f)"

definition exponent_suffix :: "int \<Rightarrow> string" where
  "exponent_suffix e =
     (let d = nat_dec (nat \<bar>e\<bar>)
      in (if e < 0 then ''e-'' else ''e+'') @ (if length d < 2 then CHR ''0'' # d else d))"

definition print_positive :: "rat \<Rightarrow> string" where
  "print_positive q =
     (let (ds, e) = six_digits q in
      if e < -4 \<or> 6 \<le> e then with_fraction (take 1 ds) (drop 1 ds) @ exponent_suffix e
      else if 0 \<le> e then with_fraction (take (nat (e + 1)) ds) (drop (nat (e + 1)) ds)
      else with_fraction ''0'' (replicate (nat (- e - 1)) CHR ''0'' @ ds))"

fun double_g :: "double \<Rightarrow> string" where
  "double_g (DFin q) =
     (if q = 0 then ''0'' else if q < 0 then CHR ''-'' # print_positive (- q) else print_positive q)"
| "double_g DPosInf = ''inf''"
| "double_g DNegInf = ''-inf''"
| "double_g DNaN = ''nan''"

section \<open>The text holds no separators\<close>

definition number_char :: "char \<Rightarrow> bool" where
  "number_char c \<longleftrightarrow> is_digit c \<or> c \<in> {CHR ''.'', CHR ''e'', CHR ''+'', CHR ''-''}"

lemma strip_zeros_set: "set (strip_zeros s) \<subseteq> set s"
  unfolding strip_zeros_def by (metis set_dropWhileD set_rev subsetI)

lemma number_char_zero [simp]: "number_char CHR ''0''" "number_char CHR ''.''" "number_char CHR ''e''"
  "number_char CHR ''+''" "number_char CHR ''-''"
  by (simp_all add: number_char_def is_digit_def)

lemma number_char_nat_dec: "c \<in> set (nat_dec n) \<Longrightarrow> number_char c"
  by (simp add: number_char_def nat_dec_digits)

lemma with_fraction_chars:
  "(\<forall>c \<in> set w. number_char c) \<Longrightarrow> (\<forall>c \<in> set f. number_char c) \<Longrightarrow>
     c \<in> set (with_fraction w f) \<Longrightarrow> number_char c"
  using strip_zeros_set [of f] by (auto simp: with_fraction_def Let_def split: if_splits)

lemma exponent_suffix_chars: "c \<in> set (exponent_suffix e) \<Longrightarrow> number_char c"
  by (auto simp: exponent_suffix_def Let_def number_char_nat_dec split: if_splits)

lemma print_positive_chars: "c \<in> set (print_positive q) \<Longrightarrow> number_char c"
proof -
  obtain ds e where s: "six_digits q = (ds, e)" by (metis surj_pair)
  then have d: "\<forall>c \<in> set ds. number_char c"
    by (auto simp: six_digits_def Let_def number_char_nat_dec split: if_splits)
  have split: "number_char c" if "c \<in> set (with_fraction (take n ds) (drop n ds))" for n
    by (rule with_fraction_chars [OF _ _ that]) (use d in \<open>auto dest: in_set_takeD in_set_dropD\<close>)
  have small: "number_char c" if "c \<in> set (with_fraction ''0'' (replicate n CHR ''0'' @ ds))" for n
    by (rule with_fraction_chars [OF _ _ that]) (use d in auto)
  assume "c \<in> set (print_positive q)"
  then have "c \<in> set (with_fraction (take 1 ds) (drop 1 ds)) \<or> c \<in> set (exponent_suffix e) \<or>
      c \<in> set (with_fraction (take (nat (e + 1)) ds) (drop (nat (e + 1)) ds)) \<or>
      c \<in> set (with_fraction ''0'' (replicate (nat (- e - 1)) CHR ''0'' @ ds))"
    by (simp only: print_positive_def s prod.case Let_def set_append Un_iff split: if_splits) blast+
  then show ?thesis using split small exponent_suffix_chars by blast
qed

lemma number_char_clean: "number_char c \<Longrightarrow> c \<noteq> NL \<and> c \<noteq> TAB \<and> c \<noteq> CHR ''=''"
  by (auto simp: number_char_def is_digit_def)

lemma double_g_clean: "NL \<notin> set (double_g d)" "TAB \<notin> set (double_g d)"
proof -
  have "number_char c \<or> c \<in> set ''infa''" if "c \<in> set (double_g d)" for c
    using that print_positive_chars by (cases d) (auto split: if_splits)
  then show "NL \<notin> set (double_g d)" "TAB \<notin> set (double_g d)"
    using number_char_clean by fastforce+
qed

end
