(* ===== verification/Commit_Log.thy ===== *)
theory Commit_Log
  imports Commit_Crash Cpp_Double
begin

text \<open>
  \<open>agent_txn/commit_log_io.h\<close>, \<open>commit_log_replay.h\<close>, \<open>commit_log_recovery.h\<close> and
  \<open>recovery_manager.h\<close>: the text of a commit log, reading it back, replaying it into object
  states and applying it to a store. \<open>EscapeCommitLogText\<close> is in \<open>Fallback_Log\<close>, which uses it first;
  the directory listing is in \<open>Disk\<close>.
\<close>

definition kCommitLogHeader :: string where
  "kCommitLogHeader = ''DAS_COMMIT_LOG_V1''"

fun TxnStatusName :: "TxnStatus \<Rightarrow> string" where
  "TxnStatusName TxnRunning = ''RUNNING''"
| "TxnStatusName TxnCommitted = ''COMMITTED''"
| "TxnStatusName TxnAborted = ''ABORTED''"

section \<open>Writing\<close>

definition commit_entry_line :: "CommitLogEntry \<Rightarrow> string" where
  "commit_entry_line entry =
     EscapeCommitLogText (cle_key entry) @ TAB # u64_dec (cle_expected_version entry) @ TAB #
     EscapeCommitLogText (cle_value entry)"

definition commit_log_meta :: "AgentTxnContext \<Rightarrow> (string \<times> string) list" where
  "commit_log_meta txn =
     [(''txn_id'', EscapeCommitLogText (tx_txn_id txn)),
      (''task_id'', EscapeCommitLogText (tx_task_id txn)),
      (''status'', TxnStatusName (tx_status txn)),
      (''winner_branch_id'', EscapeCommitLogText (tx_winner_branch_id txn)),
      (''validation_success'', if vr_success (tx_validation_result txn) then ''1'' else ''0''),
      (''validation_reason'', EscapeCommitLogText (vr_reason (tx_validation_result txn))),
      (''branch_count'', nat_dec (tm_branch_count (tx_metrics txn))),
      (''planned_loser_count'', nat_dec (tm_planned_loser_count (tx_metrics txn))),
      (''winner_commit_count'', nat_dec (tm_winner_commit_count (tx_metrics txn))),
      (''real_abort_count'', nat_dec (tm_real_abort_count (tx_metrics txn))),
      (''conflict_abort_count'', nat_dec (tm_conflict_abort_count (tx_metrics txn))),
      (''validation_fail_count'', nat_dec (tm_validation_fail_count (tx_metrics txn))),
      (''retry_count'', nat_dec (tm_retry_count (tx_metrics txn))),
      (''commit_latency_us'', double_g (tm_commit_latency_us (tx_metrics txn))),
      (''entry_count'', nat_dec (length (tx_commit_log txn)))]"

definition meta_line :: "string \<times> string \<Rightarrow> string" where
  "meta_line kv = fst kv @ CHR ''='' # snd kv"

definition commit_log_text :: "AgentTxnContext \<Rightarrow> string" where
  "commit_log_text txn = put_lines
     (kCommitLogHeader # map meta_line (commit_log_meta txn) @ ''[entries]'' #
      map commit_entry_line (tx_commit_log txn))"

definition WriteCommitLogArtifact :: "AgentTxnContext \<Rightarrow> string \<Rightarrow> world \<Rightarrow> bool \<times> world" where
  "WriteCommitLogArtifact txn output_path w =
     (let (r, w) = write_file output_path (commit_log_text txn) w in (r = Written, w))"

section \<open>Reading\<close>

record ParsedCommitLogEntry =
  pe_key :: string
  pe_expected_version :: u64
  pe_value :: string

record ParsedCommitLogArtifact =
  pa_metadata :: "(string, string) umap"
  pa_entries :: "ParsedCommitLogEntry list"

definition parse_commit_entry :: "string \<Rightarrow> ParsedCommitLogEntry option" where
  "parse_commit_entry line = do {
     (key, rest) \<leftarrow> getline TAB line;
     (expected_version_text, rest) \<leftarrow> getline TAB rest;
     (v, rest) \<leftarrow> getline NL rest;
     Some \<lparr>pe_key = UnescapeCommitLogText key,
           pe_expected_version = of_nat (strtoull expected_version_text),
           pe_value = UnescapeCommitLogText v\<rparr>}"

fun parse_commit_lines ::
    "bool \<Rightarrow> string list \<Rightarrow> ParsedCommitLogArtifact \<Rightarrow> ParsedCommitLogArtifact option" where
  "parse_commit_lines in_entries [] artifact = Some artifact"
| "parse_commit_lines in_entries (line # lines) artifact =
     (if line = ''[entries]'' then parse_commit_lines True lines artifact
      else if line = [] then parse_commit_lines in_entries lines artifact
      else if \<not> in_entries then
        (case split_eq line of
           None \<Rightarrow> None
         | Some (k, v) \<Rightarrow>
             parse_commit_lines in_entries lines
               (artifact\<lparr>pa_metadata := umap_set (pa_metadata artifact) k (UnescapeCommitLogText v)\<rparr>))
      else
        (case parse_commit_entry line of
           None \<Rightarrow> None
         | Some entry \<Rightarrow>
             parse_commit_lines in_entries lines (artifact\<lparr>pa_entries := pa_entries artifact @ [entry]\<rparr>)))"

definition ParseCommitLogArtifact :: "string \<Rightarrow> world \<Rightarrow> ParsedCommitLogArtifact option" where
  "ParseCommitLogArtifact path w =
     (case fs_read path w of
        None \<Rightarrow> None
      | Some text \<Rightarrow>
          (case getlines text of
             [] \<Rightarrow> None
           | line # lines \<Rightarrow>
               if line \<noteq> ''DAS_COMMIT_LOG_V1'' then None
               else parse_commit_lines False lines \<lparr>pa_metadata = [], pa_entries = []\<rparr>))"

section \<open>Replay\<close>

record ReplayedObjectState =
  ro_value :: string
  ro_expected_version :: u64
  ro_source_log_path :: string

definition log_committed :: "ParsedCommitLogArtifact \<Rightarrow> bool" where
  "log_committed artifact \<longleftrightarrow> umap_find (pa_metadata artifact) ''status'' = Some ''COMMITTED''"

definition replay_entries ::
    "string \<Rightarrow> ParsedCommitLogEntry list \<Rightarrow> (string, ReplayedObjectState) umap \<Rightarrow> (string, ReplayedObjectState) umap" where
  "replay_entries path entries state =
     umap_store_all state (map (\<lambda>entry. (pe_key entry, \<lparr>ro_value = pe_value entry,
       ro_expected_version = pe_expected_version entry, ro_source_log_path = path\<rparr>)) entries)"

definition replay_log ::
    "world \<Rightarrow> string \<Rightarrow> (string, ReplayedObjectState) umap \<Rightarrow> (string, ReplayedObjectState) umap" where
  "replay_log w path state =
     (case ParseCommitLogArtifact path w of
        None \<Rightarrow> state
      | Some artifact \<Rightarrow>
          if \<not> log_committed artifact then state else replay_entries path (pa_entries artifact) state)"

definition ReplayCommitLogArtifacts :: "string list \<Rightarrow> world \<Rightarrow> (string, ReplayedObjectState) umap" where
  "ReplayCommitLogArtifacts commit_log_paths w = fold (replay_log w) commit_log_paths []"

section \<open>Recovery\<close>

record RecoveryResult =
  rc_applied_entry_count :: nat
  rc_skipped_committed_entry_count :: nat
  rc_skipped_non_committed_log_count :: nat
  rc_parse_failure_count :: nat
  rc_conflict_count :: nat
  rc_success :: bool
  rc_reason :: string

definition default_RecoveryResult :: RecoveryResult where
  "default_RecoveryResult =
     \<lparr>rc_applied_entry_count = 0, rc_skipped_committed_entry_count = 0,
      rc_skipped_non_committed_log_count = 0, rc_parse_failure_count = 0, rc_conflict_count = 0,
      rc_success = True, rc_reason = []\<rparr>"

text \<open>The inner loop; the boolean says whether it ran to its end.\<close>

fun recover_entries ::
    "'s VersionedKVStore \<Rightarrow> ParsedCommitLogEntry list \<Rightarrow> 's sys \<Rightarrow> RecoveryResult \<Rightarrow>
     bool \<times> RecoveryResult \<times> 's sys" where
  "recover_entries kv [] st result = (True, result, st)"
| "recover_entries kv (entry # entries) st result =
     (let current = kv_Get kv (fst st) (pe_key entry) in
      if vv_exists current \<and> vv_version current = pe_expected_version entry + 1 \<and>
         vv_value current = pe_value entry
      then recover_entries kv entries st
             (result\<lparr>rc_skipped_committed_entry_count := rc_skipped_committed_entry_count result + 1\<rparr>)
      else
      let (put_ok, st) = kv_PutIfVersion kv (pe_key entry) (pe_expected_version entry) (pe_value entry) st in
      if \<not> put_ok then
        (False, result\<lparr>rc_conflict_count := rc_conflict_count result + 1, rc_success := False,
                  rc_reason := ''recovery version conflict for key: '' @ pe_key entry\<rparr>, st)
      else recover_entries kv entries st
             (result\<lparr>rc_applied_entry_count := rc_applied_entry_count result + 1\<rparr>))"

fun recover_logs ::
    "'s VersionedKVStore \<Rightarrow> string list \<Rightarrow> 's sys \<Rightarrow> RecoveryResult \<Rightarrow> RecoveryResult \<times> 's sys" where
  "recover_logs kv [] st result = (result, st)"
| "recover_logs kv (path # paths) st result =
     (case ParseCommitLogArtifact path (snd st) of
        None \<Rightarrow>
          (result\<lparr>rc_parse_failure_count := rc_parse_failure_count result + 1, rc_success := False,
             rc_reason := ''failed to parse commit log: '' @ path\<rparr>, st)
      | Some artifact \<Rightarrow>
          if \<not> log_committed artifact then
            recover_logs kv paths st
              (result\<lparr>rc_skipped_non_committed_log_count := rc_skipped_non_committed_log_count result + 1\<rparr>)
          else
            (let (finished, result, st) = recover_entries kv (pa_entries artifact) st result
             in if finished then recover_logs kv paths st result else (result, st)))"

definition RecoverCommittedWrites ::
    "'s VersionedKVStore \<Rightarrow> string list \<Rightarrow> 's sys \<Rightarrow> RecoveryResult \<times> 's sys" where
  "RecoverCommittedWrites kv commit_log_paths st = recover_logs kv commit_log_paths st default_RecoveryResult"

section \<open>RecoveryManager\<close>

definition ListCommitLogs :: "string \<Rightarrow> world \<Rightarrow> string list" where
  "ListCommitLogs commit_log_dir w = ListPathsWithSuffix commit_log_dir ''.commit.log'' w"

definition ListFallbackCommitArtifacts :: "string \<Rightarrow> world \<Rightarrow> string list" where
  "ListFallbackCommitArtifacts artifact_dir w = ListPathsWithSuffix artifact_dir ''.fallback.log'' w"

definition RecoverFromDirectory :: "'s VersionedKVStore \<Rightarrow> string \<Rightarrow> 's sys \<Rightarrow> RecoveryResult \<times> 's sys" where
  "RecoverFromDirectory kv commit_log_dir st =
     RecoverCommittedWrites kv (ListCommitLogs commit_log_dir (snd st)) st"

definition RecoverFallbackCommitsFromDirectory ::
    "'s VersionedKVStore \<Rightarrow> string \<Rightarrow> 's sys \<Rightarrow> FallbackRecoveryResult \<times> 's sys" where
  "RecoverFallbackCommitsFromDirectory kv artifact_dir st =
     RecoverFallbackCommitArtifacts kv (ListFallbackCommitArtifacts artifact_dir (snd st)) st"

section \<open>Reading back what was written\<close>

definition parsed_entry :: "CommitLogEntry \<Rightarrow> ParsedCommitLogEntry" where
  "parsed_entry e = \<lparr>pe_key = cle_key e, pe_expected_version = cle_expected_version e, pe_value = cle_value e\<rparr>"

lemma parsed_entry_sel [simp]:
  "pe_key (parsed_entry e) = cle_key e" "pe_expected_version (parsed_entry e) = cle_expected_version e"
  "pe_value (parsed_entry e) = cle_value e"
  by (simp_all add: parsed_entry_def)

lemma parse_commit_entry_line:
  "parse_commit_entry (commit_entry_line e) = (if cle_value e = [] then None else Some (parsed_entry e))"
  by (cases "cle_value e = []")
    (simp_all add: parse_commit_entry_def commit_entry_line_def parsed_entry_def commit_codec.codec_simps
      getline_delim commit_codec.enc_last_field commit_codec.enc_Nil_iff [THEN iffD2])

lemma commit_entry_line_clean:
  "NL \<notin> set (commit_entry_line e)" "commit_entry_line e \<noteq> []" "commit_entry_line e \<noteq> ''[entries]''"
proof -
  show "NL \<notin> set (commit_entry_line e)" "commit_entry_line e \<noteq> []"
    by (simp_all add: commit_entry_line_def commit_codec.codec_simps)
  have "TAB \<in> set (commit_entry_line e)" by (simp add: commit_entry_line_def)
  moreover have "TAB \<notin> set ''[entries]''" by simp
  ultimately show "commit_entry_line e \<noteq> ''[entries]''" by metis
qed

lemma parse_commit_entry_lines:
  "parse_commit_lines True (map commit_entry_line es) a =
     (if \<exists>e \<in> set es. cle_value e = [] then None
      else Some (a\<lparr>pa_entries := pa_entries a @ map parsed_entry es\<rparr>))"
  by (induction es arbitrary: a) (auto simp: parse_commit_entry_line commit_entry_line_clean)

text \<open>The metadata lines, for any keys without the separator.\<close>

definition meta_ok :: "(string \<times> string) list \<Rightarrow> bool" where
  "meta_ok kvs \<longleftrightarrow> (\<forall>kv \<in> set kvs. CHR ''='' \<notin> set (fst kv) \<and> NL \<notin> set (fst kv) \<and> NL \<notin> set (snd kv))"

lemma meta_line_facts:
  "CHR ''='' \<notin> set (fst kv) \<Longrightarrow> split_eq (meta_line kv) = Some kv"
  "meta_line kv \<noteq> []" "meta_line kv \<noteq> ''[entries]''"
proof -
  show "CHR ''='' \<notin> set (fst kv) \<Longrightarrow> split_eq (meta_line kv) = Some kv"
    by (simp add: meta_line_def)
  have "CHR ''='' \<in> set (meta_line kv)" by (simp add: meta_line_def)
  moreover have "CHR ''='' \<notin> set ''[entries]''" by simp
  ultimately show "meta_line kv \<noteq> []" "meta_line kv \<noteq> ''[entries]''" by (force, metis)
qed

lemma parse_commit_meta_lines:
  "meta_ok kvs \<Longrightarrow> parse_commit_lines False (map meta_line kvs @ ''[entries]'' # ls) a =
     parse_commit_lines True ls (a\<lparr>pa_metadata :=
       umap_store_all (pa_metadata a) (map (\<lambda>(k, v). (k, UnescapeCommitLogText v)) kvs)\<rparr>)"
  by (induction kvs arbitrary: a) (auto simp: meta_line_facts meta_ok_def)

lemma TxnStatusName_clean [simp]: "NL \<notin> set (TxnStatusName s)" "BSLASH \<notin> set (TxnStatusName s)"
  by (cases s; simp)+

lemma commit_log_meta_ok: "meta_ok (commit_log_meta txn)"
  by (auto simp: meta_ok_def commit_log_meta_def commit_codec.codec_simps nat_dec_clean double_g_clean)

lemma getlines_commit_log:
  "getlines (commit_log_text txn) =
     kCommitLogHeader # map meta_line (commit_log_meta txn) @ ''[entries]'' # map commit_entry_line (tx_commit_log txn)"
  unfolding commit_log_text_def
proof (rule getlines_put_lines)
  have "NL \<notin> set (meta_line kv)" if "kv \<in> set (commit_log_meta txn)" for kv
    using commit_log_meta_ok [of txn] that by (auto simp: meta_ok_def meta_line_def)
  then show "NL \<notin> set l" if "l \<in> set (kCommitLogHeader # map meta_line (commit_log_meta txn) @ ''[entries]'' #
      map commit_entry_line (tx_commit_log txn))" for l
    using that by (auto simp: kCommitLogHeader_def commit_entry_line_clean)
qed

lemma unescape_plain: "BSLASH \<notin> set s \<Longrightarrow> UnescapeCommitLogText s = s"
proof -
  have "BSLASH \<notin> set s \<Longrightarrow> unescape_loop False s = s" for s by (induction s) auto
  then show "BSLASH \<notin> set s \<Longrightarrow> UnescapeCommitLogText s = s"
    by (simp add: UnescapeCommitLogText_def unescape_text_def)
qed

lemma commit_log_status:
  "umap_find (umap_store_all [] (map (\<lambda>(k, v). (k, UnescapeCommitLogText v)) (commit_log_meta txn))) ''status'' =
     Some (TxnStatusName (tx_status txn))"
  by (simp add: commit_log_meta_def unescape_plain)

definition reads_back :: "string \<Rightarrow> AgentTxnContext \<Rightarrow> world \<Rightarrow> bool" where
  "reads_back path txn w \<longleftrightarrow>
     (\<exists>a. ParseCommitLogArtifact path w = Some a \<and> pa_entries a = map parsed_entry (tx_commit_log txn) \<and>
        (log_committed a \<longleftrightarrow> tx_status txn = TxnCommitted))"

lemma parse_commit_log:
  assumes "fs_read path w = Some (commit_log_text txn)"
  shows "(\<exists>e \<in> set (tx_commit_log txn). cle_value e = []) \<Longrightarrow> ParseCommitLogArtifact path w = None"
    and "(\<forall>e \<in> set (tx_commit_log txn). cle_value e \<noteq> []) \<Longrightarrow> reads_back path txn w"
proof -
  have p: "ParseCommitLogArtifact path w =
      parse_commit_lines True (map commit_entry_line (tx_commit_log txn))
        \<lparr>pa_metadata = umap_store_all [] (map (\<lambda>(k, v). (k, UnescapeCommitLogText v)) (commit_log_meta txn)),
         pa_entries = []\<rparr>"
    by (simp add: ParseCommitLogArtifact_def assms getlines_commit_log kCommitLogHeader_def
        parse_commit_meta_lines commit_log_meta_ok)
  show "(\<exists>e \<in> set (tx_commit_log txn). cle_value e = []) \<Longrightarrow> ParseCommitLogArtifact path w = None"
    by (simp add: p parse_commit_entry_lines)
  have "TxnStatusName s = ''COMMITTED'' \<longleftrightarrow> s = TxnCommitted" for s by (cases s) simp_all
  then show "(\<forall>e \<in> set (tx_commit_log txn). cle_value e \<noteq> []) \<Longrightarrow> reads_back path txn w"
    by (auto simp: reads_back_def p parse_commit_entry_lines log_committed_def commit_log_status)
qed

text \<open>
  C35. A commit log that was written is readable exactly when no committed value is empty. If none
  is, parsing gives back every entry, and the log counts as committed exactly when the transaction
  did; keys and values may contain separators and newlines. If one is, the log does not parse.
\<close>

theorem commit_log_readable_iff:
  assumes "WriteCommitLogArtifact txn path w = (True, w')"
  shows "if \<exists>e \<in> set (tx_commit_log txn). cle_value e = []
         then ParseCommitLogArtifact path w' = None else reads_back path txn w'"
proof -
  have "fs_read path w' = Some (commit_log_text txn)"
    using assms by (cases rule: write_file_cases [of path "commit_log_text txn" w])
      (auto simp: WriteCommitLogArtifact_def)
  from parse_commit_log [OF this] show ?thesis by auto
qed

theorem commit_log_readable_iff_witness:
  "let txn = demo_txn []\<lparr>tx_commit_log := [\<lparr>cle_key = ''k'', cle_value = [], cle_expected_version = 1\<rparr>]\<rparr>;
       txn' = demo_txn []\<lparr>tx_commit_log := [\<lparr>cle_key = ''k'', cle_value = [TAB], cle_expected_version = 1\<rparr>]\<rparr>
   in ParseCommitLogArtifact ''l'' (snd (WriteCommitLogArtifact txn ''l'' calm)) = None \<and>
      reads_back ''l'' txn' (snd (WriteCommitLogArtifact txn' ''l'' calm))"
proof -
  have w: "WriteCommitLogArtifact t ''l'' calm = (True, fs_put ''l'' (commit_log_text t) calm)" for t
    by (simp add: WriteCommitLogArtifact_def write_file_def next_fault_def calm_def)
  show ?thesis
    using commit_log_readable_iff [OF w, of "demo_txn []\<lparr>tx_commit_log := [\<lparr>cle_key = ''k'', cle_value = [], cle_expected_version = 1\<rparr>]\<rparr>"]
      commit_log_readable_iff [OF w, of "demo_txn []\<lparr>tx_commit_log := [\<lparr>cle_key = ''k'', cle_value = [TAB], cle_expected_version = 1\<rparr>]\<rparr>"]
    by (simp add: Let_def w)
qed

section \<open>Recovery from commit logs\<close>

text \<open>Each key of the log is either still before the commit or already after it.\<close>

definition half_recovered :: "CommitLog \<Rightarrow> view \<Rightarrow> view \<Rightarrow> view \<Rightarrow> bool" where
  "half_recovered l V V' W \<longleftrightarrow> (\<forall>k. k \<notin> cle_key ` set l \<longrightarrow> W k = V k) \<and>
     (\<forall>k \<in> cle_key ` set l. W k = V k \<or> W k = V' k)"

context versioned_store
begin

lemma recover_entries_correct:
  assumes l: "log_describes (l0 @ l) V V'" and inv: "inv st"
    and W: "\<And>k. k \<in> cle_key ` set l0 \<Longrightarrow> kv_Get kv (fst st) k = V' k"
      "\<And>k. k \<in> cle_key ` set l \<Longrightarrow> kv_Get kv (fst st) k \<in> {V k, V' k}"
      "\<And>k. k \<notin> cle_key ` set (l0 @ l) \<Longrightarrow> kv_Get kv (fst st) k = V k"
    and run: "recover_entries kv (map parsed_entry l) st r = (finished, r', st')"
  shows "finished \<and> inv st' \<and> kv_Get kv (fst st') = V' \<and> rc_success r' = rc_success r"
  using assms
proof (induction l arbitrary: l0 st r)
  case Nil
  have "kv_Get kv (fst st) k = V' k" for k
    using Nil.prems(1) Nil.prems(3) [of k] Nil.prems(5) [of k] by (cases "k \<in> cle_key ` set l0") (auto simp: log_describes_def)
  with Nil show ?case by auto
next
  case (Cons e l)
  let ?k = "cle_key e"
  from Cons.prems(1) have e: "vv_version (V ?k) = cle_expected_version e"
      "V' ?k = \<lparr>vv_value = cle_value e, vv_version = cle_expected_version e + 1, vv_exists = True\<rparr>"
      and new: "?k \<notin> cle_key ` set l0" "?k \<notin> cle_key ` set l"
    by (auto simp: log_describes_def)
  have l: "log_describes ((l0 @ [e]) @ l) V V'" using Cons.prems(1) by simp
  show ?case
  proof (cases "kv_Get kv (fst st) ?k = V' ?k")
    case True
    then have run: "recover_entries kv (map parsed_entry l) st
        (r\<lparr>rc_skipped_committed_entry_count := rc_skipped_committed_entry_count r + 1\<rparr>) = (finished, r', st')"
      using Cons.prems(6) e by simp
    have "kv_Get kv (fst st) k = V' k" if "k \<in> cle_key ` set (l0 @ [e])" for k
      using that Cons.prems(3) True by auto
    from Cons.IH [OF l Cons.prems(2) this _ _ run] Cons.prems(4,5) show ?thesis by simp
  next
    case False
    then have here: "kv_Get kv (fst st) ?k = V ?k" using Cons.prems(4) [of ?k] by simp
    obtain ok1 st1 where put: "kv_PutIfVersion kv ?k (cle_expected_version e) (cle_value e) st = (ok1, st1)"
      by (metis surj_pair)
    have v: "vv_version (kv_Get kv (fst st) ?k) = cle_expected_version e" using here e by simp
    have u: "ok1" "inv st1" "kv_Get kv (fst st1) = view_put ?k (cle_value e) (kv_Get kv (fst st))"
      using put_if_ok [OF Cons.prems(2), where k = ?k and n = "cle_expected_version e" and v = "cle_value e"]
        put_if_view [OF Cons.prems(2) v, of "cle_value e"]
        put_if_inv [OF Cons.prems(2), where k = ?k and n = "cle_expected_version e" and v = "cle_value e"] put v
      by simp_all
    have run: "recover_entries kv (map parsed_entry l) st1
        (r\<lparr>rc_applied_entry_count := rc_applied_entry_count r + 1\<rparr>) = (finished, r', st')"
      using Cons.prems(6) e put u(1) here by simp
    have now: "kv_Get kv (fst st1) ?k = V' ?k" using u(3) e v by simp
    have other: "kv_Get kv (fst st1) k = kv_Get kv (fst st) k" if "k \<noteq> ?k" for k using that u(3) by simp
    have "kv_Get kv (fst st1) k = V' k" if "k \<in> cle_key ` set (l0 @ [e])" for k
      using that Cons.prems(3) [of k] now other [of k] by (cases "k = ?k") auto
    moreover have "kv_Get kv (fst st1) k \<in> {V k, V' k}" if "k \<in> cle_key ` set l" for k
      using that Cons.prems(4) [of k] now other [of k] by (cases "k = ?k") auto
    moreover have "kv_Get kv (fst st1) k = V k" if "k \<notin> cle_key ` set ((l0 @ [e]) @ l)" for k
      using that Cons.prems(5) [of k] other [of k] by auto
    ultimately show ?thesis using Cons.IH [OF l u(2) _ _ _ run] by simp
  qed
qed

end

text \<open>
  C33. Recovery from a commit log completes the commit and is idempotent. Take the log of a
  committed transaction that led the store from view \<open>V\<close> to \<open>V'\<close>, and a store in which any of the
  log's keys are still as in \<open>V\<close> and the others already as in \<open>V'\<close>. Recovery from the log's
  artifact succeeds and leaves exactly \<open>V'\<close>.
\<close>

theorem commit_log_recovery_completes:
  assumes kv: "versioned_store kv ok_state" and st: "ok_state st"
    and text_on_disk: "fs_read path (snd st) = Some (commit_log_text txn)"
    and txn: "tx_status txn = TxnCommitted" "\<forall>e \<in> set (tx_commit_log txn). cle_value e \<noteq> []"
    and l: "log_describes (tx_commit_log txn) V V'"
    and half: "half_recovered (tx_commit_log txn) V V' (kv_Get kv (fst st))"
    and run: "RecoverCommittedWrites kv [path] st = (r, st')"
  shows "rc_success r \<and> kv_Get kv (fst st') = V'"
proof -
  from parse_commit_log(2) [OF text_on_disk txn(2)] txn(1) obtain a where a: "ParseCommitLogArtifact path (snd st) = Some a"
      "pa_entries a = map parsed_entry (tx_commit_log txn)" "log_committed a"
    by (auto simp: reads_back_def)
  obtain fin r1 st1 where e: "recover_entries kv (map parsed_entry (tx_commit_log txn)) st default_RecoveryResult = (fin, r1, st1)"
    by (metis surj_pair)
  have W: "kv_Get kv (fst st) k \<in> {V k, V' k}" if "k \<in> cle_key ` set (tx_commit_log txn)" for k
    using half that by (auto simp: half_recovered_def)
  have out: "kv_Get kv (fst st) k = V k" if "k \<notin> cle_key ` set (tx_commit_log txn)" for k
    using half that by (auto simp: half_recovered_def)
  have "fin \<and> kv_Get kv (fst st1) = V' \<and> rc_success r1 = rc_success default_RecoveryResult"
    using versioned_store.recover_entries_correct [OF kv, of "[]" "tx_commit_log txn" V V' st default_RecoveryResult fin r1 st1]
      l st W out e by auto
  with run a e show ?thesis by (simp add: RecoverCommittedWrites_def default_RecoveryResult_def)
qed

text \<open>
  C34. Recovery over the logs of two commits to one key refuses the store it should accept. When a
  second commit has overwritten the key, the store is up to date; recovery from the first log then
  reports a version conflict, and the later logs are not looked at. The promised idempotence
  holds only for the last writer of each key.
\<close>

theorem recovery_conflicts_on_overwritten_key:
  assumes kv: "versioned_store kv ok_state" and st: "ok_state st"
    and text_on_disk: "fs_read path (snd st) = Some (commit_log_text txn)"
    and txn: "tx_status txn = TxnCommitted" "tx_commit_log txn = [e]" "cle_value e \<noteq> []"
    and later: "vv_version (kv_Get kv (fst st) (cle_key e)) = cle_expected_version e + 2"
    and run: "RecoverCommittedWrites kv (path # paths) st = (r, st')"
  shows "\<not> rc_success r \<and> rc_conflict_count r = 1 \<and>
    same_content (kv_Get kv (fst st')) (kv_Get kv (fst st))"
proof -
  have "\<forall>x \<in> set (tx_commit_log txn). cle_value x \<noteq> []" using txn by simp
  from parse_commit_log(2) [OF text_on_disk this] txn obtain a where a: "ParseCommitLogArtifact path (snd st) = Some a"
      "pa_entries a = [parsed_entry e]" "log_committed a"
    by (auto simp: reads_back_def)
  have differ: "(x :: u64) + 2 \<noteq> x + 1" "(x :: u64) + 2 \<noteq> x" for x by simp_all
  obtain ok1 st1 where put: "kv_PutIfVersion kv (cle_key e) (cle_expected_version e) (cle_value e) st = (ok1, st1)"
    by (metis surj_pair)
  have v: "vv_version (kv_Get kv (fst st) (cle_key e)) \<noteq> cle_expected_version e" using later differ by simp
  have "\<not> ok1" "same_content (kv_Get kv (fst st1)) (kv_Get kv (fst st))"
    using versioned_store.put_if_ok [OF kv st, where k = "cle_key e" and n = "cle_expected_version e" and v = "cle_value e"]
      versioned_store.put_if_miss [OF kv st v, of "cle_value e"] put v by auto
  moreover have "recover_entries kv [parsed_entry e] st default_RecoveryResult =
      (if ok1 then recover_entries kv [parsed_entry e] st default_RecoveryResult
       else (False, default_RecoveryResult\<lparr>rc_conflict_count := 1, rc_success := False,
                  rc_reason := ''recovery version conflict for key: '' @ cle_key e\<rparr>, st1))"
    using later differ put by (simp add: Let_def default_RecoveryResult_def)
  ultimately show ?thesis using run a by (auto simp: RecoverCommittedWrites_def)
qed


definition demo_log :: AgentTxnContext where
  "demo_log = demo_txn []\<lparr>tx_status := TxnCommitted,
     tx_commit_log := [\<lparr>cle_key = ''k'', cle_value = ''new'', cle_expected_version = 3\<rparr>]\<rparr>"

theorem commit_log_recovery_completes_witness:
  "let w = fs_put ''l'' (commit_log_text demo_log) calm
   in vv_value (mem_Get (fst (snd (RecoverCommittedWrites memory_store [''l''] (demo_mem, w)))) ''k'') = ''new''"
proof -
  let ?w = "fs_put ''l'' (commit_log_text demo_log) calm"
  let ?V = "mem_Get demo_mem" and ?V' = "view_put ''k'' ''new'' (mem_Get demo_mem)"
  have g: "mem_Get demo_mem ''k'' = \<lparr>vv_value = ''old'', vv_version = 3, vv_exists = True\<rparr>"
    by (simp add: demo_mem_def mem_Get_def umap_find_def)
  have d: "tx_status demo_log = TxnCommitted" "\<forall>e \<in> set (tx_commit_log demo_log). cle_value e \<noteq> []"
    "fs_read ''l'' (snd (demo_mem, ?w)) = Some (commit_log_text demo_log)"
    "log_describes (tx_commit_log demo_log) ?V ?V'"
    "half_recovered (tx_commit_log demo_log) ?V ?V' (kv_Get memory_store (fst (demo_mem, ?w)))"
    by (simp_all add: demo_log_def log_describes_def half_recovered_def g)
  obtain r st' where r: "RecoverCommittedWrites memory_store [''l''] (demo_mem, ?w) = (r, st')" by (metis surj_pair)
  from commit_log_recovery_completes [OF mem.versioned_store_axioms TrueI d(3,1,2,4,5) r]
  show ?thesis by (simp add: r Let_def)
qed

theorem recovery_conflicts_on_overwritten_key_witness:
  "let w = fs_put ''l'' (commit_log_text demo_log) calm;
       m = [(''k'', \<lparr>me_value = ''newer'', me_version = 5\<rparr>)]
   in \<not> rc_success (fst (RecoverCommittedWrites memory_store [''l'', ''l2''] (m, w)))"
proof -
  let ?w = "fs_put ''l'' (commit_log_text demo_log) calm"
  let ?m = "[(''k'', \<lparr>me_value = ''newer'', me_version = 5\<rparr>)]"
  let ?e = "\<lparr>cle_key = ''k'', cle_value = ''new'', cle_expected_version = 3\<rparr>"
  have d: "tx_status demo_log = TxnCommitted" "tx_commit_log demo_log = [?e]" "cle_value ?e \<noteq> []"
    "fs_read ''l'' (snd (?m, ?w)) = Some (commit_log_text demo_log)"
    "vv_version (kv_Get memory_store (fst (?m, ?w)) (cle_key ?e)) = cle_expected_version ?e + 2"
    by (simp_all add: demo_log_def mem_Get_def umap_find_def)
  obtain r st' where r: "RecoverCommittedWrites memory_store [''l'', ''l2''] (?m, ?w) = (r, st')" by (metis surj_pair)
  from recovery_conflicts_on_overwritten_key [OF mem.versioned_store_axioms TrueI d(4,1,2,3,5) r]
  show ?thesis by (simp add: r Let_def)
qed

end
