(* ===== verification/Txn_Manager.thy ===== *)
theory Txn_Manager
  imports Commit_Log
begin

text \<open>
  \<open>agent_txn/agent_txn_manager.h\<close>: the life of an agent transaction, from its branches through
  the choice of the winner, validation and commit to the disposal of the losers.
\<close>

definition tm_Begin :: "string \<Rightarrow> string \<Rightarrow> AgentTxnContext" where
  "tm_Begin txn_id task_id =
     \<lparr>tx_txn_id = txn_id, tx_task_id = task_id, tx_status = TxnRunning, tx_branches = [],
      tx_winner_branch_id = [], tx_commit_log = [], tx_validation_result = default_ValidationResult,
      tx_metrics = default_TxnMetrics,
      tx_fallback_commit = \<lparr>fcc_artifact_path = [], fcc_simulate_crash_after_apply_count = 0\<rparr>\<rparr>"

definition tm_CreateBranch :: "string \<Rightarrow> AgentTxnContext \<Rightarrow> AgentTxnContext" where
  "tm_CreateBranch branch_id txn = txn\<lparr>tx_branches := bm_CreateBranch branch_id (tx_branches txn)\<rparr>"

definition tm_SelectWinnerAndCommit ::
    "'s VersionedKVStore \<Rightarrow> AgentTxnContext \<Rightarrow> 's sys \<Rightarrow> exn + bool \<times> AgentTxnContext \<times> 's sys" where
  "tm_SelectWinnerAndCommit kv txn st =
     (case bm_SelectWinner (tx_branches txn) of
        Inl e \<Rightarrow> Inl e
      | Inr winner_branch_id \<Rightarrow>
          (let txn = txn\<lparr>tx_winner_branch_id := winner_branch_id,
                 tx_branches := bm_MarkWinnerAndLosers winner_branch_id (tx_branches txn)\<rparr> in
           case bm_FindBranch (tx_branches txn) winner_branch_id of
             None \<Rightarrow>
               Inr (False,
                 rm_AbortTransaction (txn\<lparr>tx_validation_result := vr_fail ''winner branch not found''\<rparr>), st)
           | Some i \<Rightarrow>
               (let winner = tx_branches txn ! i;
                    txn = txn\<lparr>tx_validation_result := vm_ValidateWinner winner (kv_GetVersion kv (fst st))\<rparr> in
                if \<not> vr_success (tx_validation_result txn) then Inr (False, rm_AbortTransaction txn, st)
                else
                  (case CommitWinner kv txn winner st default_ValidationResult of
                     Inl e \<Rightarrow> Inl e
                   | Inr (committed, txn, st, commit_result) \<Rightarrow>
                       if \<not> committed then
                         Inr (False, rm_AbortTransaction (txn\<lparr>tx_validation_result := commit_result\<rparr>), st)
                       else
                         (let txn = txn\<lparr>tx_status := TxnCommitted,
                                tx_branches := (tx_branches txn)[i := (tx_branches txn ! i)\<lparr>bc_status := kCommitted\<rparr>]\<rparr>
                          in Inr (True,
                               txn\<lparr>tx_branches := map (\<lambda>b. if bc_branch_id b \<noteq> winner_branch_id
                                   then rm_DiscardBranch b else b) (tx_branches txn)\<rparr>, st))))))"

definition tm_RecoverCommittedWrites ::
    "'s VersionedKVStore \<Rightarrow> string \<Rightarrow> 's sys \<Rightarrow> RecoveryResult \<times> 's sys" where
  "tm_RecoverCommittedWrites kv commit_log_dir st = RecoverFromDirectory kv commit_log_dir st"

definition tm_RecoverFallbackCommits ::
    "'s VersionedKVStore \<Rightarrow> string \<Rightarrow> 's sys \<Rightarrow> FallbackRecoveryResult \<times> 's sys" where
  "tm_RecoverFallbackCommits kv artifact_dir st = RecoverFallbackCommitsFromDirectory kv artifact_dir st"

section \<open>The status of a branch does not matter to a commit\<close>

lemma branch_status_irrelevant [simp]:
  "branch_inv (b\<lparr>bc_status := s\<rparr>) = branch_inv b"
  "commit_view (b\<lparr>bc_status := s\<rparr>) = commit_view b"
  "versions_ok (b\<lparr>bc_status := s\<rparr>) = versions_ok b"
  by (simp_all add: branch_inv_def commit_view_def versions_ok_def writes_key_def rebased_key_def
      committed_value_def base_version_of_def buffered_keys_def fun_eq_iff)

lemma Mark_nth:
  "i < length bs \<Longrightarrow> \<exists>s. bm_MarkWinnerAndLosers w bs ! i = (bs ! i)\<lparr>bc_status := s\<rparr>"
  by (auto simp: bm_MarkWinnerAndLosers_def)

lemma Mark_ids: "map bc_branch_id (bm_MarkWinnerAndLosers w bs) = map bc_branch_id bs"
  by (simp add: bm_MarkWinnerAndLosers_def)

lemma Mark_length [simp]: "length (bm_MarkWinnerAndLosers w bs) = length bs"
  by (simp add: bm_MarkWinnerAndLosers_def)

lemma CommitWinner_txn:
  "CommitWinner kv txn winner st f = Inr (ok, txn', st', f') \<Longrightarrow>
     \<exists>l. txn' = txn\<lparr>tx_commit_log := l\<rparr>"
proof -
  assume "CommitWinner kv txn winner st f = Inr (ok, txn', st', f')"
  then have "txn' = txn \<or> (\<exists>l. txn' = txn\<lparr>tx_commit_log := l\<rparr>)"
    by (auto simp: CommitWinner_def Let_def split: sum.splits prod.splits if_splits)
  moreover have "txn = txn\<lparr>tx_commit_log := tx_commit_log txn\<rparr>" by simp
  ultimately show ?thesis by metis
qed

text \<open>A branch that holds nothing any more.\<close>

definition discarded :: "BranchContext \<Rightarrow> bool" where
  "discarded b \<longleftrightarrow> bc_status b = kDiscarded \<and> bc_write_buffer b = empty_WriteBuffer \<and>
     bc_intent_log b = [] \<and> bc_savepoints b = []"

lemma DiscardBranch_discarded: "branch_inv b \<Longrightarrow> discarded (rm_DiscardBranch b)"
  by (auto simp: branch_inv_def discarded_def rm_DiscardBranch_def wb_Truncate_of)

lemma Abort_discards:
  "(\<forall>b \<in> set (tx_branches txn). branch_inv b) \<Longrightarrow>
     tx_status (rm_AbortTransaction txn) = TxnAborted \<and>
     (\<forall>b \<in> set (tx_branches (rm_AbortTransaction txn)). discarded b)"
  by (auto simp: rm_AbortTransaction_def DiscardBranch_discarded)

lemma Mark_inv: "(\<forall>b \<in> set bs. branch_inv b) \<Longrightarrow> (\<forall>b \<in> set (bm_MarkWinnerAndLosers w bs). branch_inv b)"
  by (auto simp: bm_MarkWinnerAndLosers_def)

lemma versions_ok_valid:
  "versions_ok b V \<Longrightarrow> vr_success (vm_ValidateWinner b (\<lambda>k. vv_version (V k)))"
  unfolding vm_ValidateWinner_success versions_ok_def
  by (auto simp: strict_read_def rebased_key_def split: option.splits)

lemma commit_possible_status [simp]: "commit_possible (b\<lparr>bc_status := s\<rparr>) = commit_possible b"
  by (simp add: fun_eq_iff commit_possible_def writes_resolve_def reads_agree_def buffered_keys_def)

text \<open>
  What a transaction that ended has done: \<open>w\<close> is the branch it chose from \<open>bs\<close>, and \<open>V\<close> and
  \<open>V'\<close> are the store before and after.
\<close>

definition outcome_of ::
    "BranchContext list \<Rightarrow> BranchContext \<Rightarrow> view \<Rightarrow> bool \<Rightarrow> AgentTxnContext \<Rightarrow> view \<Rightarrow> bool" where
  "outcome_of bs w V ok txn' V' \<longleftrightarrow>
     w \<in> set bs \<and> tx_winner_branch_id txn' = bc_branch_id w \<and>
     (\<forall>b \<in> set bs. \<not> dless (cr_score (bc_candidate_result w)) (cr_score (bc_candidate_result b))) \<and>
     (ok \<longleftrightarrow> commit_possible w V) \<and>
     (if ok then tx_status txn' = TxnCommitted \<and> V' = commit_view w V \<and>
           log_describes (tx_commit_log txn') V V' \<and>
           (\<forall>b \<in> set (tx_branches txn'). bc_branch_id b \<noteq> bc_branch_id w \<longrightarrow> discarded b)
      else tx_status txn' = TxnAborted \<and> V' = V \<and> (\<forall>b \<in> set (tx_branches txn'). discarded b))"

lemma outcome_of_commitI:
  "w \<in> set bs \<Longrightarrow> tx_winner_branch_id txn' = bc_branch_id w \<Longrightarrow>
   \<forall>b \<in> set bs. \<not> dless (cr_score (bc_candidate_result w)) (cr_score (bc_candidate_result b)) \<Longrightarrow>
   commit_possible w V \<Longrightarrow> tx_status txn' = TxnCommitted \<Longrightarrow> V' = commit_view w V \<Longrightarrow>
   log_describes (tx_commit_log txn') V V' \<Longrightarrow>
   (\<And>b. b \<in> set (tx_branches txn') \<Longrightarrow> bc_branch_id b \<noteq> bc_branch_id w \<Longrightarrow> discarded b) \<Longrightarrow>
   outcome_of bs w V True txn' V'"
  by (simp add: outcome_of_def)

lemma max_element_mem: "max_element_score b bs \<in> set (b # bs)"
  by (induction bs arbitrary: b) auto

definition best_branch :: "BranchContext list \<Rightarrow> BranchContext" where
  "best_branch bs = max_element_score (hd bs) (tl bs)"

lemma SelectWinner_best_branch: "bs \<noteq> [] \<Longrightarrow> bm_SelectWinner bs = Inr (bc_branch_id (best_branch bs))"
  by (cases bs) (simp_all add: bm_SelectWinner_def best_branch_def)

lemma best_branch_mem: "bs \<noteq> [] \<Longrightarrow> best_branch bs \<in> set bs"
  by (cases bs) (simp_all add: best_branch_def max_element_mem [simplified])

text \<open>
  The life of a transaction, given what \<open>CommitWinner\<close> does to each of its branches when that
  branch has passed validation; \<open>unchanged\<close> is what a failed commit promises of the store.
\<close>

lemma transaction_outcome_from:
  assumes commit: "\<And>t w s. tx_fallback_commit t = tx_fallback_commit txn \<Longrightarrow> w \<in> set (tx_branches txn) \<Longrightarrow>
      vr_success (vm_ValidateWinner w (\<lambda>k. vv_version (V k))) \<Longrightarrow>
      \<exists>ok txn' st' f'. CommitWinner kv t (w\<lparr>bc_status := s\<rparr>) st default_ValidationResult = Inr (ok, txn', st', f') \<and>
        ok_state st' \<and> (ok \<longleftrightarrow> commit_possible w V) \<and>
        (ok \<longrightarrow> kv_Get kv (fst st') = commit_view w V \<and> log_describes (tx_commit_log txn') V (kv_Get kv (fst st'))) \<and>
        (\<not> ok \<longrightarrow> unchanged (kv_Get kv (fst st')) \<and> txn' = t)"
    and V: "V = kv_Get kv (fst st)" "unchanged V" and gv: "kv_GetVersion kv (fst st) = (\<lambda>k. vv_version (V k))"
    and st: "ok_state st" and inv: "\<forall>b \<in> set (tx_branches txn). branch_inv b" and ne: "tx_branches txn \<noteq> []"
    and ids: "distinct (map bc_branch_id (tx_branches txn))"
    and scores: "\<forall>b \<in> set (tx_branches txn). cr_score (bc_candidate_result b) \<noteq> DNaN"
  shows "\<exists>ok txn' st'. tm_SelectWinnerAndCommit kv txn st = Inr (ok, txn', st') \<and> ok_state st' \<and>
    outcome_of (tx_branches txn) (best_branch (tx_branches txn)) V ok txn' (if ok then kv_Get kv (fst st') else V) \<and>
    (\<not> ok \<longrightarrow> unchanged (kv_Get kv (fst st')))"
proof -
  let ?bs = "tx_branches txn"
  define w where "w = best_branch ?bs"
  have w: "w \<in> set ?bs" "bm_SelectWinner ?bs = Inr (bc_branch_id w)"
    using ne by (simp_all add: w_def best_branch_mem SelectWinner_best_branch)
  have best: "\<forall>b \<in> set ?bs. \<not> dless (cr_score (bc_candidate_result w)) (cr_score (bc_candidate_result b))"
  proof -
    obtain w' where "w' \<in> set ?bs" "bm_SelectWinner ?bs = Inr (bc_branch_id w')"
        "\<forall>b \<in> set ?bs. \<not> dless (cr_score (bc_candidate_result w')) (cr_score (bc_candidate_result b))"
      using bm_SelectWinner_found [OF ne scores] by blast
    moreover from this w ids have "w' = w" by (simp add: distinct_map inj_on_def)
    ultimately show ?thesis by simp
  qed
  let ?id = "bc_branch_id w" and ?ms = "bm_MarkWinnerAndLosers (bc_branch_id w) ?bs"
  obtain i where i: "i < length ?bs" "w = ?bs ! i" using w(1) by (metis in_set_conv_nth)
  obtain s where s: "?ms ! i = w\<lparr>bc_status := s\<rparr>" using Mark_nth i by metis
  have "find_index (\<lambda>b. bc_branch_id b = bc_branch_id (?ms ! i)) ?ms = Some i"
    by (rule find_index_distinct) (use ids i in \<open>simp_all add: Mark_ids\<close>)
  then have found: "bm_FindBranch ?ms ?id = Some i" by (simp add: bm_FindBranch_def s)
  have invms: "\<forall>b \<in> set ?ms. branch_inv b" by (rule Mark_inv [OF inv])
  have invw: "branch_inv (?ms ! i)" using inv w(1) by (simp add: s)
  have valid: "vr_success (vm_ValidateWinner (?ms ! i) G) = vr_success (vm_ValidateWinner w G)" for G
    by (simp add: s vm_ValidateWinner_success strict_read_def)
  let ?txn = "txn\<lparr>tx_winner_branch_id := ?id, tx_branches := ?ms,
      tx_validation_result := vm_ValidateWinner (?ms ! i) (kv_GetVersion kv (fst st))\<rparr>"
  show ?thesis
    unfolding w_def [symmetric]
  proof (cases "vr_success (vm_ValidateWinner (?ms ! i) (kv_GetVersion kv (fst st)))")
    case False
    then have no: "\<not> commit_possible w V"
      using versions_ok_valid [of "?ms ! i" V] by (auto simp: gv s commit_possible_def)
    moreover have "tm_SelectWinnerAndCommit kv txn st = Inr (False, rm_AbortTransaction ?txn, st)"
      using False w found by (simp add: tm_SelectWinnerAndCommit_def Let_def)
    moreover have "outcome_of ?bs w V False (rm_AbortTransaction ?txn) V"
      using Abort_discards [of ?txn] invms w best no by (auto simp: outcome_of_def rm_AbortTransaction_def)
    ultimately show "\<exists>ok txn' st'. tm_SelectWinnerAndCommit kv txn st = Inr (ok, txn', st') \<and> ok_state st' \<and>
        outcome_of ?bs w V ok txn' (if ok then kv_Get kv (fst st') else V) \<and> (\<not> ok \<longrightarrow> unchanged (kv_Get kv (fst st')))"
      using st V by (intro exI [of _ False]) simp
  next
    case True
    have "vr_success (vm_ValidateWinner w (\<lambda>k. vv_version (V k)))" using True by (simp add: valid gv)
    from commit [OF _ w(1) this, of ?txn s]
    obtain ok txn1 st1 f1 where c: "CommitWinner kv ?txn (?ms ! i) st default_ValidationResult = Inr (ok, txn1, st1, f1)"
        "ok_state st1" "ok \<longleftrightarrow> commit_possible w V"
        "ok \<longrightarrow> kv_Get kv (fst st1) = commit_view w V \<and> log_describes (tx_commit_log txn1) V (kv_Get kv (fst st1))"
        "\<not> ok \<longrightarrow> unchanged (kv_Get kv (fst st1)) \<and> txn1 = ?txn"
      unfolding s by auto
    show "\<exists>ok txn' st'. tm_SelectWinnerAndCommit kv txn st = Inr (ok, txn', st') \<and> ok_state st' \<and>
        outcome_of ?bs w V ok txn' (if ok then kv_Get kv (fst st') else V) \<and> (\<not> ok \<longrightarrow> unchanged (kv_Get kv (fst st')))"
    proof (cases ok)
      case False
      then have "tm_SelectWinnerAndCommit kv txn st =
          Inr (False, rm_AbortTransaction (?txn\<lparr>tx_validation_result := f1\<rparr>), st1)"
        using w found True c by (simp add: tm_SelectWinnerAndCommit_def Let_def)
      with Abort_discards [of "?txn\<lparr>tx_validation_result := f1\<rparr>"] invms c False w best
      show ?thesis by (auto simp: outcome_of_def rm_AbortTransaction_def s)
    next
      case okT: True
      obtain l where l: "txn1 = ?txn\<lparr>tx_commit_log := l\<rparr>" using CommitWinner_txn [OF c(1)] by blast
      let ?bs' = "map (\<lambda>b. if bc_branch_id b \<noteq> ?id then rm_DiscardBranch b else b)
          (?ms[i := (?ms ! i)\<lparr>bc_status := kCommitted\<rparr>])"
      let ?txn' = "txn1\<lparr>tx_status := TxnCommitted, tx_branches := ?bs'\<rparr>"
      have run: "tm_SelectWinnerAndCommit kv txn st = Inr (True, ?txn', st1)"
        using w found True c okT by (simp add: tm_SelectWinnerAndCommit_def Let_def l)
      have losers: "discarded b" if "b \<in> set ?bs'" "bc_branch_id b \<noteq> ?id" for b
      proof -
        from that obtain x where "x \<in> set (?ms[i := (?ms ! i)\<lparr>bc_status := kCommitted\<rparr>])"
            "b = rm_DiscardBranch x" by (auto split: if_splits)
        moreover from this have "branch_inv x"
          using set_update_subset_insert [of ?ms i "(?ms ! i)\<lparr>bc_status := kCommitted\<rparr>"] invms invw by auto
        ultimately show ?thesis by (simp add: DiscardBranch_discarded)
      qed
      have "commit_possible w V" "kv_Get kv (fst st1) = commit_view w V"
          "log_describes (tx_commit_log txn1) V (kv_Get kv (fst st1))"
        using c(3,4) okT by blast+
      then have "outcome_of ?bs w V True ?txn' (kv_Get kv (fst st1))"
        by (intro outcome_of_commitI w(1) best losers) (simp_all add: l)
      with run c(2) show ?thesis by (intro exI [of _ True]) auto
    qed
  qed
qed

lemma transaction_outcome_lemma:
  assumes kv: "batch_store kv ok_state" and st: "ok_state st"
    and inv: "\<forall>b \<in> set (tx_branches txn). branch_inv b" and ne: "tx_branches txn \<noteq> []"
    and ids: "distinct (map bc_branch_id (tx_branches txn))"
    and scores: "\<forall>b \<in> set (tx_branches txn). cr_score (bc_candidate_result b) \<noteq> DNaN"
  shows "\<exists>ok txn' st'. tm_SelectWinnerAndCommit kv txn st = Inr (ok, txn', st') \<and> ok_state st' \<and>
    outcome_of (tx_branches txn) (best_branch (tx_branches txn)) (kv_Get kv (fst st)) ok txn' (kv_Get kv (fst st'))"
proof -
  let ?V = "kv_Get kv (fst st)"
  have gv: "kv_GetVersion kv (fst st) = (\<lambda>k. vv_version (?V k))"
    using versioned_store.get_version [OF batch_store.axioms(1) [OF kv]] by blast
  have f: "vr_reason default_ValidationResult = []" by (simp add: default_ValidationResult_def)
  have commit: "\<exists>ok txn' st' f'. CommitWinner kv t (w\<lparr>bc_status := s\<rparr>) st default_ValidationResult = Inr (ok, txn', st', f') \<and>
        ok_state st' \<and> (ok \<longleftrightarrow> commit_possible w ?V) \<and>
        (ok \<longrightarrow> kv_Get kv (fst st') = commit_view w ?V \<and> log_describes (tx_commit_log txn') ?V (kv_Get kv (fst st'))) \<and>
        (\<not> ok \<longrightarrow> kv_Get kv (fst st') = ?V \<and> txn' = t)"
    if "w \<in> set (tx_branches txn)" for t w s
  proof -
    have "branch_inv (w\<lparr>bc_status := s\<rparr>)" using inv that by simp
    from batch_commit_atomic_lemma [OF kv st this f, of t] show ?thesis by (simp, blast)
  qed
  obtain ok txn' st' where "tm_SelectWinnerAndCommit kv txn st = Inr (ok, txn', st')" "ok_state st'"
      "outcome_of (tx_branches txn) (best_branch (tx_branches txn)) ?V ok txn' (if ok then kv_Get kv (fst st') else ?V)"
      "\<not> ok \<longrightarrow> kv_Get kv (fst st') = ?V"
    using transaction_outcome_from [of txn ?V kv st ok_state "\<lambda>X. X = ?V", OF commit refl refl gv st inv ne ids scores] by blast
  then show ?thesis by (cases ok) auto
qed

text \<open>
  C1. The outcome of a transaction on a store with atomic batches. With distinct branch ids and
  no NaN score, \<open>SelectWinnerAndCommit\<close> throws only when there is no branch. It chooses a branch
  that no other exceeds in score, and commits if and only if that branch can be committed: its
  versions hold, its writes can be resolved and its reads agree. On success the store has made
  exactly the step \<open>commit_view\<close> of the winner, the transaction is committed, its log describes
  the step, and every other branch is discarded and empty: the losers leave nothing behind. On
  failure no key has changed, the transaction is aborted and all its branches are discarded.
\<close>

theorem transaction_outcome:
  assumes "batch_store kv ok_state" and "ok_state st"
    and "\<forall>b \<in> set (tx_branches txn). branch_inv b" and "tx_branches txn \<noteq> []"
    and "distinct (map bc_branch_id (tx_branches txn))"
    and "\<forall>b \<in> set (tx_branches txn). cr_score (bc_candidate_result b) \<noteq> DNaN"
  shows "\<exists>ok txn' st' w. tm_SelectWinnerAndCommit kv txn st = Inr (ok, txn', st') \<and> ok_state st' \<and>
    outcome_of (tx_branches txn) w (kv_Get kv (fst st)) ok txn' (kv_Get kv (fst st'))"
  using transaction_outcome_lemma [OF assms] by blast

theorem transaction_outcome_witness:
  "let txn = (tm_Begin ''t'' ''task'')\<lparr>tx_branches := [demo_branch (mem_Get demo_mem)]\<rparr> in
   case tm_SelectWinnerAndCommit memory_store txn (demo_mem, calm) of
     Inl _ \<Rightarrow> False
   | Inr (ok, txn', st') \<Rightarrow>
       ok \<and> vv_value (mem_Get (fst st') ''k'') = ''old+''"
proof -
  let ?b = "demo_branch (mem_Get demo_mem)"
  let ?txn = "(tm_Begin ''t'' ''task'')\<lparr>tx_branches := [?b]\<rparr>"
  have g: "mem_Get demo_mem ''k'' = \<lparr>vv_value = ''old'', vv_version = 3, vv_exists = True\<rparr>"
    by (simp add: demo_mem_def mem_Get_def umap_find_def)
  have "cr_score (bc_candidate_result ?b) = DFin 0"
    by (simp add: demo_branch_def bm_BufferWrite_frame bm_ReadObject_frame new_BranchContext_def)
  then have h: "\<forall>b \<in> set (tx_branches ?txn). branch_inv b" "tx_branches ?txn \<noteq> []"
      "distinct (map bc_branch_id (tx_branches ?txn))"
      "\<forall>b \<in> set (tx_branches ?txn). cr_score (bc_candidate_result b) \<noteq> DNaN"
    by simp_all
  have poss: "commit_possible ?b (mem_Get demo_mem)"
    by (auto simp: commit_possible_def versions_ok_def reads_agree_def demo_branch_facts)
  obtain ok txn' st' where r: "tm_SelectWinnerAndCommit memory_store ?txn (demo_mem, calm) = Inr (ok, txn', st')"
      "outcome_of [?b] ?b (mem_Get demo_mem) ok txn' (mem_Get (fst st'))"
    using transaction_outcome [where st = "(demo_mem, calm)", OF mem.batch_store_axioms TrueI h]
    by (auto simp: outcome_of_def)
  then show ?thesis
    using poss by (simp add: Let_def outcome_of_def commit_view_def demo_branch_facts g)
qed

end
