(* ===== verification/Task_Model.thy ===== *)
theory Task_Model
  imports Txn_Manager
begin

text \<open>
  \<open>runtime/execution_plan.h\<close>, \<open>task_context.h\<close> and \<open>task_session.h\<close>: what a task is, the
  branches planned for it, and the session that runs it and records its events.
\<close>

section \<open>Conversions between doubles and 64-bit integers\<close>

text \<open>
  \<open>static_cast<std::int64_t>(double)\<close> truncates towards zero. A value out of range (or NaN) is
  undefined in C++; the model takes the value the x86-64 conversion gives.
\<close>

fun i64_of_double :: "double \<Rightarrow> i64" where
  "i64_of_double (DFin q) =
     (let t = (if 0 \<le> q then \<lfloor>q\<rfloor> else \<lceil>q\<rceil>)
      in if ll_fits t then word_of_int t else word_of_int (- (2 ^ 63)))"
| "i64_of_double _ = word_of_int (- (2 ^ 63))"

text \<open>
  \<open>static_cast<double>\<close> of an integer: exact up to 53 bits of magnitude, otherwise rounded half
  to even at the 53rd bit.
\<close>

fun bit_count :: "nat \<Rightarrow> nat" where
  "bit_count n = (if n = 0 then 0 else Suc (bit_count (n div 2)))"

declare bit_count.simps [simp del]

definition double_of_int :: "int \<Rightarrow> double" where
  "double_of_int i =
     (let k = bit_count (nat \<bar>i\<bar>) - 53
      in DFin (of_int (round_half_even (of_int i / 2 ^ k) * 2 ^ k)))"

definition double_of_i64 :: "i64 \<Rightarrow> double" where
  "double_of_i64 w = double_of_int (sint w)"

lemma bit_count_bound: "n < 2 ^ k \<Longrightarrow> bit_count n \<le> k"
proof (induction k arbitrary: n)
  case 0
  then show ?case by (simp add: bit_count.simps)
next
  case (Suc k)
  then have "n div 2 < 2 ^ k" by auto
  with Suc.IH show ?case by (subst bit_count.simps) auto
qed

lemma round_half_even_int [simp]: "round_half_even (of_int i) = i"
  by (simp add: round_half_even_def Let_def)

lemma double_of_int_exact: "\<bar>i\<bar> < 2 ^ 53 \<Longrightarrow> double_of_int i = DFin (of_int i)"
proof -
  assume "\<bar>i\<bar> < 2 ^ 53"
  then have "nat \<bar>i\<bar> < 2 ^ 53" by (simp add: nat_less_iff)
  then have "bit_count (nat \<bar>i\<bar>) - 53 = 0" using bit_count_bound by simp
  then show ?thesis by (simp add: double_of_int_def)
qed

lemma double_round_trip:
  "\<bar>i\<bar> < 2 ^ 53 \<Longrightarrow> double_of_i64 (i64_of_double (DFin (of_int i))) = DFin (of_int i)"
proof -
  assume i: "\<bar>i\<bar> < 2 ^ 53"
  then have f: "ll_fits i" by (simp add: ll_fits_def abs_if split: if_splits)
  have "sint (word_of_int i :: i64) = i"
    using f by (simp add: sint_sbintrunc' ll_fits_def signed_take_bit_int_eq_self)
  with f i show ?thesis by (simp add: double_of_i64_def double_of_int_exact)
qed

section \<open>ExecutionPlan\<close>

datatype WinnerSelectionPolicy = kHighestScore

record BranchPlan =
  bp_branch_id :: string
  bp_candidate_id :: string
  bp_rationale :: string
  bp_initial_priority :: double

record ExecutionPlan =
  ep_winner_selection_policy :: WinnerSelectionPolicy
  ep_branch_plans :: "BranchPlan list"

definition default_ExecutionPlan :: ExecutionPlan where
  "default_ExecutionPlan = \<lparr>ep_winner_selection_policy = kHighestScore, ep_branch_plans = []\<rparr>"

definition AddBranchPlan ::
    "string \<Rightarrow> string \<Rightarrow> string \<Rightarrow> double \<Rightarrow> ExecutionPlan \<Rightarrow> ExecutionPlan" where
  "AddBranchPlan branch_id candidate_id rationale initial_priority plan =
     plan\<lparr>ep_branch_plans := ep_branch_plans plan @
       [\<lparr>bp_branch_id = branch_id, bp_candidate_id = candidate_id, bp_rationale = rationale,
         bp_initial_priority = initial_priority\<rparr>]\<rparr>"

definition CandidateBranchIds :: "ExecutionPlan \<Rightarrow> string list" where
  "CandidateBranchIds plan = map bp_branch_id (ep_branch_plans plan)"

text \<open>The loop of \<open>Validate\<close> with the set of the ids seen.\<close>

fun validate_branch_plans :: "string list \<Rightarrow> BranchPlan list \<Rightarrow> exn + unit" where
  "validate_branch_plans branch_ids [] = Inr ()"
| "validate_branch_plans branch_ids (branch_plan # plans) =
     (if bp_branch_id branch_plan = [] then
        Inl (runtime_error ''execution plan contains an empty branch_id'')
      else if bp_candidate_id branch_plan = [] then
        Inl (runtime_error ''execution plan contains an empty candidate_id'')
      else if bp_branch_id branch_plan \<in> set branch_ids then
        Inl (runtime_error (''execution plan contains duplicate branch_id: '' @ bp_branch_id branch_plan))
      else validate_branch_plans (bp_branch_id branch_plan # branch_ids) plans)"

definition plan_Validate :: "ExecutionPlan \<Rightarrow> exn + unit" where
  "plan_Validate plan =
     (if ep_branch_plans plan = [] then
        Inl (runtime_error ''execution plan must contain at least one branch'')
      else validate_branch_plans [] (ep_branch_plans plan))"

lemma validate_branch_plans_iff:
  "validate_branch_plans seen ps = Inr () \<longleftrightarrow>
     (\<forall>p \<in> set ps. bp_branch_id p \<noteq> [] \<and> bp_candidate_id p \<noteq> [] \<and> bp_branch_id p \<notin> set seen) \<and>
     distinct (map bp_branch_id ps)"
  by (induction ps arbitrary: seen) (auto simp: image_iff)

lemma plan_Validate_iff:
  "plan_Validate plan = Inr () \<longleftrightarrow> ep_branch_plans plan \<noteq> [] \<and> distinct (CandidateBranchIds plan) \<and>
     (\<forall>p \<in> set (ep_branch_plans plan). bp_branch_id p \<noteq> [] \<and> bp_candidate_id p \<noteq> [])"
  by (auto simp: plan_Validate_def validate_branch_plans_iff CandidateBranchIds_def)

section \<open>TaskContext\<close>

datatype TaskPhase = TaskCreated | TaskRunning | TaskCommitted | TaskAborted

record ObjectReference =
  or_object_id :: string
  or_object_role :: string

record TaskContext =
  tc_task_id :: string
  tc_objective :: string
  tc_workload_name :: string
  tc_planner_id :: string
  tc_phase :: TaskPhase
  tc_input_objects :: "ObjectReference list"
  tc_output_objects :: "ObjectReference list"
  tc_metadata :: "(string, string) umap"

definition default_TaskContext :: TaskContext where
  "default_TaskContext =
     \<lparr>tc_task_id = [], tc_objective = [], tc_workload_name = [], tc_planner_id = [],
      tc_phase = TaskCreated, tc_input_objects = [], tc_output_objects = [], tc_metadata = []\<rparr>"

definition AddInputObject :: "string \<Rightarrow> string \<Rightarrow> TaskContext \<Rightarrow> TaskContext" where
  "AddInputObject object_id object_role task =
     task\<lparr>tc_input_objects := tc_input_objects task @
       [\<lparr>or_object_id = object_id, or_object_role = object_role\<rparr>]\<rparr>"

definition AddOutputObject :: "string \<Rightarrow> string \<Rightarrow> TaskContext \<Rightarrow> TaskContext" where
  "AddOutputObject object_id object_role task =
     task\<lparr>tc_output_objects := tc_output_objects task @
       [\<lparr>or_object_id = object_id, or_object_role = object_role\<rparr>]\<rparr>"

definition SetMetadata :: "string \<Rightarrow> string \<Rightarrow> TaskContext \<Rightarrow> TaskContext" where
  "SetMetadata key v task = task\<lparr>tc_metadata := umap_set (tc_metadata task) key v\<rparr>"

definition task_Validate :: "TaskContext \<Rightarrow> exn + unit" where
  "task_Validate task =
     (if tc_task_id task = [] then
        Inl (runtime_error ''task context requires a non-empty task_id'')
      else if tc_objective task = [] then
        Inl (runtime_error ''task context requires a non-empty objective'')
      else Inr ())"

lemma task_Validate_iff: "task_Validate task = Inr () \<longleftrightarrow> tc_task_id task \<noteq> [] \<and> tc_objective task \<noteq> []"
  by (simp add: task_Validate_def)

text \<open>Building a task sets each field on its own.\<close>

lemma task_builders [simp, das_defs]:
  "tc_task_id (SetMetadata k v t) = tc_task_id t" "tc_objective (SetMetadata k v t) = tc_objective t"
  "tc_workload_name (SetMetadata k v t) = tc_workload_name t" "tc_planner_id (SetMetadata k v t) = tc_planner_id t"
  "tc_phase (SetMetadata k v t) = tc_phase t"
  "tc_input_objects (SetMetadata k v t) = tc_input_objects t"
  "tc_output_objects (SetMetadata k v t) = tc_output_objects t"
  "tc_metadata (SetMetadata k v t) = umap_set (tc_metadata t) k v"
  by (simp_all add: SetMetadata_def)

section \<open>TaskSession\<close>

datatype TaskEventType =
  EvSubmitTask | EvCreateBranch | EvRead | EvWrite | EvSavepoint | EvRollbackToSavepoint |
  EvStageBranch | EvCommitAttempt | EvCommitTask | EvAbortTask

record TaskEvent =
  te_sequence_number :: nat
  te_type :: TaskEventType
  te_branch_id :: string
  te_object_id :: string
  te_detail :: string
  te_numeric_value :: i64

record TaskSession =
  ts_task :: TaskContext
  ts_plan :: ExecutionPlan
  ts_txn :: AgentTxnContext
  ts_commit_attempts :: nat
  ts_committed :: bool
  ts_events :: "TaskEvent list"

definition MarkRunning :: "TaskSession \<Rightarrow> TaskSession" where
  "MarkRunning session = session\<lparr>ts_task := (ts_task session)\<lparr>tc_phase := TaskRunning\<rparr>\<rparr>"

definition MarkCommitted :: "TaskSession \<Rightarrow> TaskSession" where
  "MarkCommitted session =
     session\<lparr>ts_task := (ts_task session)\<lparr>tc_phase := TaskCommitted\<rparr>, ts_committed := True\<rparr>"

definition MarkAborted :: "TaskSession \<Rightarrow> TaskSession" where
  "MarkAborted session =
     session\<lparr>ts_task := (ts_task session)\<lparr>tc_phase := TaskAborted\<rparr>, ts_committed := False\<rparr>"

definition RecordEvent ::
    "TaskEventType \<Rightarrow> string \<Rightarrow> string \<Rightarrow> string \<Rightarrow> i64 \<Rightarrow> TaskSession \<Rightarrow> TaskSession" where
  "RecordEvent type branch_id object_id detail numeric_value session =
     session\<lparr>ts_events := ts_events session @
       [\<lparr>te_sequence_number = length (ts_events session), te_type = type, te_branch_id = branch_id,
         te_object_id = object_id, te_detail = detail, te_numeric_value = numeric_value\<rparr>]\<rparr>"

lemma session_marks [simp]:
  "ts_txn (MarkRunning s) = ts_txn s" "ts_txn (MarkCommitted s) = ts_txn s" "ts_txn (MarkAborted s) = ts_txn s"
  "ts_events (MarkRunning s) = ts_events s" "ts_events (MarkCommitted s) = ts_events s"
  "ts_events (MarkAborted s) = ts_events s"
  "ts_plan (MarkRunning s) = ts_plan s" "ts_plan (MarkCommitted s) = ts_plan s" "ts_plan (MarkAborted s) = ts_plan s"
  "ts_commit_attempts (MarkRunning s) = ts_commit_attempts s"
  "ts_commit_attempts (MarkCommitted s) = ts_commit_attempts s"
  "ts_commit_attempts (MarkAborted s) = ts_commit_attempts s"
  "ts_committed (MarkRunning s) = ts_committed s" "ts_committed (MarkCommitted s)" "\<not> ts_committed (MarkAborted s)"
  "ts_task (MarkRunning s) = (ts_task s)\<lparr>tc_phase := TaskRunning\<rparr>"
  "ts_task (MarkCommitted s) = (ts_task s)\<lparr>tc_phase := TaskCommitted\<rparr>"
  "ts_task (MarkAborted s) = (ts_task s)\<lparr>tc_phase := TaskAborted\<rparr>"
  by (simp_all add: MarkRunning_def MarkCommitted_def MarkAborted_def)

lemma RecordEvent_frame [simp]:
  "ts_txn (RecordEvent t b k d n s) = ts_txn s" "ts_task (RecordEvent t b k d n s) = ts_task s"
  "ts_plan (RecordEvent t b k d n s) = ts_plan s" "ts_committed (RecordEvent t b k d n s) = ts_committed s"
  "ts_commit_attempts (RecordEvent t b k d n s) = ts_commit_attempts s"
  "ts_events (RecordEvent t b k d n s) = ts_events s @
     [\<lparr>te_sequence_number = length (ts_events s), te_type = t, te_branch_id = b,
       te_object_id = k, te_detail = d, te_numeric_value = n\<rparr>]"
  by (simp_all add: RecordEvent_def)

text \<open>The events of a session are numbered by their position.\<close>

definition numbered :: "TaskEvent list \<Rightarrow> bool" where
  "numbered es \<longleftrightarrow> map te_sequence_number es = [0..<length es]"

lemma numbered_Nil [simp]: "numbered []"
  by (simp add: numbered_def)

lemma numbered_RecordEvent: "numbered (ts_events s) \<Longrightarrow> numbered (ts_events (RecordEvent t b k d n s))"
  by (simp add: numbered_def)

end
