(* ===== verification/Task_Log.thy ===== *)
theory Task_Log
  imports Task_Model
begin

text \<open>
  \<open>runtime/task_event_log_io.h\<close> and \<open>task_event_log_replay.h\<close>: the text of a session's event
  log, reading it back, and the summary of each log that a replay gives.
\<close>

definition kTaskEventLogHeader :: string where
  "kTaskEventLogHeader = ''DAS_TASK_EVENT_LOG_V1''"

definition EscapeTaskEventLogText :: "string \<Rightarrow> string" where
  "EscapeTaskEventLogText s = escape_text s"

definition UnescapeTaskEventLogText :: "string \<Rightarrow> string" where
  "UnescapeTaskEventLogText s = unescape_text s"

interpretation task_codec: text_codec EscapeTaskEventLogText UnescapeTaskEventLogText
  by unfold_locales
    (simp_all add: EscapeTaskEventLogText_def UnescapeTaskEventLogText_def escape.codec_simps)

fun TaskEventTypeName :: "TaskEventType \<Rightarrow> string" where
  "TaskEventTypeName EvSubmitTask = ''SUBMIT_TASK''"
| "TaskEventTypeName EvCreateBranch = ''CREATE_BRANCH''"
| "TaskEventTypeName EvRead = ''READ''"
| "TaskEventTypeName EvWrite = ''WRITE''"
| "TaskEventTypeName EvSavepoint = ''SAVEPOINT''"
| "TaskEventTypeName EvRollbackToSavepoint = ''ROLLBACK_TO_SAVEPOINT''"
| "TaskEventTypeName EvStageBranch = ''STAGE_BRANCH''"
| "TaskEventTypeName EvCommitAttempt = ''COMMIT_ATTEMPT''"
| "TaskEventTypeName EvCommitTask = ''COMMIT_TASK''"
| "TaskEventTypeName EvAbortTask = ''ABORT_TASK''"

section \<open>Writing\<close>

text \<open>The pairs of lines for one numbered object or metadata entry.\<close>

definition indexed_key :: "string \<Rightarrow> nat \<Rightarrow> string \<Rightarrow> string" where
  "indexed_key prefix i suffix = prefix @ nat_dec i @ suffix"

fun object_lines :: "string \<Rightarrow> nat \<Rightarrow> ObjectReference list \<Rightarrow> (string \<times> string) list" where
  "object_lines prefix i [] = []"
| "object_lines prefix i (x # xs) =
     (indexed_key prefix i ''_id'', EscapeTaskEventLogText (or_object_id x)) #
     (indexed_key prefix i ''_role'', EscapeTaskEventLogText (or_object_role x)) #
     object_lines prefix (Suc i) xs"

fun metadata_lines :: "nat \<Rightarrow> (string, string) umap \<Rightarrow> (string \<times> string) list" where
  "metadata_lines index [] = []"
| "metadata_lines index (entry # entries) =
     (indexed_key ''task_metadata_'' index ''_key'', EscapeTaskEventLogText (fst entry)) #
     (indexed_key ''task_metadata_'' index ''_value'', EscapeTaskEventLogText (snd entry)) #
     metadata_lines (Suc index) entries"

text \<open>\<open>WriteTaskContextMetadataLines\<close>\<close>

definition task_context_lines :: "TaskContext \<Rightarrow> (string \<times> string) list" where
  "task_context_lines task =
     (''input_object_count'', nat_dec (length (tc_input_objects task))) #
     object_lines ''input_object_'' 0 (tc_input_objects task) @
     (''output_object_count'', nat_dec (length (tc_output_objects task))) #
     object_lines ''output_object_'' 0 (tc_output_objects task) @
     (''task_metadata_count'', nat_dec (length (tc_metadata task))) #
     metadata_lines 0 (tc_metadata task)"

fun task_phase_number :: "TaskPhase \<Rightarrow> nat" where
  "task_phase_number TaskCreated = 0"
| "task_phase_number TaskRunning = 1"
| "task_phase_number TaskCommitted = 2"
| "task_phase_number TaskAborted = 3"

lemma task_phase_digit:
  "nat_dec (task_phase_number TaskCreated) = ''0''" "nat_dec (task_phase_number TaskRunning) = ''1''"
  "nat_dec (task_phase_number TaskCommitted) = ''2''" "nat_dec (task_phase_number TaskAborted) = ''3''"
  by code_simp+

definition task_log_meta :: "TaskSession \<Rightarrow> (string \<times> string) list" where
  "task_log_meta session =
     [(''task_id'', EscapeTaskEventLogText (tc_task_id (ts_task session))),
      (''txn_id'', EscapeTaskEventLogText (tx_txn_id (ts_txn session))),
      (''workload_name'', EscapeTaskEventLogText (tc_workload_name (ts_task session))),
      (''planner_id'', EscapeTaskEventLogText (tc_planner_id (ts_task session)))] @
     task_context_lines (ts_task session) @
     [(''task_phase'', nat_dec (task_phase_number (tc_phase (ts_task session)))),
      (''commit_attempts'', nat_dec (ts_commit_attempts session)),
      (''committed'', if ts_committed session then ''1'' else ''0''),
      (''event_count'', nat_dec (length (ts_events session)))]"

definition task_event_line :: "TaskEvent \<Rightarrow> string" where
  "task_event_line event =
     nat_dec (te_sequence_number event) @ TAB #
     TaskEventTypeName (te_type event) @ TAB #
     EscapeTaskEventLogText (te_branch_id event) @ TAB #
     EscapeTaskEventLogText (te_object_id event) @ TAB #
     i64_dec (te_numeric_value event) @ TAB #
     EscapeTaskEventLogText (te_detail event)"

definition task_log_text :: "TaskSession \<Rightarrow> string" where
  "task_log_text session = put_lines
     (kTaskEventLogHeader # map meta_line (task_log_meta session) @ ''[events]'' #
      map task_event_line (ts_events session))"

definition WriteTaskEventLogArtifact :: "TaskSession \<Rightarrow> string \<Rightarrow> world \<Rightarrow> bool \<times> world" where
  "WriteTaskEventLogArtifact session output_path w =
     (let (r, w) = write_file output_path (task_log_text session) w in (r = Written, w))"

section \<open>Reading\<close>

record ParsedTaskEvent =
  pt_sequence_number :: nat
  pt_event_type :: string
  pt_branch_id :: string
  pt_object_id :: string
  pt_numeric_value :: i64
  pt_detail :: string

record ParsedTaskEventLogArtifact =
  pl_metadata :: "(string, string) umap"
  pl_events :: "ParsedTaskEvent list"

definition parse_task_event :: "string \<Rightarrow> ParsedTaskEvent option" where
  "parse_task_event line =
     (case split_tabs line of
        [p0, p1, p2, p3, p4, p5] \<Rightarrow>
          Some \<lparr>pt_sequence_number = strtoull p0, pt_event_type = p1,
                pt_branch_id = UnescapeTaskEventLogText p2,
                pt_object_id = UnescapeTaskEventLogText p3,
                pt_numeric_value = word_of_int (strtoll p4),
                pt_detail = UnescapeTaskEventLogText p5\<rparr>
      | _ \<Rightarrow> None)"

fun parse_task_lines ::
    "bool \<Rightarrow> string list \<Rightarrow> ParsedTaskEventLogArtifact \<Rightarrow> ParsedTaskEventLogArtifact option" where
  "parse_task_lines in_events [] artifact = Some artifact"
| "parse_task_lines in_events (line # lines) artifact =
     (if line = ''[events]'' then parse_task_lines True lines artifact
      else if line = [] then parse_task_lines in_events lines artifact
      else if \<not> in_events then
        (case split_eq line of
           None \<Rightarrow> None
         | Some (k, v) \<Rightarrow>
             parse_task_lines in_events lines
               (artifact\<lparr>pl_metadata := umap_set (pl_metadata artifact) k (UnescapeTaskEventLogText v)\<rparr>))
      else
        (case parse_task_event line of
           None \<Rightarrow> None
         | Some event \<Rightarrow>
             parse_task_lines in_events lines (artifact\<lparr>pl_events := pl_events artifact @ [event]\<rparr>)))"

definition ParseTaskEventLogArtifact :: "string \<Rightarrow> world \<Rightarrow> ParsedTaskEventLogArtifact option" where
  "ParseTaskEventLogArtifact path w =
     (case fs_read path w of
        None \<Rightarrow> None
      | Some text \<Rightarrow>
          (case getlines text of
             [] \<Rightarrow> None
           | line # lines \<Rightarrow>
               if line \<noteq> ''DAS_TASK_EVENT_LOG_V1'' then None
               else parse_task_lines False lines \<lparr>pl_metadata = [], pl_events = []\<rparr>))"

section \<open>Replay\<close>

record ReplayedTaskSessionState =
  rt_task_id :: string
  rt_txn_id :: string
  rt_task_phase :: string
  rt_commit_attempts :: nat
  rt_committed :: bool
  rt_event_count :: nat
  rt_final_event_type :: string
  rt_final_branch_id :: string
  rt_write_event_count :: nat
  rt_read_event_count :: nat
  rt_source_log_path :: string

text \<open>\<open>metadata[key]\<close>, or the lookup with a default, of a missing key gives the empty text.\<close>

definition metadata_value :: "ParsedTaskEventLogArtifact \<Rightarrow> string \<Rightarrow> string" where
  "metadata_value artifact key =
     (case umap_find (pl_metadata artifact) key of None \<Rightarrow> [] | Some v \<Rightarrow> v)"

definition replayed_state :: "string \<Rightarrow> ParsedTaskEventLogArtifact \<Rightarrow> ReplayedTaskSessionState" where
  "replayed_state path artifact =
     \<lparr>rt_task_id = metadata_value artifact ''task_id'', rt_txn_id = metadata_value artifact ''txn_id'',
      rt_task_phase = metadata_value artifact ''task_phase'',
      rt_commit_attempts = strtoull (metadata_value artifact ''commit_attempts''),
      rt_committed = (metadata_value artifact ''committed'' = ''1''),
      rt_event_count = length (pl_events artifact),
      rt_final_event_type = (if pl_events artifact = [] then [] else pt_event_type (last (pl_events artifact))),
      rt_final_branch_id = (if pl_events artifact = [] then [] else pt_branch_id (last (pl_events artifact))),
      rt_write_event_count = length (filter (\<lambda>event. pt_event_type event = ''WRITE'') (pl_events artifact)),
      rt_read_event_count = length (filter (\<lambda>event. pt_event_type event = ''READ'') (pl_events artifact)),
      rt_source_log_path = path\<rparr>"

text \<open>Every loop over a list of logs skips the ones that do not parse.\<close>

fun for_parsed_logs ::
    "(string \<Rightarrow> ParsedTaskEventLogArtifact \<Rightarrow> 'a) \<Rightarrow> world \<Rightarrow> string list \<Rightarrow> 'a list" where
  "for_parsed_logs f w [] = []"
| "for_parsed_logs f w (path # paths) =
     (case ParseTaskEventLogArtifact path w of
        None \<Rightarrow> for_parsed_logs f w paths
      | Some artifact \<Rightarrow> f path artifact # for_parsed_logs f w paths)"

definition ReplayTaskEventLogArtifacts :: "string list \<Rightarrow> world \<Rightarrow> ReplayedTaskSessionState list" where
  "ReplayTaskEventLogArtifacts task_log_paths w = for_parsed_logs replayed_state w task_log_paths"

section \<open>Reading back what was written\<close>

definition logged_event :: "TaskEvent \<Rightarrow> ParsedTaskEvent" where
  "logged_event event =
     \<lparr>pt_sequence_number = te_sequence_number event, pt_event_type = TaskEventTypeName (te_type event),
      pt_branch_id = te_branch_id event, pt_object_id = te_object_id event,
      pt_numeric_value = te_numeric_value event, pt_detail = te_detail event\<rparr>"

text \<open>The artifact that a session's log stands for.\<close>

definition logged_metadata :: "TaskSession \<Rightarrow> (string, string) umap" where
  "logged_metadata session = map (\<lambda>(k, v). (k, UnescapeTaskEventLogText v)) (task_log_meta session)"

definition logged_artifact :: "TaskSession \<Rightarrow> ParsedTaskEventLogArtifact" where
  "logged_artifact session =
     \<lparr>pl_metadata = logged_metadata session, pl_events = map logged_event (ts_events session)\<rparr>"

lemma TaskEventTypeName_clean [simp]: "TAB \<notin> set (TaskEventTypeName t)" "NL \<notin> set (TaskEventTypeName t)"
  by (cases t; simp)+

lemma TaskEventTypeName_inj [simp]: "TaskEventTypeName s = TaskEventTypeName t \<longleftrightarrow> s = t"
  by (cases s; cases t) simp_all

lemma parse_task_event_line:
  "te_sequence_number e < 2 ^ 64 \<Longrightarrow> parse_task_event (task_event_line e) = Some (logged_event e)"
  by (simp add: parse_task_event_def task_event_line_def logged_event_def split_tabs_Cons nat_dec_clean
      task_codec.codec_simps strtoull_nat_dec)

lemma task_event_line_clean:
  "NL \<notin> set (task_event_line e)" "task_event_line e \<noteq> []" "task_event_line e \<noteq> ''[events]''"
proof -
  show "NL \<notin> set (task_event_line e)" "task_event_line e \<noteq> []"
    by (simp_all add: task_event_line_def task_codec.codec_simps nat_dec_clean)
  have "TAB \<in> set (task_event_line e)" by (simp add: task_event_line_def)
  moreover have "TAB \<notin> set ''[events]''" by simp
  ultimately show "task_event_line e \<noteq> ''[events]''" by metis
qed

lemma parse_task_event_lines:
  "(\<forall>e \<in> set es. te_sequence_number e < 2 ^ 64) \<Longrightarrow>
     parse_task_lines True (map task_event_line es) a = Some (a\<lparr>pl_events := pl_events a @ map logged_event es\<rparr>)"
  by (induction es arbitrary: a) (auto simp: parse_task_event_line task_event_line_clean)

lemma meta_line_not_events: "meta_line kv \<noteq> ''[events]''"
proof -
  have "CHR ''='' \<in> set (meta_line kv)" by (simp add: meta_line_def)
  moreover have "CHR ''='' \<notin> set ''[events]''" by simp
  ultimately show ?thesis by metis
qed

lemma parse_task_meta_lines:
  "meta_ok kvs \<Longrightarrow> parse_task_lines False (map meta_line kvs @ ''[events]'' # ls) a =
     parse_task_lines True ls (a\<lparr>pl_metadata :=
       umap_store_all (pl_metadata a) (map (\<lambda>(k, v). (k, UnescapeTaskEventLogText v)) kvs)\<rparr>)"
  by (induction kvs arbitrary: a) (auto simp: meta_line_facts meta_line_not_events meta_ok_def)

text \<open>The keys of a log: none holds a separator and no two are equal.\<close>

lemma indexed_key_clean:
  "CHR ''='' \<notin> set p \<Longrightarrow> NL \<notin> set p \<Longrightarrow> CHR ''='' \<notin> set s \<Longrightarrow> NL \<notin> set s \<Longrightarrow>
     CHR ''='' \<notin> set (indexed_key p i s) \<and> NL \<notin> set (indexed_key p i s)"
  by (auto simp: indexed_key_def is_digit_def dest: nat_dec_digits)

lemma object_lines_ok:
  "CHR ''='' \<notin> set p \<Longrightarrow> NL \<notin> set p \<Longrightarrow> meta_ok (object_lines p i xs)"
  by (induction p i xs rule: object_lines.induct)
    (simp_all add: meta_ok_def indexed_key_clean task_codec.codec_simps)

lemma metadata_lines_ok: "meta_ok (metadata_lines i kvs)"
  by (induction i kvs rule: metadata_lines.induct)
    (simp_all add: meta_ok_def indexed_key_clean task_codec.codec_simps)

lemma meta_ok_simps [simp]:
  "meta_ok []" "meta_ok (xs @ ys) \<longleftrightarrow> meta_ok xs \<and> meta_ok ys"
  "meta_ok ((k, v) # xs) \<longleftrightarrow> CHR ''='' \<notin> set k \<and> NL \<notin> set k \<and> NL \<notin> set v \<and> meta_ok xs"
  by (auto simp: meta_ok_def)

lemma task_log_meta_ok: "meta_ok (task_log_meta s)"
  by (simp add: task_log_meta_def task_context_lines_def object_lines_ok metadata_lines_ok
      task_codec.codec_simps nat_dec_clean)

lemma digits_then:
  "\<not> is_digit c \<Longrightarrow> nat_dec i @ c # s = nat_dec j @ c # t \<longleftrightarrow> i = j \<and> s = t"
proof
  assume c: "\<not> is_digit c" and eq: "nat_dec i @ c # s = nat_dec j @ c # t"
  have t: "takeWhile is_digit (nat_dec n @ c # u) = nat_dec n" for n u
    using c by (subst takeWhile_append2) (auto dest: nat_dec_digits)
  then have "nat_dec i = nat_dec j" by (metis eq)
  then have "i = j" by (rule nat_dec_inj)
  with eq show "i = j \<and> s = t" by simp
qed simp

lemma indexed_key_eq:
  "indexed_key p i (CHR ''_'' # s) = indexed_key p j (CHR ''_'' # t) \<longleftrightarrow> i = j \<and> s = t"
  by (simp add: indexed_key_def digits_then is_digit_def)

lemma nat_dec_not_letter: "\<not> is_digit c \<Longrightarrow> c # s \<noteq> nat_dec i @ t" "\<not> is_digit c \<Longrightarrow> nat_dec i @ t \<noteq> c # s"
  by (metis append_Cons list.inject nat_dec_hd)+

lemma object_lines_keys:
  "fst ` set (object_lines p i xs) =
     (\<lambda>j. indexed_key p j ''_id'') ` {i..<i + length xs} \<union> (\<lambda>j. indexed_key p j ''_role'') ` {i..<i + length xs}"
proof (induction p i xs rule: object_lines.induct)
  case (2 p i x xs)
  have "{i..<i + length (x # xs)} = insert i {Suc i..<Suc i + length xs}" by auto
  with 2 show ?case by auto
qed simp

lemma metadata_lines_keys:
  "fst ` set (metadata_lines i kvs) =
     (\<lambda>j. indexed_key ''task_metadata_'' j ''_key'') ` {i..<i + length kvs} \<union>
     (\<lambda>j. indexed_key ''task_metadata_'' j ''_value'') ` {i..<i + length kvs}"
proof (induction i kvs rule: metadata_lines.induct)
  case (2 i x xs)
  have "{i..<i + length (x # xs)} = insert i {Suc i..<Suc i + length xs}" by auto
  with 2 show ?case by auto
qed simp

lemma object_lines_wf: "umap_wf (object_lines p i xs)"
proof (induction p i xs rule: object_lines.induct)
  case (2 p i x xs)
  have "indexed_key p i ''_id'' \<notin> fst ` set (object_lines p (Suc i) xs)"
    "indexed_key p i ''_role'' \<notin> fst ` set (object_lines p (Suc i) xs)"
    by (auto simp: object_lines_keys indexed_key_eq)
  with 2 show ?case by (simp add: umap_wf_def indexed_key_eq)
qed simp

lemma metadata_lines_wf: "umap_wf (metadata_lines i kvs)"
proof (induction i kvs rule: metadata_lines.induct)
  case (2 i x xs)
  have "indexed_key ''task_metadata_'' i ''_key'' \<notin> fst ` set (metadata_lines (Suc i) xs)"
    "indexed_key ''task_metadata_'' i ''_value'' \<notin> fst ` set (metadata_lines (Suc i) xs)"
    by (auto simp: metadata_lines_keys indexed_key_eq)
  with 2 show ?case by (simp add: umap_wf_def indexed_key_eq)
qed simp

lemma umap_find_append:
  "umap_find (xs @ ys) q = (case umap_find xs q of None \<Rightarrow> umap_find ys q | Some v \<Rightarrow> Some v)"
  by (simp add: umap_find_def map_add_def split: option.split)

lemma umap_find_Cons: "umap_find ((k, v) # xs) q = (if k = q then Some v else umap_find xs q)"
  by (auto simp: umap_find_def)

text \<open>The families of keys do not meet.\<close>

lemmas key_simps = indexed_key_def nat_dec_not_letter is_digit_def

lemma fixed_key_not_object:
  "k \<in> {''task_id'', ''txn_id'', ''workload_name'', ''planner_id'', ''input_object_count'',
        ''output_object_count'', ''task_metadata_count'', ''task_phase'', ''commit_attempts'',
        ''committed'', ''event_count''} \<Longrightarrow>
     k \<noteq> indexed_key ''input_object_'' j t \<and> k \<noteq> indexed_key ''output_object_'' j t \<and>
     k \<noteq> indexed_key ''task_metadata_'' j t"
  by (auto simp: key_simps)

lemma families_differ:
  "indexed_key ''input_object_'' i s \<noteq> indexed_key ''output_object_'' j t"
  "indexed_key ''input_object_'' i s \<noteq> indexed_key ''task_metadata_'' j t"
  "indexed_key ''output_object_'' i s \<noteq> indexed_key ''task_metadata_'' j t"
  by (simp_all add: indexed_key_def)

lemma umap_wf_simps:
  "umap_wf ((k, v) # xs) \<longleftrightarrow> k \<notin> fst ` set xs \<and> umap_wf xs"
  "umap_wf (xs @ ys) \<longleftrightarrow> umap_wf xs \<and> umap_wf ys \<and> fst ` set xs \<inter> fst ` set ys = {}"
  by (auto simp: umap_wf_def)

definition no_family :: "string \<Rightarrow> bool" where
  "no_family k \<longleftrightarrow> (\<forall>j t. k \<noteq> indexed_key ''input_object_'' j t \<and> k \<noteq> indexed_key ''output_object_'' j t \<and>
     k \<noteq> indexed_key ''task_metadata_'' j t)"

lemma no_family_fixed:
  "no_family ''task_id''" "no_family ''txn_id''" "no_family ''workload_name''" "no_family ''planner_id''"
  "no_family ''input_object_count''" "no_family ''output_object_count''" "no_family ''task_metadata_count''"
  "no_family ''task_phase''" "no_family ''commit_attempts''" "no_family ''committed''" "no_family ''event_count''"
  using fixed_key_not_object unfolding no_family_def by blast+

lemma no_family_keys:
  "no_family k \<Longrightarrow> k \<notin> fst ` set (object_lines ''input_object_'' i xs)"
  "no_family k \<Longrightarrow> k \<notin> fst ` set (object_lines ''output_object_'' i xs)"
  "no_family k \<Longrightarrow> k \<notin> fst ` set (metadata_lines i kvs)"
  unfolding object_lines_keys metadata_lines_keys no_family_def by blast+

lemma family_keys_disjoint:
  "fst ` set (object_lines ''input_object_'' i xs) \<inter> fst ` set (object_lines ''output_object_'' j ys) = {}"
  "fst ` set (object_lines ''input_object_'' i xs) \<inter> fst ` set (metadata_lines j kvs) = {}"
  "fst ` set (object_lines ''output_object_'' i xs) \<inter> fst ` set (metadata_lines j kvs) = {}"
  unfolding object_lines_keys metadata_lines_keys
  by (auto simp: families_differ families_differ [symmetric])

lemmas fixed_keys = no_family_fixed [THEN no_family_keys(1)] no_family_fixed [THEN no_family_keys(2)]
  no_family_fixed [THEN no_family_keys(3)]

lemma task_log_meta_wf: "umap_wf (task_log_meta s)"
  unfolding task_log_meta_def task_context_lines_def umap_wf_simps append_Cons append_Nil
  by (simp add: object_lines_wf metadata_lines_wf umap_wf_simps image_Un Int_Un_distrib Int_Un_distrib2
      family_keys_disjoint fixed_keys)

lemma umap_set_new: "k \<notin> fst ` set m \<Longrightarrow> umap_set m k v = m @ [(k, v)]"
  by (induction m) (auto simp: umap_set_def)

lemma umap_store_all_new: "umap_wf (m @ ps) \<Longrightarrow> umap_store_all m ps = m @ ps"
proof (induction ps arbitrary: m)
  case (Cons p ps)
  obtain k v where p: "p = (k, v)" by (cases p)
  have "k \<notin> fst ` set m" using Cons.prems by (auto simp: p umap_wf_def)
  then have "umap_set m k v = m @ [p]" by (simp add: umap_set_new p)
  moreover have "umap_wf ((m @ [p]) @ ps)" using Cons.prems by simp
  ultimately show ?case using Cons.IH [of "m @ [p]"] by (simp add: p)
qed simp

lemma umap_find_map_value:
  "umap_find (map (\<lambda>(k, v). (k, f v)) m) q = map_option f (umap_find m q)"
  by (induction m) (auto simp: umap_find_Cons)

lemma logged_metadata_wf: "umap_wf (logged_metadata s)"
  using task_log_meta_wf [of s] by (simp add: umap_wf_def logged_metadata_def comp_def split_beta)

lemma parse_task_log:
  assumes "fs_read path w = Some (task_log_text s)" and "\<forall>e \<in> set (ts_events s). te_sequence_number e < 2 ^ 64"
  shows "ParseTaskEventLogArtifact path w = Some (logged_artifact s)"
proof -
  have "NL \<notin> set (meta_line kv)" if "kv \<in> set (task_log_meta s)" for kv
    using task_log_meta_ok [of s] that by (auto simp: meta_ok_def meta_line_def)
  then have g: "getlines (task_log_text s) =
      kTaskEventLogHeader # map meta_line (task_log_meta s) @ ''[events]'' # map task_event_line (ts_events s)"
    unfolding task_log_text_def
    by (intro getlines_put_lines) (auto simp: kTaskEventLogHeader_def task_event_line_clean)
  show ?thesis
    using assms umap_store_all_new [of "[]" "logged_metadata s"]
    by (simp add: ParseTaskEventLogArtifact_def g kTaskEventLogHeader_def parse_task_meta_lines task_log_meta_ok
        parse_task_event_lines logged_artifact_def logged_metadata_wf flip: logged_metadata_def)
qed

lemma written_task_log:
  "WriteTaskEventLogArtifact s path w = (True, w') \<Longrightarrow> fs_read path w' = Some (task_log_text s)"
  by (cases rule: write_file_cases [of path "task_log_text s" w]) (auto simp: WriteTaskEventLogArtifact_def)

section \<open>Looking up what was logged\<close>

lemma object_lines_find:
  "umap_find (object_lines p i xs) (indexed_key p j ''_id'') =
     (if i \<le> j \<and> j < i + length xs then Some (EscapeTaskEventLogText (or_object_id (xs ! (j - i)))) else None)"
  "umap_find (object_lines p i xs) (indexed_key p j ''_role'') =
     (if i \<le> j \<and> j < i + length xs then Some (EscapeTaskEventLogText (or_object_role (xs ! (j - i)))) else None)"
  by (induction p i xs rule: object_lines.induct)
    (auto simp: umap_find_Cons indexed_key_eq nth_Cons' Suc_le_eq not_less_eq le_Suc_eq diff_Suc split: nat.splits)

lemma metadata_lines_find:
  "umap_find (metadata_lines i kvs) (indexed_key ''task_metadata_'' j ''_key'') =
     (if i \<le> j \<and> j < i + length kvs then Some (EscapeTaskEventLogText (fst (kvs ! (j - i)))) else None)"
  "umap_find (metadata_lines i kvs) (indexed_key ''task_metadata_'' j ''_value'') =
     (if i \<le> j \<and> j < i + length kvs then Some (EscapeTaskEventLogText (snd (kvs ! (j - i)))) else None)"
  by (induction i kvs rule: metadata_lines.induct)
    (auto simp: umap_find_Cons indexed_key_eq nth_Cons' Suc_le_eq not_less_eq le_Suc_eq diff_Suc split: nat.splits)

lemma metadata_value_logged:
  "metadata_value (logged_artifact s) k =
     (case umap_find (task_log_meta s) k of None \<Rightarrow> [] | Some v \<Rightarrow> UnescapeTaskEventLogText v)"
  by (simp add: metadata_value_def logged_artifact_def logged_metadata_def umap_find_map_value split: option.split)

lemma unescape_task_plain: "BSLASH \<notin> set s \<Longrightarrow> UnescapeTaskEventLogText s = s"
  using unescape_plain by (simp add: UnescapeTaskEventLogText_def UnescapeCommitLogText_def)

lemma unescape_nat_dec [simp]: "UnescapeTaskEventLogText (nat_dec n) = nat_dec n"
  using nat_dec_digits is_digit_not_special by (blast intro: unescape_task_plain)

lemma find_fixed_keys:
  "no_family k \<Longrightarrow> umap_find (object_lines ''input_object_'' i xs) k = None"
  "no_family k \<Longrightarrow> umap_find (object_lines ''output_object_'' i xs) k = None"
  "no_family k \<Longrightarrow> umap_find (metadata_lines i kvs) k = None"
  by (simp_all add: umap_find_None no_family_keys)

lemma logged_fixed_values:
  "metadata_value (logged_artifact s) ''task_id'' = tc_task_id (ts_task s)"
  "metadata_value (logged_artifact s) ''txn_id'' = tx_txn_id (ts_txn s)"
  "metadata_value (logged_artifact s) ''workload_name'' = tc_workload_name (ts_task s)"
  "metadata_value (logged_artifact s) ''planner_id'' = tc_planner_id (ts_task s)"
  "metadata_value (logged_artifact s) ''input_object_count'' = nat_dec (length (tc_input_objects (ts_task s)))"
  "metadata_value (logged_artifact s) ''output_object_count'' = nat_dec (length (tc_output_objects (ts_task s)))"
  "metadata_value (logged_artifact s) ''task_metadata_count'' = nat_dec (length (tc_metadata (ts_task s)))"
  "metadata_value (logged_artifact s) ''task_phase'' = nat_dec (task_phase_number (tc_phase (ts_task s)))"
  "metadata_value (logged_artifact s) ''commit_attempts'' = nat_dec (ts_commit_attempts s)"
  "metadata_value (logged_artifact s) ''committed'' = (if ts_committed s then ''1'' else ''0'')"
  by (simp_all add: metadata_value_logged task_log_meta_def task_context_lines_def umap_find_Cons umap_find_append
      find_fixed_keys no_family_fixed task_codec.codec_simps unescape_task_plain)

lemma find_other_family:
  "umap_find (object_lines ''output_object_'' i xs) (indexed_key ''input_object_'' j t) = None"
  "umap_find (object_lines ''input_object_'' i xs) (indexed_key ''output_object_'' j t) = None"
  "umap_find (object_lines ''input_object_'' i xs) (indexed_key ''task_metadata_'' j t) = None"
  "umap_find (object_lines ''output_object_'' i xs) (indexed_key ''task_metadata_'' j t) = None"
  by (auto simp: umap_find_None object_lines_keys families_differ families_differ [symmetric])

lemma fixed_not_family:
  "no_family k \<Longrightarrow> k \<noteq> indexed_key ''input_object_'' j t" "no_family k \<Longrightarrow> k \<noteq> indexed_key ''output_object_'' j t"
  "no_family k \<Longrightarrow> k \<noteq> indexed_key ''task_metadata_'' j t"
  by (simp_all add: no_family_def)

lemma logged_indexed_values:
  "i < length (tc_input_objects (ts_task s)) \<Longrightarrow>
     metadata_value (logged_artifact s) (indexed_key ''input_object_'' i ''_id'') =
       or_object_id (tc_input_objects (ts_task s) ! i)"
  "i < length (tc_input_objects (ts_task s)) \<Longrightarrow>
     metadata_value (logged_artifact s) (indexed_key ''input_object_'' i ''_role'') =
       or_object_role (tc_input_objects (ts_task s) ! i)"
  "i < length (tc_output_objects (ts_task s)) \<Longrightarrow>
     metadata_value (logged_artifact s) (indexed_key ''output_object_'' i ''_id'') =
       or_object_id (tc_output_objects (ts_task s) ! i)"
  "i < length (tc_output_objects (ts_task s)) \<Longrightarrow>
     metadata_value (logged_artifact s) (indexed_key ''output_object_'' i ''_role'') =
       or_object_role (tc_output_objects (ts_task s) ! i)"
  "i < length (tc_metadata (ts_task s)) \<Longrightarrow>
     metadata_value (logged_artifact s) (indexed_key ''task_metadata_'' i ''_key'') = fst (tc_metadata (ts_task s) ! i)"
  "i < length (tc_metadata (ts_task s)) \<Longrightarrow>
     metadata_value (logged_artifact s) (indexed_key ''task_metadata_'' i ''_value'') = snd (tc_metadata (ts_task s) ! i)"
  by (simp_all add: metadata_value_logged task_log_meta_def task_context_lines_def umap_find_Cons umap_find_append
      no_family_fixed [THEN fixed_not_family(1)] no_family_fixed [THEN fixed_not_family(2)]
      no_family_fixed [THEN fixed_not_family(3)] find_other_family object_lines_find metadata_lines_find
      task_codec.codec_simps)

end
