(* ===== verification/Task_Recovery.thy ===== *)
theory Task_Recovery
  imports Task_Log
begin

text \<open>
  \<open>runtime/task_recovery.h\<close>, \<open>task_recovery_execution.h\<close> and \<open>task_recovery_manager.h\<close>: what to
  do about a task whose event log was found, the task and plan that the log describes, and the
  command that recovery will execute.
\<close>

datatype TaskRecoveryAction =
  RaSkipCommitted | RaRetryFromScratch | RaResumeBranch | RaResumeFromSavepoint | RaRevalidateCommit

record TaskRecoveryDecision =
  dc_task_id :: string
  dc_txn_id :: string
  dc_action :: TaskRecoveryAction
  dc_resume_branch_id :: string
  dc_resume_savepoint_id :: string
  dc_reason :: string
  dc_source_log_path :: string

record TaskRecoveryPlan =
  rp_decision :: TaskRecoveryDecision
  rp_task :: TaskContext
  rp_plan :: ExecutionPlan

record RecoveredTaskSession =
  rs_recovery_plan :: TaskRecoveryPlan
  rs_session :: TaskSession

fun TaskRecoveryActionName :: "TaskRecoveryAction \<Rightarrow> string" where
  "TaskRecoveryActionName RaSkipCommitted = ''SKIP_COMMITTED''"
| "TaskRecoveryActionName RaRetryFromScratch = ''RETRY_FROM_SCRATCH''"
| "TaskRecoveryActionName RaResumeBranch = ''RESUME_BRANCH''"
| "TaskRecoveryActionName RaResumeFromSavepoint = ''RESUME_FROM_SAVEPOINT''"
| "TaskRecoveryActionName RaRevalidateCommit = ''REVALIDATE_COMMIT''"

definition TaskPhaseFromPersistedValue :: "string \<Rightarrow> TaskPhase" where
  "TaskPhaseFromPersistedValue persisted_value =
     (if persisted_value = ''1'' then TaskRunning
      else if persisted_value = ''2'' then TaskCommitted
      else if persisted_value = ''3'' then TaskAborted
      else TaskCreated)"

definition TaskEventTypeFromName :: "string \<Rightarrow> TaskEventType" where
  "TaskEventTypeFromName name =
     (if name = ''SUBMIT_TASK'' then EvSubmitTask
      else if name = ''CREATE_BRANCH'' then EvCreateBranch
      else if name = ''READ'' then EvRead
      else if name = ''WRITE'' then EvWrite
      else if name = ''SAVEPOINT'' then EvSavepoint
      else if name = ''ROLLBACK_TO_SAVEPOINT'' then EvRollbackToSavepoint
      else if name = ''STAGE_BRANCH'' then EvStageBranch
      else if name = ''COMMIT_ATTEMPT'' then EvCommitAttempt
      else if name = ''COMMIT_TASK'' then EvCommitTask
      else if name = ''ABORT_TASK'' then EvAbortTask
      else EvSubmitTask)"

lemma TaskEventTypeFromName_Name [simp]: "TaskEventTypeFromName (TaskEventTypeName t) = t"
  by (cases t) (simp_all add: TaskEventTypeFromName_def)

lemma TaskPhaseFromPersistedValue_number [simp]:
  "TaskPhaseFromPersistedValue (nat_dec (task_phase_number p)) = p"
  by (cases p) (simp_all add: TaskPhaseFromPersistedValue_def task_phase_digit del: task_phase_number.simps)

definition ParseTaskMetadataSize :: "string \<Rightarrow> nat" where
  "ParseTaskMetadataSize v = strtoull v"

section \<open>The task that a log describes\<close>

definition restore_input :: "ParsedTaskEventLogArtifact \<Rightarrow> nat \<Rightarrow> TaskContext \<Rightarrow> TaskContext" where
  "restore_input artifact i task =
     (let object_id = metadata_value artifact (indexed_key ''input_object_'' i ''_id'') in
      if object_id = [] then task
      else AddInputObject object_id (metadata_value artifact (indexed_key ''input_object_'' i ''_role'')) task)"

definition restore_output :: "ParsedTaskEventLogArtifact \<Rightarrow> nat \<Rightarrow> TaskContext \<Rightarrow> TaskContext" where
  "restore_output artifact i task =
     (let object_id = metadata_value artifact (indexed_key ''output_object_'' i ''_id'') in
      if object_id = [] then task
      else AddOutputObject object_id (metadata_value artifact (indexed_key ''output_object_'' i ''_role'')) task)"

definition restore_metadata :: "ParsedTaskEventLogArtifact \<Rightarrow> nat \<Rightarrow> TaskContext \<Rightarrow> TaskContext" where
  "restore_metadata artifact i task =
     (let key = metadata_value artifact (indexed_key ''task_metadata_'' i ''_key'') in
      if key = [] then task
      else SetMetadata key (metadata_value artifact (indexed_key ''task_metadata_'' i ''_value'')) task)"

definition RestoreTaskContextFromArtifactMetadata ::
    "ParsedTaskEventLogArtifact \<Rightarrow> TaskContext \<Rightarrow> TaskContext" where
  "RestoreTaskContextFromArtifactMetadata artifact task =
     (let input_count = ParseTaskMetadataSize (metadata_value artifact ''input_object_count'');
          task = fold (restore_input artifact) [0..<input_count] (task\<lparr>tc_input_objects := []\<rparr>);
          output_count = ParseTaskMetadataSize (metadata_value artifact ''output_object_count'');
          task = fold (restore_output artifact) [0..<output_count] (task\<lparr>tc_output_objects := []\<rparr>);
          metadata_count = ParseTaskMetadataSize (metadata_value artifact ''task_metadata_count'')
      in fold (restore_metadata artifact) [0..<metadata_count] (task\<lparr>tc_metadata := []\<rparr>))"

section \<open>The decision\<close>

definition find_latest_savepoint :: "ParsedTaskEvent list \<Rightarrow> string \<Rightarrow> string" where
  "find_latest_savepoint events branch_id =
     (case find (\<lambda>it. pt_branch_id it = branch_id \<and> pt_event_type it = ''SAVEPOINT'') (rev events) of
        None \<Rightarrow> [] | Some it \<Rightarrow> pt_detail it)"

definition find_latest_branch :: "ParsedTaskEvent list \<Rightarrow> string" where
  "find_latest_branch events =
     (case find (\<lambda>it. pt_branch_id it \<noteq> []) (rev events) of None \<Rightarrow> [] | Some it \<Rightarrow> pt_branch_id it)"

definition final_event :: "ParsedTaskEventLogArtifact \<Rightarrow> ParsedTaskEvent option" where
  "final_event artifact = (if pl_events artifact = [] then None else Some (last (pl_events artifact)))"

definition final_event_is :: "ParsedTaskEventLogArtifact \<Rightarrow> string \<Rightarrow> bool" where
  "final_event_is artifact name =
     (case final_event artifact of None \<Rightarrow> False | Some event \<Rightarrow> pt_event_type event = name)"

definition final_branch_id :: "ParsedTaskEventLogArtifact \<Rightarrow> string" where
  "final_branch_id artifact = (case final_event artifact of None \<Rightarrow> [] | Some event \<Rightarrow> pt_branch_id event)"

definition RecoverTaskSessionDecision ::
    "string \<Rightarrow> ParsedTaskEventLogArtifact \<Rightarrow> TaskRecoveryDecision" where
  "RecoverTaskSessionDecision path artifact =
     (let decision = \<lparr>dc_task_id = metadata_value artifact ''task_id'',
            dc_txn_id = metadata_value artifact ''txn_id'', dc_action = RaRetryFromScratch,
            dc_resume_branch_id = [], dc_resume_savepoint_id = [], dc_reason = [],
            dc_source_log_path = path\<rparr>;
          task_phase = metadata_value artifact ''task_phase'';
          committed = (metadata_value artifact ''committed'' = ''1'') in
      if committed \<or> task_phase = ''2'' \<or> final_event_is artifact ''COMMIT_TASK'' then
        decision\<lparr>dc_action := RaSkipCommitted, dc_resume_branch_id := final_branch_id artifact,
                 dc_reason := ''task already committed''\<rparr>
      else if final_event_is artifact ''ABORT_TASK'' then
        (let detail = pt_detail (last (pl_events artifact)) in
         decision\<lparr>dc_action := RaRetryFromScratch, dc_resume_branch_id := final_branch_id artifact,
                  dc_reason := (if detail = [] then ''task aborted'' else detail)\<rparr>)
      else if task_phase = ''3'' then
        decision\<lparr>dc_action := RaRetryFromScratch, dc_reason := ''task phase is aborted''\<rparr>
      else if final_event_is artifact ''COMMIT_ATTEMPT'' then
        decision\<lparr>dc_action := RaRevalidateCommit,
                 dc_reason := ''commit attempt recorded without terminal outcome''\<rparr>
      else
        (let branch_id = find_latest_branch (pl_events artifact);
             savepoint_id = find_latest_savepoint (pl_events artifact) branch_id;
             decision = decision\<lparr>dc_resume_branch_id := branch_id, dc_resume_savepoint_id := savepoint_id\<rparr> in
         if savepoint_id \<noteq> [] then
           decision\<lparr>dc_action := RaResumeFromSavepoint,
                    dc_reason := ''resume from latest savepoint '' @ savepoint_id\<rparr>
         else
           decision\<lparr>dc_action := RaResumeBranch,
                    dc_reason := (if branch_id = [] then ''resume task execution'' else ''resume branch execution'')\<rparr>))"

definition RecoverTaskSessionDecisions :: "string list \<Rightarrow> world \<Rightarrow> TaskRecoveryDecision list" where
  "RecoverTaskSessionDecisions task_log_paths w = for_parsed_logs RecoverTaskSessionDecision w task_log_paths"

section \<open>The plan\<close>

definition plan_event :: "ParsedTaskEvent \<Rightarrow> TaskContext \<times> ExecutionPlan \<Rightarrow> TaskContext \<times> ExecutionPlan" where
  "plan_event event tp =
     (let (task, plan) = tp;
          task = (if pt_event_type event = ''SUBMIT_TASK'' \<and> pt_detail event \<noteq> []
                  then task\<lparr>tc_objective := pt_detail event\<rparr> else task);
          task = (if pt_event_type event = ''READ'' \<and> tc_input_objects task = []
                  then AddInputObject (pt_object_id event) ''recovered_input'' task else task);
          task = (if pt_event_type event = ''WRITE'' \<and> tc_output_objects task = []
                  then AddOutputObject (pt_object_id event) ''recovered_output'' task else task);
          plan = (if pt_event_type event = ''CREATE_BRANCH''
                  then AddBranchPlan (pt_branch_id event) (pt_detail event) ''recovered branch''
                         (double_of_i64 (pt_numeric_value event)) plan else plan)
      in (task, plan))"

definition BuildTaskRecoveryPlan :: "string \<Rightarrow> ParsedTaskEventLogArtifact \<Rightarrow> TaskRecoveryPlan" where
  "BuildTaskRecoveryPlan path artifact =
     (let decision = RecoverTaskSessionDecision path artifact;
          workload_name = metadata_value artifact ''workload_name'';
          planner_id = metadata_value artifact ''planner_id'';
          task = default_TaskContext\<lparr>tc_task_id := metadata_value artifact ''task_id'',
            tc_objective := ''recovered task session'',
            tc_workload_name := (if workload_name = [] then ''runtime.recovered_from_task_log'' else workload_name),
            tc_planner_id := (if planner_id = [] then ''task_recovery_manager'' else planner_id)\<rparr>;
          task = RestoreTaskContextFromArtifactMetadata artifact task;
          task = task\<lparr>tc_phase := TaskPhaseFromPersistedValue (metadata_value artifact ''task_phase'')\<rparr>;
          task = SetMetadata ''source_log'' path task;
          task = SetMetadata ''recovery_action'' (TaskRecoveryActionName (dc_action decision)) task;
          task = SetMetadata ''recovery_reason'' (dc_reason decision) task;
          task = SetMetadata ''resume_branch_id'' (dc_resume_branch_id decision) task;
          task = SetMetadata ''resume_savepoint_id'' (dc_resume_savepoint_id decision) task;
          (task, plan) = fold plan_event (pl_events artifact) (task, default_ExecutionPlan);
          plan = (if ep_branch_plans plan = [] \<and> dc_resume_branch_id decision \<noteq> []
                  then AddBranchPlan (dc_resume_branch_id decision)
                         (dc_resume_branch_id decision @ ''_candidate'') ''recovered fallback branch'' (DFin 0) plan
                  else plan)
      in \<lparr>rp_decision = decision, rp_task = task, rp_plan = plan\<rparr>)"

definition BuildTaskRecoveryPlans :: "string list \<Rightarrow> world \<Rightarrow> TaskRecoveryPlan list" where
  "BuildTaskRecoveryPlans task_log_paths w = for_parsed_logs BuildTaskRecoveryPlan w task_log_paths"

section \<open>The recovered session\<close>

definition default_AgentTxnContext :: AgentTxnContext where
  "default_AgentTxnContext = tm_Begin [] []"

definition restored_event :: "ParsedTaskEvent \<Rightarrow> TaskEvent" where
  "restored_event parsed_event =
     \<lparr>te_sequence_number = pt_sequence_number parsed_event,
      te_type = TaskEventTypeFromName (pt_event_type parsed_event),
      te_branch_id = pt_branch_id parsed_event, te_object_id = pt_object_id parsed_event,
      te_detail = pt_detail parsed_event, te_numeric_value = pt_numeric_value parsed_event\<rparr>"

definition recovered_branch :: "string \<Rightarrow> BranchPlan \<Rightarrow> BranchContext" where
  "recovered_branch resume_branch_id branch_plan =
     (let branch = new_BranchContext (bp_branch_id branch_plan) in
      if resume_branch_id \<noteq> [] \<and> bc_branch_id branch = resume_branch_id
      then branch\<lparr>bc_status := kRunning\<rparr> else branch)"

definition RecoverTaskSessionFromArtifact ::
    "string \<Rightarrow> ParsedTaskEventLogArtifact \<Rightarrow> exn + RecoveredTaskSession" where
  "RecoverTaskSessionFromArtifact path artifact =
     (let recovery_plan = BuildTaskRecoveryPlan path artifact;
          decision = rp_decision recovery_plan in
      case umap_find (pl_metadata artifact) ''commit_attempts'' of
        None \<Rightarrow> Inl out_of_range
      | Some commit_attempts \<Rightarrow>
      case umap_find (pl_metadata artifact) ''committed'' of
        None \<Rightarrow> Inl out_of_range
      | Some committed \<Rightarrow>
          (let txn = default_AgentTxnContext\<lparr>tx_txn_id := dc_txn_id decision, tx_task_id := dc_task_id decision,
                 tx_branches := map (recovered_branch (dc_resume_branch_id decision))
                   (ep_branch_plans (rp_plan recovery_plan))\<rparr>;
               txn = (if committed = ''1''
                      then txn\<lparr>tx_status := TxnCommitted, tx_winner_branch_id := dc_resume_branch_id decision\<rparr>
                      else if dc_action decision = RaRetryFromScratch
                      then txn\<lparr>tx_status := TxnAborted, tx_winner_branch_id := dc_resume_branch_id decision\<rparr>
                      else txn\<lparr>tx_status := TxnRunning\<rparr>)
           in Inr \<lparr>rs_recovery_plan = recovery_plan,
                rs_session = \<lparr>ts_task = rp_task recovery_plan, ts_plan = rp_plan recovery_plan, ts_txn = txn,
                  ts_commit_attempts = strtoull commit_attempts, ts_committed = (committed = ''1''),
                  ts_events = map restored_event (pl_events artifact)\<rparr>\<rparr>))"

text \<open>The loop of \<open>RecoverTaskSessions\<close>: logs that do not parse are skipped, an exception ends it.\<close>

fun RecoverTaskSessions :: "string list \<Rightarrow> world \<Rightarrow> exn + RecoveredTaskSession list" where
  "RecoverTaskSessions [] w = Inr []"
| "RecoverTaskSessions (path # paths) w =
     (case ParseTaskEventLogArtifact path w of
        None \<Rightarrow> RecoverTaskSessions paths w
      | Some artifact \<Rightarrow>
          (case RecoverTaskSessionFromArtifact path artifact of
             Inl e \<Rightarrow> Inl e
           | Inr session \<Rightarrow>
               (case RecoverTaskSessions paths w of
                  Inl e \<Rightarrow> Inl e | Inr sessions \<Rightarrow> Inr (session # sessions))))"

section \<open>Executions\<close>

datatype TaskRecoveryCommandType =
  CmdNoop | CmdSubmitFreshTask | CmdResumeBranch | CmdResumeFromSavepoint | CmdRevalidateCommit

record TaskRecoveryExecution =
  ex_recovery_plan :: TaskRecoveryPlan
  ex_session :: TaskSession
  ex_command_type :: TaskRecoveryCommandType
  ex_target_branch_id :: string
  ex_target_savepoint_id :: string
  ex_summary :: string

fun TaskRecoveryCommandTypeName :: "TaskRecoveryCommandType \<Rightarrow> string" where
  "TaskRecoveryCommandTypeName CmdNoop = ''NOOP''"
| "TaskRecoveryCommandTypeName CmdSubmitFreshTask = ''SUBMIT_FRESH_TASK''"
| "TaskRecoveryCommandTypeName CmdResumeBranch = ''RESUME_BRANCH''"
| "TaskRecoveryCommandTypeName CmdResumeFromSavepoint = ''RESUME_FROM_SAVEPOINT''"
| "TaskRecoveryCommandTypeName CmdRevalidateCommit = ''REVALIDATE_COMMIT''"

fun recovery_command :: "TaskRecoveryAction \<Rightarrow> TaskRecoveryCommandType \<times> string" where
  "recovery_command RaSkipCommitted = (CmdNoop, ''task already committed; no recovery work required'')"
| "recovery_command RaRetryFromScratch = (CmdSubmitFreshTask, ''restart task from a fresh submission'')"
| "recovery_command RaResumeBranch = (CmdResumeBranch, ''resume execution from the latest branch state'')"
| "recovery_command RaResumeFromSavepoint =
     (CmdResumeFromSavepoint, ''resume execution from the latest recorded savepoint'')"
| "recovery_command RaRevalidateCommit = (CmdRevalidateCommit, ''re-run validation and conditional commit'')"

definition BuildTaskRecoveryExecution :: "RecoveredTaskSession \<Rightarrow> TaskRecoveryExecution" where
  "BuildTaskRecoveryExecution recovered =
     (let decision = rp_decision (rs_recovery_plan recovered);
          session = rs_session recovered;
          (command_type, summary) = recovery_command (dc_action decision);
          task = SetMetadata ''recovery_command'' (TaskRecoveryCommandTypeName command_type) (ts_task session);
          task = SetMetadata ''recovery_summary'' summary task
      in \<lparr>ex_recovery_plan = rs_recovery_plan recovered, ex_session = session\<lparr>ts_task := task\<rparr>,
          ex_command_type = command_type, ex_target_branch_id = dc_resume_branch_id decision,
          ex_target_savepoint_id = dc_resume_savepoint_id decision, ex_summary = summary\<rparr>)"

definition BuildTaskRecoveryExecutions :: "RecoveredTaskSession list \<Rightarrow> TaskRecoveryExecution list" where
  "BuildTaskRecoveryExecutions recovered_sessions = map BuildTaskRecoveryExecution recovered_sessions"

section \<open>TaskRecoveryManager\<close>

definition ListTaskLogs :: "string \<Rightarrow> world \<Rightarrow> string list" where
  "ListTaskLogs task_log_dir w = ListPathsWithSuffix task_log_dir ''.task.log'' w"

definition trm_RecoverFromDirectory :: "string \<Rightarrow> world \<Rightarrow> TaskRecoveryDecision list" where
  "trm_RecoverFromDirectory task_log_dir w = RecoverTaskSessionDecisions (ListTaskLogs task_log_dir w) w"

definition trm_BuildPlansFromDirectory :: "string \<Rightarrow> world \<Rightarrow> TaskRecoveryPlan list" where
  "trm_BuildPlansFromDirectory task_log_dir w = BuildTaskRecoveryPlans (ListTaskLogs task_log_dir w) w"

definition trm_RecoverSessionsFromDirectory :: "string \<Rightarrow> world \<Rightarrow> exn + RecoveredTaskSession list" where
  "trm_RecoverSessionsFromDirectory task_log_dir w = RecoverTaskSessions (ListTaskLogs task_log_dir w) w"

section \<open>What a written log gives back\<close>

text \<open>The counters of a session that its log can hold, and a metadata map with distinct keys.\<close>

definition log_fits :: "TaskSession \<Rightarrow> bool" where
  "log_fits s \<longleftrightarrow> (\<forall>e \<in> set (ts_events s). te_sequence_number e < 2 ^ 64) \<and>
     ts_commit_attempts s < 2 ^ 64 \<and> length (tc_input_objects (ts_task s)) < 2 ^ 64 \<and>
     length (tc_output_objects (ts_task s)) < 2 ^ 64 \<and> length (tc_metadata (ts_task s)) < 2 ^ 64 \<and>
     umap_wf (tc_metadata (ts_task s))"

lemma restored_logged_event [simp]: "restored_event (logged_event e) = e"
  by (simp add: restored_event_def logged_event_def)

lemma restored_comp_logged [simp]: "restored_event \<circ> logged_event = id"
  by (simp add: fun_eq_iff)

lemma logged_events: "pl_events (logged_artifact s) = map logged_event (ts_events s)"
  by (simp add: logged_artifact_def)

lemma fold_indices:
  "(\<And>i t. i < length xs \<Longrightarrow> f i t = g (xs ! i) t) \<Longrightarrow> fold f [0..<length xs] t = fold g xs t"
proof (induction xs arbitrary: t rule: rev_induct)
  case (snoc x xs)
  have "f i u = g (xs ! i) u" if "i < length xs" for i u
    using snoc.prems [of i u] that by (simp add: nth_append)
  then have "fold f [0..<length xs] t = fold g xs t" by (rule snoc.IH)
  moreover have "f (length xs) u = g x u" for u using snoc.prems [of "length xs" u] by simp
  ultimately show ?case by simp
qed simp

lemma fold_add_inputs:
  "fold (\<lambda>x t. if or_object_id x = [] then t else AddInputObject (or_object_id x) (or_object_role x) t) xs t =
     t\<lparr>tc_input_objects := tc_input_objects t @ filter (\<lambda>x. or_object_id x \<noteq> []) xs\<rparr>"
  by (induction xs arbitrary: t) (auto simp: AddInputObject_def)

lemma fold_add_outputs:
  "fold (\<lambda>x t. if or_object_id x = [] then t else AddOutputObject (or_object_id x) (or_object_role x) t) xs t =
     t\<lparr>tc_output_objects := tc_output_objects t @ filter (\<lambda>x. or_object_id x \<noteq> []) xs\<rparr>"
  by (induction xs arbitrary: t) (auto simp: AddOutputObject_def)

lemma fold_set_metadata:
  "umap_wf (tc_metadata t @ kvs) \<Longrightarrow>
     fold (\<lambda>kv t. if fst kv = [] then t else SetMetadata (fst kv) (snd kv) t) kvs t =
       t\<lparr>tc_metadata := tc_metadata t @ filter (\<lambda>kv. fst kv \<noteq> []) kvs\<rparr>"
proof (induction kvs arbitrary: t)
  case (Cons kv kvs)
  show ?case
  proof (cases "fst kv = []")
    case True
    have "umap_wf (tc_metadata t @ kvs)" using Cons.prems by (auto simp: umap_wf_def)
    with Cons.IH True show ?thesis by simp
  next
    case False
    have new: "fst kv \<notin> fst ` set (tc_metadata t)" using Cons.prems by (auto simp: umap_wf_def)
    then have set: "tc_metadata (SetMetadata (fst kv) (snd kv) t) = tc_metadata t @ [kv]"
      by (simp add: umap_set_new)
    have wf: "umap_wf (tc_metadata (SetMetadata (fst kv) (snd kv) t) @ kvs)"
      using Cons.prems by (simp only: set append_assoc append_Cons append_Nil)
    show ?thesis
      using Cons.IH [OF wf] False by (simp add: SetMetadata_def umap_set_new [OF new])
  qed
qed simp

lemma restore_logged:
  assumes "log_fits s"
  shows "RestoreTaskContextFromArtifactMetadata (logged_artifact s) t =
    t\<lparr>tc_input_objects := filter (\<lambda>x. or_object_id x \<noteq> []) (tc_input_objects (ts_task s)),
      tc_output_objects := filter (\<lambda>x. or_object_id x \<noteq> []) (tc_output_objects (ts_task s)),
      tc_metadata := filter (\<lambda>kv. fst kv \<noteq> []) (tc_metadata (ts_task s))\<rparr>"
proof -
  let ?a = "logged_artifact s"
  have "fold (restore_input ?a) [0..<length (tc_input_objects (ts_task s))] u =
      u\<lparr>tc_input_objects := tc_input_objects u @ filter (\<lambda>x. or_object_id x \<noteq> []) (tc_input_objects (ts_task s))\<rparr>" for u
    by (subst fold_add_inputs [symmetric], rule fold_indices) (simp add: restore_input_def logged_indexed_values)
  moreover have "fold (restore_output ?a) [0..<length (tc_output_objects (ts_task s))] u =
      u\<lparr>tc_output_objects := tc_output_objects u @ filter (\<lambda>x. or_object_id x \<noteq> []) (tc_output_objects (ts_task s))\<rparr>" for u
    by (subst fold_add_outputs [symmetric], rule fold_indices) (simp add: restore_output_def logged_indexed_values)
  moreover have "fold (restore_metadata ?a) [0..<length (tc_metadata (ts_task s))] (u\<lparr>tc_metadata := []\<rparr>) =
      u\<lparr>tc_metadata := filter (\<lambda>kv. fst kv \<noteq> []) (tc_metadata (ts_task s))\<rparr>" for u
  proof -
    have "fold (restore_metadata ?a) [0..<length (tc_metadata (ts_task s))] v =
        fold (\<lambda>kv t. if fst kv = [] then t else SetMetadata (fst kv) (snd kv) t) (tc_metadata (ts_task s)) v" for v
      by (rule fold_indices) (simp add: restore_metadata_def logged_indexed_values)
    with fold_set_metadata [of "u\<lparr>tc_metadata := []\<rparr>" "tc_metadata (ts_task s)"] assms
    show ?thesis by (simp add: log_fits_def)
  qed
  ultimately show ?thesis
    using assms
    by (simp add: RestoreTaskContextFromArtifactMetadata_def Let_def logged_fixed_values ParseTaskMetadataSize_def
        strtoull_nat_dec log_fits_def)
qed

text \<open>
  C32. A session's event log round-trips. Whatever bytes its texts hold, a log that was written
  parses; the events come back as they were; the ids, phase, counters and the committed flag are
  those of the session; and restoring the task context gives back its objects and its metadata,
  except for objects and entries whose id or key is empty, which are dropped.
\<close>

theorem task_log_roundtrip:
  assumes "WriteTaskEventLogArtifact s path w = (True, w')" and "log_fits s"
  shows "\<exists>a. ParseTaskEventLogArtifact path w' = Some a \<and> map restored_event (pl_events a) = ts_events s \<and>
    metadata_value a ''task_id'' = tc_task_id (ts_task s) \<and> metadata_value a ''txn_id'' = tx_txn_id (ts_txn s) \<and>
    TaskPhaseFromPersistedValue (metadata_value a ''task_phase'') = tc_phase (ts_task s) \<and>
    strtoull (metadata_value a ''commit_attempts'') = ts_commit_attempts s \<and>
    (metadata_value a ''committed'' = ''1'' \<longleftrightarrow> ts_committed s) \<and>
    RestoreTaskContextFromArtifactMetadata a t =
      t\<lparr>tc_input_objects := filter (\<lambda>x. or_object_id x \<noteq> []) (tc_input_objects (ts_task s)),
        tc_output_objects := filter (\<lambda>x. or_object_id x \<noteq> []) (tc_output_objects (ts_task s)),
        tc_metadata := filter (\<lambda>kv. fst kv \<noteq> []) (tc_metadata (ts_task s))\<rparr>"
proof -
  have fits: "\<forall>e \<in> set (ts_events s). te_sequence_number e < 2 ^ 64" "ts_commit_attempts s < 2 ^ 64"
    using assms(2) by (simp_all add: log_fits_def)
  have "ParseTaskEventLogArtifact path w' = Some (logged_artifact s)"
    by (rule parse_task_log [OF written_task_log [OF assms(1)] fits(1)])
  then show ?thesis
    using fits(2) by (simp add: logged_fixed_values strtoull_nat_dec restore_logged [OF assms(2)] logged_events)
qed

text \<open>A session with awkward texts.\<close>

definition demo_session :: TaskSession where
  "demo_session = RecordEvent EvSubmitTask [] [] [TAB, NL, BSLASH] 0
     \<lparr>ts_task = AddInputObject ''in'' ''role'' (AddInputObject [] ''x'' (SetMetadata ''k'' [NL]
        (default_TaskContext\<lparr>tc_task_id := ''task'', tc_phase := TaskRunning\<rparr>))),
      ts_plan = default_ExecutionPlan, ts_txn = demo_txn [], ts_commit_attempts = 2, ts_committed = False,
      ts_events = []\<rparr>"

theorem task_log_roundtrip_witness:
  "\<exists>a. ParseTaskEventLogArtifact ''l'' (snd (WriteTaskEventLogArtifact demo_session ''l'' calm)) = Some a \<and>
     tc_input_objects (RestoreTaskContextFromArtifactMetadata a default_TaskContext) =
       [\<lparr>or_object_id = ''in'', or_object_role = ''role''\<rparr>] \<and>
     map te_detail (map restored_event (pl_events a)) = [[TAB, NL, BSLASH]]"
proof -
  have w: "WriteTaskEventLogArtifact demo_session ''l'' calm = (True, fs_put ''l'' (task_log_text demo_session) calm)"
    by (simp add: WriteTaskEventLogArtifact_def write_file_def next_fault_def calm_def)
  have "log_fits demo_session"
    by (simp add: log_fits_def demo_session_def AddInputObject_def umap_wf_def umap_set_def default_TaskContext_def)
  from task_log_roundtrip [OF w this, of default_TaskContext]
  obtain a where a: "ParseTaskEventLogArtifact ''l'' (snd (WriteTaskEventLogArtifact demo_session ''l'' calm)) = Some a"
      "map restored_event (pl_events a) = ts_events demo_session"
      "tc_input_objects (RestoreTaskContextFromArtifactMetadata a default_TaskContext) =
         filter (\<lambda>x. or_object_id x \<noteq> []) (tc_input_objects (ts_task demo_session))"
    by (auto simp: w)
  have "map te_detail (ts_events demo_session) = [[TAB, NL, BSLASH]]"
      "filter (\<lambda>x. or_object_id x \<noteq> []) (tc_input_objects (ts_task demo_session)) =
         [\<lparr>or_object_id = ''in'', or_object_role = ''role''\<rparr>]"
    by (simp_all add: demo_session_def AddInputObject_def default_TaskContext_def)
  with a show ?thesis by metis
qed

end
