(* ===== verification/Task_Runtime.thy ===== *)
theory Task_Runtime
  imports Task_Recovery
begin

text \<open>
  \<open>runtime/task_runtime.h\<close>, \<open>task_continuation.h\<close> and \<open>task_continuation_registry.h\<close>: the
  facade that runs tasks, keeps their event record, recovers them from their logs and looks
  after the fallback artifacts. A function that can throw returns the exception or its result
  together with the session and system it leaves, since the code mutates them before it throws.
\<close>

datatype FallbackTerminalArtifactPolicy = PolicyKeep | PolicyDelete | PolicyArchive

record FallbackCommitRuntimeConfig =
  fc_artifact_dir :: string
  fc_archive_dir :: string
  fc_auto_recover_on_startup :: bool
  fc_committed_artifact_policy :: FallbackTerminalArtifactPolicy
  fc_rolled_back_artifact_policy :: FallbackTerminalArtifactPolicy

definition default_FallbackCommitRuntimeConfig :: FallbackCommitRuntimeConfig where
  "default_FallbackCommitRuntimeConfig =
     \<lparr>fc_artifact_dir = [], fc_archive_dir = [], fc_auto_recover_on_startup = False,
      fc_committed_artifact_policy = PolicyArchive, fc_rolled_back_artifact_policy = PolicyArchive\<rparr>"

record FallbackArtifactMaintenanceResult =
  fm_recovered_artifact_count :: nat
  fm_archived_artifact_count :: nat
  fm_deleted_artifact_count :: nat
  fm_kept_terminal_artifact_count :: nat
  fm_skipped_non_terminal_artifact_count :: nat
  fm_parse_failure_count :: nat
  fm_conflict_count :: nat
  fm_success :: bool
  fm_reason :: string

definition default_FallbackArtifactMaintenanceResult :: FallbackArtifactMaintenanceResult where
  "default_FallbackArtifactMaintenanceResult =
     \<lparr>fm_recovered_artifact_count = 0, fm_archived_artifact_count = 0, fm_deleted_artifact_count = 0,
      fm_kept_terminal_artifact_count = 0, fm_skipped_non_terminal_artifact_count = 0,
      fm_parse_failure_count = 0, fm_conflict_count = 0, fm_success = True, fm_reason = []\<rparr>"

text \<open>
  The runtime's members: the store it refers to and its configuration. The managers it holds
  have no state. \<open>tk_error_message\<close> is the text of \<open>std::error_code::message\<close>, which comes
  from the operating system and which the model leaves open.
\<close>

record 's RuntimeCore =
  tk_store :: "'s VersionedKVStore"
  tk_config :: FallbackCommitRuntimeConfig
  tk_error_message :: string

section \<open>Running a task\<close>

definition ConfigureFallbackCommit :: "'s RuntimeCore \<Rightarrow> AgentTxnContext \<Rightarrow> AgentTxnContext" where
  "ConfigureFallbackCommit rt txn =
     (if fc_artifact_dir (tk_config rt) = [] \<or> SupportsAtomicBatchConditionalWrite (tk_store rt) then txn
      else txn\<lparr>tx_fallback_commit := (tx_fallback_commit txn)\<lparr>fcc_artifact_path :=
             fc_artifact_dir (tk_config rt) @ ''/'' @ tx_txn_id txn @ ''.fallback.log''\<rparr>\<rparr>)"

definition submit_branch :: "BranchPlan \<Rightarrow> TaskSession \<Rightarrow> TaskSession" where
  "submit_branch branch_plan session =
     (let session = session\<lparr>ts_txn := tm_CreateBranch (bp_branch_id branch_plan) (ts_txn session)\<rparr>
      in RecordEvent EvCreateBranch (bp_branch_id branch_plan) [] (bp_candidate_id branch_plan)
           (i64_of_double (bp_initial_priority branch_plan)) session)"

definition SubmitTask :: "'s RuntimeCore \<Rightarrow> TaskContext \<Rightarrow> ExecutionPlan \<Rightarrow> exn + TaskSession" where
  "SubmitTask rt task plan =
     (case task_Validate task of
        Inl e \<Rightarrow> Inl e
      | Inr _ \<Rightarrow>
          (case plan_Validate plan of
             Inl e \<Rightarrow> Inl e
           | Inr _ \<Rightarrow>
               (let session = \<lparr>ts_task = task, ts_plan = plan,
                      ts_txn = ConfigureFallbackCommit rt (tm_Begin (''txn:'' @ tc_task_id task) (tc_task_id task)),
                      ts_commit_attempts = 0, ts_committed = False, ts_events = []\<rparr>;
                    session = RecordEvent EvSubmitTask [] [] (tc_objective task) 0 session;
                    session = fold submit_branch (ep_branch_plans plan) session
                in Inr (MarkRunning session))))"

text \<open>What the code does through the pointer that \<open>FindBranch\<close> returns; nothing when it is null.\<close>

definition on_branch ::
    "string \<Rightarrow> (BranchContext \<Rightarrow> BranchContext) \<Rightarrow> AgentTxnContext \<Rightarrow> AgentTxnContext" where
  "on_branch branch_id f txn =
     (case bm_FindBranch (tx_branches txn) branch_id of
        None \<Rightarrow> txn
      | Some i \<Rightarrow> txn\<lparr>tx_branches := (tx_branches txn)[i := f (tx_branches txn ! i)]\<rparr>)"

definition empty_ReadResult :: ReadResult where
  "empty_ReadResult = \<lparr>rd_value = [], rd_version = 0, rd_exists = False\<rparr>"

definition txn_Read :: "string \<Rightarrow> string \<Rightarrow> view \<Rightarrow> AgentTxnContext \<Rightarrow> ReadResult \<times> AgentTxnContext" where
  "txn_Read branch_id object_id store_Get txn =
     (case bm_FindBranch (tx_branches txn) branch_id of
        None \<Rightarrow> (empty_ReadResult, txn)
      | Some i \<Rightarrow>
          (let (result, branch) = bm_ReadObject object_id store_Get (tx_branches txn ! i)
           in (result, txn\<lparr>tx_branches := (tx_branches txn)[i := branch]\<rparr>)))"

definition rt_Read ::
    "'s RuntimeCore \<Rightarrow> string \<Rightarrow> string \<Rightarrow> 's sys \<Rightarrow> TaskSession \<Rightarrow> ReadResult \<times> TaskSession" where
  "rt_Read rt branch_id object_id st session =
     (let (result, txn) = txn_Read branch_id object_id (kv_Get (tk_store rt) (fst st)) (ts_txn session)
      in (result, RecordEvent EvRead branch_id object_id (rd_value result) (rd_version result)
            (session\<lparr>ts_txn := txn\<rparr>)))"

fun intent_type_number :: "IntentType \<Rightarrow> int" where
  "intent_type_number kRead = 0"
| "intent_type_number kOverwrite = 1"
| "intent_type_number kAppend = 2"
| "intent_type_number kDelta = 3"
| "intent_type_number kCas = 4"
| "intent_type_number (kIntentOther i) = i"

definition txn_Write ::
    "string \<Rightarrow> string \<Rightarrow> ObjectType \<Rightarrow> WriteIntent \<Rightarrow> view \<Rightarrow> AgentTxnContext \<Rightarrow> AgentTxnContext" where
  "txn_Write branch_id object_id object_type intent store_Get txn =
     on_branch branch_id (bm_BufferWrite object_id object_type intent store_Get) txn"

definition rt_Write ::
    "'s RuntimeCore \<Rightarrow> string \<Rightarrow> string \<Rightarrow> ObjectType \<Rightarrow> WriteIntent \<Rightarrow> 's sys \<Rightarrow> TaskSession \<Rightarrow> TaskSession" where
  "rt_Write rt branch_id object_id object_type intent st session =
     RecordEvent EvWrite branch_id object_id (wi_payload intent)
       (word_of_int (intent_type_number (wi_intent_type intent)))
       (session\<lparr>ts_txn := txn_Write branch_id object_id object_type intent
          (kv_Get (tk_store rt) (fst st)) (ts_txn session)\<rparr>)"

definition txn_Savepoint :: "string \<Rightarrow> string \<Rightarrow> AgentTxnContext \<Rightarrow> AgentTxnContext" where
  "txn_Savepoint branch_id savepoint_id txn = on_branch branch_id (bm_CreateSavepoint savepoint_id) txn"

definition rt_Savepoint :: "string \<Rightarrow> string \<Rightarrow> TaskSession \<Rightarrow> TaskSession" where
  "rt_Savepoint branch_id savepoint_id session =
     RecordEvent EvSavepoint branch_id [] savepoint_id 0
       (session\<lparr>ts_txn := txn_Savepoint branch_id savepoint_id (ts_txn session)\<rparr>)"

definition txn_RollbackToSavepoint :: "string \<Rightarrow> string \<Rightarrow> AgentTxnContext \<Rightarrow> bool \<times> AgentTxnContext" where
  "txn_RollbackToSavepoint branch_id savepoint_id txn =
     (case bm_FindBranch (tx_branches txn) branch_id of
        None \<Rightarrow> (False, txn)
      | Some i \<Rightarrow>
          (let (ok, branch) = rm_RollbackToSavepoint savepoint_id (tx_branches txn ! i)
           in (ok, txn\<lparr>tx_branches := (tx_branches txn)[i := branch]\<rparr>)))"

definition rt_RollbackToSavepoint :: "string \<Rightarrow> string \<Rightarrow> TaskSession \<Rightarrow> bool \<times> TaskSession" where
  "rt_RollbackToSavepoint branch_id savepoint_id session =
     (let (rolled_back, txn) = txn_RollbackToSavepoint branch_id savepoint_id (ts_txn session);
          session = session\<lparr>ts_txn := txn\<rparr>
      in (rolled_back,
          if rolled_back then RecordEvent EvRollbackToSavepoint branch_id [] savepoint_id 0 session else session))"

definition txn_StageBranch :: "string \<Rightarrow> double \<Rightarrow> string \<Rightarrow> AgentTxnContext \<Rightarrow> AgentTxnContext" where
  "txn_StageBranch branch_id score summary txn = on_branch branch_id (bm_StageBranch score summary) txn"

definition rt_StageBranch :: "string \<Rightarrow> double \<Rightarrow> string \<Rightarrow> TaskSession \<Rightarrow> TaskSession" where
  "rt_StageBranch branch_id score summary session =
     RecordEvent EvStageBranch branch_id [] summary (i64_of_double score)
       (session\<lparr>ts_txn := txn_StageBranch branch_id score summary (ts_txn session)\<rparr>)"

definition rt_AbortTask :: "TaskSession \<Rightarrow> TaskSession" where
  "rt_AbortTask session =
     RecordEvent EvAbortTask [] [] ''abort_requested'' 0
       (MarkAborted (session\<lparr>ts_txn := rm_AbortTransaction (ts_txn session)\<rparr>))"

section \<open>Looking after the fallback artifacts\<close>

text \<open>A path and the directories above it.\<close>

definition path_prefixes :: "string \<Rightarrow> string list" where
  "path_prefixes p =
     map (\<lambda>n. take n p) (filter (\<lambda>n. 0 < n \<and> n < length p \<and> p ! n = CHR ''/'') [0..<length p]) @ [p]"

definition create_directories :: "string \<Rightarrow> world \<Rightarrow> bool \<times> world" where
  "create_directories p w =
     (case next_fault w of
        (NoFault, w') \<Rightarrow>
          (if \<exists>q \<in> set (path_prefixes p). fs_read q w' \<noteq> None then (False, w')
           else (True, w'\<lparr>dirs := dirs w' @ filter (\<lambda>q. q \<notin> set (dirs w')) (path_prefixes p)\<rparr>))
      | (_, w') \<Rightarrow> (False, w'))"

definition EnsureDirectory :: "'s RuntimeCore \<Rightarrow> string \<Rightarrow> world \<Rightarrow> (exn + unit) \<times> world" where
  "EnsureDirectory rt path w =
     (if path = [] then (Inr (), w)
      else
        (let (ok, w) = create_directories path w
         in (if ok then Inr ()
             else Inl (runtime_error (''failed to create directory '' @ path @ '': '' @ tk_error_message rt)), w)))"

text \<open>\<open>std::filesystem::remove\<close> with an error code: removing a missing file is no error.\<close>

definition fs_remove :: "string \<Rightarrow> world \<Rightarrow> bool \<times> world" where
  "fs_remove p w =
     (case next_fault w of
        (NoFault, w') \<Rightarrow> if p \<in> set (dirs w') then (False, w') else (True, fs_drop p w')
      | (_, w') \<Rightarrow> (False, w'))"

definition path_filename :: "string \<Rightarrow> string" where
  "path_filename p = rev (takeWhile (\<lambda>c. c \<noteq> CHR ''/'') (rev p))"

definition path_join :: "string \<Rightarrow> string \<Rightarrow> string" where
  "path_join d f = (if d = [] \<or> last d = CHR ''/'' then d @ f else d @ ''/'' @ f)"

definition IsTerminalFallbackPhase :: "FallbackCommitPhase \<Rightarrow> bool" where
  "IsTerminalFallbackPhase phase \<longleftrightarrow> phase = FbCommitted \<or> phase = FbRolledBack"

definition policy_for :: "'s RuntimeCore \<Rightarrow> FallbackCommitPhase \<Rightarrow> FallbackTerminalArtifactPolicy" where
  "policy_for rt phase =
     (if phase = FbCommitted then fc_committed_artifact_policy (tk_config rt)
      else fc_rolled_back_artifact_policy (tk_config rt))"

definition ApplyTerminalFallbackArtifactPolicy ::
    "'s RuntimeCore \<Rightarrow> string \<Rightarrow> FallbackTerminalArtifactPolicy \<Rightarrow> world \<Rightarrow> (exn + bool) \<times> world" where
  "ApplyTerminalFallbackArtifactPolicy rt artifact_path policy w =
     (case policy of
        PolicyKeep \<Rightarrow> (Inr True, w)
      | PolicyDelete \<Rightarrow> (let (ok, w) = fs_remove artifact_path w in (Inr ok, w))
      | PolicyArchive \<Rightarrow>
          (let archive_dir = fc_archive_dir (tk_config rt) in
           if archive_dir = [] then (Inr False, w)
           else
             (case EnsureDirectory rt archive_dir w of
                (Inl e, w) \<Rightarrow> (Inl e, w)
              | (Inr _, w) \<Rightarrow>
                  (let target_path = path_join archive_dir (path_filename artifact_path);
                       (_, w) = fs_remove target_path w;
                       (renamed, w) = rename_file artifact_path target_path w
                   in (Inr renamed, w)))))"

definition TryParseFallbackArtifact :: "string \<Rightarrow> world \<Rightarrow> FallbackCommitArtifact option" where
  "TryParseFallbackArtifact artifact_path w =
     (if fs_read artifact_path w = None \<and> artifact_path \<notin> set (dirs w) then None
      else ParseFallbackCommitArtifact artifact_path w)"

definition FinalizeFallbackCommitArtifact ::
    "'s RuntimeCore \<Rightarrow> AgentTxnContext \<Rightarrow> world \<Rightarrow> (exn + bool) \<times> world" where
  "FinalizeFallbackCommitArtifact rt txn w =
     (let artifact_path = fcc_artifact_path (tx_fallback_commit txn) in
      if artifact_path = [] then (Inr True, w)
      else
        (case TryParseFallbackArtifact artifact_path w of
           None \<Rightarrow> (Inr True, w)
         | Some artifact \<Rightarrow>
             if \<not> IsTerminalFallbackPhase (fa_phase artifact) then (Inr True, w)
             else ApplyTerminalFallbackArtifactPolicy rt artifact_path (policy_for rt (fa_phase artifact)) w))"

text \<open>The loop over the entries of the artifact directory, as they were when it began.\<close>

fun sweep_loop ::
    "'s RuntimeCore \<Rightarrow> string list \<Rightarrow> world \<Rightarrow> FallbackArtifactMaintenanceResult \<Rightarrow>
     (exn + FallbackArtifactMaintenanceResult) \<times> world" where
  "sweep_loop rt [] w result = (Inr result, w)"
| "sweep_loop rt (filename # filenames) w result =
     (if \<not> EndsWith filename ''.fallback.log'' then sweep_loop rt filenames w result
      else
      let path = path_join (fc_artifact_dir (tk_config rt)) filename in
      case ParseFallbackCommitArtifact path w of
        None \<Rightarrow>
          (Inr (result\<lparr>fm_parse_failure_count := fm_parse_failure_count result + 1, fm_success := False,
             fm_reason := ''failed to parse fallback artifact: '' @ path\<rparr>), w)
      | Some artifact \<Rightarrow>
          if \<not> IsTerminalFallbackPhase (fa_phase artifact) then
            sweep_loop rt filenames w
              (result\<lparr>fm_skipped_non_terminal_artifact_count := fm_skipped_non_terminal_artifact_count result + 1\<rparr>)
          else
          let policy = policy_for rt (fa_phase artifact) in
          if policy = PolicyKeep then
            sweep_loop rt filenames w
              (result\<lparr>fm_kept_terminal_artifact_count := fm_kept_terminal_artifact_count result + 1\<rparr>)
          else
            (case ApplyTerminalFallbackArtifactPolicy rt path policy w of
               (Inl e, w) \<Rightarrow> (Inl e, w)
             | (Inr False, w) \<Rightarrow>
                 (Inr (result\<lparr>fm_success := False, fm_reason := ''failed to finalize fallback artifact: '' @ path\<rparr>), w)
             | (Inr True, w) \<Rightarrow>
                 sweep_loop rt filenames w
                   (if policy = PolicyArchive
                    then result\<lparr>fm_archived_artifact_count := fm_archived_artifact_count result + 1\<rparr>
                    else result\<lparr>fm_deleted_artifact_count := fm_deleted_artifact_count result + 1\<rparr>)))"

definition SweepTerminalFallbackArtifacts ::
    "'s RuntimeCore \<Rightarrow> world \<Rightarrow> (exn + FallbackArtifactMaintenanceResult) \<times> world" where
  "SweepTerminalFallbackArtifacts rt w =
     (let result = default_FallbackArtifactMaintenanceResult;
          artifact_dir = fc_artifact_dir (tk_config rt) in
      if artifact_dir = [] then (Inr result, w)
      else
        (case dir_entries artifact_dir w of
           None \<Rightarrow> (Inr result, w)
         | Some filenames \<Rightarrow>
             sweep_loop rt (filter (\<lambda>f. \<not> (f = ''.'' \<or> f = ''..'')) filenames) w result))"

definition RecoverPendingFallbackCommits ::
    "'s RuntimeCore \<Rightarrow> 's sys \<Rightarrow> (exn + FallbackArtifactMaintenanceResult) \<times> 's sys" where
  "RecoverPendingFallbackCommits rt st =
     (let result = default_FallbackArtifactMaintenanceResult;
          artifact_dir = fc_artifact_dir (tk_config rt) in
      if artifact_dir = [] then (Inr result, st)
      else
        (let (recovery, st) = tm_RecoverFallbackCommits (tk_store rt) artifact_dir st;
             result = result\<lparr>fm_recovered_artifact_count := fr_recovered_artifact_count recovery,
               fm_parse_failure_count := fr_parse_failure_count recovery,
               fm_conflict_count := fr_conflict_count recovery,
               fm_success := fr_success recovery, fm_reason := fr_reason recovery\<rparr> in
         if \<not> fm_success result then (Inr result, st)
         else
           (case SweepTerminalFallbackArtifacts rt (snd st) of
              (Inl e, w) \<Rightarrow> (Inl e, fst st, w)
            | (Inr maintenance, w) \<Rightarrow>
                (Inr (result\<lparr>fm_archived_artifact_count := fm_archived_artifact_count maintenance,
                   fm_deleted_artifact_count := fm_deleted_artifact_count maintenance,
                   fm_kept_terminal_artifact_count := fm_kept_terminal_artifact_count maintenance,
                   fm_skipped_non_terminal_artifact_count := fm_skipped_non_terminal_artifact_count maintenance,
                   fm_parse_failure_count := fm_parse_failure_count result + fm_parse_failure_count maintenance,
                   fm_success := fm_success maintenance,
                   fm_reason := (if \<not> fm_success maintenance then fm_reason maintenance else fm_reason result)\<rparr>),
                 fst st, w))))"

definition UsesArchivePolicy :: "'s RuntimeCore \<Rightarrow> bool" where
  "UsesArchivePolicy rt \<longleftrightarrow>
     fc_committed_artifact_policy (tk_config rt) = PolicyArchive \<or>
     fc_rolled_back_artifact_policy (tk_config rt) = PolicyArchive"

text \<open>The constructor with a configuration: the startup result it stores, or the exception.\<close>

definition InitializeFallbackCommitRuntime ::
    "'s RuntimeCore \<Rightarrow> 's sys \<Rightarrow> (exn + FallbackArtifactMaintenanceResult option) \<times> 's sys" where
  "InitializeFallbackCommitRuntime rt st =
     (let config = tk_config rt in
      if fc_artifact_dir config = [] then (Inr None, st)
      else
        (case EnsureDirectory rt (fc_artifact_dir config) (snd st) of
           (Inl e, w) \<Rightarrow> (Inl e, fst st, w)
         | (Inr _, w) \<Rightarrow>
        (case (if UsesArchivePolicy rt \<and> fc_archive_dir config \<noteq> []
               then EnsureDirectory rt (fc_archive_dir config) w else (Inr (), w)) of
           (Inl e, w) \<Rightarrow> (Inl e, fst st, w)
         | (Inr _, w) \<Rightarrow>
             if fc_auto_recover_on_startup config then
               (case RecoverPendingFallbackCommits rt (fst st, w) of
                  (Inl e, st) \<Rightarrow> (Inl e, st)
                | (Inr result, st) \<Rightarrow>
                    (if \<not> fm_success result
                     then Inl (runtime_error (''failed to recover fallback commit artifacts: '' @ fm_reason result))
                     else Inr (Some result), st))
             else
               (case SweepTerminalFallbackArtifacts rt w of
                  (Inl e, w) \<Rightarrow> (Inl e, fst st, w)
                | (Inr maintenance, w) \<Rightarrow>
                    (if \<not> fm_success maintenance
                     then Inl (runtime_error (''failed to maintain fallback commit artifacts: '' @ fm_reason maintenance))
                     else Inr (Some maintenance), fst st, w)))))"

section \<open>Committing a task\<close>

definition rt_CommitTask ::
    "'s RuntimeCore \<Rightarrow> TaskSession \<Rightarrow> 's sys \<Rightarrow> (exn + bool) \<times> TaskSession \<times> 's sys" where
  "rt_CommitTask rt session st =
     (let session = session\<lparr>ts_commit_attempts := ts_commit_attempts session + 1\<rparr>;
          session = RecordEvent EvCommitAttempt [] [] ''commit_attempt''
            (of_nat (ts_commit_attempts session)) session in
      case tm_SelectWinnerAndCommit (tk_store rt) (ts_txn session) st of
        Inl e \<Rightarrow> (Inl e, session, st)
      | Inr (committed, txn, st) \<Rightarrow>
          (let session = session\<lparr>ts_txn := txn\<rparr>;
               session = (if committed
                 then RecordEvent EvCommitTask (tx_winner_branch_id txn) []
                        (vr_reason (tx_validation_result txn)) 0 (MarkCommitted session)
                 else RecordEvent EvAbortTask (tx_winner_branch_id txn) []
                        (vr_reason (tx_validation_result txn)) 0 (MarkAborted session)) in
           case FinalizeFallbackCommitArtifact rt txn (snd st) of
             (Inl e, w) \<Rightarrow> (Inl e, session, fst st, w)
           | (Inr finalized, w) \<Rightarrow>
               (let path = fcc_artifact_path (tx_fallback_commit txn);
                    session = (if path \<noteq> []
                      then session\<lparr>ts_task := SetMetadata ''fallback_artifact_maintenance''
                             (if finalized then ''finalized_or_pending'' else ''finalize_failed'')
                             (SetMetadata ''fallback_artifact_path'' path (ts_task session))\<rparr>
                      else session)
                in (Inr committed, session, fst st, w))))"

section \<open>Recovering a task from its log\<close>

definition LoadRecoveryPlanFromLog :: "string \<Rightarrow> world \<Rightarrow> exn + TaskRecoveryPlan" where
  "LoadRecoveryPlanFromLog task_log_path w =
     (case ParseTaskEventLogArtifact task_log_path w of
        None \<Rightarrow> Inl (runtime_error (''failed to parse task event log: '' @ task_log_path))
      | Some artifact \<Rightarrow> Inr (BuildTaskRecoveryPlan task_log_path artifact))"

definition IntentTypeFromPersistedValue :: "i64 \<Rightarrow> IntentType" where
  "IntentTypeFromPersistedValue v =
     (if v = 0 then kRead else if v = 1 then kOverwrite else if v = 2 then kAppend
      else if v = 3 then kDelta else if v = 4 then kCas else kOverwrite)"

text \<open>One turn of the loop that replays the events on a rebuilt transaction.\<close>

definition rebuild_event :: "view \<Rightarrow> ParsedTaskEvent \<Rightarrow> AgentTxnContext \<Rightarrow> AgentTxnContext" where
  "rebuild_event store_Get event txn =
     (case TaskEventTypeFromName (pt_event_type event) of
        EvRead \<Rightarrow>
          on_branch (pt_branch_id event)
            (\<lambda>branch. branch\<lparr>bc_status := kRunning,
               bc_read_set := rs_Record (pt_object_id event) (pt_numeric_value event) (bc_read_set branch)\<rparr>) txn
      | EvWrite \<Rightarrow>
          txn_Write (pt_branch_id event) (pt_object_id event) kGeneric
            \<lparr>wi_object_id = pt_object_id event,
             wi_intent_type = IntentTypeFromPersistedValue (pt_numeric_value event),
             wi_payload = pt_detail event, wi_condition = no_condition\<rparr> store_Get txn
      | EvSavepoint \<Rightarrow> txn_Savepoint (pt_branch_id event) (pt_detail event) txn
      | EvRollbackToSavepoint \<Rightarrow> snd (txn_RollbackToSavepoint (pt_branch_id event) (pt_detail event) txn)
      | EvStageBranch \<Rightarrow>
          txn_StageBranch (pt_branch_id event) (double_of_i64 (pt_numeric_value event)) (pt_detail event) txn
      | _ \<Rightarrow> txn)"

definition RebuildRecoveredSessionState ::
    "'s RuntimeCore \<Rightarrow> ParsedTaskEventLogArtifact \<Rightarrow> 's sys \<Rightarrow> TaskSession \<Rightarrow> exn + TaskSession" where
  "RebuildRecoveredSessionState rt artifact st session =
     (case SubmitTask rt (ts_task session) (ts_plan session) of
        Inl e \<Rightarrow> Inl e
      | Inr rebuilt \<Rightarrow>
          (let txn = fold (rebuild_event (kv_Get (tk_store rt) (fst st))) (pl_events artifact) (ts_txn rebuilt) in
           case umap_find (pl_metadata artifact) ''commit_attempts'' of
             None \<Rightarrow> Inl out_of_range
           | Some commit_attempts \<Rightarrow>
           case umap_find (pl_metadata artifact) ''committed'' of
             None \<Rightarrow> Inl out_of_range
           | Some committed \<Rightarrow>
               Inr (rebuilt\<lparr>ts_txn := txn, ts_commit_attempts := strtoull commit_attempts,
                 ts_committed := (committed = ''1''),
                 ts_events := map restored_event (pl_events artifact)\<rparr>)))"

definition set_status :: "string \<Rightarrow> BranchStatus \<Rightarrow> BranchStatus option \<Rightarrow> BranchContext \<Rightarrow> BranchContext" where
  "set_status resume_branch_id status other branch =
     (if bc_branch_id branch = resume_branch_id then branch\<lparr>bc_status := status\<rparr>
      else (case other of None \<Rightarrow> branch | Some s \<Rightarrow> branch\<lparr>bc_status := s\<rparr>))"

definition ApplyRecoveredTerminalState :: "RecoveredTaskSession \<Rightarrow> RecoveredTaskSession" where
  "ApplyRecoveredTerminalState recovered =
     (let session = rs_session recovered;
          decision = rp_decision (rs_recovery_plan recovered);
          end_as = (\<lambda>txn_status phase status other.
            session\<lparr>ts_task := (ts_task session)\<lparr>tc_phase := phase\<rparr>,
              ts_txn := (ts_txn session)\<lparr>tx_status := txn_status, tx_branches :=
                map (set_status (dc_resume_branch_id decision) status other) (tx_branches (ts_txn session))\<rparr>\<rparr>)
      in recovered\<lparr>rs_session :=
           (if ts_committed session then end_as TxnCommitted TaskCommitted kCommitted (Some kDiscarded)
            else if dc_action decision = RaRetryFromScratch then
              end_as TxnAborted TaskAborted kAborted (Some kDiscarded)
            else end_as TxnRunning TaskRunning kRunning None)\<rparr>)"

definition RecoverSessionFromLog :: "'s RuntimeCore \<Rightarrow> string \<Rightarrow> 's sys \<Rightarrow> exn + RecoveredTaskSession" where
  "RecoverSessionFromLog rt task_log_path st =
     (case ParseTaskEventLogArtifact task_log_path (snd st) of
        None \<Rightarrow> Inl (runtime_error (''failed to parse task event log: '' @ task_log_path))
      | Some artifact \<Rightarrow>
          (case RecoverTaskSessionFromArtifact task_log_path artifact of
             Inl e \<Rightarrow> Inl e
           | Inr recovered \<Rightarrow>
               (case RebuildRecoveredSessionState rt artifact st (rs_session recovered) of
                  Inl e \<Rightarrow> Inl e
                | Inr session \<Rightarrow> Inr (ApplyRecoveredTerminalState (recovered\<lparr>rs_session := session\<rparr>)))))"

text \<open>A loop that an exception ends.\<close>

fun each_or_throw :: "('a \<Rightarrow> exn + 'b) \<Rightarrow> 'a list \<Rightarrow> exn + 'b list" where
  "each_or_throw f [] = Inr []"
| "each_or_throw f (x # xs) =
     (case f x of
        Inl e \<Rightarrow> Inl e
      | Inr y \<Rightarrow> (case each_or_throw f xs of Inl e \<Rightarrow> Inl e | Inr ys \<Rightarrow> Inr (y # ys)))"

definition rt_RecoverSessionsFromDirectory ::
    "'s RuntimeCore \<Rightarrow> string \<Rightarrow> 's sys \<Rightarrow> exn + RecoveredTaskSession list" where
  "rt_RecoverSessionsFromDirectory rt task_log_dir st =
     each_or_throw (\<lambda>path. RecoverSessionFromLog rt path st) (ListTaskLogs task_log_dir (snd st))"

definition BuildRecoveryExecutionFromLog ::
    "'s RuntimeCore \<Rightarrow> string \<Rightarrow> 's sys \<Rightarrow> exn + TaskRecoveryExecution" where
  "BuildRecoveryExecutionFromLog rt task_log_path st =
     (case RecoverSessionFromLog rt task_log_path st of
        Inl e \<Rightarrow> Inl e | Inr recovered \<Rightarrow> Inr (BuildTaskRecoveryExecution recovered))"

definition BuildRecoveryExecutionsFromDirectory ::
    "'s RuntimeCore \<Rightarrow> string \<Rightarrow> 's sys \<Rightarrow> exn + TaskRecoveryExecution list" where
  "BuildRecoveryExecutionsFromDirectory rt task_log_dir st =
     (case rt_RecoverSessionsFromDirectory rt task_log_dir st of
        Inl e \<Rightarrow> Inl e | Inr recovered \<Rightarrow> Inr (BuildTaskRecoveryExecutions recovered))"

definition resumed :: "string \<Rightarrow> string \<Rightarrow> TaskSession \<Rightarrow> TaskSession" where
  "resumed branch_id execution_status session =
     session\<lparr>ts_txn := on_branch branch_id (\<lambda>branch. branch\<lparr>bc_status := kRunning\<rparr>) (ts_txn session),
             ts_task := SetMetadata ''recovery_execution_status'' execution_status
               ((ts_task session)\<lparr>tc_phase := TaskRunning\<rparr>)\<rparr>"

definition ExecuteRecoveryExecution ::
    "'s RuntimeCore \<Rightarrow> TaskRecoveryExecution \<Rightarrow> 's sys \<Rightarrow> (exn + bool) \<times> TaskRecoveryExecution \<times> 's sys" where
  "ExecuteRecoveryExecution rt execution st =
     (let session = ex_session execution;
          status = (\<lambda>s task. SetMetadata ''recovery_execution_status'' s task) in
      case ex_command_type execution of
        CmdNoop \<Rightarrow> (Inr True, execution\<lparr>ex_session := session\<lparr>ts_task := status ''noop'' (ts_task session)\<rparr>\<rparr>, st)
      | CmdSubmitFreshTask \<Rightarrow>
          (let previous_retry_count = tm_retry_count (tx_metrics (ts_txn session));
               fresh_task = status ''fresh_submit'' ((rp_task (ex_recovery_plan execution))\<lparr>tc_phase := TaskCreated\<rparr>) in
           case SubmitTask rt fresh_task (rp_plan (ex_recovery_plan execution)) of
             Inl e \<Rightarrow> (Inl e, execution, st)
           | Inr fresh \<Rightarrow>
               (Inr True, execution\<lparr>ex_session := fresh\<lparr>ts_txn := (ts_txn fresh)\<lparr>tx_metrics :=
                  (tx_metrics (ts_txn fresh))\<lparr>tm_retry_count := previous_retry_count + 1\<rparr>\<rparr>\<rparr>\<rparr>, st))
      | CmdResumeBranch \<Rightarrow>
          (case bm_FindBranch (tx_branches (ts_txn session)) (ex_target_branch_id execution) of
             None \<Rightarrow> (Inr False, execution, st)
           | Some _ \<Rightarrow>
               (Inr True, execution\<lparr>ex_session := resumed (ex_target_branch_id execution) ''branch_resumed'' session\<rparr>, st))
      | CmdResumeFromSavepoint \<Rightarrow>
          (case bm_FindBranch (tx_branches (ts_txn session)) (ex_target_branch_id execution) of
             None \<Rightarrow> (Inr False, execution, st)
           | Some _ \<Rightarrow>
               (let (rolled_back, txn) = txn_RollbackToSavepoint (ex_target_branch_id execution)
                      (ex_target_savepoint_id execution) (ts_txn session);
                    session = session\<lparr>ts_txn := txn\<rparr> in
                if \<not> rolled_back then (Inr False, execution\<lparr>ex_session := session\<rparr>, st)
                else (Inr True, execution\<lparr>ex_session :=
                       resumed (ex_target_branch_id execution) ''savepoint_resumed'' session\<rparr>, st)))
      | CmdRevalidateCommit \<Rightarrow>
          (let (r, session, st) = rt_CommitTask rt
                 (session\<lparr>ts_task := status ''revalidate_commit'' (ts_task session)\<rparr>) st
           in (r, execution\<lparr>ex_session := session\<rparr>, st)))"

section \<open>Continuations\<close>

record TaskContinuationSpec =
  cs_preferred_branch_id :: string
  cs_score :: double
  cs_summary :: string

type_synonym 's TaskContinuationCallback =
  "string \<Rightarrow> TaskRecoveryExecution \<Rightarrow> 's sys \<Rightarrow> bool \<times> TaskRecoveryExecution \<times> 's sys"

definition continuation_branch :: "TaskContinuationSpec \<Rightarrow> TaskRecoveryExecution \<Rightarrow> string" where
  "continuation_branch spec execution =
     (let branch_id = cs_preferred_branch_id spec;
          branch_id = (if branch_id = [] then ex_target_branch_id execution else branch_id);
          plans = ep_branch_plans (ts_plan (ex_session execution))
      in if branch_id = [] \<and> plans \<noteq> [] then bp_branch_id (hd plans) else branch_id)"

definition ContinueRecoveredTask ::
    "'s RuntimeCore \<Rightarrow> TaskRecoveryExecution \<Rightarrow> TaskContinuationSpec \<Rightarrow> 's TaskContinuationCallback \<Rightarrow>
     's sys \<Rightarrow> (exn + bool) \<times> TaskRecoveryExecution \<times> 's sys" where
  "ContinueRecoveredTask rt execution spec callback st =
     (case ExecuteRecoveryExecution rt execution st of
        (Inl e, execution, st) \<Rightarrow> (Inl e, execution, st)
      | (Inr False, execution, st) \<Rightarrow> (Inr False, execution, st)
      | (Inr True, execution, st) \<Rightarrow>
          (let branch_id = continuation_branch spec execution in
           if branch_id = [] then (Inr False, execution, st)
           else
             (let (continued, execution, st) = callback branch_id execution st in
              if \<not> continued then (Inr False, execution, st)
              else
                (let session = rt_StageBranch branch_id (cs_score spec) (cs_summary spec) (ex_session execution);
                     (r, session, st) = rt_CommitTask rt session st
                 in (r, execution\<lparr>ex_session := session\<rparr>, st)))))"

text \<open>
  The registry maps workload names to handlers; a handler runs on the runtime that continues
  the task. An empty \<open>std::function\<close> is \<open>None\<close>.
\<close>

type_synonym 's TaskContinuationHandler =
  "'s RuntimeCore \<Rightarrow> TaskRecoveryExecution \<Rightarrow> 's sys \<Rightarrow> (exn + bool) \<times> TaskRecoveryExecution \<times> 's sys"

type_synonym 's TaskContinuationRegistry = "(string, 's TaskContinuationHandler) umap"

definition RegisterHandler ::
    "string \<Rightarrow> 's TaskContinuationHandler option \<Rightarrow> 's TaskContinuationRegistry \<Rightarrow>
     bool \<times> 's TaskContinuationRegistry" where
  "RegisterHandler workload_name handler registry =
     (case handler of
        None \<Rightarrow> (False, registry)
      | Some h \<Rightarrow> if workload_name = [] then (False, registry) else (True, umap_set registry workload_name h))"

definition FindHandler :: "string \<Rightarrow> 's TaskContinuationRegistry \<Rightarrow> 's TaskContinuationHandler option" where
  "FindHandler workload_name registry = umap_find registry workload_name"

definition registry_Continue ::
    "'s TaskContinuationRegistry \<Rightarrow> 's RuntimeCore \<Rightarrow> TaskRecoveryExecution \<Rightarrow> 's sys \<Rightarrow>
     (exn + bool) \<times> TaskRecoveryExecution \<times> 's sys" where
  "registry_Continue registry rt execution st =
     (let workload_name = tc_workload_name (ts_task (ex_session execution));
          workload_name = (if workload_name = [] then tc_workload_name (rp_task (ex_recovery_plan execution))
                           else workload_name) in
      case FindHandler workload_name registry of
        None \<Rightarrow> (Inr False, execution, st)
      | Some handler \<Rightarrow> handler rt execution st)"

end
