(* ===== verification/Task_Session.thy ===== *)
theory Task_Session
  imports Task_Runtime
begin

text \<open>
  The life of a task session as a state machine: the steps a client can make through the
  runtime on a session that \<open>SubmitTask\<close> returned, with the store in any state at each step,
  the invariant they keep, and what the commit of such a session does on a batch store.
\<close>

section \<open>What a commit leaves of a transaction\<close>

lemma on_branch_frame [simp]:
  "tx_txn_id (on_branch i f txn) = tx_txn_id txn" "tx_task_id (on_branch i f txn) = tx_task_id txn"
  "tx_status (on_branch i f txn) = tx_status txn"
  "tx_fallback_commit (on_branch i f txn) = tx_fallback_commit txn"
  "tx_metrics (on_branch i f txn) = tx_metrics txn"
  by (simp_all add: on_branch_def split: option.splits)

lemma map_list_update_same: "i < length xs \<Longrightarrow> f y = f (xs ! i) \<Longrightarrow> map f (xs[i := y]) = map f xs"
  by (metis list_update_id map_update)

lemma FindBranch_bound: "bm_FindBranch bs i = Some n \<Longrightarrow> n < length bs \<and> bc_branch_id (bs ! n) = i"
  by (auto simp: bm_FindBranch_def dest: find_index_Some)

lemma on_branch_ids:
  "(\<And>b. bc_branch_id (f b) = bc_branch_id b) \<Longrightarrow>
     map bc_branch_id (tx_branches (on_branch i f txn)) = map bc_branch_id (tx_branches txn)"
  by (auto simp: on_branch_def map_list_update_same dest: FindBranch_bound split: option.splits)

lemma on_branch_all:
  assumes "\<forall>b \<in> set (tx_branches txn). P b" and "\<And>b. P b \<Longrightarrow> P (f b)"
  shows "\<forall>b \<in> set (tx_branches (on_branch i f txn)). P b"
proof (cases "bm_FindBranch (tx_branches txn) i")
  case (Some n)
  then have "P (tx_branches txn ! n)" using assms(1) FindBranch_bound by auto
  with Some assms show ?thesis
    using set_update_subset_insert [of "tx_branches txn" n "f (tx_branches txn ! n)"]
    by (auto simp: on_branch_def)
qed (use assms in \<open>simp add: on_branch_def\<close>)

text \<open>The fields of a transaction that its identity and its plan fix.\<close>

definition same_frame :: "AgentTxnContext \<Rightarrow> AgentTxnContext \<Rightarrow> bool" where
  "same_frame t t' \<longleftrightarrow> tx_txn_id t' = tx_txn_id t \<and> tx_task_id t' = tx_task_id t \<and>
     tx_fallback_commit t' = tx_fallback_commit t \<and>
     map bc_branch_id (tx_branches t') = map bc_branch_id (tx_branches t) \<and>
     ((\<forall>b \<in> set (tx_branches t). branch_inv b) \<longrightarrow> (\<forall>b \<in> set (tx_branches t'). branch_inv b))"

lemma same_frame_refl [simp]: "same_frame t t"
  by (simp add: same_frame_def)

lemma same_frame_trans: "same_frame t t' \<Longrightarrow> same_frame t' t'' \<Longrightarrow> same_frame t t''"
  by (auto simp: same_frame_def)

lemma DiscardBranch_id [simp]: "bc_branch_id (rm_DiscardBranch b) = bc_branch_id b"
  by (simp add: rm_DiscardBranch_def)

lemma DiscardBranch_inv: "branch_inv b \<Longrightarrow> branch_inv (rm_DiscardBranch b)"
  by (auto simp: branch_inv_def rm_DiscardBranch_def wb_Truncate_of intro: exI [of _ "[]"])

lemma same_frame_Abort: "same_frame t (rm_AbortTransaction t)"
  by (simp add: same_frame_def rm_AbortTransaction_def DiscardBranch_inv)

lemma same_frame_result [simp]: "same_frame t (t'\<lparr>tx_validation_result := r\<rparr>) = same_frame t t'"
  by (simp add: same_frame_def)

lemma same_frame_log [simp]: "same_frame t (t'\<lparr>tx_commit_log := l\<rparr>) = same_frame t t'"
  by (simp add: same_frame_def)

lemma same_frame_status [simp]: "same_frame t (t'\<lparr>tx_status := st\<rparr>) = same_frame t t'"
  by (simp add: same_frame_def)

lemma same_frame_branches:
  "map bc_branch_id bs = map bc_branch_id (tx_branches t) \<Longrightarrow>
   ((\<forall>b \<in> set (tx_branches t). branch_inv b) \<Longrightarrow> (\<forall>b \<in> set bs. branch_inv b)) \<Longrightarrow>
     same_frame t (t\<lparr>tx_branches := bs\<rparr>)"
  by (simp add: same_frame_def)

lemma commit_frame:
  assumes "tm_SelectWinnerAndCommit kv txn st = Inr (ok, txn', st')"
  shows "same_frame txn txn' \<and> tx_status txn' = (if ok then TxnCommitted else TxnAborted)"
proof -
  from assms obtain w where w: "bm_SelectWinner (tx_branches txn) = Inr w"
    by (auto simp: tm_SelectWinnerAndCommit_def split: sum.splits)
  let ?t = "txn\<lparr>tx_winner_branch_id := w, tx_branches := bm_MarkWinnerAndLosers w (tx_branches txn)\<rparr>"
  have f: "same_frame txn ?t"
    by (auto simp: same_frame_def Mark_ids bm_MarkWinnerAndLosers_def)
  note ab = same_frame_trans [OF f same_frame_Abort]
  have abr: "same_frame txn (rm_AbortTransaction (?t\<lparr>tx_validation_result := r\<rparr>))" for r
    by (rule same_frame_trans [OF _ same_frame_Abort]) (simp add: f)
  have st: "tx_status (rm_AbortTransaction t) = TxnAborted" for t by (simp add: rm_AbortTransaction_def)
  show ?thesis
  proof (cases "bm_FindBranch (tx_branches ?t) w")
    case None
    with assms w abr st show ?thesis by (auto simp: tm_SelectWinnerAndCommit_def Let_def)
  next
    case (Some i)
    let ?v = "vm_ValidateWinner (tx_branches ?t ! i) (kv_GetVersion kv (fst st))"
    let ?tv = "?t\<lparr>tx_validation_result := ?v\<rparr>"
    show ?thesis
    proof (cases "vr_success ?v")
      case False
      with assms w Some abr st show ?thesis by (auto simp: tm_SelectWinnerAndCommit_def Let_def)
    next
      case True
      with assms w Some obtain committed t1 st1 f1
        where c: "CommitWinner kv ?tv (tx_branches ?t ! i) st default_ValidationResult = Inr (committed, t1, st1, f1)"
        by (auto simp: tm_SelectWinnerAndCommit_def Let_def split: sum.splits)
      obtain l where l: "t1 = ?tv\<lparr>tx_commit_log := l\<rparr>" using CommitWinner_txn [OF c] by blast
      have ft1: "same_frame txn t1" by (simp add: l f)
      show ?thesis
      proof (cases committed)
        case False
        have "same_frame txn (rm_AbortTransaction (t1\<lparr>tx_validation_result := f1\<rparr>))"
          by (rule same_frame_trans [OF _ same_frame_Abort]) (simp add: ft1)
        with assms w Some True c False st show ?thesis
          by (auto simp: tm_SelectWinnerAndCommit_def Let_def)
      next
        case committedT: True
        let ?bs = "(tx_branches t1)[i := (tx_branches t1 ! i)\<lparr>bc_status := kCommitted\<rparr>]"
        let ?bs' = "map (\<lambda>b. if bc_branch_id b \<noteq> w then rm_DiscardBranch b else b) ?bs"
        have i: "i < length (tx_branches t1)" using FindBranch_bound [OF Some] by (simp add: l)
        have "map bc_branch_id ?bs' = map bc_branch_id ?bs"
          by (simp only: map_map) (rule map_cong, simp_all)
        also have "\<dots> = map bc_branch_id (tx_branches t1)" using i by (intro map_list_update_same) simp_all
        finally have ids: "map bc_branch_id ?bs' = map bc_branch_id (tx_branches t1)" .
        have inv: "\<forall>b \<in> set ?bs'. branch_inv b" if "\<forall>b \<in> set (tx_branches t1). branch_inv b"
          using that i set_update_subset_insert [of "tx_branches t1" i "(tx_branches t1 ! i)\<lparr>bc_status := kCommitted\<rparr>"]
          by (auto simp: DiscardBranch_inv)
        let ?tc = "t1\<lparr>tx_status := TxnCommitted\<rparr>"
        have tb: "tx_branches ?tc = tx_branches t1" by simp
        have "same_frame ?tc (?tc\<lparr>tx_branches := ?bs'\<rparr>)"
          by (rule same_frame_branches; unfold tb) (fact ids, fact inv)
        then have "same_frame txn (?tc\<lparr>tx_branches := ?bs'\<rparr>)"
          by (rule same_frame_trans [rotated]) (simp add: ft1)
        moreover have "ok \<and> txn' = t1\<lparr>tx_status := TxnCommitted, tx_branches := ?bs'\<rparr>"
          using assms w Some True c committedT by (simp add: tm_SelectWinnerAndCommit_def Let_def)
        ultimately show ?thesis by simp
      qed
    qed
  qed
qed

section \<open>The operations of a client\<close>

datatype TaskOp =
    DoRead string string
  | DoWrite string string ObjectType WriteIntent
  | DoSavepoint string string
  | DoRollback string string
  | DoStage string double string

fun task_op :: "'s RuntimeCore \<Rightarrow> 's sys \<Rightarrow> TaskOp \<Rightarrow> TaskSession \<Rightarrow> TaskSession" where
  "task_op rt st (DoRead b k) s = snd (rt_Read rt b k st s)"
| "task_op rt st (DoWrite b k t i) s = rt_Write rt b k t i st s"
| "task_op rt st (DoSavepoint b p) s = rt_Savepoint b p s"
| "task_op rt st (DoRollback b p) s = snd (rt_RollbackToSavepoint b p s)"
| "task_op rt st (DoStage b d m) s = rt_StageBranch b d m s"

text \<open>A step of a session; the system may have changed in any way since the last one.\<close>

inductive task_step :: "'s RuntimeCore \<Rightarrow> TaskSession \<Rightarrow> TaskSession \<Rightarrow> bool" for rt where
  step_op: "task_step rt s (task_op rt st op s)"
| step_commit: "rt_CommitTask rt s st = (r, s', st') \<Longrightarrow> task_step rt s s'"
| step_abort: "task_step rt s (rt_AbortTask s)"

inductive task_reachable :: "'s RuntimeCore \<Rightarrow> TaskSession \<Rightarrow> bool" for rt where
  submit: "SubmitTask rt task plan = Inr s \<Longrightarrow> task_reachable rt s"
| step: "task_reachable rt s \<Longrightarrow> task_step rt s s' \<Longrightarrow> task_reachable rt s'"

inductive_cases task_stepE: "task_step rt s s'"

section \<open>The invariant\<close>

definition attempts :: "TaskEvent list \<Rightarrow> nat" where
  "attempts es = length (filter (\<lambda>e. te_type e = EvCommitAttempt) es)"

lemma attempts_simps [simp]:
  "attempts [] = 0" "attempts (es @ fs) = attempts es + attempts fs"
  "attempts (e # es) = (if te_type e = EvCommitAttempt then 1 else 0) + attempts es"
  by (simp_all add: attempts_def)

text \<open>The parts of a session that its identity and its plan fix, and the state of its transaction.\<close>

definition txn_ok :: "'s RuntimeCore \<Rightarrow> string \<Rightarrow> ExecutionPlan \<Rightarrow> AgentTxnContext \<Rightarrow> bool" where
  "txn_ok rt task_id plan txn \<longleftrightarrow>
     tx_txn_id txn = ''txn:'' @ task_id \<and> tx_task_id txn = task_id \<and>
     (SupportsAtomicBatchConditionalWrite (tk_store rt) \<longrightarrow> fcc_artifact_path (tx_fallback_commit txn) = []) \<and>
     map bc_branch_id (tx_branches txn) = CandidateBranchIds plan \<and>
     (\<forall>b \<in> set (tx_branches txn). branch_inv b)"

definition session_ok :: "'s RuntimeCore \<Rightarrow> TaskSession \<Rightarrow> bool" where
  "session_ok rt s \<longleftrightarrow>
     task_Validate (ts_task s) = Inr () \<and> plan_Validate (ts_plan s) = Inr () \<and>
     txn_ok rt (tc_task_id (ts_task s)) (ts_plan s) (ts_txn s) \<and>
     numbered (ts_events s) \<and> ts_commit_attempts s = attempts (ts_events s) \<and>
     (tc_phase (ts_task s), ts_committed s, tx_status (ts_txn s)) \<in>
       {(TaskRunning, False, TxnRunning), (TaskCommitted, True, TxnCommitted), (TaskAborted, False, TxnAborted)}"

lemma txn_ok_frame: "txn_ok rt i p t \<Longrightarrow> same_frame t t' \<Longrightarrow> txn_ok rt i p t'"
  by (auto simp: txn_ok_def same_frame_def)

lemma session_ok_record:
  "session_ok rt s \<Longrightarrow> same_frame (ts_txn s) txn \<Longrightarrow> tx_status txn = tx_status (ts_txn s) \<Longrightarrow>
     t \<noteq> EvCommitAttempt \<Longrightarrow> session_ok rt (RecordEvent t b k d n (s\<lparr>ts_txn := txn\<rparr>))"
  by (auto simp: session_ok_def numbered_def intro: txn_ok_frame)

lemma session_ok_txn:
  "session_ok rt s \<Longrightarrow> same_frame (ts_txn s) txn \<Longrightarrow> tx_status txn = tx_status (ts_txn s) \<Longrightarrow>
     session_ok rt (s\<lparr>ts_txn := txn\<rparr>)"
  by (auto simp: session_ok_def intro: txn_ok_frame)

lemma same_frame_on_branch:
  assumes "\<And>b. bc_branch_id (f b) = bc_branch_id b" and "\<And>b. branch_inv b \<Longrightarrow> branch_inv (f b)"
  shows "same_frame txn (on_branch i f txn)"
proof -
  have "(\<forall>b \<in> set (tx_branches txn). branch_inv b) \<longrightarrow> (\<forall>b \<in> set (tx_branches (on_branch i f txn)). branch_inv b)"
    using on_branch_all [of txn branch_inv f i] assms(2) by blast
  then show ?thesis using on_branch_ids [of f i txn] assms(1) by (simp add: same_frame_def)
qed

text \<open>Reading and rolling back also go through the branch found.\<close>

lemma txn_Read_on_branch: "snd (txn_Read b k V txn) = on_branch b (\<lambda>x. snd (bm_ReadObject k V x)) txn"
  by (simp add: txn_Read_def on_branch_def split: option.split prod.split)

lemma txn_Rollback_on_branch:
  "snd (txn_RollbackToSavepoint b p txn) = on_branch b (\<lambda>x. snd (rm_RollbackToSavepoint p x)) txn"
  by (simp add: txn_RollbackToSavepoint_def on_branch_def split: option.split prod.split)

lemma Rollback_id: "bc_branch_id (snd (rm_RollbackToSavepoint p b)) = bc_branch_id b"
  by (simp add: rm_RollbackToSavepoint_def Let_def split: option.split)

lemma Savepoint_id: "bc_branch_id (bm_CreateSavepoint p b) = bc_branch_id b"
  by (simp add: bm_CreateSavepoint_def)

lemma Stage_id: "bc_branch_id (bm_StageBranch d m b) = bc_branch_id b"
  by (simp add: bm_StageBranch_def)

lemmas txn_op_frames =
  same_frame_on_branch [OF bm_ReadObject_frame(4) branch_inv_Read]
  same_frame_on_branch [OF bm_BufferWrite_frame(4) branch_inv_Write]
  same_frame_on_branch [OF Savepoint_id branch_inv_Savepoint]
  same_frame_on_branch [OF Rollback_id branch_inv_Rollback]
  same_frame_on_branch [OF Stage_id branch_inv_Stage]

lemmas rt_defs = rt_Read_def rt_Write_def rt_Savepoint_def rt_RollbackToSavepoint_def rt_StageBranch_def

lemma task_op_txn:
  "ts_txn (task_op rt st op s) =
     (case op of
        DoRead b k \<Rightarrow> on_branch b (\<lambda>x. snd (bm_ReadObject k (kv_Get (tk_store rt) (fst st)) x)) (ts_txn s)
      | DoWrite b k t i \<Rightarrow> on_branch b (bm_BufferWrite k t i (kv_Get (tk_store rt) (fst st))) (ts_txn s)
      | DoSavepoint b p \<Rightarrow> on_branch b (bm_CreateSavepoint p) (ts_txn s)
      | DoRollback b p \<Rightarrow> on_branch b (\<lambda>x. snd (rm_RollbackToSavepoint p x)) (ts_txn s)
      | DoStage b d m \<Rightarrow> on_branch b (bm_StageBranch d m) (ts_txn s))"
  by (cases op)
    (simp_all add: rt_defs Let_def txn_Read_on_branch [symmetric] txn_Write_def txn_Savepoint_def
      txn_Rollback_on_branch [symmetric] txn_StageBranch_def split: prod.split)

lemma task_op_frame:
  "ts_task (task_op rt st op s) = ts_task s" "ts_plan (task_op rt st op s) = ts_plan s"
  "ts_commit_attempts (task_op rt st op s) = ts_commit_attempts s" "ts_committed (task_op rt st op s) = ts_committed s"
  by (cases op; simp add: rt_defs Let_def split: prod.split)+

lemma task_op_same_frame:
  "same_frame (ts_txn s) (ts_txn (task_op rt st op s))"
  "tx_status (ts_txn (task_op rt st op s)) = tx_status (ts_txn s)"
  by (simp_all only: task_op_txn) (cases op; simp add: txn_op_frames)+

lemma task_op_events:
  "\<exists>es. ts_events (task_op rt st op s) = ts_events s @ es \<and> attempts es = 0 \<and>
     map te_sequence_number es = [length (ts_events s)..<length (ts_events s) + length es]"
  by (cases op) (auto simp: rt_defs Let_def split: prod.split)

lemma numbered_append:
  "numbered es \<Longrightarrow> map te_sequence_number fs = [length es..<length es + length fs] \<Longrightarrow> numbered (es @ fs)"
  unfolding numbered_def map_append length_append
  by (simp only: upt_add_eq_append [OF le0, symmetric])

lemma cons_upt: "n # [Suc n..<Suc (n + k)] = [n..<Suc (n + k)]"
  by (subst (2) upt_conv_Cons) simp_all

lemma session_ok_op:
  assumes "session_ok rt s"
  shows "session_ok rt (task_op rt st op s)"
proof -
  obtain es where es: "ts_events (task_op rt st op s) = ts_events s @ es" "attempts es = 0"
      "map te_sequence_number es = [length (ts_events s)..<length (ts_events s) + length es]"
    using task_op_events by blast
  have "numbered (ts_events s @ es)"
    using assms es(3) by (intro numbered_append) (simp_all add: session_ok_def)
  moreover have "txn_ok rt (tc_task_id (ts_task s)) (ts_plan s) (ts_txn (task_op rt st op s))"
    using assms task_op_same_frame(1) unfolding session_ok_def by (blast intro: txn_ok_frame)
  ultimately show ?thesis
    using assms by (simp add: session_ok_def task_op_frame task_op_same_frame(2) es(1,2))
qed

section \<open>Every reachable session\<close>

definition created_event :: "nat \<Rightarrow> BranchPlan \<Rightarrow> TaskEvent" where
  "created_event n p = \<lparr>te_sequence_number = n, te_type = EvCreateBranch, te_branch_id = bp_branch_id p,
     te_object_id = [], te_detail = bp_candidate_id p, te_numeric_value = i64_of_double (bp_initial_priority p)\<rparr>"

fun created_events :: "nat \<Rightarrow> BranchPlan list \<Rightarrow> TaskEvent list" where
  "created_events n [] = []"
| "created_events n (p # ps) = created_event n p # created_events (Suc n) ps"

lemma created_events_facts:
  "length (created_events n ps) = length ps" "attempts (created_events n ps) = 0"
  "map te_sequence_number (created_events n ps) = [n..<n + length ps]"
  by (induction n ps rule: created_events.induct) (auto simp: created_event_def cons_upt simp del: upt_Suc)

lemma submit_branches:
  "fold submit_branch ps s =
     s\<lparr>ts_txn := (ts_txn s)\<lparr>tx_branches := tx_branches (ts_txn s) @ map (\<lambda>p. new_BranchContext (bp_branch_id p)) ps\<rparr>,
       ts_events := ts_events s @ created_events (length (ts_events s)) ps\<rparr>"
  by (induction ps arbitrary: s)
    (simp_all add: submit_branch_def Let_def tm_CreateBranch_def bm_CreateBranch_def RecordEvent_def created_event_def)

text \<open>What \<open>SubmitTask\<close> returns for a valid task and plan.\<close>

definition submitted :: "'s RuntimeCore \<Rightarrow> TaskContext \<Rightarrow> ExecutionPlan \<Rightarrow> TaskSession" where
  "submitted rt task plan =
     \<lparr>ts_task = task\<lparr>tc_phase := TaskRunning\<rparr>, ts_plan = plan,
      ts_txn = (ConfigureFallbackCommit rt (tm_Begin (''txn:'' @ tc_task_id task) (tc_task_id task)))
        \<lparr>tx_branches := map (\<lambda>p. new_BranchContext (bp_branch_id p)) (ep_branch_plans plan)\<rparr>,
      ts_commit_attempts = 0, ts_committed = False,
      ts_events = \<lparr>te_sequence_number = 0, te_type = EvSubmitTask, te_branch_id = [], te_object_id = [],
          te_detail = tc_objective task, te_numeric_value = 0\<rparr> # created_events 1 (ep_branch_plans plan)\<rparr>"

lemma task_Validate_same [simp]:
  "task_Validate (t\<lparr>tc_phase := ph\<rparr>) = task_Validate t" "task_Validate (SetMetadata k v t) = task_Validate t"
  by (simp_all add: task_Validate_def)

lemma Configure_status [simp]: "tx_status (ConfigureFallbackCommit rt t) = tx_status t"
  by (simp add: ConfigureFallbackCommit_def)

lemma new_branch_id [simp]: "bc_branch_id (new_BranchContext i) = i"
  by (simp add: new_BranchContext_def)

lemma Configure_branches [simp]: "tx_branches (ConfigureFallbackCommit rt t) = tx_branches t"
  by (simp add: ConfigureFallbackCommit_def)

lemma SubmitTask_iff:
  "SubmitTask rt task plan = Inr s \<longleftrightarrow>
     task_Validate task = Inr () \<and> plan_Validate plan = Inr () \<and> s = submitted rt task plan"
  by (auto simp: SubmitTask_def submit_branches submitted_def MarkRunning_def RecordEvent_def tm_Begin_def
      split: sum.split)

lemma submitted_ok:
  assumes "task_Validate task = Inr ()" "plan_Validate plan = Inr ()"
  shows "session_ok rt (submitted rt task plan)"
proof -
  have "numbered (ts_events (submitted rt task plan))"
    using cons_upt [of 0 "length (ep_branch_plans plan)"]
    by (simp add: numbered_def submitted_def created_events_facts del: upt_Suc)
  moreover have "txn_ok rt (tc_task_id task) plan (ts_txn (submitted rt task plan))"
    by (auto simp: txn_ok_def submitted_def ConfigureFallbackCommit_def tm_Begin_def CandidateBranchIds_def comp_def)
  ultimately show ?thesis
    using assms by (simp add: session_ok_def submitted_def created_events_facts tm_Begin_def)
qed

lemma session_ok_commit:
  assumes ok: "session_ok rt s" and run: "rt_CommitTask rt s st = (r, s', st')"
  shows "session_ok rt s'"
proof -
  let ?s1 = "RecordEvent EvCommitAttempt [] [] ''commit_attempt'' (of_nat (ts_commit_attempts s + 1))
      (s\<lparr>ts_commit_attempts := ts_commit_attempts s + 1\<rparr>)"
  have s1: "session_ok rt ?s1" using ok by (auto simp: session_ok_def numbered_def)
  show ?thesis
  proof (cases "tm_SelectWinnerAndCommit (tk_store rt) (ts_txn ?s1) st")
    case (Inl e)
    with run s1 show ?thesis by (simp add: rt_CommitTask_def Let_def)
  next
    case (Inr x)
    obtain committed txn st1 where x: "x = (committed, txn, st1)" by (cases x) auto
    note f = commit_frame [OF Inr [unfolded x]]
    let ?fin = "if committed
        then RecordEvent EvCommitTask (tx_winner_branch_id txn) [] (vr_reason (tx_validation_result txn)) 0
          (MarkCommitted (?s1\<lparr>ts_txn := txn\<rparr>))
        else RecordEvent EvAbortTask (tx_winner_branch_id txn) [] (vr_reason (tx_validation_result txn)) 0
          (MarkAborted (?s1\<lparr>ts_txn := txn\<rparr>))"
    have "txn_ok rt (tc_task_id (ts_task s)) (ts_plan s) txn"
      using txn_ok_frame [OF _ f [THEN conjunct1], of rt] s1 by (simp add: session_ok_def)
    then have e: "session_ok rt ?fin"
      using s1 f by (auto simp: session_ok_def numbered_def)
    have "session_ok rt (s\<lparr>ts_task := SetMetadata k v (SetMetadata k' v' (ts_task s))\<rparr>)"
      if "session_ok rt s" for s k v k' v'
      using that by (simp add: session_ok_def)
    note set = this [OF e]
    have "s' = ?fin \<or> (\<exists>k v k' v'. s' = ?fin\<lparr>ts_task := SetMetadata k v (SetMetadata k' v' (ts_task ?fin))\<rparr>)"
      using run Inr x by (simp add: rt_CommitTask_def Let_def split: prod.splits sum.splits if_split_asm) blast+
    with e set show ?thesis by blast
  qed
qed

lemma session_ok_abort: "session_ok rt s \<Longrightarrow> session_ok rt (rt_AbortTask s)"
  using txn_ok_frame [OF _ same_frame_Abort, where rt = rt]
  by (simp add: session_ok_def rt_AbortTask_def numbered_def rm_AbortTransaction_def)

lemma session_ok_step: "task_step rt s s' \<Longrightarrow> session_ok rt s \<Longrightarrow> session_ok rt s'"
  by (induction rule: task_step.induct) (auto intro: session_ok_op session_ok_commit session_ok_abort)

lemma reachable_session_ok: "task_reachable rt s \<Longrightarrow> session_ok rt s"
  by (induction rule: task_reachable.induct)
    (auto simp: SubmitTask_iff submitted_ok intro: session_ok_step)

text \<open>
  C13. Every session that a client can reach through the runtime, whatever happens to the store
  in between, is in one of three states: running, committed or aborted, and its phase, its flag
  and the status of its transaction agree. Its events are numbered by position, it has counted
  its commit attempts, its branches are those of its plan in order, and each branch satisfies the
  branch invariant.
\<close>

theorem session_invariant:
  assumes "task_reachable rt s"
  shows "(tc_phase (ts_task s), ts_committed s, tx_status (ts_txn s)) \<in>
      {(TaskRunning, False, TxnRunning), (TaskCommitted, True, TxnCommitted), (TaskAborted, False, TxnAborted)} \<and>
    map te_sequence_number (ts_events s) = [0..<length (ts_events s)] \<and>
    ts_commit_attempts s = attempts (ts_events s) \<and>
    tx_txn_id (ts_txn s) = ''txn:'' @ tc_task_id (ts_task s) \<and>
    map bc_branch_id (tx_branches (ts_txn s)) = CandidateBranchIds (ts_plan s) \<and>
    (\<forall>b \<in> set (tx_branches (ts_txn s)). branch_inv b)"
  using reachable_session_ok [OF assms] by (simp add: session_ok_def txn_ok_def numbered_def)

section \<open>The commit of a session\<close>

definition ended_events :: "TaskSession \<Rightarrow> bool \<Rightarrow> AgentTxnContext \<Rightarrow> TaskEvent list" where
  "ended_events s ok txn =
     [\<lparr>te_sequence_number = length (ts_events s), te_type = EvCommitAttempt, te_branch_id = [],
       te_object_id = [], te_detail = ''commit_attempt'', te_numeric_value = of_nat (ts_commit_attempts s + 1)\<rparr>,
      \<lparr>te_sequence_number = length (ts_events s) + 1,
       te_type = (if ok then EvCommitTask else EvAbortTask),
       te_branch_id = tx_winner_branch_id txn, te_object_id = [],
       te_detail = vr_reason (tx_validation_result txn), te_numeric_value = 0\<rparr>]"

lemma CommitTask_no_artifact:
  assumes "tm_SelectWinnerAndCommit (tk_store rt) (ts_txn s) st = Inr (ok, txn, st')"
    and "fcc_artifact_path (tx_fallback_commit txn) = []"
  shows "rt_CommitTask rt s st =
    (Inr ok, s\<lparr>ts_task := (ts_task s)\<lparr>tc_phase := if ok then TaskCommitted else TaskAborted\<rparr>, ts_txn := txn,
       ts_commit_attempts := ts_commit_attempts s + 1, ts_committed := ok,
       ts_events := ts_events s @ ended_events s ok txn\<rparr>, st')"
  using assms
  by (simp add: rt_CommitTask_def Let_def FinalizeFallbackCommitArtifact_def ended_events_def RecordEvent_def
      MarkCommitted_def MarkAborted_def)

lemma commit_outcome:
  assumes plan: "plan_Validate (ts_plan s) = Inr ()" and ok: "txn_ok rt i (ts_plan s) (ts_txn s)"
    and kv: "batch_store (tk_store rt) ok_state" and st: "ok_state st"
    and scores: "\<forall>b \<in> set (tx_branches (ts_txn s)). cr_score (bc_candidate_result b) \<noteq> DNaN"
  shows "\<exists>ok txn' st'. rt_CommitTask rt s st =
      (Inr ok, s\<lparr>ts_task := (ts_task s)\<lparr>tc_phase := if ok then TaskCommitted else TaskAborted\<rparr>, ts_txn := txn',
         ts_commit_attempts := ts_commit_attempts s + 1, ts_committed := ok,
         ts_events := ts_events s @ ended_events s ok txn'\<rparr>, st') \<and> ok_state st' \<and>
    tm_SelectWinnerAndCommit (tk_store rt) (ts_txn s) st = Inr (ok, txn', st') \<and>
    outcome_of (tx_branches (ts_txn s)) (best_branch (tx_branches (ts_txn s)))
      (kv_Get (tk_store rt) (fst st)) ok txn' (kv_Get (tk_store rt) (fst st'))"
proof -
  let ?bs = "tx_branches (ts_txn s)"
  have ids: "map bc_branch_id ?bs = CandidateBranchIds (ts_plan s)" and inv: "\<forall>b \<in> set ?bs. branch_inv b"
    and path: "fcc_artifact_path (tx_fallback_commit (ts_txn s)) = []"
    using ok batch_store.batch_supported [OF kv] by (auto simp: txn_ok_def)
  have "?bs \<noteq> []" "distinct (map bc_branch_id ?bs)"
    using ids plan by (auto simp: CandidateBranchIds_def plan_Validate_iff)
  then obtain c txn' st' where r: "tm_SelectWinnerAndCommit (tk_store rt) (ts_txn s) st = Inr (c, txn', st')" "ok_state st'"
      "outcome_of ?bs (best_branch ?bs) (kv_Get (tk_store rt) (fst st)) c txn' (kv_Get (tk_store rt) (fst st'))"
    using transaction_outcome_lemma [OF kv st inv _ _ scores] by blast
  have "fcc_artifact_path (tx_fallback_commit txn') = []"
    using commit_frame [OF r(1)] path by (simp add: same_frame_def)
  from CommitTask_no_artifact [OF r(1) this] r show ?thesis by blast
qed

lemma task_commit_outcome_lemma:
  assumes reach: "task_reachable rt s" and kv: "batch_store (tk_store rt) ok_state" and st: "ok_state st"
    and scores: "\<forall>b \<in> set (tx_branches (ts_txn s)). cr_score (bc_candidate_result b) \<noteq> DNaN"
  shows "\<exists>ok txn' st'. rt_CommitTask rt s st =
      (Inr ok, s\<lparr>ts_task := (ts_task s)\<lparr>tc_phase := if ok then TaskCommitted else TaskAborted\<rparr>, ts_txn := txn',
         ts_commit_attempts := ts_commit_attempts s + 1, ts_committed := ok,
         ts_events := ts_events s @ ended_events s ok txn'\<rparr>, st') \<and> ok_state st' \<and>
    outcome_of (tx_branches (ts_txn s)) (best_branch (tx_branches (ts_txn s)))
      (kv_Get (tk_store rt) (fst st)) ok txn' (kv_Get (tk_store rt) (fst st'))"
  using commit_outcome [OF _ _ kv st scores] reachable_session_ok [OF reach] unfolding session_ok_def by meson

text \<open>
  C14. Committing a reachable session on a store with atomic batches never throws. One branch,
  which no other exceeds in score, is chosen; the task is committed if and only if that branch
  can be committed, and then the store has made exactly that branch's step; otherwise the store
  is unchanged and the task is aborted. The session records the attempt and its outcome.
\<close>

theorem task_commit_outcome:
  assumes "task_reachable rt s" and "batch_store (tk_store rt) ok_state" and "ok_state st"
    and "\<forall>b \<in> set (tx_branches (ts_txn s)). cr_score (bc_candidate_result b) \<noteq> DNaN"
  shows "\<exists>ok s' st' w. rt_CommitTask rt s st = (Inr ok, s', st') \<and> ok_state st' \<and>
    outcome_of (tx_branches (ts_txn s)) w (kv_Get (tk_store rt) (fst st)) ok (ts_txn s')
      (kv_Get (tk_store rt) (fst st')) \<and>
    ts_committed s' = ok \<and> tc_phase (ts_task s') = (if ok then TaskCommitted else TaskAborted) \<and>
    ts_commit_attempts s' = ts_commit_attempts s + 1 \<and>
    ts_events s' = ts_events s @ ended_events s ok (ts_txn s')"
proof -
  obtain ok txn' st' where "rt_CommitTask rt s st =
      (Inr ok, s\<lparr>ts_task := (ts_task s)\<lparr>tc_phase := if ok then TaskCommitted else TaskAborted\<rparr>, ts_txn := txn',
         ts_commit_attempts := ts_commit_attempts s + 1, ts_committed := ok,
         ts_events := ts_events s @ ended_events s ok txn'\<rparr>, st')" (is "_ = (_, ?s, _)")
      and "ok_state st'" "outcome_of (tx_branches (ts_txn s)) (best_branch (tx_branches (ts_txn s)))
      (kv_Get (tk_store rt) (fst st)) ok txn' (kv_Get (tk_store rt) (fst st'))"
    using task_commit_outcome_lemma [OF assms] by blast
  then show ?thesis
    by (intro exI [of _ ok] exI [of _ ?s] exI [of _ st'] exI [of _ "best_branch (tx_branches (ts_txn s))"]) simp
qed

end
