(* ===== verification/Task_Live.thy ===== *)
theory Task_Live
  imports Task_Session
begin

text \<open>
  Tasks that commit: a session whose branches only read, overwrite and append, on a store that
  nobody else changes, always commits. The facts on single branches are in terms of
  \<open>branch_fresh\<close>, which says that a branch is up to date with a view, whatever its intents, and of
  \<open>intents_all\<close>, which says what intents it has.
\<close>

section \<open>Branches that are up to date\<close>

definition plain_type :: "IntentType \<Rightarrow> bool" where
  "plain_type t \<longleftrightarrow> t \<in> {kRead, kOverwrite, kAppend}"

definition entry_fresh :: "view \<Rightarrow> ObjectCacheEntry \<Rightarrow> WriteIntent \<Rightarrow> bool" where
  "entry_fresh V e i \<longleftrightarrow> ce_object_id e = wi_object_id i \<and>
     ce_base_version e = vv_version (V (ce_object_id e))"

definition branch_fresh :: "view \<Rightarrow> BranchContext \<Rightarrow> bool" where
  "branch_fresh V b \<longleftrightarrow>
     (\<exists>es. bc_write_buffer b = wb_of es \<and> list_all2 (entry_fresh V) es (bc_intent_log b)) \<and>
     (\<forall>r \<in> set (bc_read_set b). rd_observed_version r = vv_version (V (rd_object_id r))) \<and>
     (\<forall>sp \<in> set (bc_savepoints b). sp_write_log_position sp = sp_intent_log_position sp)"

definition intents_all :: "(WriteIntent \<Rightarrow> bool) \<Rightarrow> BranchContext \<Rightarrow> bool" where
  "intents_all P b \<longleftrightarrow> (\<forall>i \<in> set (bc_intent_log b). P i)"

abbreviation branch_plain :: "BranchContext \<Rightarrow> bool" where
  "branch_plain \<equiv> intents_all (\<lambda>i. plain_type (wi_intent_type i))"

text \<open>The intents that the values of a view let a commit resolve.\<close>

definition intent_resolves :: "view \<Rightarrow> WriteIntent \<Rightarrow> bool" where
  "intent_resolves V i \<longleftrightarrow>
     (case wi_intent_type i of
        kDelta \<Rightarrow> ParseInt (vv_value (V (wi_object_id i))) \<noteq> None \<and> ParseInt (wi_payload i) \<noteq> None
      | kCas \<Rightarrow> cond_type (wi_condition i) = kValueEquals \<longrightarrow>
          vv_value (V (wi_object_id i)) = cond_expected_value (wi_condition i)
      | kIntentOther _ \<Rightarrow> False
      | _ \<Rightarrow> True)"

lemma plain_intent_resolves: "plain_type (wi_intent_type i) \<Longrightarrow> intent_resolves V i"
  by (auto simp: plain_type_def intent_resolves_def)

lemma intent_resolves_ResolveWrite:
  "intent_resolves V i \<Longrightarrow> rr_success (ResolveWrite e i (vv_value (V (wi_object_id i))))"
  by (auto simp: intent_resolves_def ResolveWrite_def default_ResolveResult_def Let_def
      split: IntentType.splits option.splits)

lemma fresh_new: "branch_fresh V (new_BranchContext i)"
  by (auto simp: branch_fresh_def new_BranchContext_def intro: exI [of _ "[]"])

lemma fresh_Read: "branch_fresh V b \<Longrightarrow> branch_fresh V (snd (bm_ReadObject k V b))"
  by (auto simp: branch_fresh_def bm_ReadObject_def Let_def rs_Record_def split: option.splits)

lemma fresh_latest:
  assumes "list_all2 (entry_fresh V) es is" "latest_entry es k = Some e"
  shows "ce_base_version e = vv_version (V k)" "\<exists>i. latest_intent is k = Some i \<and> i \<in> set is"
proof -
  from assms(2) have e: "ce_object_id e = k" "e \<in> set es" by (auto dest: latest_entry_id)
  obtain n where n: "n < length es" "es ! n = e" using e(2) by (auto simp: in_set_conv_nth)
  with assms(1) have ei: "entry_fresh V e (is ! n)" "n < length is"
    by (auto simp: list_all2_conv_all_nth)
  then show "ce_base_version e = vv_version (V k)" using e by (simp add: entry_fresh_def)
  have "\<exists>x \<in> set is. wi_object_id x = k" using ei e by (auto simp: entry_fresh_def intro: bexI [of _ "is ! n"])
  then obtain i where i: "latest_intent is k = Some i"
    by (cases "latest_intent is k") (auto simp: latest_intent_def find_None_iff)
  then have "i \<in> set is" by (auto simp: latest_intent_def find_Some_iff) (metis length_rev nth_mem set_rev)
  with i show "\<exists>i. latest_intent is k = Some i \<and> i \<in> set is" by blast
qed

lemma fresh_Write:
  assumes f: "branch_fresh V b" and i: "wi_object_id i = k"
  shows "branch_fresh V (bm_BufferWrite k t i V b)"
proof -
  from f obtain es where es: "bc_write_buffer b = wb_of es" "list_all2 (entry_fresh V) es (bc_intent_log b)"
    unfolding branch_fresh_def by blast
  let ?e = "buffered_entry k t i V b"
  have id: "ce_object_id ?e = k" and bv: "ce_base_version ?e = vv_version (V k)"
  proof -
    show "ce_object_id ?e = k"
      using latest_entry_id [of es k]
      by (auto simp: buffered_entry_def Let_def es wb_Find_of fresh_entry_def split: option.split)
    show "ce_base_version ?e = vv_version (V k)"
      using fresh_latest(1) [OF es(2)]
      by (auto simp: buffered_entry_def Let_def es wb_Find_of fresh_entry_def split: option.split)
  qed
  have "list_all2 (entry_fresh V) (es @ [?e]) (bc_intent_log b @ [i])"
    using es(2) i id bv by (auto simp: entry_fresh_def intro: list_all2_appendI)
  moreover have "bc_write_buffer (bm_BufferWrite k t i V b) = wb_of (es @ [?e])"
    by (simp add: bm_BufferWrite_frame es)
  ultimately show ?thesis
    using f unfolding branch_fresh_def bm_BufferWrite_frame(2,3,5) by blast
qed

lemma fresh_Savepoint:
  assumes "branch_fresh V b"
  shows "branch_fresh V (bm_CreateSavepoint p b)"
proof -
  from assms obtain es where es: "bc_write_buffer b = wb_of es" "list_all2 (entry_fresh V) es (bc_intent_log b)"
    unfolding branch_fresh_def by blast
  then have "wb_Size (bc_write_buffer b) = il_Size (bc_intent_log b)"
    by (simp add: wb_Size_def il_Size_def list_all2_lengthD)
  with assms show ?thesis by (auto simp: branch_fresh_def bm_CreateSavepoint_def)
qed

lemma fresh_Rollback:
  assumes f: "branch_fresh V b"
  shows "branch_fresh V (snd (rm_RollbackToSavepoint p b))"
proof (cases "find_index (\<lambda>sp. sp_savepoint_id sp = p) (bc_savepoints b)")
  case None
  with f show ?thesis by (simp add: rm_RollbackToSavepoint_def)
next
  case (Some i)
  then have i: "i < length (bc_savepoints b)" by (auto dest: find_index_Some)
  let ?sp = "bc_savepoints b ! i"
  from f obtain es where es: "bc_write_buffer b = wb_of es" "list_all2 (entry_fresh V) es (bc_intent_log b)"
    unfolding branch_fresh_def by blast
  have pos: "sp_write_log_position ?sp = sp_intent_log_position ?sp" using f i by (auto simp: branch_fresh_def)
  have "list_all2 (entry_fresh V) (take n es) (take n (bc_intent_log b))" for n
    by (rule list_all2_takeI [OF es(2)])
  then show ?thesis
    using f i by (auto simp: branch_fresh_def rm_RollbackToSavepoint_def Some Let_def es(1) wb_Truncate_of pos
        dest: in_set_takeD)
qed

lemma fresh_Stage: "branch_fresh V b \<Longrightarrow> branch_fresh V (bm_StageBranch d m b)"
  by (simp add: branch_fresh_def bm_StageBranch_def)

text \<open>The intents of a branch are those it has written.\<close>

lemma intents_keep:
  "intents_all P (new_BranchContext i)"
  "intents_all P b \<Longrightarrow> intents_all P (snd (bm_ReadObject k V b))"
  "intents_all P b \<Longrightarrow> P x \<Longrightarrow> intents_all P (bm_BufferWrite k t x V b)"
  "intents_all P b \<Longrightarrow> intents_all P (bm_CreateSavepoint p b)"
  "intents_all P b \<Longrightarrow> intents_all P (snd (rm_RollbackToSavepoint p b))"
  "intents_all P b \<Longrightarrow> intents_all P (bm_StageBranch d m b)"
  by (auto simp: intents_all_def new_BranchContext_def bm_ReadObject_frame bm_BufferWrite_frame bm_CreateSavepoint_def
      bm_StageBranch_def rm_RollbackToSavepoint_def Let_def il_Truncate_def split: option.split dest: in_set_takeD)

text \<open>
  An up-to-date branch finds every version it relies on, so that only a write that cannot be
  resolved keeps it from committing; plain intents always resolve.
\<close>

lemma fresh_entry_of:
  assumes "branch_fresh V b" "k \<in> buffered_keys b"
  shows "\<exists>e i. wb_Find (bc_write_buffer b) k = Some e \<and> ce_base_version e = vv_version (V k) \<and>
    latest_intent (bc_intent_log b) k = Some i \<and> i \<in> set (bc_intent_log b)"
proof -
  from assms(1) obtain es where es: "bc_write_buffer b = wb_of es" "list_all2 (entry_fresh V) es (bc_intent_log b)"
    unfolding branch_fresh_def by blast
  have "buffered_keys b = set (write_order es)" by (simp add: buffered_keys_def es wb_order_of)
  with assms(2) latest_entry_some obtain e where e: "latest_entry es k = Some e" by blast
  with fresh_latest [OF es(2) e] show ?thesis by (auto simp: es wb_Find_of)
qed

lemma fresh_possible_iff:
  assumes f: "branch_fresh V b" shows "commit_possible b V \<longleftrightarrow> writes_resolve b V"
proof -
  have "vv_version (V k) = base_version_of b k" if "writes_key b k" for k
    using fresh_entry_of [OF f, of k] that by (auto simp: writes_key_def base_version_of_def)
  then show ?thesis
    using f unfolding commit_possible_def versions_ok_def reads_agree_def branch_fresh_def by auto
qed

lemma intents_resolve:
  assumes f: "branch_fresh V b" and p: "intents_all (intent_resolves V) b" shows "writes_resolve b V"
  unfolding writes_resolve_def
proof
  fix k assume "k \<in> buffered_keys b"
  from fresh_entry_of [OF f this] obtain e i where e: "wb_Find (bc_write_buffer b) k = Some e"
      "latest_intent (bc_intent_log b) k = Some i" "i \<in> set (bc_intent_log b)" by blast
  moreover have "wi_object_id i = k" using e(2) by (auto simp: latest_intent_def find_Some_iff)
  moreover have "intent_resolves V i" using p e(3) by (simp add: intents_all_def)
  ultimately show "case (wb_Find (bc_write_buffer b) k, latest_intent (bc_intent_log b) k) of
      (Some e, Some i) \<Rightarrow> rr_success (ResolveWrite e i (vv_value (V k))) | _ \<Rightarrow> False"
    using intent_resolves_ResolveWrite [of V i e] by simp
qed

lemma fresh_possible: "branch_fresh V b \<Longrightarrow> branch_plain b \<Longrightarrow> commit_possible b V"
  using intents_resolve [of V b] by (simp add: fresh_possible_iff intents_all_def plain_intent_resolves)

section \<open>Branches with one write\<close>

text \<open>A staged branch that has written one key once: what it writes depends on its intent only.\<close>

lemma written_facts:
  assumes inv: "branch_inv b" and wb: "bc_write_buffer b = empty_WriteBuffer" "bc_intent_log b = []"
    and i: "wi_object_id i = k" and x: "x = bm_StageBranch d m (bm_BufferWrite k t i V b)"
  shows "buffered_keys x = {k}" "latest_intent (bc_intent_log x) q = (if q = k then Some i else None)"
    "wb_Find (bc_write_buffer x) k = Some (buffered_entry k t i V b)"
    "wb_Find (bc_write_buffer b) k = None"
    "cr_score (bc_candidate_result x) = d" "bc_read_set x = bc_read_set b" "bc_branch_id x = bc_branch_id b"
proof -
  let ?w = "bm_BufferWrite k t i V b"
  have log: "bc_intent_log x = [i]" "bc_write_buffer x = bc_write_buffer ?w"
    by (simp_all add: x bm_StageBranch_def bm_BufferWrite_frame wb)
  show "latest_intent (bc_intent_log x) q = (if q = k then Some i else None)"
    by (simp add: log latest_intent_def i)
  show "buffered_keys x = {k}"
    by (simp add: buffered_keys_def log(2) bm_BufferWrite_frame wb wb_Upsert_def empty_WriteBuffer_def
        buffered_entry_frame [OF inv])
  show "wb_Find (bc_write_buffer b) k = None" by (simp add: wb wb_Find_def empty_WriteBuffer_def)
  show "wb_Find (bc_write_buffer x) k = Some (buffered_entry k t i V b)"
    by (simp add: log(2) wb_Find_BufferWrite [OF inv])
  show "cr_score (bc_candidate_result x) = d" "bc_read_set x = bc_read_set b" "bc_branch_id x = bc_branch_id b"
    by (simp_all add: x bm_StageBranch_def bm_BufferWrite_frame)
qed

lemma appended_facts:
  assumes inv: "branch_inv b" and wb: "bc_write_buffer b = empty_WriteBuffer" "bc_intent_log b = []"
    and x: "x = bm_StageBranch d m (bm_BufferWrite k t (typed_intent k kAppend p) V b)"
  shows "writes_key x q \<longleftrightarrow> q = k" "rebased_key x k" "committed_value x W k = vv_value (W k) @ p"
    "writes_resolve x W" "cr_score (bc_candidate_result x) = d" "bc_read_set x = bc_read_set b"
proof -
  note f = written_facts [OF inv wb typed_intent_sel(3) x]
  show "writes_key x q \<longleftrightarrow> q = k" "rebased_key x k" by (auto simp: writes_key_def rebased_key_def f)
  show "committed_value x W k = vv_value (W k) @ p" "writes_resolve x W"
    by (simp_all add: f buffered_entry_frame [OF inv] Let_def intent_value_def fresh_entry_def
      committed_value_def writes_resolve_def ResolveWrite_append)
  show "cr_score (bc_candidate_result x) = d" "bc_read_set x = bc_read_set b" by (simp_all add: f)
qed

lemma overwritten_facts:
  assumes inv: "branch_inv b" and wb: "bc_write_buffer b = empty_WriteBuffer" "bc_intent_log b = []"
    and i: "wi_object_id i = k" "wi_intent_type i = kOverwrite"
    and x: "x = bm_StageBranch d m (bm_BufferWrite k t i V b)"
  shows "writes_key x q \<longleftrightarrow> q = k" "\<not> rebased_key x q" "committed_value x W k = wi_payload i"
    "writes_resolve x W" "base_version_of x k = vv_version (V k)"
proof -
  note f = written_facts [OF inv wb i(1) x]
  have e: "ce_current_value (buffered_entry k t i V b) = wi_payload i"
      "ce_base_version (buffered_entry k t i V b) = vv_version (V k)"
    by (simp_all add: buffered_entry_def Let_def f(4) intent_value_def i fresh_entry_def)
  show "writes_key x q \<longleftrightarrow> q = k" "\<not> rebased_key x q" by (auto simp: writes_key_def rebased_key_def f i)
  show "committed_value x W k = wi_payload i" "writes_resolve x W"
    by (simp_all add: f e committed_value_def writes_resolve_def ResolveWrite_def default_ResolveResult_def i)
  show "base_version_of x k = vv_version (V k)" by (simp add: base_version_of_def f e)
qed

section \<open>Undisturbed sessions\<close>

fun fresh_op :: "TaskOp \<Rightarrow> bool" where
  "fresh_op (DoWrite b k t i) \<longleftrightarrow> wi_object_id i = k"
| "fresh_op (DoStage b d m) \<longleftrightarrow> d \<noteq> DNaN"
| "fresh_op _ \<longleftrightarrow> True"

fun plain_op :: "TaskOp \<Rightarrow> bool" where
  "plain_op (DoWrite b k t i) \<longleftrightarrow> wi_object_id i = k \<and> plain_type (wi_intent_type i)"
| "plain_op (DoStage b d m) \<longleftrightarrow> d \<noteq> DNaN"
| "plain_op _ \<longleftrightarrow> True"

lemma plain_op_fresh: "plain_op op \<Longrightarrow> fresh_op op"
  by (cases op) simp_all

definition session_fresh :: "view \<Rightarrow> TaskSession \<Rightarrow> bool" where
  "session_fresh V s \<longleftrightarrow>
     (\<forall>b \<in> set (tx_branches (ts_txn s)). branch_fresh V b \<and> cr_score (bc_candidate_result b) \<noteq> DNaN)"

definition session_plain :: "TaskSession \<Rightarrow> bool" where
  "session_plain s \<longleftrightarrow> (\<forall>b \<in> set (tx_branches (ts_txn s)). branch_plain b)"

lemma score_frames:
  "cr_score (bc_candidate_result (snd (rm_RollbackToSavepoint p b))) = cr_score (bc_candidate_result b)"
  "cr_score (bc_candidate_result (bm_CreateSavepoint p b)) = cr_score (bc_candidate_result b)"
  "cr_score (bc_candidate_result (bm_StageBranch d m b)) = d"
  by (simp_all add: rm_RollbackToSavepoint_def bm_CreateSavepoint_def bm_StageBranch_def Let_def split: option.split)

lemma session_fresh_op:
  assumes "session_fresh (kv_Get (tk_store rt) (fst st)) s" "fresh_op op"
  shows "session_fresh (kv_Get (tk_store rt) (fst st)) (task_op rt st op s)"
  unfolding session_fresh_def task_op_txn
  using assms
  by (cases op; simp; intro on_branch_all)
    (auto simp: session_fresh_def fresh_Read fresh_Write fresh_Savepoint fresh_Rollback fresh_Stage
      bm_ReadObject_frame bm_BufferWrite_frame score_frames)

lemma session_plain_op:
  assumes "session_plain s" "plain_op op" shows "session_plain (task_op rt st op s)"
  unfolding session_plain_def task_op_txn
  using assms by (cases op; simp; intro on_branch_all) (auto simp: session_plain_def intents_keep)

lemma session_fresh_run:
  "session_fresh (kv_Get (tk_store rt) (fst st)) s \<Longrightarrow> list_all fresh_op ops \<Longrightarrow>
     session_fresh (kv_Get (tk_store rt) (fst st)) (fold (task_op rt st) ops s)"
  by (induction ops arbitrary: s) (simp_all add: session_fresh_op)

lemma session_plain_run: "session_plain s \<Longrightarrow> list_all plain_op ops \<Longrightarrow> session_plain (fold (task_op rt st) ops s)"
  by (induction ops arbitrary: s) (simp_all add: session_plain_op)

lemma session_plain_submitted: "session_plain (submitted rt task plan)"
  by (auto simp: session_plain_def submitted_def intents_keep)

lemma session_fresh_submitted: "session_fresh V (submitted rt task plan)"
  by (auto simp: session_fresh_def submitted_def fresh_new) (simp add: new_BranchContext_def)

lemma reachable_run: "task_reachable rt s \<Longrightarrow> task_reachable rt (fold (task_op rt st) ops s)"
  by (induction ops arbitrary: s) (auto intro: task_reachable.step step_op)

lemma undisturbed_commit:
  assumes sub: "SubmitTask rt task plan = Inr s0" and ops: "list_all plain_op ops"
    and kv: "batch_store (tk_store rt) ok_state" and st: "ok_state st"
    and s: "s = fold (task_op rt st) ops s0"
  shows "\<exists>txn' st'. rt_CommitTask rt s st =
      (Inr True, s\<lparr>ts_task := (ts_task s)\<lparr>tc_phase := TaskCommitted\<rparr>, ts_txn := txn',
         ts_commit_attempts := ts_commit_attempts s + 1, ts_committed := True,
         ts_events := ts_events s @ ended_events s True txn'\<rparr>, st') \<and> ok_state st' \<and>
    outcome_of (tx_branches (ts_txn s)) (best_branch (tx_branches (ts_txn s)))
      (kv_Get (tk_store rt) (fst st)) True txn' (kv_Get (tk_store rt) (fst st'))"
proof -
  let ?V = "kv_Get (tk_store rt) (fst st)" and ?bs = "tx_branches (ts_txn s)"
  have reach: "task_reachable rt s" unfolding s by (intro reachable_run submit) (rule sub)
  have plain: "session_plain s"
    unfolding s using sub ops by (auto simp: SubmitTask_iff intro: session_plain_run session_plain_submitted)
  have fresh: "session_fresh ?V s"
    unfolding s using sub ops
    by (auto simp: SubmitTask_iff list_all_iff plain_op_fresh intro!: session_fresh_run session_fresh_submitted)
  then have "\<forall>b \<in> set ?bs. cr_score (bc_candidate_result b) \<noteq> DNaN" by (simp add: session_fresh_def)
  from task_commit_outcome_lemma [OF reach kv st this] obtain ok txn' st' where
      r: "rt_CommitTask rt s st =
      (Inr ok, s\<lparr>ts_task := (ts_task s)\<lparr>tc_phase := if ok then TaskCommitted else TaskAborted\<rparr>, ts_txn := txn',
         ts_commit_attempts := ts_commit_attempts s + 1, ts_committed := ok,
         ts_events := ts_events s @ ended_events s ok txn'\<rparr>, st')" "ok_state st'"
      "outcome_of ?bs (best_branch ?bs) ?V ok txn' (kv_Get (tk_store rt) (fst st'))"
    by blast
  have "best_branch ?bs \<in> set ?bs" using r(3) by (simp add: outcome_of_def)
  then have "commit_possible (best_branch ?bs) ?V"
    using fresh plain by (auto simp: session_fresh_def session_plain_def intro: fresh_possible)
  with r(3) have ok by (simp add: outcome_of_def)
  with r show ?thesis by auto
qed

text \<open>
  C15. A task that nobody disturbs commits. When the branches of a submitted task have only read,
  overwritten, appended, made and rolled back savepoints and been staged, in any order and
  number, and no one else has changed the store, \<open>CommitTask\<close> succeeds and the store makes the
  step of a branch with a maximal score.
\<close>

theorem undisturbed_task_commits:
  assumes "SubmitTask rt task plan = Inr s0" and "list_all plain_op ops"
    and "batch_store (tk_store rt) ok_state" and "ok_state st"
  shows "let s = fold (task_op rt st) ops s0; bs = tx_branches (ts_txn s) in
    \<exists>s' st' w. rt_CommitTask rt s st = (Inr True, s', st') \<and> ts_committed s' \<and> w \<in> set bs \<and>
      (\<forall>b \<in> set bs. \<not> dless (cr_score (bc_candidate_result w)) (cr_score (bc_candidate_result b))) \<and>
      kv_Get (tk_store rt) (fst st') = commit_view w (kv_Get (tk_store rt) (fst st))"
proof -
  let ?s = "fold (task_op rt st) ops s0" and ?V = "kv_Get (tk_store rt) (fst st)"
  let ?w = "best_branch (tx_branches (ts_txn ?s))"
  obtain txn' st' where r: "rt_CommitTask rt ?s st =
      (Inr True, ?s\<lparr>ts_task := (ts_task ?s)\<lparr>tc_phase := TaskCommitted\<rparr>, ts_txn := txn',
         ts_commit_attempts := ts_commit_attempts ?s + 1, ts_committed := True,
         ts_events := ts_events ?s @ ended_events ?s True txn'\<rparr>, st')" (is "_ = (_, ?s', _)")
      "outcome_of (tx_branches (ts_txn ?s)) ?w ?V True txn' (kv_Get (tk_store rt) (fst st'))"
    using undisturbed_commit [OF assms refl] by blast
  show ?thesis
    unfolding Let_def
    by (intro exI [of _ ?s'] exI [of _ st'] exI [of _ ?w]) (use r in \<open>simp add: outcome_of_def\<close>)
qed

end
