(* ===== verification/Task_Demo.thy ===== *)
theory Task_Demo
  imports Task_Live
begin

text \<open>
  A concrete task on the in-memory store, with two branches of which one appends to a key and is
  staged, and the properties of sessions at this task.
\<close>

definition demo_runtime :: "MemoryKVStore RuntimeCore" where
  "demo_runtime = \<lparr>tk_store = memory_store, tk_config = default_FallbackCommitRuntimeConfig, tk_error_message = []\<rparr>"

definition demo_task :: TaskContext where
  "demo_task = default_TaskContext\<lparr>tc_task_id := ''t1'', tc_objective := ''extend k'', tc_workload_name := ''demo''\<rparr>"

definition demo_plan :: ExecutionPlan where
  "demo_plan = AddBranchPlan ''B'' ''c2'' [] (DFin 1) (AddBranchPlan ''A'' ''c1'' [] (DFin 0) default_ExecutionPlan)"

definition demo_ops :: "TaskOp list" where
  "demo_ops = [DoRead ''A'' ''k'', DoSavepoint ''A'' ''s'', DoWrite ''A'' ''k'' kGeneric (typed_intent ''k'' kAppend ''+''),
     DoRead ''B'' ''k'', DoStage ''A'' (DFin 2) ''better'']"

definition demo_system :: "MemoryKVStore sys" where
  "demo_system = (demo_mem, calm)"

definition demo_open :: TaskSession where
  "demo_open = fold (task_op demo_runtime demo_system) demo_ops (submitted demo_runtime demo_task demo_plan)"

lemma demo_Submit: "SubmitTask demo_runtime demo_task demo_plan = Inr (submitted demo_runtime demo_task demo_plan)"
  by (simp add: SubmitTask_iff task_Validate_iff plan_Validate_iff demo_task_def demo_plan_def AddBranchPlan_def
      default_ExecutionPlan_def default_TaskContext_def CandidateBranchIds_def)

lemma demo_reachable: "task_reachable demo_runtime demo_open"
  unfolding demo_open_def by (intro reachable_run submit) (rule demo_Submit)

lemma demo_get: "mem_Get demo_mem ''k'' = \<lparr>vv_value = ''old'', vv_version = 3, vv_exists = True\<rparr>"
  by (simp add: demo_mem_def mem_Get_def umap_find_def)

lemma demo_fields [simp]: "tk_store demo_runtime = memory_store" "fst demo_system = demo_mem"
  by (simp_all add: demo_runtime_def demo_system_def)



text \<open>The branches the demonstration ends with.\<close>

definition demo_A :: BranchContext where
  "demo_A = bm_StageBranch (DFin 2) ''better''
     (bm_BufferWrite ''k'' kGeneric (typed_intent ''k'' kAppend ''+'') (mem_Get demo_mem)
       (bm_CreateSavepoint ''s'' (snd (bm_ReadObject ''k'' (mem_Get demo_mem) (new_BranchContext ''A'')))))"

definition demo_B :: BranchContext where
  "demo_B = snd (bm_ReadObject ''k'' (mem_Get demo_mem) (new_BranchContext ''B''))"

lemma demo_branches: "tx_branches (ts_txn demo_open) = [demo_A, demo_B]"
  by (simp add: demo_open_def demo_ops_def task_op_txn submitted_def demo_plan_def AddBranchPlan_def
      default_ExecutionPlan_def on_branch_def bm_FindBranch_def demo_A_def demo_B_def
      bm_ReadObject_frame bm_BufferWrite_frame Savepoint_id Stage_id del: task_op.simps)

lemma demo_scores: "\<forall>b \<in> set (tx_branches (ts_txn demo_open)). cr_score (bc_candidate_result b) \<noteq> DNaN"
  by (simp add: demo_branches demo_A_def demo_B_def bm_StageBranch_def bm_ReadObject_frame new_BranchContext_def)

lemma demo_A_facts:
  "writes_key demo_A q \<longleftrightarrow> q = ''k''" "rebased_key demo_A ''k''"
  "committed_value demo_A W ''k'' = vv_value (W ''k'') @ ''+''" "cr_score (bc_candidate_result demo_A) = DFin 2"
proof -
  let ?b = "bm_CreateSavepoint ''s'' (snd (bm_ReadObject ''k'' (mem_Get demo_mem) (new_BranchContext ''A'')))"
  have inv: "branch_inv ?b" by (intro branch_inv_Savepoint branch_inv_Read branch_inv_new)
  have wb: "bc_write_buffer ?b = empty_WriteBuffer" "bc_intent_log ?b = []"
    by (simp_all add: bm_ReadObject_frame new_BranchContext_def bm_CreateSavepoint_def)
  note f = appended_facts [OF inv wb demo_A_def]
  show "writes_key demo_A q \<longleftrightarrow> q = ''k''" "rebased_key demo_A ''k''"
    "committed_value demo_A W ''k'' = vv_value (W ''k'') @ ''+''" "cr_score (bc_candidate_result demo_A) = DFin 2"
    by (fact f)+
qed

lemma demo_B_score: "cr_score (bc_candidate_result demo_B) = DFin 0"
  by (simp add: demo_B_def bm_ReadObject_frame new_BranchContext_def)

lemma demo_wins: "w \<in> {demo_A, demo_B} \<Longrightarrow>
    \<forall>b \<in> {demo_A, demo_B}. \<not> dless (cr_score (bc_candidate_result w)) (cr_score (bc_candidate_result b)) \<Longrightarrow>
    commit_view w (mem_Get demo_mem) ''k'' = \<lparr>vv_value = ''old+'', vv_version = 4, vv_exists = True\<rparr>"
  by (auto simp: demo_A_facts demo_B_score commit_view_def demo_get)

theorem session_invariant_witness:
  "map te_sequence_number (ts_events demo_open) = [0..<length (ts_events demo_open)] \<and>
   map bc_branch_id [demo_A, demo_B] = CandidateBranchIds (ts_plan demo_open)"
  using session_invariant [OF demo_reachable] unfolding demo_branches by blast

theorem task_commit_outcome_witness:
  "case rt_CommitTask demo_runtime demo_open demo_system of
     (r, s', st') \<Rightarrow> ts_commit_attempts s' = ts_commit_attempts demo_open + 1 \<and>
       mem_Get (fst st') ''k'' = (if r = Inr True then \<lparr>vv_value = ''old+'', vv_version = 4, vv_exists = True\<rparr>
         else \<lparr>vv_value = ''old'', vv_version = 3, vv_exists = True\<rparr>)"
proof -
  obtain ok s' st' w where "rt_CommitTask demo_runtime demo_open demo_system = (Inr ok, s', st')"
      "outcome_of [demo_A, demo_B] w (mem_Get demo_mem) ok (ts_txn s') (mem_Get (fst st'))"
      "ts_commit_attempts s' = ts_commit_attempts demo_open + 1"
    using task_commit_outcome [OF demo_reachable, of "\<lambda>_. True" demo_system] mem.batch_store_axioms demo_scores
    by (auto simp: demo_branches)
  then show ?thesis
    using demo_wins [of w] by (auto simp: outcome_of_def demo_get)
qed

theorem undisturbed_task_commits_witness:
  "case rt_CommitTask demo_runtime demo_open demo_system of
     (r, s', st') \<Rightarrow> r = Inr True \<and> ts_committed s' \<and>
       mem_Get (fst st') ''k'' = \<lparr>vv_value = ''old+'', vv_version = 4, vv_exists = True\<rparr>"
proof -
  have plain: "list_all plain_op demo_ops" by (simp add: demo_ops_def plain_type_def)
  have "\<exists>s' st' w. rt_CommitTask demo_runtime demo_open demo_system = (Inr True, s', st') \<and> ts_committed s' \<and>
      w \<in> {demo_A, demo_B} \<and>
      (\<forall>b \<in> {demo_A, demo_B}. \<not> dless (cr_score (bc_candidate_result w)) (cr_score (bc_candidate_result b))) \<and>
      mem_Get (fst st') = commit_view w (mem_Get demo_mem)"
    using undisturbed_task_commits [OF demo_Submit plain, of "\<lambda>_. True" demo_system] mem.batch_store_axioms
    by (simp add: demo_open_def [symmetric] demo_branches Let_def)
  then obtain s' st' w where "rt_CommitTask demo_runtime demo_open demo_system = (Inr True, s', st')" "ts_committed s'"
      and w: "w \<in> {demo_A, demo_B}"
        "\<forall>b \<in> {demo_A, demo_B}. \<not> dless (cr_score (bc_candidate_result w)) (cr_score (bc_candidate_result b))"
      and "mem_Get (fst st') = commit_view w (mem_Get demo_mem)"
    by blast
  then show ?thesis using demo_wins [OF w] by simp
qed

end
