(* ===== verification/Task_Rebuild.thy ===== *)
theory Task_Rebuild
  imports Task_Demo
begin

text \<open>
  Recovering a session from its event log. The log of a running session is replayed on a fresh
  submission; the lemmas follow one operation through its recorded event and back.
\<close>

section \<open>Replaying the events of a session\<close>

text \<open>
  An operation that its event describes completely: the log keeps neither object types nor
  conditions, it keeps the integral part of a score, and a read of an object that the branch has
  already written is logged like a read of the store.
\<close>

fun logged_intent :: "string \<Rightarrow> ObjectType \<Rightarrow> WriteIntent \<Rightarrow> bool" where
  "logged_intent k t i \<longleftrightarrow> t = kGeneric \<and> wi_object_id i = k \<and> wi_condition i = no_condition \<and>
     (case wi_intent_type i of kIntentOther _ \<Rightarrow> False | _ \<Rightarrow> True)"

fun op_logged :: "TaskOp \<Rightarrow> TaskSession \<Rightarrow> bool" where
  "op_logged (DoRead b k) s \<longleftrightarrow>
     (case bm_FindBranch (tx_branches (ts_txn s)) b of None \<Rightarrow> True
      | Some i \<Rightarrow> wb_Find (bc_write_buffer (tx_branches (ts_txn s) ! i)) k = None)"
| "op_logged (DoWrite b k t i) s \<longleftrightarrow> logged_intent k t i"
| "op_logged (DoStage b d m) s \<longleftrightarrow> (\<exists>i. d = DFin (of_int i) \<and> \<bar>i\<bar> < 2 ^ 53)"
| "op_logged _ s \<longleftrightarrow> True"

fun ops_logged :: "'s RuntimeCore \<Rightarrow> 's sys \<Rightarrow> TaskOp list \<Rightarrow> TaskSession \<Rightarrow> bool" where
  "ops_logged rt st [] s \<longleftrightarrow> True"
| "ops_logged rt st (op # ops) s \<longleftrightarrow> op_logged op s \<and> ops_logged rt st ops (task_op rt st op s)"

text \<open>The event that an operation records, if it records one.\<close>

lemma on_branch_same: "(\<And>b. bc_branch_id b = i \<Longrightarrow> f b = g b) \<Longrightarrow> on_branch i f t = on_branch i g t"
  using FindBranch_bound by (auto simp: on_branch_def split: option.splits)

lemma on_branch_id: "(\<And>b. f b = b) \<Longrightarrow> on_branch i f t = t"
  by (simp add: on_branch_def split: option.splits)

lemma logged_intent_type:
  "logged_intent k t i \<Longrightarrow>
     \<lparr>wi_object_id = k, wi_intent_type = IntentTypeFromPersistedValue (word_of_int (intent_type_number (wi_intent_type i))),
      wi_payload = wi_payload i, wi_condition = no_condition\<rparr> = i"
  by (cases "wi_intent_type i") (simp_all add: IntentTypeFromPersistedValue_def)

lemma rebuild_logged:
  "rebuild_event V (logged_event e) txn =
     (case te_type e of
        EvRead \<Rightarrow> on_branch (te_branch_id e) (\<lambda>b. b\<lparr>bc_status := kRunning,
          bc_read_set := rs_Record (te_object_id e) (te_numeric_value e) (bc_read_set b)\<rparr>) txn
      | EvWrite \<Rightarrow> txn_Write (te_branch_id e) (te_object_id e) kGeneric
            \<lparr>wi_object_id = te_object_id e, wi_intent_type = IntentTypeFromPersistedValue (te_numeric_value e),
             wi_payload = te_detail e, wi_condition = no_condition\<rparr> V txn
      | EvSavepoint \<Rightarrow> txn_Savepoint (te_branch_id e) (te_detail e) txn
      | EvRollbackToSavepoint \<Rightarrow> snd (txn_RollbackToSavepoint (te_branch_id e) (te_detail e) txn)
      | EvStageBranch \<Rightarrow> txn_StageBranch (te_branch_id e) (double_of_i64 (te_numeric_value e)) (te_detail e) txn
      | _ \<Rightarrow> txn)"
  by (cases "te_type e") (simp_all add: rebuild_event_def logged_event_def TaskEventTypeFromName_def)

lemma replay_op:
  assumes "op_logged op s"
  shows "\<exists>es. ts_events (task_op rt st op s) = ts_events s @ es \<and>
    fold (rebuild_event (kv_Get (tk_store rt) (fst st))) (map logged_event es) (ts_txn s) =
      ts_txn (task_op rt st op s) \<and>
    (\<forall>e \<in> set es. te_type e \<in> {EvRead, EvWrite, EvSavepoint, EvRollbackToSavepoint, EvStageBranch})"
proof (cases op)
  case (DoWrite b k t i)
  then show ?thesis
    using assms by (simp add: rt_Write_def rebuild_logged logged_intent_type)
next
  case (DoSavepoint b p)
  then show ?thesis by (simp add: rt_Savepoint_def rebuild_logged)
next
  case (DoRollback b p)
  have "ts_txn s = snd (txn_RollbackToSavepoint b p (ts_txn s))" if "\<not> fst (txn_RollbackToSavepoint b p (ts_txn s))"
    using that
    by (auto simp: txn_RollbackToSavepoint_def rm_RollbackToSavepoint_def Let_def split: option.splits)
  then show ?thesis
    by (auto simp: DoRollback rt_RollbackToSavepoint_def rebuild_logged Let_def split: prod.split)
next
  case (DoStage b d m)
  then show ?thesis
    using assms by (auto simp: rt_StageBranch_def rebuild_logged double_round_trip simp del: i64_of_double.simps)
next
  case (DoRead b k)
  then show ?thesis
    using assms
    by (auto simp: rt_Read_def rebuild_logged Let_def txn_Read_def on_branch_def bm_ReadObject_def
        empty_ReadResult_def split: option.splits prod.splits)
qed

definition op_events :: "TaskEvent list \<Rightarrow> bool" where
  "op_events es \<longleftrightarrow> (\<forall>e \<in> set es. te_type e \<in> {EvRead, EvWrite, EvSavepoint, EvRollbackToSavepoint, EvStageBranch})"

text \<open>Events after the submission.\<close>

definition later_events :: "TaskEvent list \<Rightarrow> bool" where
  "later_events es \<longleftrightarrow> (\<forall>e \<in> set es. te_type e \<notin> {EvSubmitTask, EvCreateBranch})"

lemma op_events_later: "op_events es \<Longrightarrow> later_events es"
  by (auto simp: op_events_def later_events_def)

lemma replay_run:
  "ops_logged rt st ops s \<Longrightarrow>
     \<exists>es. ts_events (fold (task_op rt st) ops s) = ts_events s @ es \<and> op_events es \<and>
       fold (rebuild_event (kv_Get (tk_store rt) (fst st))) (map logged_event es) (ts_txn s) =
         ts_txn (fold (task_op rt st) ops s)"
proof (induction ops arbitrary: s)
  case Nil
  then show ?case by (simp add: op_events_def)
next
  case (Cons op ops)
  then have op: "op_logged op s" and ops: "ops_logged rt st ops (task_op rt st op s)" by simp_all
  obtain es where es: "ts_events (task_op rt st op s) = ts_events s @ es" "op_events es"
      "fold (rebuild_event (kv_Get (tk_store rt) (fst st))) (map logged_event es) (ts_txn s) = ts_txn (task_op rt st op s)"
    using replay_op [OF op] unfolding op_events_def by blast
  obtain fs where fs: "ts_events (fold (task_op rt st) ops (task_op rt st op s)) = ts_events (task_op rt st op s) @ fs"
      "op_events fs"
      "fold (rebuild_event (kv_Get (tk_store rt) (fst st))) (map logged_event fs) (ts_txn (task_op rt st op s)) =
        ts_txn (fold (task_op rt st) ops (task_op rt st op s))"
    using Cons.IH [OF ops] by blast
  show ?case
    by (rule exI [of _ "es @ fs"]) (use es fs in \<open>auto simp: op_events_def\<close>)
qed

lemma run_events: "\<exists>es. ts_events (fold (task_op rt st) ops s) = ts_events s @ es \<and> op_events es"
proof (induction ops arbitrary: s)
  case (Cons op ops)
  have "\<exists>es. ts_events (task_op rt st op s) = ts_events s @ es \<and> op_events es"
    by (cases op) (auto simp: rt_defs op_events_def Let_def split: prod.split)
  with Cons.IH [of "task_op rt st op s"] show ?case by (fastforce simp: op_events_def)
qed (simp add: op_events_def)

lemma created_events_types: "e \<in> set (created_events n ps) \<Longrightarrow> te_type e = EvCreateBranch"
  by (induction n ps rule: created_events.induct) (auto simp: created_event_def)

lemma replay_submission:
  "fold (rebuild_event V) (map logged_event (created_events n ps)) txn = txn"
  by (induction n ps rule: created_events.induct) (auto simp: rebuild_logged created_event_def)

section \<open>The plan that a log describes\<close>

lemma plan_event_parts:
  "tc_task_id (fst (plan_event e tp)) = tc_task_id (fst tp)"
  "tc_objective (fst (plan_event e tp)) =
     (if pt_event_type e = ''SUBMIT_TASK'' \<and> pt_detail e \<noteq> [] then pt_detail e else tc_objective (fst tp))"
  "ep_branch_plans (snd (plan_event e tp)) = ep_branch_plans (snd tp) @
     (if pt_event_type e = ''CREATE_BRANCH''
      then [\<lparr>bp_branch_id = pt_branch_id e, bp_candidate_id = pt_detail e, bp_rationale = ''recovered branch'',
             bp_initial_priority = double_of_i64 (pt_numeric_value e)\<rparr>] else [])"
  by (simp_all add: plan_event_def Let_def AddInputObject_def AddOutputObject_def AddBranchPlan_def split: prod.split)

definition recovered_plan :: "BranchPlan \<Rightarrow> BranchPlan" where
  "recovered_plan p = p\<lparr>bp_rationale := ''recovered branch'',
     bp_initial_priority := double_of_i64 (i64_of_double (bp_initial_priority p))\<rparr>"

lemma plan_events_created:
  "ep_branch_plans (snd (fold plan_event (map logged_event (created_events n ps)) tp)) =
     ep_branch_plans (snd tp) @ map recovered_plan ps"
  "tc_task_id (fst (fold plan_event (map logged_event (created_events n ps)) tp)) = tc_task_id (fst tp)"
  "tc_objective (fst (fold plan_event (map logged_event (created_events n ps)) tp)) = tc_objective (fst tp)"
  by (induction n ps arbitrary: tp rule: created_events.induct)
    (simp_all add: plan_event_parts created_event_def logged_event_def recovered_plan_def del: i64_of_double.simps)

lemma plan_events_later:
  "later_events es \<Longrightarrow>
    ep_branch_plans (snd (fold plan_event (map logged_event es) tp)) = ep_branch_plans (snd tp) \<and>
    tc_task_id (fst (fold plan_event (map logged_event es) tp)) = tc_task_id (fst tp) \<and>
    tc_objective (fst (fold plan_event (map logged_event es) tp)) = tc_objective (fst tp)"
  proof (induction es arbitrary: tp)
  case (Cons e es)
  have "pt_event_type (logged_event e) = TaskEventTypeName (te_type e)" by (simp add: logged_event_def)
  moreover have "TaskEventTypeName (te_type e) \<noteq> ''SUBMIT_TASK''" "TaskEventTypeName (te_type e) \<noteq> ''CREATE_BRANCH''"
    using Cons.prems by (cases "te_type e"; simp add: later_events_def)+
  ultimately show ?case using Cons by (simp add: later_events_def plan_event_parts)
qed simp

section \<open>Recovering a running session\<close>

lemma final_event_logged:
  "ts_events s \<noteq> [] \<Longrightarrow> final_event_is (logged_artifact s) (TaskEventTypeName t) \<longleftrightarrow> te_type (last (ts_events s)) = t"
  by (simp add: final_event_is_def final_event_def logged_events last_map) (simp add: logged_event_def)

lemmas final_event_names = final_event_logged [of _ EvCommitTask, simplified]
  final_event_logged [of _ EvAbortTask, simplified] final_event_logged [of _ EvCommitAttempt, simplified]

lemma decision_ids:
  "dc_task_id (RecoverTaskSessionDecision path a) = metadata_value a ''task_id''"
  "dc_txn_id (RecoverTaskSessionDecision path a) = metadata_value a ''txn_id''"
  by (simp_all add: RecoverTaskSessionDecision_def Let_def)

lemma decision_running:
  assumes "\<not> ts_committed s" "tc_phase (ts_task s) = TaskRunning" "ts_events s \<noteq> []"
    and "te_type (last (ts_events s)) \<notin> {EvCommitTask, EvAbortTask, EvCommitAttempt}"
  shows "dc_action (RecoverTaskSessionDecision path (logged_artifact s)) \<in> {RaResumeBranch, RaResumeFromSavepoint}"
  using assms
  by (simp add: RecoverTaskSessionDecision_def Let_def logged_fixed_values final_event_names task_phase_digit del: task_phase_number.simps)

lemma umap_find_of_value: "metadata_value a k = v \<Longrightarrow> v \<noteq> [] \<Longrightarrow> umap_find (pl_metadata a) k = Some v"
  by (auto simp: metadata_value_def split: option.splits)

lemma logged_counters:
  "umap_find (pl_metadata (logged_artifact s)) ''commit_attempts'' = Some (nat_dec (ts_commit_attempts s))"
  "umap_find (pl_metadata (logged_artifact s)) ''committed'' = Some (if ts_committed s then ''1'' else ''0'')"
  by (rule umap_find_of_value; simp add: logged_fixed_values)+

lemma recovered_plan_ids [simp]:
  "bp_branch_id (recovered_plan p) = bp_branch_id p" "bp_candidate_id (recovered_plan p) = bp_candidate_id p"
  by (simp_all add: recovered_plan_def)

text \<open>The task and the plan that the log of a submitted session gives back.\<close>

lemma plan_of_log:
  assumes fits: "log_fits s" and valid: "ep_branch_plans plan \<noteq> []" "tc_objective task \<noteq> []"
    and ev: "ts_events s = ts_events (submitted rt task plan) @ es" "later_events es"
  shows "ep_branch_plans (rp_plan (BuildTaskRecoveryPlan path (logged_artifact s))) =
      map recovered_plan (ep_branch_plans plan) \<and>
    tc_task_id (rp_task (BuildTaskRecoveryPlan path (logged_artifact s))) = tc_task_id (ts_task s) \<and>
    tc_objective (rp_task (BuildTaskRecoveryPlan path (logged_artifact s))) = tc_objective task \<and>
    rp_decision (BuildTaskRecoveryPlan path (logged_artifact s)) = RecoverTaskSessionDecision path (logged_artifact s)"
proof -
  have "ep_branch_plans (snd (fold plan_event (pl_events (logged_artifact s)) tp)) =
      ep_branch_plans (snd tp) @ map recovered_plan (ep_branch_plans plan) \<and>
    tc_task_id (fst (fold plan_event (pl_events (logged_artifact s)) tp)) = tc_task_id (fst tp) \<and>
    tc_objective (fst (fold plan_event (pl_events (logged_artifact s)) tp)) = tc_objective task" for tp
    using valid(2)
    by (simp add: logged_events ev(1) submitted_def plan_events_later [OF ev(2)] plan_events_created plan_event_parts
        logged_event_def)
  then show ?thesis
    using valid(1)
    by (simp add: BuildTaskRecoveryPlan_def Let_def default_ExecutionPlan_def restore_logged [OF fits]
        logged_fixed_values split_beta)
qed

text \<open>A submission depends on the task's id and the branch ids of the plan only.\<close>

lemma submitted_txn:
  "tc_task_id t = tc_task_id t' \<Longrightarrow> CandidateBranchIds p = CandidateBranchIds p' \<Longrightarrow>
     ts_txn (submitted rt t p) = ts_txn (submitted rt t' p')"
proof -
  have "map (\<lambda>p. new_BranchContext (bp_branch_id p)) (ep_branch_plans q) = map new_BranchContext (CandidateBranchIds q)" for q
    by (simp add: CandidateBranchIds_def)
  then show "tc_task_id t = tc_task_id t' \<Longrightarrow> CandidateBranchIds p = CandidateBranchIds p' \<Longrightarrow>
     ts_txn (submitted rt t p) = ts_txn (submitted rt t' p')"
    by (simp add: submitted_def)
qed

lemma submitted_run_open:
  "tc_phase (ts_task (fold (task_op rt st) ops s)) = tc_phase (ts_task s)"
  "ts_committed (fold (task_op rt st) ops s) = ts_committed s"
  "tx_status (ts_txn (fold (task_op rt st) ops s)) = tx_status (ts_txn s)"
  "ts_task (fold (task_op rt st) ops s) = ts_task s" "ts_commit_attempts (fold (task_op rt st) ops s) = ts_commit_attempts s"
  by (induction ops arbitrary: s) (simp_all add: task_op_frame task_op_same_frame)

lemma last_event_open:
  assumes "ts_events s = ts_events (submitted rt task plan) @ es" "op_events es"
  shows "te_type (last (ts_events s)) \<notin> {EvCommitTask, EvAbortTask, EvCommitAttempt}"
proof (cases "es = []")
  case True
  then have "last (ts_events s) \<in> set (ts_events (submitted rt task plan))"
    using assms(1) by (simp add: submitted_def)
  then show ?thesis using created_events_types by (fastforce simp: submitted_def)
next
  case False
  then have "last (ts_events s) \<in> set es" using assms(1) by simp
  with assms(2) show ?thesis by (auto simp: op_events_def)
qed

lemma recovered_session:
  assumes sub: "SubmitTask rt task plan = Inr s0" and fits: "log_fits s"
    and id: "tc_task_id (ts_task s) = tc_task_id task"
    and es: "ts_events s = ts_events s0 @ es" "later_events es"
    and parse: "ParseTaskEventLogArtifact path w = Some (logged_artifact s)"
  shows "\<exists>r. RecoverSessionFromLog rt path (kv, w) = Inr (ApplyRecoveredTerminalState r) \<and>
    rp_decision (rs_recovery_plan r) = RecoverTaskSessionDecision path (logged_artifact s) \<and>
    tc_task_id (ts_task (rs_session r)) = tc_task_id task \<and> tc_objective (ts_task (rs_session r)) = tc_objective task \<and>
    ep_branch_plans (ts_plan (rs_session r)) = map recovered_plan (ep_branch_plans plan) \<and>
    ts_txn (rs_session r) = fold (rebuild_event (kv_Get (tk_store rt) kv)) (map logged_event es) (ts_txn s0) \<and>
    ts_events (rs_session r) = ts_events s \<and> ts_commit_attempts (rs_session r) = ts_commit_attempts s \<and>
    ts_committed (rs_session r) = ts_committed s"
proof -
  let ?V = "kv_Get (tk_store rt) kv" and ?a = "logged_artifact s"
  let ?txn = "fold (rebuild_event ?V) (map logged_event es) (ts_txn s0)"
  have v: "task_Validate task = Inr ()" "plan_Validate plan = Inr ()" and s0: "s0 = submitted rt task plan"
    using sub by (simp_all add: SubmitTask_iff)
  note es = es [unfolded s0]
  let ?p = "BuildTaskRecoveryPlan path ?a" and ?d = "RecoverTaskSessionDecision path ?a"
  have p: "ep_branch_plans (rp_plan ?p) = map recovered_plan (ep_branch_plans plan)"
      "tc_task_id (rp_task ?p) = tc_task_id task" "tc_objective (rp_task ?p) = tc_objective task" "rp_decision ?p = ?d"
    using plan_of_log [OF fits _ _ es, of path] v id
    by (simp_all add: plan_Validate_iff task_Validate_iff)
  have ids: "CandidateBranchIds (rp_plan ?p) = CandidateBranchIds plan"
    by (simp add: CandidateBranchIds_def p(1) comp_def)
  have sub': "SubmitTask rt (rp_task ?p) (rp_plan ?p) = Inr (submitted rt (rp_task ?p) (rp_plan ?p))"
    using v by (simp add: SubmitTask_iff task_Validate_iff plan_Validate_iff p ids)
  have txn: "fold (rebuild_event ?V) (pl_events ?a) (ts_txn (submitted rt (rp_task ?p) (rp_plan ?p))) = ?txn"
    unfolding s0 submitted_txn [OF p(2) ids] logged_events es(1)
    by (simp add: submitted_def replay_submission rebuild_logged)
  obtain r0 where r0: "RecoverTaskSessionFromArtifact path ?a = Inr r0" "rs_recovery_plan r0 = ?p"
      "ts_task (rs_session r0) = rp_task ?p" "ts_plan (rs_session r0) = rp_plan ?p"
    by (simp add: RecoverTaskSessionFromArtifact_def Let_def logged_counters)
  let ?s = "(submitted rt (rp_task ?p) (rp_plan ?p))\<lparr>ts_txn := ?txn, ts_commit_attempts := ts_commit_attempts s,
      ts_committed := ts_committed s, ts_events := ts_events s\<rparr>"
  have "ts_commit_attempts s < 2 ^ 64" using fits by (simp add: log_fits_def)
  then have rb: "RebuildRecoveredSessionState rt ?a (kv, w) (rs_session r0) = Inr ?s"
    using sub' txn
    by (simp add: RebuildRecoveredSessionState_def Let_def r0 logged_counters strtoull_nat_dec logged_events)
  have "RecoverSessionFromLog rt path (kv, w) = Inr (ApplyRecoveredTerminalState (r0\<lparr>rs_session := ?s\<rparr>))"
    by (simp add: RecoverSessionFromLog_def parse r0(1) rb)
  then show ?thesis
    using p by (intro exI [of _ "r0\<lparr>rs_session := ?s\<rparr>"]) (simp add: r0 submitted_def)
qed

lemma recovered_open_session:
  assumes sub: "SubmitTask rt task plan = Inr s0" and s: "s = fold (task_op rt st) ops s0" and fits: "log_fits s"
    and es: "ts_events s = ts_events s0 @ es" "op_events es"
    and txn: "txn = fold (rebuild_event (kv_Get (tk_store rt) kv)) (map logged_event es) (ts_txn s0)"
    and parse: "ParseTaskEventLogArtifact path w = Some (logged_artifact s)"
  shows "\<exists>r. RecoverSessionFromLog rt path (kv, w) = Inr r \<and>
    dc_action (rp_decision (rs_recovery_plan r)) \<in> {RaResumeBranch, RaResumeFromSavepoint} \<and>
    tc_task_id (ts_task (rs_session r)) = tc_task_id task \<and> tc_objective (ts_task (rs_session r)) = tc_objective task \<and>
    tc_phase (ts_task (rs_session r)) = TaskRunning \<and>
    ep_branch_plans (ts_plan (rs_session r)) = map recovered_plan (ep_branch_plans plan) \<and>
    ts_txn (rs_session r) = txn\<lparr>tx_status := TxnRunning, tx_branches :=
      map (set_status (dc_resume_branch_id (rp_decision (rs_recovery_plan r))) kRunning None) (tx_branches txn)\<rparr> \<and>
    ts_events (rs_session r) = ts_events s \<and> ts_commit_attempts (rs_session r) = ts_commit_attempts s \<and>
    \<not> ts_committed (rs_session r)"
proof -
  have s0: "s0 = submitted rt task plan" using sub by (simp add: SubmitTask_iff)
  have open_s: "tc_phase (ts_task s) = TaskRunning" "\<not> ts_committed s" "tc_task_id (ts_task s) = tc_task_id task"
    unfolding s s0 by (simp_all add: submitted_run_open) (simp_all add: submitted_def)
  have ne: "ts_events s \<noteq> []" using es(1) by (simp add: s0 submitted_def)
  have "dc_action (RecoverTaskSessionDecision path (logged_artifact s)) \<in> {RaResumeBranch, RaResumeFromSavepoint}"
    by (rule decision_running [OF open_s(2,1) ne last_event_open [OF es [unfolded s0]]])
  with recovered_session [OF sub fits open_s(3) es(1) op_events_later [OF es(2)] parse, where kv = kv] open_s(2)
  show ?thesis by (auto simp: ApplyRecoveredTerminalState_def Let_def txn)
qed

text \<open>
  C17. Recovery rebuilds the transaction of a session from its event log. Take a submitted task and
  any operations that their events describe completely (\<open>ops_logged\<close>: writes of generic objects,
  without a condition, with an intent for the object written and of a named type; reads of objects
  that the branch has not written; scores that are whole numbers below two to the 53; any savepoints
  and rollbacks), in any order and number, with counts that fit the log (\<open>log_fits\<close>), and write the log.
  If the store still shows the same view, recovering from the log returns a session with the
  transaction of the original: every branch with its reads, its write buffer and undo log, its
  intents, its savepoints and its score, except that the branch to be resumed is marked as running.
  The events, the number of attempts and the identity and objective of the task come back too, and
  the decision is to resume. Of the plan the branches come back with their ids, but the log records
  no rationale and a priority only as a whole number, so that \<open>recovered_plan\<close> stands in for each.
\<close>

theorem recovery_rebuilds_session:
  assumes "SubmitTask rt task plan = Inr s0" and "ops_logged rt st ops s0"
    and "log_fits (fold (task_op rt st) ops s0)"
    and "WriteTaskEventLogArtifact (fold (task_op rt st) ops s0) path w = (True, w')"
  shows "let s = fold (task_op rt st) ops s0 in
    \<exists>r. RecoverSessionFromLog rt path (fst st, w') = Inr r \<and>
    dc_action (rp_decision (rs_recovery_plan r)) \<in> {RaResumeBranch, RaResumeFromSavepoint} \<and>
    tc_task_id (ts_task (rs_session r)) = tc_task_id task \<and> tc_objective (ts_task (rs_session r)) = tc_objective task \<and>
    tc_phase (ts_task (rs_session r)) = TaskRunning \<and>
    ep_branch_plans (ts_plan (rs_session r)) = map recovered_plan (ep_branch_plans plan) \<and>
    CandidateBranchIds (ts_plan (rs_session r)) = CandidateBranchIds plan \<and>
    ts_txn (rs_session r) = (ts_txn s)\<lparr>tx_branches :=
      map (set_status (dc_resume_branch_id (rp_decision (rs_recovery_plan r))) kRunning None) (tx_branches (ts_txn s))\<rparr> \<and>
    ts_events (rs_session r) = ts_events s \<and> ts_commit_attempts (rs_session r) = ts_commit_attempts s \<and>
    \<not> ts_committed (rs_session r)"
proof -
  have "\<forall>e \<in> set (ts_events (fold (task_op rt st) ops s0)). te_sequence_number e < 2 ^ 64"
    using assms(3) by (simp add: log_fits_def)
  note parse = parse_task_log [OF written_task_log [OF assms(4)] this]
  let ?s = "fold (task_op rt st) ops s0"
  obtain es where es: "ts_events ?s = ts_events s0 @ es" "op_events es"
      "ts_txn ?s = fold (rebuild_event (kv_Get (tk_store rt) (fst st))) (map logged_event es) (ts_txn s0)"
    using replay_run [OF assms(2)] by metis
  have "tx_status (ts_txn ?s) = TxnRunning"
    using assms(1) by (auto simp: submitted_run_open SubmitTask_iff) (simp add: submitted_def tm_Begin_def)
  then have "(ts_txn ?s)\<lparr>tx_status := TxnRunning, tx_branches := bs\<rparr> = (ts_txn ?s)\<lparr>tx_branches := bs\<rparr>" for bs
    by (cases "ts_txn ?s") simp
  with recovered_open_session [OF assms(1) refl assms(3) es parse]
  show ?thesis by (auto simp: Let_def CandidateBranchIds_def comp_def)
qed

lemma demo_ops_logged: "ops_logged demo_runtime demo_system demo_ops (submitted demo_runtime demo_task demo_plan)"
proof -
  have "\<exists>i. (2 :: rat) = of_int i \<and> \<bar>i\<bar> < 9007199254740992" by (rule exI [of _ 2]) simp
  then show ?thesis
    by (simp add: demo_ops_def task_op_txn submitted_def demo_plan_def AddBranchPlan_def
      default_ExecutionPlan_def on_branch_def bm_FindBranch_def typed_intent_def
      bm_ReadObject_frame bm_BufferWrite_frame Savepoint_id Stage_id new_BranchContext_def wb_Find_def
      empty_WriteBuffer_def del: task_op.simps)
qed

lemma demo_open_fits: "log_fits demo_open"
proof -
  have n: "length (ts_events demo_open) = 8"
    by (simp add: demo_open_def demo_ops_def rt_defs Let_def submitted_def demo_plan_def AddBranchPlan_def
        default_ExecutionPlan_def split: prod.split)
  have "numbered (ts_events demo_open)" using reachable_session_ok [OF demo_reachable] by (simp add: session_ok_def)
  then have "te_sequence_number e < 8" if "e \<in> set (ts_events demo_open)" for e
    using that n by (auto simp: numbered_def) (metis atLeastLessThan_iff imageI set_map set_upt)
  moreover have "ts_commit_attempts demo_open = 0" "ts_task demo_open = demo_task\<lparr>tc_phase := TaskRunning\<rparr>"
    by (simp_all add: demo_open_def submitted_run_open) (simp_all add: submitted_def)
  ultimately show ?thesis
    by (fastforce simp: log_fits_def demo_task_def default_TaskContext_def umap_wf_def)
qed

theorem recovery_rebuilds_session_witness:
  "\<exists>r. RecoverSessionFromLog demo_runtime ''t.log'' (demo_mem, snd (WriteTaskEventLogArtifact demo_open ''t.log'' calm)) = Inr r \<and>
     map bc_intent_log (tx_branches (ts_txn (rs_session r))) = [[typed_intent ''k'' kAppend ''+''], []]"
proof -
  have w: "WriteTaskEventLogArtifact demo_open ''t.log'' calm = (True, fs_put ''t.log'' (task_log_text demo_open) calm)"
    by (simp add: WriteTaskEventLogArtifact_def write_file_def next_fault_def calm_def)
  have log: "bc_intent_log demo_A = [typed_intent ''k'' kAppend ''+'']" "bc_intent_log demo_B = []"
    by (simp_all add: demo_A_def demo_B_def bm_StageBranch_def bm_BufferWrite_frame bm_ReadObject_frame
        bm_CreateSavepoint_def new_BranchContext_def)
  have st: "bc_intent_log (set_status i a b x) = bc_intent_log x" for i a b x
    by (simp add: set_status_def split: option.split)
  show ?thesis
    using recovery_rebuilds_session [OF demo_Submit demo_ops_logged demo_open_fits [unfolded demo_open_def]
        w [unfolded demo_open_def]]
    by (auto simp: Let_def demo_open_def [symmetric] demo_branches w log st)
qed

end
