(* ===== verification/Task_Hazards.thy ===== *)
theory Task_Hazards
  imports Task_Rebuild
begin

text \<open>
  What recovery does to a task beyond rebuilding it: facts on the session that any log gives, and
  the two ways in which a recovered task can write what its original would not have written.
\<close>

section \<open>Every recovered session\<close>

definition branch_recovered :: "BranchContext \<Rightarrow> bool" where
  "branch_recovered b \<longleftrightarrow> branch_inv b \<and> (\<forall>i \<in> set (bc_intent_log b). wi_condition i = no_condition) \<and>
     cr_score (bc_candidate_result b) \<noteq> DNaN"

lemma recovered_new: "branch_recovered (new_BranchContext i)"
  by (simp add: branch_recovered_def) (simp add: new_BranchContext_def)

lemma branch_inv_status_reads [simp]:
  "branch_inv (b\<lparr>bc_status := st, bc_read_set := rs\<rparr>) = branch_inv b" "branch_inv (b\<lparr>bc_status := st\<rparr>) = branch_inv b"
  by (simp_all add: branch_inv_def)

lemma double_of_i64_number [simp]: "double_of_i64 w \<noteq> DNaN"
  by (simp add: double_of_i64_def double_of_int_def Let_def)

lemma recovered_Rollback: "branch_recovered b \<Longrightarrow> branch_recovered (snd (rm_RollbackToSavepoint p b))"
  using branch_inv_Rollback [of b p]
  by (auto simp: branch_recovered_def rm_RollbackToSavepoint_def Let_def il_Truncate_def dest: in_set_takeD
      split: option.splits)

lemma recovered_Write: "branch_recovered b \<Longrightarrow> wi_condition i = no_condition \<Longrightarrow> branch_recovered (bm_BufferWrite k t i V b)"
  by (auto simp: branch_recovered_def branch_inv_Write bm_BufferWrite_frame)

lemma recovered_Savepoint: "branch_recovered b \<Longrightarrow> branch_recovered (bm_CreateSavepoint p b)"
  using branch_inv_Savepoint [of b p] by (simp add: branch_recovered_def bm_CreateSavepoint_def)

lemma recovered_Stage: "branch_recovered b \<Longrightarrow> d \<noteq> DNaN \<Longrightarrow> branch_recovered (bm_StageBranch d m b)"
  using branch_inv_Stage [of b d m] by (simp add: branch_recovered_def bm_StageBranch_def)

lemma recovered_status: "branch_recovered b \<Longrightarrow> branch_recovered (set_status i x y b)"
  by (simp add: branch_recovered_def set_status_def split: option.split)

text \<open>One replayed event, and all of them.\<close>

definition same_but_branches :: "AgentTxnContext \<Rightarrow> AgentTxnContext \<Rightarrow> bool" where
  "same_but_branches t t' \<longleftrightarrow> same_frame t t' \<and> tx_status t' = tx_status t \<and>
     ((\<forall>b \<in> set (tx_branches t). branch_recovered b) \<longrightarrow> (\<forall>b \<in> set (tx_branches t'). branch_recovered b))"

lemma same_but_on_branch:
  assumes "\<And>b. bc_branch_id (f b) = bc_branch_id b" "\<And>b. branch_inv b \<Longrightarrow> branch_inv (f b)"
    and "\<And>b. branch_recovered b \<Longrightarrow> branch_recovered (f b)"
  shows "same_but_branches t (on_branch i f t)"
  unfolding same_but_branches_def
  using same_frame_on_branch [OF assms(1,2)] on_branch_all [of t branch_recovered f i] assms(3) by simp

lemma same_but_refl [simp]: "same_but_branches t t"
  by (simp add: same_but_branches_def)

lemma same_but_read:
  "same_but_branches t (on_branch i (\<lambda>b. b\<lparr>bc_status := kRunning, bc_read_set := rs_Record k v (bc_read_set b)\<rparr>) t)"
  by (rule same_but_on_branch) (simp_all add: branch_recovered_def)

lemma same_but_rebuild: "same_but_branches t (rebuild_event V e t)"
proof -
  have "same_but_branches t (txn_Write b k ty \<lparr>wi_object_id = k, wi_intent_type = it, wi_payload = p, wi_condition = no_condition\<rparr> V t)"
      for b k ty it p
    unfolding txn_Write_def by (rule same_but_on_branch) (simp_all add: bm_BufferWrite_frame branch_inv_Write recovered_Write)
  moreover have "same_but_branches t (txn_Savepoint b p t)" for b p
    unfolding txn_Savepoint_def by (rule same_but_on_branch) (simp_all add: Savepoint_id branch_inv_Savepoint recovered_Savepoint)
  moreover have "same_but_branches t (snd (txn_RollbackToSavepoint b p t))" for b p
    unfolding txn_Rollback_on_branch by (rule same_but_on_branch) (simp_all add: Rollback_id branch_inv_Rollback recovered_Rollback)
  moreover have "same_but_branches t (txn_StageBranch b (double_of_i64 n) p t)" for b n p
    unfolding txn_StageBranch_def by (rule same_but_on_branch) (simp_all add: Stage_id branch_inv_Stage recovered_Stage)
  ultimately show ?thesis
    unfolding rebuild_event_def by (simp add: same_but_read split: TaskEventType.split)
qed

lemma same_but_trans: "same_but_branches t t' \<Longrightarrow> same_but_branches t' t'' \<Longrightarrow> same_but_branches t t''"
  unfolding same_but_branches_def by (metis same_frame_trans)

lemma same_but_replay: "same_but_branches t (fold (rebuild_event V) es t)"
proof (induction es arbitrary: t)
  case (Cons e es)
  show ?case unfolding fold_simps by (rule same_but_trans [OF same_but_rebuild Cons.IH])
qed simp

lemma Rebuild_ok:
  assumes "RebuildRecoveredSessionState rt a st s = Inr s'"
  shows "plan_Validate (ts_plan s') = Inr () \<and> txn_ok rt (tc_task_id (ts_task s')) (ts_plan s') (ts_txn s') \<and>
    (\<forall>b \<in> set (tx_branches (ts_txn s')). branch_recovered b)"
proof -
  obtain s0 where s0: "SubmitTask rt (ts_task s) (ts_plan s) = Inr s0"
    using assms by (auto simp: RebuildRecoveredSessionState_def split: sum.splits)
  let ?txn = "fold (rebuild_event (kv_Get (tk_store rt) (fst st))) (pl_events a) (ts_txn s0)"
  have s': "ts_task s' = ts_task s0" "ts_plan s' = ts_plan s0" "ts_txn s' = ?txn"
    using assms by (auto simp: RebuildRecoveredSessionState_def s0 Let_def split: option.splits)
  have sub: "s0 = submitted rt (ts_task s) (ts_plan s)" "task_Validate (ts_task s) = Inr ()" "plan_Validate (ts_plan s) = Inr ()"
    using s0 by (simp_all add: SubmitTask_iff)
  have ok: "session_ok rt s0" using submitted_ok [OF sub(2,3)] by (simp add: sub(1))
  have new: "\<forall>b \<in> set (tx_branches (ts_txn s0)). branch_recovered b"
    by (auto simp: sub(1) submitted_def recovered_new)
  have rep: "same_but_branches (ts_txn s0) ?txn" by (rule same_but_replay)
  have "txn_ok rt (tc_task_id (ts_task s0)) (ts_plan s0) ?txn"
    using ok rep unfolding session_ok_def same_but_branches_def by (blast intro: txn_ok_frame)
  moreover have "\<forall>b \<in> set (tx_branches ?txn). branch_recovered b"
    using rep new unfolding same_but_branches_def by blast
  ultimately show ?thesis using ok by (simp add: s' session_ok_def)
qed

lemma Terminal_ok:
  "ts_plan (rs_session (ApplyRecoveredTerminalState r)) = ts_plan (rs_session r) \<and>
   tc_task_id (ts_task (rs_session (ApplyRecoveredTerminalState r))) = tc_task_id (ts_task (rs_session r)) \<and>
   rs_recovery_plan (ApplyRecoveredTerminalState r) = rs_recovery_plan r \<and>
   tx_txn_id (ts_txn (rs_session (ApplyRecoveredTerminalState r))) = tx_txn_id (ts_txn (rs_session r)) \<and>
   tx_task_id (ts_txn (rs_session (ApplyRecoveredTerminalState r))) = tx_task_id (ts_txn (rs_session r)) \<and>
   tx_fallback_commit (ts_txn (rs_session (ApplyRecoveredTerminalState r))) = tx_fallback_commit (ts_txn (rs_session r)) \<and>
   (\<exists>i x y. tx_branches (ts_txn (rs_session (ApplyRecoveredTerminalState r))) =
      map (set_status i x y) (tx_branches (ts_txn (rs_session r))))"
  by (auto simp: ApplyRecoveredTerminalState_def Let_def)

lemma set_status_id [simp]: "bc_branch_id (set_status i x y b) = bc_branch_id b"
  by (simp add: set_status_def split: option.split)

lemma recovered_session_ok:
  assumes "RecoverSessionFromLog rt path st = Inr r"
  shows "plan_Validate (ts_plan (rs_session r)) = Inr () \<and>
    txn_ok rt (tc_task_id (ts_task (rs_session r))) (ts_plan (rs_session r)) (ts_txn (rs_session r)) \<and>
    (\<forall>b \<in> set (tx_branches (ts_txn (rs_session r))). branch_recovered b)"
proof -
  obtain a r0 s where "RebuildRecoveredSessionState rt a st (rs_session r0) = Inr s"
      and r: "r = ApplyRecoveredTerminalState (r0\<lparr>rs_session := s\<rparr>)"
    using assms by (auto simp: RecoverSessionFromLog_def split: option.splits sum.splits)
  note ok = Rebuild_ok [OF this(1)]
  obtain i x y where b: "tx_branches (ts_txn (rs_session r)) = map (set_status i x y) (tx_branches (ts_txn s))"
    using Terminal_ok [of "r0\<lparr>rs_session := s\<rparr>"] r by auto
  have rec: "\<forall>b \<in> set (tx_branches (ts_txn (rs_session r))). branch_recovered b"
    using ok by (auto simp: b recovered_status)
  then have "\<forall>b \<in> set (tx_branches (ts_txn (rs_session r))). branch_inv b" by (simp add: branch_recovered_def)
  moreover have "map bc_branch_id (tx_branches (ts_txn (rs_session r))) = map bc_branch_id (tx_branches (ts_txn s))"
    by (simp add: b)
  ultimately show ?thesis
    using ok Terminal_ok [of "r0\<lparr>rs_session := s\<rparr>"] rec unfolding r [symmetric] by (simp add: txn_ok_def)
qed

text \<open>
  C19. A recovered session has lost the conditions of its writes. Whatever the log says, every
  intent of every recovered branch is unconditional, so a compare-and-set that waited for a value
  is now resolved to a write whatever the store holds. (The log does not record conditions, and
  compare-and-set writes are exempt from the version check.)
\<close>

theorem recovered_writes_unconditional:
  assumes "RecoverSessionFromLog rt path st = Inr r"
    and "b \<in> set (tx_branches (ts_txn (rs_session r)))" and "i \<in> set (bc_intent_log b)"
  shows "wi_condition i = no_condition \<and>
    (wi_intent_type i = kCas \<longrightarrow> (\<forall>e cur. rr_success (ResolveWrite e i cur) \<and> rr_should_write (ResolveWrite e i cur) \<and>
       rr_value (ResolveWrite e i cur) = ce_current_value e))"
proof -
  have "wi_condition i = no_condition"
    using recovered_session_ok [OF assms(1)] assms(2,3) by (auto simp: branch_recovered_def)
  then show ?thesis by (simp add: ResolveWrite_def default_ResolveResult_def no_condition_def)
qed

text \<open>A session that will write \<open>mine\<close> if the key still holds \<open>old\<close>, and its log.\<close>

definition cas_intent :: WriteIntent where
  "cas_intent = \<lparr>wi_object_id = ''k'', wi_intent_type = kCas, wi_payload = ''mine'',
     wi_condition = \<lparr>cond_type = kValueEquals, cond_expected_value = ''old''\<rparr>\<rparr>"

definition cas_session :: TaskSession where
  "cas_session = fold (task_op demo_runtime demo_system) [DoWrite ''A'' ''k'' kGeneric cas_intent]
     (submitted demo_runtime demo_task demo_plan)"

lemma cas_events: "ts_events cas_session = ts_events (submitted demo_runtime demo_task demo_plan) @
    [\<lparr>te_sequence_number = 3, te_type = EvWrite, te_branch_id = ''A'', te_object_id = ''k'', te_detail = ''mine'',
      te_numeric_value = 4\<rparr>]"
  by (simp add: cas_session_def cas_intent_def rt_Write_def submitted_def demo_plan_def AddBranchPlan_def
      default_ExecutionPlan_def)

lemma cas_fits: "log_fits cas_session"
proof -
  have "ts_commit_attempts cas_session = 0" "ts_task cas_session = demo_task\<lparr>tc_phase := TaskRunning\<rparr>"
    unfolding cas_session_def submitted_run_open by (simp_all add: submitted_def)
  moreover have "te_sequence_number e < 2 ^ 64" if "e \<in> set (ts_events cas_session)" for e
    using that unfolding cas_events
    by (auto simp: submitted_def demo_plan_def AddBranchPlan_def default_ExecutionPlan_def created_event_def)
  ultimately show ?thesis by (auto simp: log_fits_def demo_task_def default_TaskContext_def umap_wf_def)
qed

theorem recovered_writes_unconditional_witness:
  "\<exists>r b i. RecoverSessionFromLog demo_runtime ''t.log'' (demo_mem, snd (WriteTaskEventLogArtifact cas_session ''t.log'' calm)) = Inr r \<and>
     b \<in> set (tx_branches (ts_txn (rs_session r))) \<and> bc_intent_log b = [i] \<and> wi_intent_type i = kCas \<and>
     (\<forall>e. \<not> rr_success (ResolveWrite e cas_intent ''theirs'') \<and> rr_success (ResolveWrite e i ''theirs''))"
proof -
  have w: "WriteTaskEventLogArtifact cas_session ''t.log'' calm = (True, fs_put ''t.log'' (task_log_text cas_session) calm)"
    by (simp add: WriteTaskEventLogArtifact_def write_file_def next_fault_def calm_def)
  have "\<forall>e \<in> set (ts_events cas_session). te_sequence_number e < 2 ^ 64" using cas_fits by (simp add: log_fits_def)
  note parse = parse_task_log [OF written_task_log [OF w] this]
  have ops: "op_events [\<lparr>te_sequence_number = 3, te_type = EvWrite, te_branch_id = ''A'', te_object_id = ''k'',
      te_detail = ''mine'', te_numeric_value = 4\<rparr>]" by (simp add: op_events_def)
  obtain r where r: "RecoverSessionFromLog demo_runtime ''t.log'' (demo_mem, snd (WriteTaskEventLogArtifact cas_session ''t.log'' calm)) = Inr r"
    and b: "\<exists>b \<in> set (tx_branches (ts_txn (rs_session r))). bc_intent_log b =
        [\<lparr>wi_object_id = ''k'', wi_intent_type = kCas, wi_payload = ''mine'', wi_condition = no_condition\<rparr>]"
    using recovered_open_session [where kv = demo_mem, OF demo_Submit cas_session_def cas_fits cas_events ops refl parse]
    by (auto simp: w rebuild_logged txn_Write_def on_branch_def bm_FindBranch_def submitted_def demo_plan_def
        AddBranchPlan_def default_ExecutionPlan_def bm_BufferWrite_frame new_BranchContext_def
        IntentTypeFromPersistedValue_def set_status_def)
  then obtain b where b: "b \<in> set (tx_branches (ts_txn (rs_session r)))" "bc_intent_log b =
        [\<lparr>wi_object_id = ''k'', wi_intent_type = kCas, wi_payload = ''mine'', wi_condition = no_condition\<rparr>]" by blast
  have "\<not> rr_success (ResolveWrite e cas_intent ''theirs'')" for e
    by (simp add: ResolveWrite_def default_ResolveResult_def cas_intent_def)
  with recovered_writes_unconditional [OF r b(1), of "hd (bc_intent_log b)"] r b show ?thesis
    by (auto intro!: exI [of _ r] exI [of _ b])
qed

section \<open>Committing twice\<close>

lemma skip_is_noop:
  "dc_action (rp_decision (rs_recovery_plan r)) = RaSkipCommitted \<Longrightarrow>
     ex_command_type (BuildTaskRecoveryExecution r) = CmdNoop \<and>
     ts_txn (ex_session (BuildTaskRecoveryExecution r)) = ts_txn (rs_session r) \<and>
     ts_plan (ex_session (BuildTaskRecoveryExecution r)) = ts_plan (rs_session r)"
  by (simp add: BuildTaskRecoveryExecution_def Let_def)

text \<open>The branches on which the continuation of a recovered session commits.\<close>

definition continued_branches :: "TaskContinuationSpec \<Rightarrow> RecoveredTaskSession \<Rightarrow> BranchContext list" where
  "continued_branches spec r = tx_branches (on_branch (cs_preferred_branch_id spec)
     (bm_StageBranch (cs_score spec) (cs_summary spec)) (ts_txn (rs_session r)))"

text \<open>
  C18. A task that has already committed is committed again. When recovery finds a committed task
  it says that nothing needs to be done, but continuing its execution, with a callback that has
  nothing to add, still commits the rebuilt session: the commit succeeds whenever the rebuilt best
  branch can be committed on the store of now, and then makes that branch's step a second time.
\<close>

theorem committed_task_commits_again:
  assumes "RecoverSessionFromLog rt path st = Inr r"
    and "dc_action (rp_decision (rs_recovery_plan r)) = RaSkipCommitted"
    and "batch_store (tk_store rt) ok_state" and "ok_state st"
    and "cs_preferred_branch_id spec \<noteq> []" and "cs_score spec \<noteq> DNaN"
  shows "ex_command_type (BuildTaskRecoveryExecution r) = CmdNoop \<and>
    (\<exists>ok ex st' w. ContinueRecoveredTask rt (BuildTaskRecoveryExecution r) spec (\<lambda>_ ex st. (True, ex, st)) st =
        (Inr ok, ex, st') \<and>
      outcome_of (continued_branches spec r) w (kv_Get (tk_store rt) (fst st)) ok (ts_txn (ex_session ex))
        (kv_Get (tk_store rt) (fst st')))"
proof -
  let ?ex = "BuildTaskRecoveryExecution r"
  let ?s0 = "(ex_session ?ex)\<lparr>ts_task := SetMetadata ''recovery_execution_status'' ''noop'' (ts_task (ex_session ?ex))\<rparr>"
  let ?s = "rt_StageBranch (cs_preferred_branch_id spec) (cs_score spec) (cs_summary spec) ?s0"
  note r = recovered_session_ok [OF assms(1)] and noop = skip_is_noop [OF assms(2)]
  have txn: "ts_txn ?s = on_branch (cs_preferred_branch_id spec) (bm_StageBranch (cs_score spec) (cs_summary spec))
      (ts_txn (rs_session r))"
    by (simp add: rt_StageBranch_def txn_StageBranch_def noop)
  have plan: "ts_plan ?s = ts_plan (rs_session r)" by (simp add: rt_StageBranch_def noop)
  have same: "same_but_branches (ts_txn (rs_session r)) (ts_txn ?s)"
    unfolding txn by (rule same_but_on_branch) (simp_all add: Stage_id branch_inv_Stage recovered_Stage assms(6))
  have "txn_ok rt (tc_task_id (ts_task (rs_session r))) (ts_plan ?s) (ts_txn ?s)"
    using r same unfolding plan same_but_branches_def by (blast intro: txn_ok_frame)
  moreover have "\<forall>b \<in> set (tx_branches (ts_txn ?s)). branch_recovered b"
    using r same unfolding same_but_branches_def by blast
  then have "\<forall>b \<in> set (tx_branches (ts_txn ?s)). cr_score (bc_candidate_result b) \<noteq> DNaN"
    by (simp add: branch_recovered_def)
  moreover have "plan_Validate (ts_plan ?s) = Inr ()" using r plan by simp
  ultimately obtain c txn' st' where o: "rt_CommitTask rt ?s st =
      (Inr c, ?s\<lparr>ts_task := (ts_task ?s)\<lparr>tc_phase := if c then TaskCommitted else TaskAborted\<rparr>, ts_txn := txn',
         ts_commit_attempts := ts_commit_attempts ?s + 1, ts_committed := c,
         ts_events := ts_events ?s @ ended_events ?s c txn'\<rparr>, st')" (is "_ = (_, ?s', _)")
      "outcome_of (tx_branches (ts_txn ?s)) (best_branch (tx_branches (ts_txn ?s)))
      (kv_Get (tk_store rt) (fst st)) c txn' (kv_Get (tk_store rt) (fst st'))"
    using commit_outcome [OF _ _ assms(3,4)] by meson
  have c: "rt_CommitTask rt ?s st = (Inr c, ?s', st')"
      "outcome_of (tx_branches (ts_txn ?s)) (best_branch (tx_branches (ts_txn ?s)))
      (kv_Get (tk_store rt) (fst st)) c (ts_txn ?s') (kv_Get (tk_store rt) (fst st'))"
    using o by simp_all
  have "ContinueRecoveredTask rt ?ex spec (\<lambda>_ ex st. (True, ex, st)) st = (Inr c, ?ex\<lparr>ex_session := ?s'\<rparr>, st')"
    using c(1) assms(5) noop
    by (simp add: ContinueRecoveredTask_def ExecuteRecoveryExecution_def continuation_branch_def Let_def)
  then show ?thesis
    using c(2) noop unfolding txn continued_branches_def by fastforce
qed

text \<open>The demonstration again: it commits \<open>old+\<close>, and its recovery and continuation \<open>old++\<close>.\<close>

definition demo_events :: "TaskEvent list" where
  "demo_events =
    [\<lparr>te_sequence_number = 3, te_type = EvRead, te_branch_id = ''A'', te_object_id = ''k'', te_detail = ''old'', te_numeric_value = 3\<rparr>,
     \<lparr>te_sequence_number = 4, te_type = EvSavepoint, te_branch_id = ''A'', te_object_id = [], te_detail = ''s'', te_numeric_value = 0\<rparr>,
     \<lparr>te_sequence_number = 5, te_type = EvWrite, te_branch_id = ''A'', te_object_id = ''k'', te_detail = ''+'', te_numeric_value = 2\<rparr>,
     \<lparr>te_sequence_number = 6, te_type = EvRead, te_branch_id = ''B'', te_object_id = ''k'', te_detail = ''old'', te_numeric_value = 3\<rparr>,
     \<lparr>te_sequence_number = 7, te_type = EvStageBranch, te_branch_id = ''A'', te_object_id = [], te_detail = ''better'', te_numeric_value = 2\<rparr>]"

lemma demo_open_events: "ts_events demo_open = ts_events (submitted demo_runtime demo_task demo_plan) @ demo_events"
  by (simp add: demo_events_def demo_open_def demo_ops_def rt_defs Let_def submitted_def demo_plan_def AddBranchPlan_def
      default_ExecutionPlan_def txn_Read_def txn_Write_def txn_Savepoint_def on_branch_def bm_FindBranch_def
      bm_ReadObject_def bm_BufferWrite_frame Savepoint_id new_BranchContext_def demo_get bm_CreateSavepoint_def wb_Find_def
      empty_WriteBuffer_def ll_fits_def split: prod.split)

text \<open>The branches that its log gives back, on any view of the store.\<close>

definition again_A :: "view \<Rightarrow> BranchContext" where
  "again_A V = bm_StageBranch (DFin 5) [] (bm_BufferWrite ''k'' kGeneric (typed_intent ''k'' kAppend ''+'') V
     (bm_CreateSavepoint ''s'' ((new_BranchContext ''A'')\<lparr>bc_status := kRunning,
        bc_read_set := rs_Record ''k'' 3 []\<rparr>)))"

lemma again_A_facts:
  "commit_possible (again_A V) W" "writes_key (again_A V) ''k''" "committed_value (again_A V) W ''k'' = vv_value (W ''k'') @ ''+''"
  "cr_score (bc_candidate_result (again_A V)) = DFin 5"
proof -
  let ?b = "bm_CreateSavepoint ''s'' ((new_BranchContext ''A'')\<lparr>bc_status := kRunning, bc_read_set := rs_Record ''k'' 3 []\<rparr>)"
  have inv: "branch_inv ?b" by (rule branch_inv_Savepoint) simp
  have wb: "bc_write_buffer ?b = empty_WriteBuffer" "bc_intent_log ?b = []"
    by (simp_all add: new_BranchContext_def bm_CreateSavepoint_def)
  note f = appended_facts [OF inv wb again_A_def]
  have "bc_read_set (again_A V) = [\<lparr>rd_object_id = ''k'', rd_observed_version = 3\<rparr>]"
    unfolding f(6) by (simp add: bm_CreateSavepoint_def rs_Record_def)
  then show "commit_possible (again_A V) W"
    by (simp add: commit_possible_def versions_ok_def reads_agree_def f)
  show "writes_key (again_A V) ''k''" "committed_value (again_A V) W ''k'' = vv_value (W ''k'') @ ''+''"
    "cr_score (bc_candidate_result (again_A V)) = DFin 5" by (simp_all add: f)
qed

lemma restage: "bm_StageBranch d m (set_status i x y (bm_StageBranch d' m' b)) = bm_StageBranch d m b"
  by (simp add: bm_StageBranch_def set_status_def split: option.split)

definition again_spec :: TaskContinuationSpec where
  "again_spec = \<lparr>cs_preferred_branch_id = ''A'', cs_score = DFin 5, cs_summary = []\<rparr>"

lemma again_branches:
  assumes "ts_txn (rs_session r) = fold (rebuild_event V) (map logged_event (demo_events @ ended_events s ok txn))
    (ts_txn (submitted demo_runtime demo_task demo_plan))"
  shows "\<exists>x. continued_branches again_spec (ApplyRecoveredTerminalState r) = [again_A V, x] \<and>
    cr_score (bc_candidate_result x) = DFin 0"
proof -
  let ?b = "bm_CreateSavepoint ''s'' ((new_BranchContext ''A'')\<lparr>bc_status := kRunning, bc_read_set := rs_Record ''k'' 3 []\<rparr>)"
  let ?A = "bm_StageBranch (DFin 2) ''better'' (bm_BufferWrite ''k'' kGeneric (typed_intent ''k'' kAppend ''+'') V ?b)"
  let ?B = "(new_BranchContext ''B'')\<lparr>bc_status := kRunning, bc_read_set := rs_Record ''k'' 3 []\<rparr>"
  have two: "double_of_i64 2 = DFin 2" by code_simp
  have new: "bc_read_set (new_BranchContext i) = []" for i by (simp add: new_BranchContext_def)
  have "tx_branches (ts_txn (rs_session r)) = [?A, ?B]"
    unfolding assms ended_events_def demo_events_def
    by (simp add: rebuild_logged on_branch_def bm_FindBranch_def submitted_def demo_plan_def AddBranchPlan_def
        default_ExecutionPlan_def txn_Savepoint_def txn_Write_def txn_StageBranch_def Savepoint_id Stage_id
        bm_BufferWrite_frame IntentTypeFromPersistedValue_def typed_intent_def two new)
  then obtain i x y where b: "tx_branches (ts_txn (rs_session (ApplyRecoveredTerminalState r))) =
      [set_status i x y ?A, set_status i x y ?B]"
    using Terminal_ok [of r] by auto
  have "bc_branch_id ?A = ''A''" by (simp add: Stage_id bm_BufferWrite_frame Savepoint_id)
  then have "continued_branches again_spec (ApplyRecoveredTerminalState r) = [again_A V, set_status i x y ?B]"
    by (simp add: continued_branches_def again_spec_def on_branch_def bm_FindBranch_def b restage again_A_def)
  then show ?thesis by (simp add: set_status_def new_BranchContext_def split: option.split)
qed

definition demo_closed :: "AgentTxnContext \<Rightarrow> TaskSession" where
  "demo_closed txn' = demo_open\<lparr>ts_task := (ts_task demo_open)\<lparr>tc_phase := TaskCommitted\<rparr>, ts_txn := txn',
     ts_commit_attempts := ts_commit_attempts demo_open + 1, ts_committed := True,
     ts_events := ts_events demo_open @ ended_events demo_open True txn'\<rparr>"

lemma demo_memory: "batch_store (tk_store demo_runtime) (\<lambda>_. True)"
  by (simp add: mem.batch_store_axioms)

lemma demo_commits:
  "\<exists>txn' st1. rt_CommitTask demo_runtime demo_open demo_system = (Inr True, demo_closed txn', st1) \<and>
     mem_Get (fst st1) ''k'' = \<lparr>vv_value = ''old+'', vv_version = 4, vv_exists = True\<rparr>"
proof -
  have plain: "list_all plain_op demo_ops" by (simp add: demo_ops_def plain_type_def)
  obtain txn' st1 where c: "rt_CommitTask demo_runtime demo_open demo_system = (Inr True, demo_closed txn', st1)"
      and o: "outcome_of [demo_A, demo_B] (best_branch [demo_A, demo_B]) (mem_Get demo_mem) True txn' (mem_Get (fst st1))"
    using undisturbed_commit [OF demo_Submit plain demo_memory TrueI demo_open_def]
    by (auto simp: demo_branches demo_closed_def)
  have "mem_Get (fst st1) ''k'' = \<lparr>vv_value = ''old+'', vv_version = 4, vv_exists = True\<rparr>"
    using o demo_wins [of "best_branch [demo_A, demo_B]"] by (auto simp: outcome_of_def)
  with c show ?thesis by blast
qed

lemma demo_closed_fits: "log_fits (demo_closed txn')"
proof -
  have "ts_task demo_open = demo_task\<lparr>tc_phase := TaskRunning\<rparr>" "ts_commit_attempts demo_open = 0"
    by (simp_all add: demo_open_def submitted_run_open) (simp_all add: submitted_def)
  moreover have "length (ts_events demo_open) = 8"
    by (simp add: demo_open_events demo_events_def submitted_def created_events_facts demo_plan_def AddBranchPlan_def
        default_ExecutionPlan_def)
  ultimately show ?thesis
    using demo_open_fits by (auto simp: log_fits_def demo_closed_def ended_events_def)
qed

lemma demo_closed_log:
  "ParseTaskEventLogArtifact ''t.log'' (snd (WriteTaskEventLogArtifact (demo_closed txn') ''t.log'' calm)) =
     Some (logged_artifact (demo_closed txn'))"
proof (rule parse_task_log [OF written_task_log])
  show "WriteTaskEventLogArtifact (demo_closed txn') ''t.log'' calm =
      (True, snd (WriteTaskEventLogArtifact (demo_closed txn') ''t.log'' calm))"
    by (simp add: WriteTaskEventLogArtifact_def write_file_def next_fault_def calm_def)
  show "\<forall>e \<in> set (ts_events (demo_closed txn')). te_sequence_number e < 2 ^ 64"
    using demo_closed_fits [of txn'] unfolding log_fits_def by (rule conjunct1)
qed

lemma demo_closed_recovered:
  "\<exists>r. RecoverSessionFromLog demo_runtime ''t.log''
       (m, snd (WriteTaskEventLogArtifact (demo_closed txn') ''t.log'' calm)) = Inr r \<and>
     dc_action (rp_decision (rs_recovery_plan r)) = RaSkipCommitted \<and>
     (\<exists>x. continued_branches again_spec r = [again_A (mem_Get m), x] \<and> cr_score (bc_candidate_result x) = DFin 0)"
proof -
  let ?s = "demo_closed txn'" and ?es = "demo_events @ ended_events demo_open True txn'"
  have ev: "ts_events ?s = ts_events (submitted demo_runtime demo_task demo_plan) @ ?es"
    by (simp add: demo_closed_def demo_open_events)
  have later: "later_events ?es" by (simp add: later_events_def demo_events_def ended_events_def)
  have id: "tc_task_id (ts_task ?s) = tc_task_id demo_task"
    by (simp add: demo_closed_def demo_open_def submitted_run_open) (simp add: submitted_def)
  obtain r where r: "RecoverSessionFromLog demo_runtime ''t.log''
        (m, snd (WriteTaskEventLogArtifact ?s ''t.log'' calm)) = Inr (ApplyRecoveredTerminalState r)"
      and d: "rp_decision (rs_recovery_plan r) = RecoverTaskSessionDecision ''t.log'' (logged_artifact ?s)"
      and txn: "ts_txn (rs_session r) = fold (rebuild_event (mem_Get m)) (map logged_event ?es)
        (ts_txn (submitted demo_runtime demo_task demo_plan))"
    using recovered_session [where kv = m, OF demo_Submit demo_closed_fits id ev later demo_closed_log] by auto
  have "ts_committed ?s" by (simp add: demo_closed_def)
  then have "dc_action (RecoverTaskSessionDecision ''t.log'' (logged_artifact ?s)) = RaSkipCommitted"
    by (simp add: RecoverTaskSessionDecision_def Let_def logged_fixed_values)
  then have "dc_action (rp_decision (rs_recovery_plan (ApplyRecoveredTerminalState r))) = RaSkipCommitted"
    using Terminal_ok [of r] d by simp
  with r again_branches [OF txn] show ?thesis by blast
qed

theorem committed_task_commits_again_witness:
  "case rt_CommitTask demo_runtime demo_open demo_system of
     (_, s1, st1) \<Rightarrow> \<exists>r. RecoverSessionFromLog demo_runtime ''t.log''
         (fst st1, snd (WriteTaskEventLogArtifact s1 ''t.log'' calm)) = Inr r \<and>
       mem_Get (fst st1) ''k'' = \<lparr>vv_value = ''old+'', vv_version = 4, vv_exists = True\<rparr> \<and>
       (case ContinueRecoveredTask demo_runtime (BuildTaskRecoveryExecution r) again_spec (\<lambda>_ ex st. (True, ex, st))
           (fst st1, snd (WriteTaskEventLogArtifact s1 ''t.log'' calm)) of
          (r2, _, st2) \<Rightarrow> r2 = Inr True \<and>
            mem_Get (fst st2) ''k'' = \<lparr>vv_value = ''old++'', vv_version = 5, vv_exists = True\<rparr>)"
proof -
  obtain txn' st1 where c: "rt_CommitTask demo_runtime demo_open demo_system = (Inr True, demo_closed txn', st1)"
      and v1: "mem_Get (fst st1) ''k'' = \<lparr>vv_value = ''old+'', vv_version = 4, vv_exists = True\<rparr>"
    using demo_commits by blast
  let ?st = "(fst st1, snd (WriteTaskEventLogArtifact (demo_closed txn') ''t.log'' calm))"
  obtain r x where r: "RecoverSessionFromLog demo_runtime ''t.log'' ?st = Inr r"
      "dc_action (rp_decision (rs_recovery_plan r)) = RaSkipCommitted"
      and br: "continued_branches again_spec r = [again_A (mem_Get (fst st1)), x]" "cr_score (bc_candidate_result x) = DFin 0"
    using demo_closed_recovered by blast
  have s: "cs_preferred_branch_id again_spec \<noteq> []" "cs_score again_spec \<noteq> DNaN" by (simp_all add: again_spec_def)
  obtain ok ex st2 w where k: "ContinueRecoveredTask demo_runtime (BuildTaskRecoveryExecution r)
      again_spec (\<lambda>_ ex st. (True, ex, st)) ?st = (Inr ok, ex, st2)"
      "outcome_of [again_A (mem_Get (fst st1)), x] w (mem_Get (fst st1)) ok (ts_txn (ex_session ex)) (mem_Get (fst st2))"
    using committed_task_commits_again [OF r demo_memory TrueI s] by (auto simp: br(1))
  then have wA: "w = again_A (mem_Get (fst st1))"
    using br(2) by (auto simp: outcome_of_def again_A_facts)
  then have ok and "mem_Get (fst st2) ''k'' = \<lparr>vv_value = ''old++'', vv_version = 5, vv_exists = True\<rparr>"
    using k(2) by (simp_all add: outcome_of_def again_A_facts commit_view_def v1)
  with c r k(1) v1 show ?thesis by simp
qed

end
