(* ===== verification/Workload_Agent.thy ===== *)
theory Workload_Agent
  imports Task_Hazards
begin

text \<open>
  \<open>workloads/agent_task/\<close>: the smallest agent task, three candidate branches that read one
  object and overwrite another, and how it is continued after a recovery.
\<close>

section \<open>The task\<close>

definition BuildMinimalCandidateTaskContext :: "string \<Rightarrow> string \<Rightarrow> string \<Rightarrow> TaskContext" where
  "BuildMinimalCandidateTaskContext task_id input_key output_key =
     (let task = default_TaskContext\<lparr>tc_task_id := task_id,
            tc_objective := ''generate candidate outputs and commit winner'',
            tc_workload_name := ''agent_task.minimal_candidate_task'',
            tc_planner_id := ''minimal_candidate_planner'', tc_phase := TaskCreated\<rparr>;
          task = AddInputObject input_key ''task_input'' task;
          task = AddOutputObject output_key ''task_output'' task
      in SetMetadata ''branch_count'' ''3'' task)"

definition BuildMinimalCandidateExecutionPlan :: ExecutionPlan where
  "BuildMinimalCandidateExecutionPlan =
     (let plan = AddBranchPlan ''branch_A'' ''candidate_A'' ''baseline candidate'' (DFin 72) default_ExecutionPlan;
          plan = AddBranchPlan ''branch_B'' ''candidate_B'' ''best candidate'' (DFin 91) plan
      in AddBranchPlan ''branch_C'' ''candidate_C'' ''fallback candidate'' (DFin 65) plan)"

text \<open>The block of calls for one candidate.\<close>

definition run_candidate ::
    "'s RuntimeCore \<Rightarrow> string \<Rightarrow> string \<Rightarrow> 's sys \<Rightarrow> string \<Rightarrow> string \<Rightarrow> double \<Rightarrow> string \<Rightarrow> TaskSession \<Rightarrow> TaskSession" where
  "run_candidate rt input_key output_key st branch_id payload score summary session =
     (let (_, session) = rt_Read rt branch_id input_key st session;
          session = rt_Write rt branch_id output_key kText
            \<lparr>wi_object_id = output_key, wi_intent_type = kOverwrite, wi_payload = payload,
             wi_condition = no_condition\<rparr> st session
      in rt_StageBranch branch_id score summary session)"

definition ExecuteMinimalCandidateBranches ::
    "'s RuntimeCore \<Rightarrow> string \<Rightarrow> string \<Rightarrow> 's sys \<Rightarrow> TaskSession \<Rightarrow> TaskSession" where
  "ExecuteMinimalCandidateBranches rt input_key output_key st session =
     (let session = run_candidate rt input_key output_key st ''branch_A'' ''result_A'' (DFin 72) ''candidate A'' session;
          session = run_candidate rt input_key output_key st ''branch_B'' ''result_B'' (DFin 91) ''candidate B'' session
      in run_candidate rt input_key output_key st ''branch_C'' ''result_C'' (DFin 65) ''candidate C'' session)"

definition RunMinimalCandidateTask ::
    "'s RuntimeCore \<Rightarrow> string \<Rightarrow> string \<Rightarrow> string \<Rightarrow> 's sys \<Rightarrow> (exn + TaskSession) \<times> 's sys" where
  "RunMinimalCandidateTask rt task_id input_key output_key st =
     (case SubmitTask rt (BuildMinimalCandidateTaskContext task_id input_key output_key)
             BuildMinimalCandidateExecutionPlan of
        Inl e \<Rightarrow> (Inl e, st)
      | Inr session \<Rightarrow>
          (let session = ExecuteMinimalCandidateBranches rt input_key output_key st session in
           case rt_CommitTask rt session st of
             (Inl e, _, st) \<Rightarrow> (Inl e, st)
           | (Inr _, session, st) \<Rightarrow> (Inr session, st)))"

section \<open>Its continuation\<close>

definition first_object :: "ObjectReference list \<Rightarrow> string" where
  "first_object objects = (case objects of [] \<Rightarrow> [] | x # _ \<Rightarrow> or_object_id x)"

text \<open>The callback that reads the input, if there is one, and overwrites the output.\<close>

definition overwrite_callback ::
    "'s RuntimeCore \<Rightarrow> string \<Rightarrow> string \<Rightarrow> string \<Rightarrow> 's TaskContinuationCallback" where
  "overwrite_callback rt input_key output_key result_value branch_id execution st =
     (let session = ex_session execution;
          session = (if input_key \<noteq> [] then snd (rt_Read rt branch_id input_key st session) else session);
          session = rt_Write rt branch_id output_key kText
            \<lparr>wi_object_id = output_key, wi_intent_type = kOverwrite, wi_payload = result_value,
             wi_condition = no_condition\<rparr> st session
      in (True, execution\<lparr>ex_session := session\<rparr>, st))"

definition ContinueRecoveredMinimalCandidateTask ::
    "string \<Rightarrow> double \<Rightarrow> string \<Rightarrow> string \<Rightarrow> 's TaskContinuationHandler" where
  "ContinueRecoveredMinimalCandidateTask result_value score summary preferred_branch_id rt execution st =
     (let input_key = first_object (tc_input_objects (ts_task (ex_session execution)));
          output_key = first_object (tc_output_objects (ts_task (ex_session execution))) in
      if output_key = [] then (Inr False, execution, st)
      else
        ContinueRecoveredTask rt execution
          \<lparr>cs_preferred_branch_id = preferred_branch_id, cs_score = score, cs_summary = summary\<rparr>
          (overwrite_callback rt input_key output_key result_value) st)"

definition RegisterMinimalCandidateContinuation ::
    "string \<Rightarrow> double \<Rightarrow> string \<Rightarrow> string \<Rightarrow> 's TaskContinuationRegistry \<Rightarrow> bool \<times> 's TaskContinuationRegistry" where
  "RegisterMinimalCandidateContinuation result_value score summary preferred_branch_id registry =
     RegisterHandler ''agent_task.minimal_candidate_task''
       (Some (ContinueRecoveredMinimalCandidateTask result_value score summary preferred_branch_id)) registry"

text \<open>The default arguments.\<close>

definition RegisterMinimalCandidateContinuation_default ::
    "'s TaskContinuationRegistry \<Rightarrow> bool \<times> 's TaskContinuationRegistry" where
  "RegisterMinimalCandidateContinuation_default =
     RegisterMinimalCandidateContinuation ''recovered_agent_result'' (DFin 101)
       ''recovered minimal candidate task'' ''branch_B''"

section \<open>What the task does\<close>

definition overwrite :: "string \<Rightarrow> string \<Rightarrow> WriteIntent" where
  "overwrite k v = \<lparr>wi_object_id = k, wi_intent_type = kOverwrite, wi_payload = v, wi_condition = no_condition\<rparr>"

lemma overwrite_sel [simp]:
  "wi_object_id (overwrite k v) = k" "wi_intent_type (overwrite k v) = kOverwrite" "wi_payload (overwrite k v) = v"
  by (simp_all add: overwrite_def)

definition candidate_ops :: "string \<Rightarrow> string \<Rightarrow> string \<Rightarrow> string \<Rightarrow> double \<Rightarrow> string \<Rightarrow> TaskOp list" where
  "candidate_ops input_key output_key b v d m =
     [DoRead b input_key, DoWrite b output_key kText (overwrite output_key v), DoStage b d m]"

lemma run_candidate_ops:
  "run_candidate rt i k st b v d m s = fold (task_op rt st) (candidate_ops i k b v d m) s"
  by (simp add: run_candidate_def candidate_ops_def overwrite_def split: prod.split)

definition minimal_ops :: "string \<Rightarrow> string \<Rightarrow> TaskOp list" where
  "minimal_ops i k = candidate_ops i k ''branch_A'' ''result_A'' (DFin 72) ''candidate A'' @
     candidate_ops i k ''branch_B'' ''result_B'' (DFin 91) ''candidate B'' @
     candidate_ops i k ''branch_C'' ''result_C'' (DFin 65) ''candidate C''"

lemma Execute_ops: "ExecuteMinimalCandidateBranches rt i k st s = fold (task_op rt st) (minimal_ops i k) s"
  by (simp add: ExecuteMinimalCandidateBranches_def Let_def run_candidate_ops minimal_ops_def)

definition candidate :: "view \<Rightarrow> string \<Rightarrow> string \<Rightarrow> string \<Rightarrow> string \<Rightarrow> double \<Rightarrow> string \<Rightarrow> BranchContext" where
  "candidate V i k b v d m =
     bm_StageBranch d m (bm_BufferWrite k kText (overwrite k v) V (snd (bm_ReadObject i V (new_BranchContext b))))"

lemma candidate_id: "bc_branch_id (candidate V i k b v d m) = b"
  by (simp add: candidate_def Stage_id bm_BufferWrite_frame bm_ReadObject_frame)

lemma candidate_facts:
  "writes_key (candidate V i k b v d m) q \<longleftrightarrow> q = k" "committed_value (candidate V i k b v d m) W k = v"
  "cr_score (bc_candidate_result (candidate V i k b v d m)) = d"
proof -
  have inv: "branch_inv (snd (bm_ReadObject i V (new_BranchContext b)))" by (rule branch_inv_Read) simp
  have wb: "bc_write_buffer (snd (bm_ReadObject i V (new_BranchContext b))) = empty_WriteBuffer"
      "bc_intent_log (snd (bm_ReadObject i V (new_BranchContext b))) = []"
    by (simp_all add: bm_ReadObject_frame new_BranchContext_def)
  note f = overwritten_facts [OF inv wb overwrite_sel(1,2) candidate_def] written_facts [OF inv wb overwrite_sel(1) candidate_def]
  show "writes_key (candidate V i k b v d m) q \<longleftrightarrow> q = k" "committed_value (candidate V i k b v d m) W k = v"
    "cr_score (bc_candidate_result (candidate V i k b v d m)) = d" by (simp_all add: f)
qed

lemma minimal_branches:
  assumes "s = submitted rt task BuildMinimalCandidateExecutionPlan" and "V = kv_Get (tk_store rt) (fst st)"
  shows "tx_branches (ts_txn (fold (task_op rt st) (minimal_ops i k) s)) =
    [candidate V i k ''branch_A'' ''result_A'' (DFin 72) ''candidate A'',
     candidate V i k ''branch_B'' ''result_B'' (DFin 91) ''candidate B'',
     candidate V i k ''branch_C'' ''result_C'' (DFin 65) ''candidate C'']"
  by (simp add: assms minimal_ops_def candidate_ops_def task_op_txn submitted_def BuildMinimalCandidateExecutionPlan_def
      Let_def AddBranchPlan_def default_ExecutionPlan_def on_branch_def bm_FindBranch_def bm_ReadObject_frame
      bm_BufferWrite_frame Stage_id candidate_def del: task_op.simps)

lemma minimal_Submit:
  "task_id \<noteq> [] \<Longrightarrow> SubmitTask rt (BuildMinimalCandidateTaskContext task_id i k) BuildMinimalCandidateExecutionPlan =
     Inr (submitted rt (BuildMinimalCandidateTaskContext task_id i k) BuildMinimalCandidateExecutionPlan)"
  by (simp add: SubmitTask_iff task_Validate_iff plan_Validate_iff BuildMinimalCandidateTaskContext_def Let_def
      AddInputObject_def AddOutputObject_def BuildMinimalCandidateExecutionPlan_def AddBranchPlan_def
      default_ExecutionPlan_def default_TaskContext_def CandidateBranchIds_def)

text \<open>
  The minimal agent task, run on a store with atomic batches that nobody else changes,
  commits the best of its three candidates: it returns a committed session, the output object
  holds \<open>result_B\<close> one version later, and no other key has changed, whatever the input and the
  output object are.
\<close>

theorem minimal_candidate_task_commits:
  assumes "task_id \<noteq> []" and "batch_store (tk_store rt) ok_state" and "ok_state st"
  shows "\<exists>session st'. RunMinimalCandidateTask rt task_id input_key output_key st = (Inr session, st') \<and>
    ts_committed session \<and> tc_phase (ts_task session) = TaskCommitted \<and>
    tx_winner_branch_id (ts_txn session) = ''branch_B'' \<and>
    kv_Get (tk_store rt) (fst st') = view_put output_key ''result_B'' (kv_Get (tk_store rt) (fst st))"
proof -
  let ?V = "kv_Get (tk_store rt) (fst st)" and ?task = "BuildMinimalCandidateTaskContext task_id input_key output_key"
  let ?s0 = "submitted rt ?task BuildMinimalCandidateExecutionPlan" and ?ops = "minimal_ops input_key output_key"
  let ?s = "fold (task_op rt st) ?ops ?s0"
  let ?B = "candidate ?V input_key output_key ''branch_B'' ''result_B'' (DFin 91) ''candidate B''"
  note sub = minimal_Submit [OF assms(1), of rt input_key output_key]
  have plain: "list_all plain_op ?ops" by (simp add: minimal_ops_def candidate_ops_def plain_type_def)
  obtain txn' st' where c: "rt_CommitTask rt ?s st =
      (Inr True, ?s\<lparr>ts_task := (ts_task ?s)\<lparr>tc_phase := TaskCommitted\<rparr>, ts_txn := txn',
         ts_commit_attempts := ts_commit_attempts ?s + 1, ts_committed := True,
         ts_events := ts_events ?s @ ended_events ?s True txn'\<rparr>, st')"
      and o: "outcome_of (tx_branches (ts_txn ?s)) (best_branch (tx_branches (ts_txn ?s))) ?V True txn'
        (kv_Get (tk_store rt) (fst st'))"
    using undisturbed_commit [OF sub plain assms(2,3) refl] by blast
  have best: "best_branch (tx_branches (ts_txn ?s)) = ?B"
    by (simp add: minimal_branches [OF refl refl] best_branch_def candidate_facts)
  have "kv_Get (tk_store rt) (fst st') = view_put output_key ''result_B'' ?V"
    using o unfolding best outcome_of_def by (auto simp: commit_view_def candidate_facts view_put_def)
  moreover have "tx_winner_branch_id txn' = ''branch_B''"
    using o unfolding best outcome_of_def by (simp add: candidate_id)
  ultimately show ?thesis
    using c by (simp add: RunMinimalCandidateTask_def sub Execute_ops)
qed

theorem minimal_candidate_task_commits_witness:
  "case RunMinimalCandidateTask demo_runtime ''t'' ''k'' ''out'' demo_system of
     (Inr session, st') \<Rightarrow> ts_committed session \<and>
       mem_Get (fst st') ''out'' = \<lparr>vv_value = ''result_B'', vv_version = 1, vv_exists = True\<rparr>
   | _ \<Rightarrow> False"
proof -
  have "mem_Get demo_mem ''out'' = no_value" by (simp add: demo_mem_def mem_Get_def umap_find_def)
  then show ?thesis
    using minimal_candidate_task_commits [of "''t''" demo_runtime "\<lambda>_. True" demo_system "''k''" "''out''"] demo_memory
    by (auto simp: view_put_def no_value_def)
qed

end
