(* ===== verification/Task_Programs.thy ===== *)
theory Task_Programs
  imports Workload_Agent
begin

text \<open>
  Workloads run one program of operations per branch, and then commit. Operations on different
  branches do not interfere, so the branches end as their programs leave them; and the verdict
  that a commit stores agrees with what it returns.
\<close>

section \<open>Programs of branches\<close>

fun op_branch :: "TaskOp \<Rightarrow> string" where
  "op_branch (DoRead b k) = b"
| "op_branch (DoWrite b k t i) = b"
| "op_branch (DoSavepoint b p) = b"
| "op_branch (DoRollback b p) = b"
| "op_branch (DoStage b d m) = b"

fun branch_op :: "view \<Rightarrow> TaskOp \<Rightarrow> BranchContext \<Rightarrow> BranchContext" where
  "branch_op V (DoRead b k) x = snd (bm_ReadObject k V x)"
| "branch_op V (DoWrite b k t i) x = bm_BufferWrite k t i V x"
| "branch_op V (DoSavepoint b p) x = bm_CreateSavepoint p x"
| "branch_op V (DoRollback b p) x = snd (rm_RollbackToSavepoint p x)"
| "branch_op V (DoStage b d m) x = bm_StageBranch d m x"

lemma task_op_on_branch:
  "ts_txn (task_op rt st op s) = on_branch (op_branch op) (branch_op (kv_Get (tk_store rt) (fst st)) op) (ts_txn s)"
  by (cases op) (simp_all add: task_op_txn on_branch_def fun_eq_iff del: task_op.simps split: option.split)

lemma branch_op_id: "bc_branch_id (branch_op V op x) = bc_branch_id x"
  by (cases op) (simp_all add: bm_ReadObject_frame bm_BufferWrite_frame Savepoint_id Rollback_id Stage_id)

lemma branch_ops_id: "bc_branch_id (fold (branch_op V) ops x) = bc_branch_id x"
  by (induction ops arbitrary: x) (simp_all add: branch_op_id)

lemma on_branch_split:
  "tx_branches t = xs @ x # ys \<Longrightarrow> bc_branch_id x \<notin> bc_branch_id ` set xs \<Longrightarrow> i = bc_branch_id x \<Longrightarrow>
     on_branch i f t = t\<lparr>tx_branches := xs @ f x # ys\<rparr>"
proof -
  assume t: "tx_branches t = xs @ x # ys" and x: "bc_branch_id x \<notin> bc_branch_id ` set xs" and i: "i = bc_branch_id x"
  have "find_index (\<lambda>b. bc_branch_id b = i) (xs @ x # ys) = Some (length xs)"
    using x by (subst find_index_append_skip) (auto simp: i image_iff)
  then show ?thesis by (simp add: on_branch_def bm_FindBranch_def t)
qed

lemma program_on_branch:
  assumes "\<forall>op \<in> set ops. op_branch op = bc_branch_id x" "bc_branch_id x \<notin> bc_branch_id ` set xs"
    and "tx_branches (ts_txn s) = xs @ x # ys"
  shows "tx_branches (ts_txn (fold (task_op rt st) ops s)) =
    xs @ fold (branch_op (kv_Get (tk_store rt) (fst st))) ops x # ys"
  using assms
proof (induction ops arbitrary: s x)
  case (Cons op ops)
  let ?V = "kv_Get (tk_store rt) (fst st)"
  have "tx_branches (ts_txn (task_op rt st op s)) = xs @ branch_op ?V op x # ys"
    using Cons.prems by (simp add: task_op_on_branch on_branch_split del: task_op.simps)
  then show ?case
    using Cons.IH [of "branch_op ?V op x" "task_op rt st op s"] Cons.prems(1,2) by (simp add: branch_op_id)
qed simp

lemma run_programs:
  assumes "\<forall>p \<in> set ps. \<forall>op \<in> set (snd p). op_branch op = fst p" "distinct (map fst ps)"
    and "fst ` set ps \<inter> bc_branch_id ` set xs = {}"
    and "tx_branches (ts_txn s) = xs @ map (\<lambda>p. new_BranchContext (fst p)) ps"
  shows "tx_branches (ts_txn (fold (task_op rt st) (concat (map snd ps)) s)) =
    xs @ map (\<lambda>p. fold (branch_op (kv_Get (tk_store rt) (fst st))) (snd p) (new_BranchContext (fst p))) ps"
  using assms
proof (induction ps arbitrary: s xs)
  case (Cons p ps)
  let ?x = "fold (branch_op (kv_Get (tk_store rt) (fst st))) (snd p) (new_BranchContext (fst p))"
  have "tx_branches (ts_txn (fold (task_op rt st) (snd p) s)) =
      (xs @ [?x]) @ map (\<lambda>p. new_BranchContext (fst p)) ps"
    using program_on_branch [of "snd p" "new_BranchContext (fst p)" xs s "map (\<lambda>p. new_BranchContext (fst p)) ps"]
      Cons.prems by simp
  then show ?case
    using Cons.IH [of "xs @ [?x]" "fold (task_op rt st) (snd p) s"] Cons.prems by (auto simp: branch_ops_id)
qed simp

section \<open>The verdict of a commit\<close>

lemma collect_reads_verdict: "collect_reads rs seen = Inl f \<Longrightarrow> \<not> vr_success f"
  by (induction rs arbitrary: seen) (auto simp: Let_def vr_fail_def split: prod.splits if_splits)

lemma resolve_verdict:
  assumes "\<not> vr_success f"
  shows "case resolve_entries V m es seen ws f of Inl g \<Rightarrow> \<not> vr_success g | Inr (_, _, g) \<Rightarrow> \<not> vr_success g"
  using assms
proof (induction es arbitrary: seen ws f)
  case (Cons e es)
  have "\<not> vr_success (snd (AddOrVerifyCheck k n seen f))" for k n
    using Cons.prems by (auto simp: AddOrVerifyCheck_def vr_fail_def split: prod.split)
  then have "\<not> vr_success g" if "AddOrVerifyCheck k n seen f = (x, g)" for k n x g
    using that by (metis snd_conv)
  then show ?case
    using Cons by (auto simp: Let_def vr_fail_def split: option.split prod.split)
qed simp

lemma batch_commit_verdict:
  assumes c: "CommitWinner kv txn w st default_ValidationResult = Inr (False, txn', st', f)"
    and "SupportsAtomicBatchConditionalWrite kv"
  shows "\<not> vr_success f"
proof -
  have d: "\<not> vr_success default_ValidationResult" by (simp add: default_ValidationResult_def)
  have r: "\<not> vr_success (or_reason m g)" if "\<not> vr_success g" for m g
    using that by (simp add: or_reason_def vr_fail_def)
  show ?thesis
  proof (cases "plan_commit w (kv_Get kv (fst st)) default_ValidationResult")
    case (Inl e)
    with c show ?thesis by (simp add: CommitWinner_def)
  next
    case (Inr p)
    have "case p of Inl g \<Rightarrow> \<not> vr_success g | Inr (_, _, g) \<Rightarrow> \<not> vr_success g"
      using Inr resolve_verdict [OF d, of "kv_Get kv (fst st)" "latest_intents (bc_intent_log w)" _ _ "[]"]
      by (fastforce simp: plan_commit_def dest: collect_reads_verdict split: sum.splits option.splits)
    with c assms(2) Inr r show ?thesis
      by (auto simp: CommitWinner_def Let_def split: sum.splits prod.splits if_splits)
  qed
qed

lemma Abort_result [simp]:
  "tx_validation_result (rm_AbortTransaction t) = tx_validation_result t" "tx_metrics (rm_AbortTransaction t) = tx_metrics t"
  by (simp_all add: rm_AbortTransaction_def)

lemma commit_verdict:
  assumes c: "tm_SelectWinnerAndCommit kv txn st = Inr (ok, txn', st')"
    and b: "SupportsAtomicBatchConditionalWrite kv"
  shows "(vr_success (tx_validation_result txn') \<longleftrightarrow> ok) \<and> tx_metrics txn' = tx_metrics txn"
proof -
  from c obtain w where w: "bm_SelectWinner (tx_branches txn) = Inr w"
    by (auto simp: tm_SelectWinnerAndCommit_def split: sum.splits)
  let ?t = "txn\<lparr>tx_winner_branch_id := w, tx_branches := bm_MarkWinnerAndLosers w (tx_branches txn)\<rparr>"
  show ?thesis
  proof (cases "bm_FindBranch (tx_branches ?t) w")
    case None
    with c w show ?thesis by (auto simp: tm_SelectWinnerAndCommit_def Let_def vr_fail_def)
  next
    case (Some i)
    let ?v = "vm_ValidateWinner (tx_branches ?t ! i) (kv_GetVersion kv (fst st))"
    show ?thesis
    proof (cases "vr_success ?v")
      case False
      with c w Some show ?thesis by (auto simp: tm_SelectWinnerAndCommit_def Let_def)
    next
      case True
      with c w Some obtain committed t1 st1 f1 where
          cw: "CommitWinner kv (?t\<lparr>tx_validation_result := ?v\<rparr>) (tx_branches ?t ! i) st default_ValidationResult =
            Inr (committed, t1, st1, f1)"
        by (auto simp: tm_SelectWinnerAndCommit_def Let_def split: sum.splits)
      obtain l where l: "t1 = ?t\<lparr>tx_validation_result := ?v, tx_commit_log := l\<rparr>"
        using CommitWinner_txn [OF cw] by blast
      have "\<not> committed \<Longrightarrow> \<not> vr_success f1" using batch_commit_verdict [OF _ b] cw by simp
      with c w Some True cw l show ?thesis
        by (cases committed) (auto simp: tm_SelectWinnerAndCommit_def Let_def)
    qed
  qed
qed

end
