(* ===== verification/Workload_Synthetic.thy ===== *)
theory Workload_Synthetic
  imports Task_Programs
begin

text \<open>
  \<open>workloads/synthetic/\<close>: the driver of the synthetic experiment, which runs numbered tasks one
  after the other, some of them against a conflicting write, and counts how they end; and the
  continuation of such a task after a recovery.
\<close>

section \<open>The driver\<close>

record SyntheticRunConfig =
  sy_task_count :: nat
  sy_branch_count :: nat
  sy_conflict_every :: nat
  sy_commit_log_dir :: string
  sy_task_event_log_dir :: string

definition default_SyntheticRunConfig :: SyntheticRunConfig where
  "default_SyntheticRunConfig =
     \<lparr>sy_task_count = 10, sy_branch_count = 3, sy_conflict_every = 3, sy_commit_log_dir = [],
      sy_task_event_log_dir = []\<rparr>"

record SyntheticTaskRecord =
  sr_task_id :: string
  sr_committed :: bool
  sr_branch_count :: nat
  sr_planned_loser_count :: nat
  sr_winner_commit_count :: nat
  sr_real_abort_count :: nat
  sr_conflict_abort_count :: nat
  sr_validation_fail_count :: nat
  sr_retry_count :: nat
  sr_commit_latency_us :: double
  sr_commit_log_path :: string
  sr_commit_log_entry_count :: nat
  sr_task_event_log_path :: string
  sr_task_event_count :: nat

record SyntheticRunResult =
  ss_task_count :: nat
  ss_committed_task_count :: nat
  ss_aborted_task_count :: nat
  ss_tasks :: "SyntheticTaskRecord list"

definition AppendTaskRecord :: "SyntheticTaskRecord \<Rightarrow> SyntheticRunResult \<Rightarrow> SyntheticRunResult" where
  "AppendTaskRecord record' result =
     (let result = (if sr_committed record'
        then result\<lparr>ss_committed_task_count := ss_committed_task_count result + 1\<rparr>
        else result\<lparr>ss_aborted_task_count := ss_aborted_task_count result + 1\<rparr>)
      in result\<lparr>ss_tasks := ss_tasks result @ [record']\<rparr>)"

definition synthetic_task :: "SyntheticRunConfig \<Rightarrow> nat \<Rightarrow> string \<Rightarrow> string \<Rightarrow> string \<Rightarrow> TaskContext" where
  "synthetic_task config task_index task_id input_key output_key =
     (let task = default_TaskContext\<lparr>tc_task_id := task_id, tc_objective := ''synthetic candidate-selection workload'',
            tc_workload_name := ''synthetic.candidate_selection'', tc_planner_id := ''synthetic_planner'',
            tc_phase := TaskCreated\<rparr>;
          task = AddInputObject input_key ''synthetic_input'' task;
          task = AddOutputObject output_key ''synthetic_output'' task;
          task = SetMetadata ''task_index'' (nat_dec task_index) task
      in SetMetadata ''branch_count'' (nat_dec (sy_branch_count config)) task)"

definition synthetic_plan :: "SyntheticRunConfig \<Rightarrow> ExecutionPlan" where
  "synthetic_plan config =
     fold (\<lambda>i. AddBranchPlan (''branch_'' @ nat_dec i) (''candidate_'' @ nat_dec i)
            (''synthetic candidate '' @ nat_dec i) (double_of_int (int i)))
       [0..<sy_branch_count config] default_ExecutionPlan"

text \<open>The calls for one branch.\<close>

definition synthetic_branch ::
    "'s RuntimeCore \<Rightarrow> 's sys \<Rightarrow> string \<Rightarrow> string \<Rightarrow> nat \<Rightarrow> nat \<times> string \<Rightarrow> TaskSession \<Rightarrow> TaskSession" where
  "synthetic_branch rt st input_key output_key task_index ib session =
     (let (i, branch_id) = ib;
          (_, session) = rt_Read rt branch_id input_key st session;
          session = (if i = 0 then
            (let session = rt_Savepoint branch_id ''before_write'' session;
                 session = rt_Write rt branch_id output_key kText
                   \<lparr>wi_object_id = output_key, wi_intent_type = kAppend, wi_payload = ''::tentative'',
                    wi_condition = no_condition\<rparr> st session
             in snd (rt_RollbackToSavepoint branch_id ''before_write'' session)) else session);
          session = rt_Write rt branch_id output_key kText
            \<lparr>wi_object_id = output_key, wi_intent_type = kOverwrite,
             wi_payload = ''result_'' @ nat_dec task_index @ ''_'' @ nat_dec i, wi_condition = no_condition\<rparr> st session
      in rt_StageBranch branch_id (double_of_int (int ((i + 1) * 10 + task_index))) (''candidate_'' @ nat_dec i) session)"

definition conflict_injected :: "SyntheticRunConfig \<Rightarrow> nat \<Rightarrow> bool" where
  "conflict_injected config task_index \<longleftrightarrow>
     sy_conflict_every config \<noteq> 0 \<and> (task_index + 1) mod sy_conflict_every config = 0"

text \<open>\<open>elapsed\<close> is what the clock says between the two ends of the commit, in microseconds.\<close>

definition end_metrics :: "bool \<Rightarrow> bool \<Rightarrow> i64 \<Rightarrow> AgentTxnContext \<Rightarrow> TxnMetrics" where
  "end_metrics committed inject_conflict elapsed txn =
     (tx_metrics txn)\<lparr>tm_commit_latency_us := double_of_i64 elapsed,
        tm_winner_commit_count := (if committed then 1 else 0),
        tm_real_abort_count := (if committed then 0 else 1),
        tm_conflict_abort_count :=
          (if \<not> committed \<and> inject_conflict \<and> \<not> vr_success (tx_validation_result txn) then 1 else 0),
        tm_validation_fail_count := (if \<not> vr_success (tx_validation_result txn) then 1 else 0)\<rparr>"

definition task_record :: "SyntheticRunConfig \<Rightarrow> string \<Rightarrow> bool \<Rightarrow> TaskSession \<Rightarrow> SyntheticTaskRecord" where
  "task_record config task_id committed session =
     (let m = tx_metrics (ts_txn session) in
      \<lparr>sr_task_id = task_id, sr_committed = committed, sr_branch_count = tm_branch_count m,
       sr_planned_loser_count = tm_planned_loser_count m, sr_winner_commit_count = tm_winner_commit_count m,
       sr_real_abort_count = tm_real_abort_count m, sr_conflict_abort_count = tm_conflict_abort_count m,
       sr_validation_fail_count = tm_validation_fail_count m, sr_retry_count = tm_retry_count m,
       sr_commit_latency_us = tm_commit_latency_us m,
       sr_commit_log_path = (if sy_commit_log_dir config \<noteq> []
         then sy_commit_log_dir config @ ''/'' @ task_id @ ''.commit.log'' else []),
       sr_commit_log_entry_count = length (tx_commit_log (ts_txn session)),
       sr_task_event_log_path = (if sy_task_event_log_dir config \<noteq> []
         then sy_task_event_log_dir config @ ''/'' @ task_id @ ''.task.log'' else []),
       sr_task_event_count = length (ts_events session)\<rparr>)"

definition write_logs :: "SyntheticRunConfig \<Rightarrow> SyntheticTaskRecord \<Rightarrow> TaskSession \<Rightarrow> world \<Rightarrow> world" where
  "write_logs config record' session w =
     (let w = (if sy_commit_log_dir config \<noteq> []
               then snd (WriteCommitLogArtifact (ts_txn session) (sr_commit_log_path record') w) else w)
      in if sy_task_event_log_dir config \<noteq> []
         then snd (WriteTaskEventLogArtifact session (sr_task_event_log_path record') w) else w)"

definition RunOneTask ::
    "nat \<Rightarrow> SyntheticRunConfig \<Rightarrow> 's RuntimeCore \<Rightarrow> i64 \<Rightarrow> 's sys \<Rightarrow> (exn + SyntheticTaskRecord) \<times> 's sys" where
  "RunOneTask task_index config rt elapsed st =
     (let task_id = ''task_'' @ nat_dec task_index;
          input_key = ''input:'' @ task_id;
          output_key = ''output:'' @ task_id;
          (_, st) = kv_Put (tk_store rt) input_key (''seed_'' @ nat_dec task_index) st;
          (_, st) = kv_Put (tk_store rt) output_key (''draft_'' @ nat_dec task_index) st;
          plan = synthetic_plan config in
      case SubmitTask rt (synthetic_task config task_index task_id input_key output_key) plan of
        Inl e \<Rightarrow> (Inl e, st)
      | Inr session \<Rightarrow>
          (let branch_ids = CandidateBranchIds plan;
               session = session\<lparr>ts_txn := (ts_txn session)\<lparr>tx_metrics := (tx_metrics (ts_txn session))
                 \<lparr>tm_branch_count := length branch_ids, tm_planned_loser_count := length branch_ids - 1\<rparr>\<rparr>\<rparr>;
               session = fold (synthetic_branch rt st input_key output_key task_index) (enumerate 0 branch_ids) session;
               inject_conflict = conflict_injected config task_index;
               st = (if inject_conflict
                     then snd (kv_Put (tk_store rt) input_key (''mutated_'' @ nat_dec task_index) st) else st) in
           case rt_CommitTask rt session st of
             (Inl e, _, st) \<Rightarrow> (Inl e, st)
           | (Inr committed, session, st) \<Rightarrow>
               (let session = session\<lparr>ts_txn := (ts_txn session)\<lparr>tx_metrics :=
                      end_metrics committed inject_conflict elapsed (ts_txn session)\<rparr>\<rparr>;
                    record' = task_record config task_id committed session
                in (Inr record', fst st, write_logs config record' session (snd st)))))"

text \<open>The loop over the tasks; an exception ends it.\<close>

fun run_tasks ::
    "SyntheticRunConfig \<Rightarrow> 's RuntimeCore \<Rightarrow> (nat \<Rightarrow> i64) \<Rightarrow> nat list \<Rightarrow> SyntheticRunResult \<Rightarrow> 's sys \<Rightarrow>
     (exn + SyntheticRunResult) \<times> 's sys" where
  "run_tasks config rt elapsed [] result st = (Inr result, st)"
| "run_tasks config rt elapsed (i # is) result st =
     (case RunOneTask i config rt (elapsed i) st of
        (Inl e, st) \<Rightarrow> (Inl e, st)
      | (Inr record', st) \<Rightarrow> run_tasks config rt elapsed is (AppendTaskRecord record' result) st)"

definition RunSyntheticExperimentWithStore ::
    "SyntheticRunConfig \<Rightarrow> 's RuntimeCore \<Rightarrow> (nat \<Rightarrow> i64) \<Rightarrow> 's sys \<Rightarrow> (exn + SyntheticRunResult) \<times> 's sys" where
  "RunSyntheticExperimentWithStore config rt elapsed st =
     run_tasks config rt elapsed [0..<sy_task_count config]
       \<lparr>ss_task_count = sy_task_count config, ss_committed_task_count = 0, ss_aborted_task_count = 0, ss_tasks = []\<rparr> st"

text \<open>A new in-memory store and a runtime without fallback artifacts.\<close>

definition RunSyntheticExperiment ::
    "SyntheticRunConfig \<Rightarrow> (nat \<Rightarrow> i64) \<Rightarrow> string \<Rightarrow> world \<Rightarrow> (exn + SyntheticRunResult) \<times> MemoryKVStore sys" where
  "RunSyntheticExperiment config elapsed error_message w =
     RunSyntheticExperimentWithStore config
       \<lparr>tk_store = memory_store, tk_config = default_FallbackCommitRuntimeConfig, tk_error_message = error_message\<rparr>
       elapsed ([], w)"

definition synthetic_csv_line :: "SyntheticTaskRecord \<Rightarrow> string" where
  "synthetic_csv_line task =
     sr_task_id task @ '','' @ (if sr_committed task then ''1'' else ''0'') @ '','' @
     nat_dec (sr_branch_count task) @ '','' @ nat_dec (sr_planned_loser_count task) @ '','' @
     nat_dec (sr_winner_commit_count task) @ '','' @ nat_dec (sr_real_abort_count task) @ '','' @
     nat_dec (sr_conflict_abort_count task) @ '','' @ nat_dec (sr_validation_fail_count task) @ '','' @
     nat_dec (sr_retry_count task) @ '','' @ double_g (sr_commit_latency_us task)"

definition WriteSyntheticCsv :: "SyntheticRunResult \<Rightarrow> string" where
  "WriteSyntheticCsv result = put_lines
     ((''task_id,committed,branch_count,planned_loser_count,winner_commit_count,'' @
       ''real_abort_count,conflict_abort_count,validation_fail_count,retry_count,'' @
       ''commit_latency_us'') # map synthetic_csv_line (ss_tasks result))"

section \<open>The branches of a synthetic task\<close>

definition synthetic_id :: "nat \<Rightarrow> string" where
  "synthetic_id i = ''branch_'' @ nat_dec i"

definition synthetic_value :: "nat \<Rightarrow> nat \<Rightarrow> string" where
  "synthetic_value task_index i = ''result_'' @ nat_dec task_index @ ''_'' @ nat_dec i"

definition synthetic_ops :: "string \<Rightarrow> string \<Rightarrow> nat \<Rightarrow> nat \<Rightarrow> TaskOp list" where
  "synthetic_ops input_key output_key task_index i =
     DoRead (synthetic_id i) input_key #
     (if i = 0 then [DoSavepoint (synthetic_id i) ''before_write'',
        DoWrite (synthetic_id i) output_key kText (typed_intent output_key kAppend ''::tentative''),
        DoRollback (synthetic_id i) ''before_write''] else []) @
     [DoWrite (synthetic_id i) output_key kText (overwrite output_key (synthetic_value task_index i)),
      DoStage (synthetic_id i) (double_of_int (int ((i + 1) * 10 + task_index))) (''candidate_'' @ nat_dec i)]"

definition synthetic_programs :: "string \<Rightarrow> string \<Rightarrow> nat \<Rightarrow> nat \<Rightarrow> (string \<times> TaskOp list) list" where
  "synthetic_programs input_key output_key task_index n =
     map (\<lambda>i. (synthetic_id i, synthetic_ops input_key output_key task_index i)) [0..<n]"

lemma synthetic_branch_ops:
  "synthetic_branch rt st a k t (i, synthetic_id i) s = fold (task_op rt st) (synthetic_ops a k t i) s"
  by (simp add: synthetic_branch_def synthetic_ops_def overwrite_def typed_intent_def synthetic_value_def Let_def
      split: prod.split)

lemma fold_concat_map: "fold f (concat (map g xs)) s = fold (\<lambda>x. fold f (g x)) xs s"
  by (induction xs arbitrary: s) simp_all

lemma synthetic_loop:
  "fold (synthetic_branch rt st a k t) (enumerate 0 (map synthetic_id [0..<n])) s =
     fold (task_op rt st) (concat (map snd (synthetic_programs a k t n))) s"
proof -
  have "enumerate 0 (map synthetic_id [0..<n]) = map (\<lambda>i. (i, synthetic_id i)) [0..<n]"
    by (simp add: enumerate_eq_zip zip_map2 zip_same_conv_map)
  moreover have "synthetic_branch rt st a k t (i, synthetic_id i) = fold (task_op rt st) (synthetic_ops a k t i)" for i
    by (rule ext) (rule synthetic_branch_ops)
  ultimately show ?thesis
    by (simp add: synthetic_programs_def fold_concat_map fold_map comp_def)
qed

lemma synthetic_plan_branches:
  "ep_branch_plans (synthetic_plan config) = map (\<lambda>i. \<lparr>bp_branch_id = synthetic_id i,
     bp_candidate_id = ''candidate_'' @ nat_dec i, bp_rationale = ''synthetic candidate '' @ nat_dec i,
     bp_initial_priority = double_of_int (int i)\<rparr>) [0..<sy_branch_count config]"
proof -
  have "ep_branch_plans (fold (\<lambda>i. AddBranchPlan (''branch_'' @ nat_dec i) (''candidate_'' @ nat_dec i)
            (''synthetic candidate '' @ nat_dec i) (double_of_int (int i))) [0..<n] default_ExecutionPlan) =
      map (\<lambda>i. \<lparr>bp_branch_id = synthetic_id i,
     bp_candidate_id = ''candidate_'' @ nat_dec i, bp_rationale = ''synthetic candidate '' @ nat_dec i,
     bp_initial_priority = double_of_int (int i)\<rparr>) [0..<n]" for n
    by (induction n) (simp_all add: default_ExecutionPlan_def AddBranchPlan_def synthetic_id_def)
  then show ?thesis by (simp add: synthetic_plan_def)
qed

lemma synthetic_ids: "CandidateBranchIds (synthetic_plan config) = map synthetic_id [0..<sy_branch_count config]"
  by (simp add: CandidateBranchIds_def synthetic_plan_branches comp_def)

lemma synthetic_id_inj: "synthetic_id i = synthetic_id j \<longleftrightarrow> i = j"
  by (auto simp: synthetic_id_def dest: nat_dec_inj)

lemma synthetic_ids_distinct: "distinct (map synthetic_id [0..<n])"
  by (simp add: distinct_map inj_on_def synthetic_id_inj)

lemma synthetic_plan_valid: "plan_Validate (synthetic_plan config) = Inr () \<longleftrightarrow> sy_branch_count config \<noteq> 0"
  by (auto simp: plan_Validate_iff synthetic_ids synthetic_ids_distinct synthetic_plan_branches synthetic_id_def)

text \<open>The branch before its last write has read the input and buffered nothing.\<close>

definition synthetic_prepared :: "view \<Rightarrow> string \<Rightarrow> string \<Rightarrow> nat \<Rightarrow> BranchContext" where
  "synthetic_prepared V a k i =
     (let b = snd (bm_ReadObject a V (new_BranchContext (synthetic_id i)))
      in if i = 0 then snd (rm_RollbackToSavepoint ''before_write''
             (bm_BufferWrite k kText (typed_intent k kAppend ''::tentative'') V (bm_CreateSavepoint ''before_write'' b)))
         else b)"

definition synthetic_candidate :: "view \<Rightarrow> string \<Rightarrow> string \<Rightarrow> nat \<Rightarrow> nat \<Rightarrow> BranchContext" where
  "synthetic_candidate V a k t i =
     bm_StageBranch (double_of_int (int ((i + 1) * 10 + t))) (''candidate_'' @ nat_dec i)
       (bm_BufferWrite k kText (overwrite k (synthetic_value t i)) V (synthetic_prepared V a k i))"

lemma synthetic_run:
  "fold (branch_op V) (synthetic_ops a k t i) (new_BranchContext (synthetic_id i)) = synthetic_candidate V a k t i"
  by (simp add: synthetic_ops_def synthetic_candidate_def synthetic_prepared_def Let_def)

lemma prepared_facts:
  "branch_inv (synthetic_prepared V a k i)" "bc_write_buffer (synthetic_prepared V a k i) = empty_WriteBuffer"
  "bc_intent_log (synthetic_prepared V a k i) = []" "bc_branch_id (synthetic_prepared V a k i) = synthetic_id i"
  "bc_read_set (synthetic_prepared V a k i) = [\<lparr>rd_object_id = a, rd_observed_version = vv_version (V a)\<rparr>]"
proof -
  let ?r = "snd (bm_ReadObject a V (new_BranchContext (synthetic_id i)))"
  have read: "branch_inv ?r" "bc_write_buffer ?r = wb_of []" "bc_intent_log ?r = []" "bc_branch_id ?r = synthetic_id i"
      "bc_savepoints ?r = []" "bc_read_set ?r = [\<lparr>rd_object_id = a, rd_observed_version = vv_version (V a)\<rparr>]"
    by (simp_all add: branch_inv_Read bm_ReadObject_frame)
      (simp_all add: new_BranchContext_def bm_ReadObject_def Let_def wb_Find_def empty_WriteBuffer_def rs_Record_def wb_of_def)
  let ?s = "bm_CreateSavepoint ''before_write'' ?r"
  let ?w = "bm_BufferWrite k kText (typed_intent k kAppend ''::tentative'') V ?s"
  have save: "bc_savepoints ?w = [\<lparr>sp_savepoint_id = ''before_write'', sp_write_log_position = 0, sp_intent_log_position = 0\<rparr>]"
      "bc_write_buffer ?w = wb_of [buffered_entry k kText (typed_intent k kAppend ''::tentative'') V ?s]"
      "bc_intent_log ?w = [typed_intent k kAppend ''::tentative'']" "bc_branch_id ?w = synthetic_id i"
      "bc_read_set ?w = bc_read_set ?r"
    by (simp_all add: bm_BufferWrite_frame bm_CreateSavepoint_def read wb_Size_def il_Size_def)
      (simp_all add: wb_of_def empty_WriteBuffer_def)
  have roll: "branch_inv (snd (rm_RollbackToSavepoint ''before_write'' ?w))"
      "bc_write_buffer (snd (rm_RollbackToSavepoint ''before_write'' ?w)) = wb_of []"
      "bc_intent_log (snd (rm_RollbackToSavepoint ''before_write'' ?w)) = []"
      "bc_branch_id (snd (rm_RollbackToSavepoint ''before_write'' ?w)) = synthetic_id i"
      "bc_read_set (snd (rm_RollbackToSavepoint ''before_write'' ?w)) = bc_read_set ?r"
    using read
    by (simp_all add: branch_inv_Rollback branch_inv_Write branch_inv_Savepoint)
      (simp_all add: rm_RollbackToSavepoint_def Let_def save wb_Truncate_of il_Truncate_def)
  show "branch_inv (synthetic_prepared V a k i)" "bc_write_buffer (synthetic_prepared V a k i) = empty_WriteBuffer"
    "bc_intent_log (synthetic_prepared V a k i) = []" "bc_branch_id (synthetic_prepared V a k i) = synthetic_id i"
    "bc_read_set (synthetic_prepared V a k i) = [\<lparr>rd_object_id = a, rd_observed_version = vv_version (V a)\<rparr>]"
    using read roll by (cases "i = 0"; simp add: synthetic_prepared_def Let_def)+
qed

lemma synthetic_candidate_facts:
  fixes V a k t i
  defines "x \<equiv> synthetic_candidate V a k t i"
  shows "writes_key x q \<longleftrightarrow> q = k" "committed_value x W k = synthetic_value t i"
    "commit_possible x W \<longleftrightarrow> vv_version (W k) = vv_version (V k) \<and> vv_version (W a) = vv_version (V a)"
    "cr_score (bc_candidate_result x) = double_of_int (int ((i + 1) * 10 + t))" "bc_branch_id x = synthetic_id i"
proof -
  note p = prepared_facts [of V a k i]
  note f = overwritten_facts [OF p(1-3) overwrite_sel(1,2) synthetic_candidate_def]
    written_facts [OF p(1-3) overwrite_sel(1) synthetic_candidate_def]
  show "writes_key x q \<longleftrightarrow> q = k" "committed_value x W k = synthetic_value t i"
    "cr_score (bc_candidate_result x) = double_of_int (int ((i + 1) * 10 + t))" "bc_branch_id x = synthetic_id i"
    by (simp_all add: x_def f p(4))
  show "commit_possible x W \<longleftrightarrow> vv_version (W k) = vv_version (V k) \<and> vv_version (W a) = vv_version (V a)"
    by (auto simp: x_def commit_possible_def versions_ok_def reads_agree_def f p(5))
qed

lemma synthetic_scores:
  "i < n \<Longrightarrow> n * 10 + t < 2 ^ 53 \<Longrightarrow>
     cr_score (bc_candidate_result (synthetic_candidate V a k t i)) = DFin (of_nat ((i + 1) * 10 + t))"
proof -
  assume "i < n" "n * 10 + t < 2 ^ 53"
  then have "(i + 1) * 10 + t < 2 ^ 53" by simp
  then have "\<bar>int ((i + 1) * 10 + t)\<bar> < 2 ^ 53" by (simp only: abs_of_nat of_nat_less_numeral_power_cancel_iff)
  then show ?thesis by (simp only: synthetic_candidate_facts(4) double_of_int_exact of_int_of_nat_eq)
qed

lemma synthetic_best:
  assumes w: "w \<in> set bs" "\<forall>b \<in> set bs. \<not> dless (cr_score (bc_candidate_result w)) (cr_score (bc_candidate_result b))"
    and bs: "bs = map (synthetic_candidate V a k t) [0..<n]" and n: "n * 10 + t < 2 ^ 53"
  shows "w = synthetic_candidate V a k t (n - 1)"
proof -
  obtain i where i: "i < n" "w = synthetic_candidate V a k t i" using w(1) by (auto simp: bs)
  have l: "n - 1 < n" using i(1) by simp
  then have "synthetic_candidate V a k t (n - 1) \<in> set bs" by (simp add: bs)
  with w(2) have "\<not> dless (cr_score (bc_candidate_result w)) (cr_score (bc_candidate_result (synthetic_candidate V a k t (n - 1))))"
    by blast
  then have "\<not> dless (DFin (of_nat ((i + 1) * 10 + t))) (DFin (of_nat ((n - 1 + 1) * 10 + t)))"
    by (simp only: i(2) synthetic_scores [OF i(1) n] synthetic_scores [OF l n] not_False_eq_True)
  then have "\<not> (i + 1) * 10 + t < (n - 1 + 1) * 10 + t"
    by (simp only: dless.simps of_nat_less_iff not_False_eq_True)
  then have "i = n - 1" using i(1) by simp
  with i(2) show ?thesis by simp
qed

section \<open>How a synthetic task ends\<close>

lemma session_ok_run: "session_ok rt s \<Longrightarrow> session_ok rt (fold (task_op rt st) ops s)"
  by (induction ops arbitrary: s) (simp_all add: session_ok_op)

lemma session_ok_metrics:
  "session_ok rt s \<Longrightarrow> session_ok rt (s\<lparr>ts_txn := (ts_txn s)\<lparr>tx_metrics := m\<rparr>\<rparr>)"
  by (simp add: session_ok_def txn_ok_def)

lemma metrics_run:
  "tx_metrics (ts_txn (fold (task_op rt st) ops s)) = tx_metrics (ts_txn s)"
  by (induction ops arbitrary: s) (simp_all add: task_op_on_branch del: task_op.simps)

lemma synthetic_session:
  assumes "SubmitTask rt task (synthetic_plan config) = Inr s0"
    and s: "s = fold (synthetic_branch rt st a k t) (enumerate 0 (CandidateBranchIds (synthetic_plan config)))
      (s0\<lparr>ts_txn := (ts_txn s0)\<lparr>tx_metrics := m\<rparr>\<rparr>)"
  shows "session_ok rt s \<and> tx_metrics (ts_txn s) = m \<and>
    tx_branches (ts_txn s) = map (synthetic_candidate (kv_Get (tk_store rt) (fst st)) a k t) [0..<sy_branch_count config]"
proof -
  let ?n = "sy_branch_count config" and ?s0 = "s0\<lparr>ts_txn := (ts_txn s0)\<lparr>tx_metrics := m\<rparr>\<rparr>"
  let ?ps = "synthetic_programs a k t ?n"
  have s: "s = fold (task_op rt st) (concat (map snd ?ps)) ?s0" by (simp add: s synthetic_ids synthetic_loop)
  have ok: "session_ok rt s"
    unfolding s using assms(1) by (auto simp: SubmitTask_iff intro!: session_ok_run session_ok_metrics submitted_ok)
  have "tx_branches (ts_txn ?s0) = [] @ map (\<lambda>p. new_BranchContext (fst p)) ?ps"
    using assms(1)
    by (auto simp: SubmitTask_iff submitted_def synthetic_plan_branches synthetic_programs_def)
  moreover have "\<forall>p \<in> set ?ps. \<forall>op \<in> set (snd p). op_branch op = fst p"
    by (auto simp: synthetic_programs_def synthetic_ops_def)
  moreover have "distinct (map fst ?ps)"
    using synthetic_ids_distinct [of ?n] by (simp add: synthetic_programs_def comp_def)
  ultimately have "tx_branches (ts_txn s) = map (\<lambda>p. fold (branch_op (kv_Get (tk_store rt) (fst st))) (snd p)
      (new_BranchContext (fst p))) ?ps"
    unfolding s using run_programs [of ?ps "[]" ?s0] by simp
  with ok show ?thesis by (simp add: synthetic_programs_def comp_def synthetic_run s metrics_run)
qed

definition input_of :: "nat \<Rightarrow> string" where
  "input_of t = ''input:task_'' @ nat_dec t"

definition output_of :: "nat \<Rightarrow> string" where
  "output_of t = ''output:task_'' @ nat_dec t"

text \<open>What task \<open>t\<close> leaves of the store.\<close>

definition synthetic_step :: "SyntheticRunConfig \<Rightarrow> nat \<Rightarrow> view \<Rightarrow> view" where
  "synthetic_step config t V =
     (let V = view_put (output_of t) (''draft_'' @ nat_dec t) (view_put (input_of t) (''seed_'' @ nat_dec t) V)
      in if conflict_injected config t then view_put (input_of t) (''mutated_'' @ nat_dec t) V
         else view_put (output_of t) (synthetic_value t (sy_branch_count config - 1)) V)"

lemma synthetic_commit:
  assumes sub: "SubmitTask rt task (synthetic_plan config) = Inr s0"
    and s: "s = fold (synthetic_branch rt st (input_of t) (output_of t) t) (enumerate 0 (CandidateBranchIds (synthetic_plan config)))
      (s0\<lparr>ts_txn := (ts_txn s0)\<lparr>tx_metrics := m\<rparr>\<rparr>)"
    and kv: "batch_store (tk_store rt) ok_state" and st: "ok_state st"
    and n: "sy_branch_count config * 10 + t < 2 ^ 53"
    and st1: "st1 = (if c then snd (kv_Put (tk_store rt) (input_of t) v st) else st)"
  shows "\<exists>s' st'. rt_CommitTask rt s st1 = (Inr (\<not> c), s', st') \<and> ok_state st' \<and>
    tx_metrics (ts_txn s') = m \<and> vr_success (tx_validation_result (ts_txn s')) = (\<not> c) \<and>
    kv_Get (tk_store rt) (fst st') =
      (if c then view_put (input_of t) v (kv_Get (tk_store rt) (fst st))
       else view_put (output_of t) (synthetic_value t (sy_branch_count config - 1)) (kv_Get (tk_store rt) (fst st)))"
proof -
  let ?V = "kv_Get (tk_store rt) (fst st)" and ?V1 = "kv_Get (tk_store rt) (fst st1)" and ?n = "sy_branch_count config"
  let ?w = "synthetic_candidate ?V (input_of t) (output_of t) t (?n - 1)"
  note vs = batch_store.axioms(1) [OF kv]
  have ne: "input_of t \<noteq> output_of t" by (simp add: input_of_def output_of_def)
  have V1: "?V1 = (if c then view_put (input_of t) v ?V else ?V)" "ok_state st1"
    using st by (simp_all add: st1 versioned_store.put_view [OF vs] versioned_store.put_inv [OF vs])
  have ss: "session_ok rt s" "tx_metrics (ts_txn s) = m"
      "tx_branches (ts_txn s) = map (synthetic_candidate ?V (input_of t) (output_of t) t) [0..<?n]"
    using synthetic_session [OF sub s] by simp_all
  have "\<forall>b \<in> set (tx_branches (ts_txn s)). cr_score (bc_candidate_result b) \<noteq> DNaN"
    using n by (auto simp: ss(3) synthetic_scores simp del: mult_Suc_right)
  then obtain ok txn' st' where r: "rt_CommitTask rt s st1 =
      (Inr ok, s\<lparr>ts_task := (ts_task s)\<lparr>tc_phase := if ok then TaskCommitted else TaskAborted\<rparr>, ts_txn := txn',
         ts_commit_attempts := ts_commit_attempts s + 1, ts_committed := ok,
         ts_events := ts_events s @ ended_events s ok txn'\<rparr>, st')" "ok_state st'"
      "tm_SelectWinnerAndCommit (tk_store rt) (ts_txn s) st1 = Inr (ok, txn', st')"
      "outcome_of (tx_branches (ts_txn s)) (best_branch (tx_branches (ts_txn s))) ?V1 ok txn' (kv_Get (tk_store rt) (fst st'))"
    using commit_outcome [OF _ _ kv V1(2)] ss(1) unfolding session_ok_def by meson
  have best: "best_branch (tx_branches (ts_txn s)) = ?w"
    by (rule synthetic_best [OF _ _ ss(3) n]) (use r(4) in \<open>simp_all add: outcome_of_def\<close>)
  have "ok \<longleftrightarrow> \<not> c"
    using r(4) ne unfolding best outcome_of_def synthetic_candidate_facts V1 by (simp add: view_put_def)
  moreover have "kv_Get (tk_store rt) (fst st') = (if ok then commit_view ?w ?V1 else ?V1)"
    using r(4) unfolding best outcome_of_def by (simp split: if_splits)
  moreover have "commit_view ?w ?V = view_put (output_of t) (synthetic_value t (?n - 1)) ?V"
    by (auto simp: commit_view_def synthetic_candidate_facts view_put_def)
  moreover have "vr_success (tx_validation_result txn') \<longleftrightarrow> ok" "tx_metrics txn' = m"
    using commit_verdict [OF r(3) batch_store.batch_supported [OF kv]] ss(2) by simp_all
  ultimately show ?thesis using r(1,2) by (auto simp: V1)
qed

lemma synthetic_Submit:
  "sy_branch_count config \<noteq> 0 \<Longrightarrow> SubmitTask rt (synthetic_task config t (''task_'' @ nat_dec t) a k) (synthetic_plan config) =
     Inr (submitted rt (synthetic_task config t (''task_'' @ nat_dec t) a k) (synthetic_plan config))"
  by (simp add: SubmitTask_iff synthetic_plan_valid task_Validate_iff synthetic_task_def Let_def AddInputObject_def
      AddOutputObject_def)

lemma synthetic_task_outcome_lemma:
  assumes kv: "batch_store (tk_store rt) ok_state" and st: "ok_state st" and n: "sy_branch_count config \<noteq> 0"
    and fits: "sy_branch_count config * 10 + t < 2 ^ 53"
  shows "\<exists>record' st'. RunOneTask t config rt elapsed st = (Inr record', st') \<and>
    sr_task_id record' = ''task_'' @ nat_dec t \<and> sr_committed record' = (\<not> conflict_injected config t) \<and>
    sr_branch_count record' = sy_branch_count config \<and> sr_planned_loser_count record' = sy_branch_count config - 1 \<and>
    sr_winner_commit_count record' + sr_real_abort_count record' = 1 \<and>
    sr_conflict_abort_count record' = sr_real_abort_count record' \<and>
    sr_validation_fail_count record' = sr_real_abort_count record' \<and>
    sr_real_abort_count record' = (if conflict_injected config t then 1 else 0) \<and>
    kv_Get (tk_store rt) (fst st') = synthetic_step config t (kv_Get (tk_store rt) (fst st))"
proof -
  note vs = batch_store.axioms(1) [OF kv]
  let ?a = "input_of t" and ?k = "output_of t" and ?c = "conflict_injected config t"
  let ?st1 = "snd (kv_Put (tk_store rt) ?a (''seed_'' @ nat_dec t) st)"
  let ?st2 = "snd (kv_Put (tk_store rt) ?k (''draft_'' @ nat_dec t) ?st1)"
  have ok: "ok_state ?st1" "ok_state ?st2" using st by (simp_all add: versioned_store.put_inv [OF vs])
  have V: "kv_Get (tk_store rt) (fst ?st2) = view_put ?k (''draft_'' @ nat_dec t)
      (view_put ?a (''seed_'' @ nat_dec t) (kv_Get (tk_store rt) (fst st)))"
    using ok st by (simp add: versioned_store.put_view [OF vs])
  let ?task = "synthetic_task config t (''task_'' @ nat_dec t) ?a ?k"
  let ?s0 = "submitted rt ?task (synthetic_plan config)"
  let ?m = "(tx_metrics (ts_txn ?s0))\<lparr>tm_branch_count := length (CandidateBranchIds (synthetic_plan config)),
      tm_planned_loser_count := length (CandidateBranchIds (synthetic_plan config)) - 1\<rparr>"
  let ?s = "fold (synthetic_branch rt ?st2 ?a ?k t) (enumerate 0 (CandidateBranchIds (synthetic_plan config)))
      (?s0\<lparr>ts_txn := (ts_txn ?s0)\<lparr>tx_metrics := ?m\<rparr>\<rparr>)"
  let ?st3 = "if ?c then snd (kv_Put (tk_store rt) ?a (''mutated_'' @ nat_dec t) ?st2) else ?st2"
  obtain s' st' where r: "rt_CommitTask rt ?s ?st3 = (Inr (\<not> ?c), s', st')" "tx_metrics (ts_txn s') = ?m"
      "vr_success (tx_validation_result (ts_txn s')) = (\<not> ?c)"
      "kv_Get (tk_store rt) (fst st') = synthetic_step config t (kv_Get (tk_store rt) (fst st))"
    using synthetic_commit [OF synthetic_Submit [OF n] refl kv ok(2) fits refl, where c = ?c]
    unfolding synthetic_step_def Let_def V by metis
  have in_k: "''input:'' @ ''task_'' @ nat_dec t = input_of t" "''output:'' @ ''task_'' @ nat_dec t = output_of t"
    by (simp_all add: input_of_def output_of_def)
  let ?s'' = "s'\<lparr>ts_txn := (ts_txn s')\<lparr>tx_metrics := end_metrics (\<not> ?c) ?c elapsed (ts_txn s')\<rparr>\<rparr>"
  let ?r = "task_record config (''task_'' @ nat_dec t) (\<not> ?c) ?s''"
  have "RunOneTask t config rt elapsed st = (Inr ?r, fst st', write_logs config ?r ?s'' (snd st'))"
    unfolding RunOneTask_def Let_def in_k case_prod_beta by (simp only: synthetic_Submit [OF n] sum.case r(1) prod.case fst_conv snd_conv)
  then show ?thesis
    using r(2-4) n by (simp add: task_record_def Let_def end_metrics_def synthetic_ids)
qed

section \<open>How the experiment ends\<close>

lemma keys_apart: "input_of i \<noteq> output_of j" "input_of i = input_of j \<longleftrightarrow> i = j" "output_of i = output_of j \<longleftrightarrow> i = j"
  by (auto simp: input_of_def output_of_def dest: nat_dec_inj)

lemma synthetic_step_other: "q \<noteq> input_of t \<Longrightarrow> q \<noteq> output_of t \<Longrightarrow> synthetic_step config t V q = V q"
  by (simp add: synthetic_step_def Let_def view_put_def)

lemma synthetic_step_output:
  "vv_value (synthetic_step config t V (output_of t)) =
     (if conflict_injected config t then ''draft_'' @ nat_dec t else synthetic_value t (sy_branch_count config - 1))"
  using keys_apart(1) [of t t] by (simp add: synthetic_step_def Let_def view_put_def)

lemma synthetic_steps_output:
  "t \<in> set ts \<Longrightarrow> distinct ts \<Longrightarrow> vv_value (fold (synthetic_step config) ts V (output_of t)) =
     (if conflict_injected config t then ''draft_'' @ nat_dec t else synthetic_value t (sy_branch_count config - 1))"
proof (induction ts rule: rev_induct)
  case (snoc u ts)
  show ?case
  proof (cases "t = u")
    case True
    then show ?thesis by (simp add: synthetic_step_output)
  next
    case False
    with snoc show ?thesis by (simp add: synthetic_step_other keys_apart keys_apart(1) [symmetric])
  qed
qed simp

lemma run_tasks_outcome:
  assumes kv: "batch_store (tk_store rt) (\<lambda>_. True)" and n: "sy_branch_count config \<noteq> 0"
    and fits: "\<forall>t \<in> set ts. sy_branch_count config * 10 + t < 2 ^ 53"
  shows "\<exists>records st'. run_tasks config rt elapsed ts result st = (Inr (fold AppendTaskRecord records result), st') \<and>
    map sr_committed records = map (\<lambda>t. \<not> conflict_injected config t) ts \<and>
    kv_Get (tk_store rt) (fst st') = fold (synthetic_step config) ts (kv_Get (tk_store rt) (fst st))"
  using fits
proof (induction ts arbitrary: result st)
  case Nil
  then show ?case by (intro exI [of _ "[]"]) simp
next
  case (Cons t ts)
  from Cons.prems have "sy_branch_count config * 10 + t < 2 ^ 53" by simp
  from synthetic_task_outcome_lemma [OF kv TrueI n this, of elapsed st for elapsed]
  obtain record' st1 where r: "RunOneTask t config rt (elapsed t) st = (Inr record', st1)"
      "sr_committed record' = (\<not> conflict_injected config t)"
      "kv_Get (tk_store rt) (fst st1) = synthetic_step config t (kv_Get (tk_store rt) (fst st))"
    by metis
  from Cons.IH [of "AppendTaskRecord record' result" st1] Cons.prems
  obtain records st' where rs: "run_tasks config rt elapsed ts (AppendTaskRecord record' result) st1 =
        (Inr (fold AppendTaskRecord records (AppendTaskRecord record' result)), st')"
      "map sr_committed records = map (\<lambda>t. \<not> conflict_injected config t) ts"
      "kv_Get (tk_store rt) (fst st') = fold (synthetic_step config) ts (kv_Get (tk_store rt) (fst st1))"
    by auto
  show ?case
    by (intro exI [of _ "record' # records"] exI [of _ st']) (simp add: r rs)
qed

lemma AppendTaskRecords:
  "ss_committed_task_count (fold AppendTaskRecord rs r) = ss_committed_task_count r + length (filter id (map sr_committed rs))"
  "ss_aborted_task_count (fold AppendTaskRecord rs r) = ss_aborted_task_count r + length (filter Not (map sr_committed rs))"
  "ss_tasks (fold AppendTaskRecord rs r) = ss_tasks r @ rs" "ss_task_count (fold AppendTaskRecord rs r) = ss_task_count r"
  by (induction rs arbitrary: r) (auto simp: AppendTaskRecord_def Let_def)

lemma conflicts_count:
  "length (filter (conflict_injected config) [0..<n]) =
     (if sy_conflict_every config = 0 then 0 else n div sy_conflict_every config)"
proof (cases "sy_conflict_every config = 0")
  case True
  then show ?thesis by (simp add: conflict_injected_def filter_False)
next
  case False
  then show ?thesis by (induction n) (simp_all add: conflict_injected_def div_Suc)
qed

text \<open>
  C20. The outcome of the synthetic experiment on a new in-memory store is known beforehand. With
  at least one branch per task (and numbers that a double holds exactly) no task throws; exactly
  the tasks for which a conflict is injected abort, every \<open>conflict_every\<close>-th; the counts add up;
  and every committed task leaves the result of its last branch, which has the highest score,
  while an aborted one leaves its draft.
\<close>

theorem synthetic_experiment_outcome:
  assumes "sy_branch_count config \<noteq> 0" and "sy_branch_count config * 10 + sy_task_count config < 2 ^ 53"
  shows "\<exists>result m' w'. RunSyntheticExperiment config elapsed error_message w = (Inr result, m', w') \<and>
    ss_aborted_task_count result =
      (if sy_conflict_every config = 0 then 0 else sy_task_count config div sy_conflict_every config) \<and>
    ss_committed_task_count result + ss_aborted_task_count result = sy_task_count config \<and>
    map sr_committed (ss_tasks result) = map (\<lambda>t. \<not> conflict_injected config t) [0..<sy_task_count config] \<and>
    (\<forall>t < sy_task_count config. vv_value (mem_Get m' (output_of t)) =
      (if conflict_injected config t then ''draft_'' @ nat_dec t else synthetic_value t (sy_branch_count config - 1)))"
proof -
  let ?rt = "\<lparr>tk_store = memory_store, tk_config = default_FallbackCommitRuntimeConfig, tk_error_message = error_message\<rparr>"
  let ?r = "\<lparr>ss_task_count = sy_task_count config, ss_committed_task_count = 0, ss_aborted_task_count = 0, ss_tasks = []\<rparr>"
  let ?ts = "[0..<sy_task_count config]"
  have fits: "\<forall>t \<in> set ?ts. sy_branch_count config * 10 + t < 2 ^ 53" using assms(2) by auto
  have kv: "batch_store (tk_store ?rt) (\<lambda>_. True)" by (simp add: mem.batch_store_axioms)
  obtain records st' where r: "run_tasks config ?rt elapsed ?ts ?r ([], w) = (Inr (fold AppendTaskRecord records ?r), st')"
      "map sr_committed records = map (\<lambda>t. \<not> conflict_injected config t) ?ts"
      "mem_Get (fst st') = fold (synthetic_step config) ?ts (mem_Get [])"
    using run_tasks_outcome [OF kv assms(1) fits, of elapsed ?r "([], w)"] by auto
  have "filter Not (map sr_committed records) = map (\<lambda>t. False) (filter (conflict_injected config) ?ts)"
    unfolding r(2) by (simp add: filter_map comp_def)
  then have ab: "length (filter Not (map sr_committed records)) =
      (if sy_conflict_every config = 0 then 0 else sy_task_count config div sy_conflict_every config)"
    using conflicts_count [of config "sy_task_count config"] by simp
  have "length (filter id (map sr_committed records)) + length (filter Not (map sr_committed records)) = length records"
    using sum_length_filter_compl [of id "map sr_committed records"] by (simp add: comp_def)
  moreover have "length records = sy_task_count config" using arg_cong [OF r(2), of length] by simp
  ultimately have sum: "length (filter id (map sr_committed records)) + length (filter Not (map sr_committed records)) =
      sy_task_count config" by simp
  show ?thesis
    by (intro exI [of _ "fold AppendTaskRecord records ?r"] exI [of _ "fst st'"] exI [of _ "snd st'"])
      (use r(1,3) ab sum in \<open>simp add: RunSyntheticExperiment_def RunSyntheticExperimentWithStore_def AppendTaskRecords
         synthetic_steps_output r(2)\<close>)
qed

theorem synthetic_experiment_outcome_witness:
  "case RunSyntheticExperiment default_SyntheticRunConfig (\<lambda>_. 7) [] calm of
     (Inr result, m', _) \<Rightarrow> ss_committed_task_count result = 7 \<and> ss_aborted_task_count result = 3 \<and>
       vv_value (mem_Get m' ''output:task_1'') = ''result_1_2'' \<and> vv_value (mem_Get m' ''output:task_2'') = ''draft_2''
   | _ \<Rightarrow> False"
proof -
  have d: "nat_dec 1 = ''1''" "nat_dec 2 = ''2''" by code_simp+
  have "sy_branch_count default_SyntheticRunConfig \<noteq> 0"
      "sy_branch_count default_SyntheticRunConfig * 10 + sy_task_count default_SyntheticRunConfig < 2 ^ 53"
    by (simp_all add: default_SyntheticRunConfig_def)
  from synthetic_experiment_outcome [OF this, of "\<lambda>_. 7" "[]" calm]
  obtain result m' w' where r: "RunSyntheticExperiment default_SyntheticRunConfig (\<lambda>_. 7) [] calm = (Inr result, m', w')"
      "ss_aborted_task_count result = 3" "ss_committed_task_count result + ss_aborted_task_count result = 10"
      "\<forall>t < 10. vv_value (mem_Get m' (output_of t)) = (if conflict_injected default_SyntheticRunConfig t
        then ''draft_'' @ nat_dec t else synthetic_value t 2)"
    by (auto simp: default_SyntheticRunConfig_def)
  have "vv_value (mem_Get m' (output_of 1)) = ''result_1_2''" "vv_value (mem_Get m' (output_of 2)) = ''draft_2''"
    using r(4) by (simp_all add: conflict_injected_def default_SyntheticRunConfig_def synthetic_value_def d [simplified])
  with r(1-3) show ?thesis by (simp add: output_of_def d [simplified])
qed

end
