(* ===== verification/Cpp_Strtod.thy ===== *)
theory Cpp_Strtod
  imports Task_Model
begin

text \<open>
  A \<open>double\<close> as text and back, for the workload that keeps a score in the metadata of a task:
  \<open>std::to_string\<close> (\<open>printf("%f")\<close>) and \<open>strtod\<close> in the \<open>"C"\<close> locale. A zero has no sign here.
\<close>

section \<open>Rounding to a double\<close>

definition scale_by :: "rat \<Rightarrow> int \<Rightarrow> rat \<Rightarrow> rat" where
  "scale_by b e q = (if 0 \<le> e then q * b ^ nat e else q / b ^ nat (- e))"

text \<open>The exponent of the leading binary digit of a positive number.\<close>

definition binary_exponent :: "rat \<Rightarrow> int" where
  "binary_exponent q =
     (if 1 \<le> q then int (bit_count (nat \<lfloor>q\<rfloor>)) - 1
      else - int (bit_count (nat (\<lceil>1 / q\<rceil> - 1))))"

text \<open>The nearest double, half to even: 53 bits, exponents from -1074, infinite from \<open>2 ^ 1024\<close>.\<close>

definition round_double :: "rat \<Rightarrow> double" where
  "round_double q =
     (if q = 0 then DFin 0
      else
        (let e = max (binary_exponent \<bar>q\<bar> - 52) (- 1074);
             v = scale_by 2 e (of_int (round_half_even (scale_by 2 (- e) q)))
         in if 2 ^ 1024 \<le> v then DPosInf else if v \<le> - (2 ^ 1024) then DNegInf else DFin v))"

section \<open>\<open>std::to_string(double)\<close>\<close>

definition pad_six :: "nat \<Rightarrow> string" where
  "pad_six n = (let ds = nat_dec n in replicate (6 - length ds) CHR ''0'' @ ds)"

fun to_string_double :: "double \<Rightarrow> string" where
  "to_string_double (DFin q) =
     (let n = nat (round_half_even (\<bar>q\<bar> * 1000000))
      in (if q < 0 then ''-'' else []) @ nat_dec (n div 1000000) @ ''.'' @ pad_six (n mod 1000000))"
| "to_string_double DPosInf = ''inf''"
| "to_string_double DNegInf = ''-inf''"
| "to_string_double DNaN = ''nan''"

section \<open>\<open>strtod\<close>\<close>

definition to_lower :: "char \<Rightarrow> char" where
  "to_lower c = (let n = of_char c :: nat in if 65 \<le> n \<and> n \<le> 90 then char_of (n + 32) else c)"

definition starts_with_word :: "string \<Rightarrow> string \<Rightarrow> bool" where
  "starts_with_word word s \<longleftrightarrow> map to_lower (take (length word) s) = word"

definition is_xdigit :: "char \<Rightarrow> bool" where
  "is_xdigit c \<longleftrightarrow> is_digit c \<or> (let n = of_char (to_lower c) :: nat in 97 \<le> n \<and> n \<le> 102)"

definition xdigit_val :: "char \<Rightarrow> nat" where
  "xdigit_val c = (if is_digit c then digit_val c else of_char (to_lower c) - 87)"

definition digits_val :: "nat \<Rightarrow> (char \<Rightarrow> nat) \<Rightarrow> string \<Rightarrow> nat" where
  "digits_val base val ds = foldl (\<lambda>a c. base * a + val c) 0 ds"

text \<open>Digits with an optional point: the digits before and after it, and the rest.\<close>

definition scan_mantissa :: "(char \<Rightarrow> bool) \<Rightarrow> string \<Rightarrow> string \<times> string \<times> string" where
  "scan_mantissa isd s =
     (let whole = takeWhile isd s; rest = dropWhile isd s in
      case rest of
        c # r \<Rightarrow> (if c = CHR ''.'' then (whole, takeWhile isd r, dropWhile isd r) else (whole, [], rest))
      | [] \<Rightarrow> (whole, [], []))"

text \<open>The optional exponent after its letter; without digits there is none.\<close>

definition scan_exponent :: "char \<Rightarrow> string \<Rightarrow> int" where
  "scan_exponent letter s =
     (case s of
        [] \<Rightarrow> 0
      | c # r \<Rightarrow>
          (if to_lower c = letter
           then (let (neg, t) = scan_sign r; n = int (dec_val (takeWhile is_digit t)) in if neg then - n else n)
           else 0))"

definition strtod_decimal :: "string \<Rightarrow> rat" where
  "strtod_decimal s =
     (let (whole, fraction, rest) = scan_mantissa is_digit s in
      if whole = [] \<and> fraction = [] then 0
      else scale_by 10 (scan_exponent CHR ''e'' rest - int (length fraction)) (of_nat (dec_val (whole @ fraction))))"

definition strtod_hex :: "string \<Rightarrow> rat" where
  "strtod_hex s =
     (let (whole, fraction, rest) = scan_mantissa is_xdigit s in
      if whole = [] \<and> fraction = [] then 0
      else scale_by 2 (scan_exponent CHR ''p'' rest - 4 * int (length fraction))
             (of_nat (digits_val 16 xdigit_val (whole @ fraction))))"

definition strtod :: "string \<Rightarrow> double" where
  "strtod s =
     (let (neg, t) = scan_sign (dropWhile is_space s) in
      if starts_with_word ''inf'' t then (if neg then DNegInf else DPosInf)
      else if starts_with_word ''nan'' t then DNaN
      else
        (let q = (if starts_with_word ''0x'' t then strtod_hex (drop 2 t) else strtod_decimal t)
         in round_double (if neg then - q else q)))"

section \<open>Whole numbers survive\<close>

lemma scale_by_int: "e \<le> 0 \<Longrightarrow> scale_by 2 e (of_int (round_half_even (scale_by 2 (- e) (of_int i)))) = of_int i"
proof -
  assume e: "e \<le> 0"
  have "scale_by 2 (- e) (of_int i) = of_int (i * 2 ^ nat (- e))" using e by (simp add: scale_by_def)
  then have "round_half_even (scale_by 2 (- e) (of_int i)) = i * 2 ^ nat (- e)" by (simp only: round_half_even_int)
  then show ?thesis using e by (cases "e = 0") (simp_all add: scale_by_def)
qed

lemma round_double_int: "\<bar>i\<bar> < 2 ^ 53 \<Longrightarrow> round_double (of_int i) = DFin (of_int i)"
proof -
  assume i: "\<bar>i\<bar> < 2 ^ 53"
  show ?thesis
  proof (cases "i = 0")
    case False
    then have one: "1 \<le> \<bar>of_int i :: rat\<bar>" by (metis of_int_1_le_iff of_int_abs zero_less_abs_iff int_one_le_iff_zero_less)
    have "nat \<bar>i\<bar> < 2 ^ 53" using i by (simp add: nat_less_iff)
    then have "bit_count (nat \<bar>i\<bar>) \<le> 53" by (rule bit_count_bound)
    moreover have "\<lfloor>\<bar>of_int i :: rat\<bar>\<rfloor> = \<bar>i\<bar>" by (metis floor_of_int of_int_abs)
    ultimately have "max (binary_exponent \<bar>of_int i\<bar> - 52) (- 1074) \<le> 0" using one by (simp add: binary_exponent_def)
    from scale_by_int [OF this]
    have v: "scale_by 2 e (of_int (round_half_even (scale_by 2 (- e) (of_int i)))) = of_int i"
      if "e = max (binary_exponent \<bar>of_int i\<bar> - 52) (- 1074)" for e using that by simp
    have "\<bar>of_int i :: rat\<bar> < 2 ^ 53" using i by (metis of_int_abs of_int_less_iff of_int_numeral of_int_power)
    also have "(2 :: rat) ^ 53 < 2 ^ 1024" by (rule power_strict_increasing) simp_all
    finally have "of_int i < (2 :: rat) ^ 1024" "- (2 ^ 1024) < (of_int i :: rat)" by (simp_all only: abs_less_iff) linarith
    with False show ?thesis by (simp add: round_double_def Let_def v del: one_less_numeral_iff)
  qed (simp add: round_double_def)
qed

lemma dec_val_append: "dec_val (xs @ ys) = dec_val xs * 10 ^ length ys + dec_val ys"
proof (induction ys rule: rev_induct)
  case (snoc y ys)
  then show ?case by (simp add: dec_val_snoc append_assoc [symmetric] algebra_simps del: append_assoc)
qed (simp add: dec_val_def)

lemma six_zeros: "pad_six 0 = ''000000''"
  by code_simp

lemma to_string_int:
  "to_string_double (DFin (of_int i)) = (if i < 0 then ''-'' else []) @ nat_dec (nat \<bar>i\<bar>) @ ''.000000''"
proof -
  have "\<bar>of_int i\<bar> * (1000000 :: rat) = of_int (\<bar>i\<bar> * 1000000)" by simp
  then have "round_half_even (\<bar>of_int i\<bar> * 1000000) = \<bar>i\<bar> * 1000000" by (simp only: round_half_even_int)
  moreover have "nat (\<bar>i\<bar> * 1000000) = nat \<bar>i\<bar> * 1000000" by (simp add: nat_mult_distrib)
  ultimately show ?thesis by (simp add: six_zeros)
qed

lemma digit_lower: "is_digit c \<Longrightarrow> to_lower c = c"
  by (simp add: is_digit_def to_lower_def Let_def)

lemma strtod_int_text: "strtod_decimal (nat_dec n @ ''.000000'') = of_nat n"
proof -
  have "takeWhile is_digit (nat_dec n @ ''.000000'') = nat_dec n"
    by (subst takeWhile_append2; simp add: nat_dec_digits) (simp add: is_digit_def)
  moreover have "dropWhile is_digit (nat_dec n @ ''.000000'') = ''.000000''"
    by (subst dropWhile_append2; simp add: nat_dec_digits) (simp add: is_digit_def)
  ultimately have "scan_mantissa is_digit (nat_dec n @ ''.000000'') = (nat_dec n, ''000000'', [])"
    by (simp add: scan_mantissa_def is_digit_def)
  moreover have "dec_val ''000000'' = 0" by code_simp
  ultimately show ?thesis
    by (simp add: strtod_decimal_def scan_exponent_def scale_by_def dec_val_append)
qed

lemma not_space_minus: "\<not> is_space CHR ''-''"
  by (simp add: is_space_def)

lemma strtod_to_string: "\<bar>i\<bar> < 2 ^ 53 \<Longrightarrow> strtod (to_string_double (DFin (of_int i))) = DFin (of_int i)"
proof -
  assume i: "\<bar>i\<bar> < 2 ^ 53"
  let ?t = "nat_dec (nat \<bar>i\<bar>) @ ''.000000''"
  obtain c cs where c: "nat_dec (nat \<bar>i\<bar>) = c # cs" "is_digit c" by (rule nat_dec_hd)
  have sign: "scan_sign (dropWhile is_space (to_string_double (DFin (of_int i)))) = (i < 0, ?t)"
    unfolding to_string_int using c is_digit_not_special [OF c(2)] not_space_minus by (simp add: scan_sign_def)
  have word: "\<not> starts_with_word ''inf'' ?t" "\<not> starts_with_word ''nan'' ?t"
    using c digit_lower [OF c(2)] by (auto simp: starts_with_word_def is_digit_def)
  have hex: "\<not> starts_with_word ''0x'' ?t"
  proof (cases cs)
    case Nil
    then show ?thesis using c by (simp add: starts_with_word_def to_lower_def)
  next
    case (Cons d ds)
    then have "is_digit d" using c nat_dec_digits [of d "nat \<bar>i\<bar>"] by simp
    then show ?thesis using c Cons digit_lower [of d] by (auto simp: starts_with_word_def is_digit_def)
  qed
  have "(if i < 0 then - of_nat (nat \<bar>i\<bar>) else of_nat (nat \<bar>i\<bar>) :: rat) = of_int i" by (simp add: abs_if)
  then show ?thesis
    unfolding strtod_def sign by (simp only: word hex strtod_int_text prod.case Let_def if_False round_double_int [OF i])
qed

end
