(* ===== verification/Workload_Script.thy ===== *)
theory Workload_Script
  imports Workload_Synthetic Cpp_Strtod
begin

text \<open>
  \<open>workloads/kv_style/scripted_kv_task.h\<close>: tasks given as scripts of steps, one script per branch
  and one for the continuation after a recovery. The continuation's script is kept in the
  metadata of the task, as text, and read back from there.
\<close>

section \<open>Scripts\<close>

datatype StepKind = StepRead | StepWrite | StepSavepoint | StepRollbackToSavepoint

definition default_WriteIntent :: WriteIntent where
  "default_WriteIntent =
     \<lparr>wi_object_id = [], wi_intent_type = kRead, wi_payload = [], wi_condition = no_condition\<rparr>"

record KvStep =
  ks_kind :: StepKind
  ks_object_id :: string
  ks_object_type :: ObjectType
  ks_intent :: WriteIntent
  ks_savepoint_id :: string

definition default_KvStep :: KvStep where
  "default_KvStep =
     \<lparr>ks_kind = StepRead, ks_object_id = [], ks_object_type = kGeneric, ks_intent = default_WriteIntent,
      ks_savepoint_id = []\<rparr>"

record KvBranchProgram =
  kb_branch_id :: string
  kb_score :: double
  kb_summary :: string
  kb_steps :: "KvStep list"

record KvTaskScript =
  kt_task_id :: string
  kt_objective :: string
  kt_branches :: "KvBranchProgram list"
  kt_recovery_steps :: "KvStep list"
  kt_recovery_score :: double
  kt_recovery_summary :: string
  kt_recovery_preferred_branch_id :: string

fun KvStepKindName :: "StepKind \<Rightarrow> string" where
  "KvStepKindName StepRead = ''read''"
| "KvStepKindName StepWrite = ''write''"
| "KvStepKindName StepSavepoint = ''savepoint''"
| "KvStepKindName StepRollbackToSavepoint = ''rollback_to_savepoint''"

definition KvStepKindFromName :: "string \<Rightarrow> StepKind" where
  "KvStepKindFromName name =
     (if name = ''write'' then StepWrite
      else if name = ''savepoint'' then StepSavepoint
      else if name = ''rollback_to_savepoint'' then StepRollbackToSavepoint
      else StepRead)"

definition MakeReadStep :: "string \<Rightarrow> KvStep" where
  "MakeReadStep object_id = default_KvStep\<lparr>ks_kind := StepRead, ks_object_id := object_id\<rparr>"

definition MakeWriteStep :: "string \<Rightarrow> ObjectType \<Rightarrow> IntentType \<Rightarrow> string \<Rightarrow> Condition \<Rightarrow> KvStep" where
  "MakeWriteStep object_id object_type intent_type payload condition =
     default_KvStep\<lparr>ks_kind := StepWrite, ks_object_id := object_id, ks_object_type := object_type,
       ks_intent := \<lparr>wi_object_id = object_id, wi_intent_type = intent_type, wi_payload = payload,
         wi_condition = condition\<rparr>\<rparr>"

definition MakeSavepointStep :: "string \<Rightarrow> KvStep" where
  "MakeSavepointStep savepoint_id = default_KvStep\<lparr>ks_kind := StepSavepoint, ks_savepoint_id := savepoint_id\<rparr>"

definition MakeRollbackStep :: "string \<Rightarrow> KvStep" where
  "MakeRollbackStep savepoint_id =
     default_KvStep\<lparr>ks_kind := StepRollbackToSavepoint, ks_savepoint_id := savepoint_id\<rparr>"

section \<open>The numbers of enumerators\<close>

fun object_type_number :: "ObjectType \<Rightarrow> int" where
  "object_type_number kGeneric = 0"
| "object_type_number kRow = 1"
| "object_type_number kText = 2"
| "object_type_number kCandidateResult = 3"
| "object_type_number (kObjectOther i) = i"

fun condition_type_number :: "ConditionType \<Rightarrow> int" where
  "condition_type_number kNone = 0"
| "condition_type_number kValueEquals = 1"
| "condition_type_number (kConditionOther i) = i"

text \<open>
  A \<open>static_cast\<close> of a \<open>long\<close> to an enumeration whose underlying type is \<open>int\<close> keeps the low
  32 bits. A number that no enumerator has stays that number.
\<close>

definition enum_of_long :: "int \<Rightarrow> int" where
  "enum_of_long i = sint (word_of_int i :: 32 word)"

definition object_type_of :: "int \<Rightarrow> ObjectType" where
  "object_type_of i =
     (if i = 0 then kGeneric else if i = 1 then kRow else if i = 2 then kText
      else if i = 3 then kCandidateResult else kObjectOther i)"

definition intent_type_of :: "int \<Rightarrow> IntentType" where
  "intent_type_of i =
     (if i = 0 then kRead else if i = 1 then kOverwrite else if i = 2 then kAppend
      else if i = 3 then kDelta else if i = 4 then kCas else kIntentOther i)"

definition condition_type_of :: "int \<Rightarrow> ConditionType" where
  "condition_type_of i = (if i = 0 then kNone else if i = 1 then kValueEquals else kConditionOther i)"

section \<open>The task of a script\<close>

type_synonym ObjectRoles = "(string, string) umap \<times> ObjectReference list"

definition AddKvObjectReferenceIfMissing :: "string \<Rightarrow> string \<Rightarrow> ObjectRoles \<Rightarrow> ObjectRoles" where
  "AddKvObjectReferenceIfMissing object_id object_role ro =
     (let (object_roles, objects) = ro in
      if object_id = [] then (object_roles, objects)
      else
        (let (object_roles, _, inserted) = umap_emplace object_roles object_id object_role
         in (object_roles,
             if inserted then objects @ [\<lparr>or_object_id = object_id, or_object_role = object_role\<rparr>] else objects)))"

definition collect_step_refs :: "KvStep \<Rightarrow> ObjectRoles \<times> ObjectRoles \<Rightarrow> ObjectRoles \<times> ObjectRoles" where
  "collect_step_refs step io =
     (let (input, output) = io in
      case ks_kind step of
        StepRead \<Rightarrow> (AddKvObjectReferenceIfMissing (ks_object_id step) ''kv_input'' input, output)
      | StepWrite \<Rightarrow> (input, AddKvObjectReferenceIfMissing (ks_object_id step) ''kv_output'' output)
      | StepSavepoint \<Rightarrow> (input, output)
      | StepRollbackToSavepoint \<Rightarrow> (input, output))"

definition kv_BuildExecutionPlan :: "KvTaskScript \<Rightarrow> ExecutionPlan" where
  "kv_BuildExecutionPlan program =
     fold (\<lambda>branch. AddBranchPlan (kb_branch_id branch) (kb_branch_id branch @ ''_candidate'')
             ''scripted kv branch'' (kb_score branch))
       (kt_branches program) default_ExecutionPlan"

definition step_key :: "nat \<Rightarrow> string \<Rightarrow> string" where
  "step_key i field = ''recovery.step.'' @ nat_dec i @ ''.'' @ field"

text \<open>One turn of the loop that stores the recovery steps.\<close>

definition set_step_metadata :: "nat \<times> KvStep \<Rightarrow> TaskContext \<Rightarrow> TaskContext" where
  "set_step_metadata is task =
     (let (i, step) = is;
          task = SetMetadata (step_key i ''kind'') (KvStepKindName (ks_kind step)) task;
          task = SetMetadata (step_key i ''object_id'') (ks_object_id step) task;
          task = SetMetadata (step_key i ''object_type'') (int_dec (object_type_number (ks_object_type step))) task;
          task = SetMetadata (step_key i ''intent_type'')
                   (int_dec (intent_type_number (wi_intent_type (ks_intent step)))) task;
          task = SetMetadata (step_key i ''payload'') (wi_payload (ks_intent step)) task;
          task = SetMetadata (step_key i ''condition_type'')
                   (int_dec (condition_type_number (cond_type (wi_condition (ks_intent step))))) task;
          task = SetMetadata (step_key i ''condition_value'') (cond_expected_value (wi_condition (ks_intent step))) task
      in SetMetadata (step_key i ''savepoint_id'') (ks_savepoint_id step) task)"

definition kv_BuildTaskContext :: "KvTaskScript \<Rightarrow> TaskContext" where
  "kv_BuildTaskContext program =
     (let task = default_TaskContext\<lparr>tc_task_id := kt_task_id program, tc_objective := kt_objective program,
            tc_workload_name := ''kv_style.scripted_kv_task'', tc_planner_id := ''kv_style_script_runner'',
            tc_phase := TaskCreated\<rparr>;
          io = (([], tc_input_objects task), ([], tc_output_objects task));
          io = fold (\<lambda>branch. fold collect_step_refs (kb_steps branch)) (kt_branches program) io;
          ((_, inputs), (_, outputs)) = fold collect_step_refs (kt_recovery_steps program) io;
          task = task\<lparr>tc_input_objects := inputs, tc_output_objects := outputs\<rparr>;
          task = fold (\<lambda>branch. SetMetadata (''branch:'' @ kb_branch_id branch) (kb_summary branch))
                   (kt_branches program) task;
          task = SetMetadata ''recovery.step_count'' (nat_dec (length (kt_recovery_steps program))) task;
          task = fold set_step_metadata (enumerate 0 (kt_recovery_steps program)) task;
          task = SetMetadata ''recovery.score'' (to_string_double (kt_recovery_score program)) task;
          task = SetMetadata ''recovery.summary'' (kt_recovery_summary program) task
      in SetMetadata ''recovery.preferred_branch_id'' (kt_recovery_preferred_branch_id program) task)"

section \<open>Running a script\<close>

text \<open>The \<open>switch\<close> that runs a step, in both loops; the results of the calls are ignored.\<close>

definition run_kv_step :: "'s RuntimeCore \<Rightarrow> 's sys \<Rightarrow> string \<Rightarrow> KvStep \<Rightarrow> TaskSession \<Rightarrow> TaskSession" where
  "run_kv_step rt st branch_id step session =
     (case ks_kind step of
        StepRead \<Rightarrow> snd (rt_Read rt branch_id (ks_object_id step) st session)
      | StepWrite \<Rightarrow> rt_Write rt branch_id (ks_object_id step) (ks_object_type step) (ks_intent step) st session
      | StepSavepoint \<Rightarrow> rt_Savepoint branch_id (ks_savepoint_id step) session
      | StepRollbackToSavepoint \<Rightarrow> snd (rt_RollbackToSavepoint branch_id (ks_savepoint_id step) session))"

definition run_kv_branch :: "'s RuntimeCore \<Rightarrow> 's sys \<Rightarrow> KvBranchProgram \<Rightarrow> TaskSession \<Rightarrow> TaskSession" where
  "run_kv_branch rt st branch session =
     rt_StageBranch (kb_branch_id branch) (kb_score branch) (kb_summary branch)
       (fold (run_kv_step rt st (kb_branch_id branch)) (kb_steps branch) session)"

definition RunScriptedKvTask ::
    "'s RuntimeCore \<Rightarrow> KvTaskScript \<Rightarrow> 's sys \<Rightarrow> (exn + TaskSession) \<times> 's sys" where
  "RunScriptedKvTask rt program st =
     (case SubmitTask rt (kv_BuildTaskContext program) (kv_BuildExecutionPlan program) of
        Inl e \<Rightarrow> (Inl e, st)
      | Inr session \<Rightarrow>
          (let session = session\<lparr>ts_txn := (ts_txn session)\<lparr>tx_metrics := (tx_metrics (ts_txn session))
                 \<lparr>tm_branch_count := length (kt_branches program),
                  tm_planned_loser_count := length (kt_branches program) - 1\<rparr>\<rparr>\<rparr>;
               session = fold (run_kv_branch rt st) (kt_branches program) session in
           case rt_CommitTask rt session st of
             (Inl e, _, st) \<Rightarrow> (Inl e, st)
           | (Inr _, session, st) \<Rightarrow> (Inr session, st)))"

section \<open>Continuing a script\<close>

definition kv_callback :: "'s RuntimeCore \<Rightarrow> KvStep list \<Rightarrow> 's TaskContinuationCallback" where
  "kv_callback rt continuation_steps branch_id execution st =
     (True, execution\<lparr>ex_session := fold (run_kv_step rt st branch_id) continuation_steps (ex_session execution)\<rparr>, st)"

definition ContinueRecoveredKvTask ::
    "KvStep list \<Rightarrow> double \<Rightarrow> string \<Rightarrow> string \<Rightarrow> 's TaskContinuationHandler" where
  "ContinueRecoveredKvTask continuation_steps score summary preferred_branch_id rt execution st =
     ContinueRecoveredTask rt execution
       \<lparr>cs_preferred_branch_id = preferred_branch_id, cs_score = score, cs_summary = summary\<rparr>
       (kv_callback rt continuation_steps) st"

definition RegisterScriptedKvContinuation ::
    "KvStep list \<Rightarrow> double \<Rightarrow> string \<Rightarrow> string \<Rightarrow> 's TaskContinuationRegistry \<Rightarrow> bool \<times> 's TaskContinuationRegistry" where
  "RegisterScriptedKvContinuation continuation_steps score summary preferred_branch_id registry =
     RegisterHandler ''kv_style.scripted_kv_task''
       (Some (ContinueRecoveredKvTask continuation_steps score summary preferred_branch_id)) registry"

definition task_metadata_value :: "TaskContext \<Rightarrow> string \<Rightarrow> string" where
  "task_metadata_value task key = (case umap_find (tc_metadata task) key of None \<Rightarrow> [] | Some v \<Rightarrow> v)"

text \<open>\<open>strtol\<close> on a 64-bit \<open>long\<close> is \<open>strtoll\<close>.\<close>

definition load_step :: "TaskContext \<Rightarrow> nat \<Rightarrow> KvStep" where
  "load_step task i =
     (let v = (\<lambda>field. task_metadata_value task (step_key i field)); n = (\<lambda>field. enum_of_long (strtoll (v field)))
      in \<lparr>ks_kind = KvStepKindFromName (v ''kind''), ks_object_id = v ''object_id'',
          ks_object_type = object_type_of (n ''object_type''),
          ks_intent = \<lparr>wi_object_id = v ''object_id'', wi_intent_type = intent_type_of (n ''intent_type''),
            wi_payload = v ''payload'',
            wi_condition = \<lparr>cond_type = condition_type_of (n ''condition_type''),
              cond_expected_value = v ''condition_value''\<rparr>\<rparr>,
          ks_savepoint_id = v ''savepoint_id''\<rparr>)"

definition LoadRecoveryStepsFromTask :: "TaskContext \<Rightarrow> KvStep list" where
  "LoadRecoveryStepsFromTask task =
     map (load_step task) [0..<strtoull (task_metadata_value task ''recovery.step_count'')]"

definition kv_metadata_handler :: "'s TaskContinuationHandler" where
  "kv_metadata_handler rt execution st =
     (let task = ts_task (ex_session execution);
          steps = LoadRecoveryStepsFromTask task;
          score = strtod (task_metadata_value task ''recovery.score'')
      in ContinueRecoveredKvTask steps score (task_metadata_value task ''recovery.summary'')
           (task_metadata_value task ''recovery.preferred_branch_id'') rt execution st)"

definition RegisterScriptedKvContinuationFromTaskMetadata ::
    "'s TaskContinuationRegistry \<Rightarrow> bool \<times> 's TaskContinuationRegistry" where
  "RegisterScriptedKvContinuationFromTaskMetadata registry =
     RegisterHandler ''kv_style.scripted_kv_task'' (Some kv_metadata_handler) registry"

section \<open>What the metadata gives back\<close>

definition step_metadata :: "nat \<times> KvStep \<Rightarrow> (string \<times> string) list" where
  "step_metadata is =
     (let (i, step) = is in
      [(step_key i ''kind'', KvStepKindName (ks_kind step)), (step_key i ''object_id'', ks_object_id step),
       (step_key i ''object_type'', int_dec (object_type_number (ks_object_type step))),
       (step_key i ''intent_type'', int_dec (intent_type_number (wi_intent_type (ks_intent step)))),
       (step_key i ''payload'', wi_payload (ks_intent step)),
       (step_key i ''condition_type'', int_dec (condition_type_number (cond_type (wi_condition (ks_intent step))))),
       (step_key i ''condition_value'', cond_expected_value (wi_condition (ks_intent step))),
       (step_key i ''savepoint_id'', ks_savepoint_id step)])"

definition recovery_metadata :: "KvTaskScript \<Rightarrow> (string \<times> string) list" where
  "recovery_metadata program =
     (''recovery.step_count'', nat_dec (length (kt_recovery_steps program))) #
     concat (map step_metadata (enumerate 0 (kt_recovery_steps program))) @
     [(''recovery.score'', to_string_double (kt_recovery_score program)),
      (''recovery.summary'', kt_recovery_summary program),
      (''recovery.preferred_branch_id'', kt_recovery_preferred_branch_id program)]"

lemma step_key_inj [simp]: "step_key i f = step_key j g \<longleftrightarrow> i = j \<and> f = g"
  using digits_then [of "CHR ''.''" i f j g] by (auto simp: step_key_def is_digit_def)

lemma fixed_not_step [simp]:
  "''recovery.step_count'' \<noteq> step_key i f" "''recovery.score'' \<noteq> step_key i f" "''recovery.summary'' \<noteq> step_key i f"
  "''recovery.preferred_branch_id'' \<noteq> step_key i f"
  by (simp_all add: step_key_def)

lemma step_metadata_keys: "q \<in> fst ` set (concat (map step_metadata (enumerate n steps))) \<Longrightarrow> \<exists>i f. n \<le> i \<and> q = step_key i f"
  by (auto simp: step_metadata_def in_set_enumerate_eq)

lemma step_metadata_wf: "umap_wf (concat (map step_metadata (enumerate n steps)))"
proof (induction steps arbitrary: n)
  case (Cons s steps)
  have "step_key n f \<notin> fst ` set (concat (map step_metadata (enumerate (Suc n) steps)))" for f
    using step_metadata_keys [of "step_key n f" "Suc n" steps] by auto
  then have "fst ` set (step_metadata (n, s)) \<inter> fst ` set (concat (map step_metadata (enumerate (Suc n) steps))) = {}"
    by (auto simp: step_metadata_def)
  moreover have "umap_wf (step_metadata (n, s))" by (simp add: step_metadata_def umap_wf_def)
  ultimately show ?case using Cons.IH [of "Suc n"] by (simp add: umap_wf_def)
qed (simp add: umap_wf_def)

lemma recovery_metadata_wf: "umap_wf (recovery_metadata program)"
proof -
  have fresh: "(\<And>i f. q \<noteq> step_key i f) \<Longrightarrow>
      q \<notin> fst ` set (concat (map step_metadata (enumerate 0 (kt_recovery_steps program))))" for q
    using step_metadata_keys [of q 0 "kt_recovery_steps program"] by blast
  note new = fresh [OF fixed_not_step(1)] fresh [OF fixed_not_step(2)] fresh [OF fixed_not_step(3)] fresh [OF fixed_not_step(4)]
  show ?thesis
    using new step_metadata_wf [of 0 "kt_recovery_steps program"] unfolding recovery_metadata_def umap_wf_def
    by (simp del: set_concat)
qed

lemma fold_SetMetadata:
  "tc_metadata (fold (\<lambda>x. SetMetadata (f x) (g x)) xs t) = umap_store_all (tc_metadata t) (map (\<lambda>x. (f x, g x)) xs)"
  by (induction xs arbitrary: t) simp_all

lemma set_step_metadata_all:
  "tc_metadata (fold set_step_metadata iss t) = umap_store_all (tc_metadata t) (concat (map step_metadata iss))"
  by (induction iss arbitrary: t) (simp_all add: set_step_metadata_def step_metadata_def Let_def umap_store_all_def split: prod.split)

lemma kv_task_metadata:
  "\<exists>branches. tc_metadata (kv_BuildTaskContext program) = umap_store_all branches (recovery_metadata program)"
  by (rule exI) (simp add: kv_BuildTaskContext_def Let_def recovery_metadata_def set_step_metadata_all split_beta
      umap_store_all_def)

lemma umap_find_stored: "umap_wf ps \<Longrightarrow> (q, v) \<in> set ps \<Longrightarrow> umap_find (umap_store_all m ps) q = Some v"
  using umap_find_mem [of ps q v] by (simp add: umap_find_store_all umap_find_rev)

lemma kv_task_value: "(q, v) \<in> set (recovery_metadata program) \<Longrightarrow> umap_find (tc_metadata (kv_BuildTaskContext program)) q = Some v"
  using kv_task_metadata [of program] umap_find_stored [OF recovery_metadata_wf] by metis

text \<open>
  A task whose metadata still holds these entries; recovery adds others.
\<close>

definition keeps_recovery :: "KvTaskScript \<Rightarrow> TaskContext \<Rightarrow> bool" where
  "keeps_recovery program task \<longleftrightarrow> (\<forall>(q, v) \<in> set (recovery_metadata program). umap_find (tc_metadata task) q = Some v)"

lemma kept_value: "keeps_recovery program task \<Longrightarrow> (q, v) \<in> set (recovery_metadata program) \<Longrightarrow> task_metadata_value task q = v"
  by (fastforce simp: keeps_recovery_def task_metadata_value_def)

definition plain_step :: "KvStep \<Rightarrow> bool" where
  "plain_step s \<longleftrightarrow> (case ks_object_type s of kObjectOther _ \<Rightarrow> False | _ \<Rightarrow> True) \<and>
     (case wi_intent_type (ks_intent s) of kIntentOther _ \<Rightarrow> False | _ \<Rightarrow> True) \<and>
     (case cond_type (wi_condition (ks_intent s)) of kConditionOther _ \<Rightarrow> False | _ \<Rightarrow> True)"

definition loaded_step :: "KvStep \<Rightarrow> KvStep" where
  "loaded_step s = s\<lparr>ks_intent := (ks_intent s)\<lparr>wi_object_id := ks_object_id s\<rparr>\<rparr>"

lemma enum_number: "0 \<le> i \<Longrightarrow> i < 5 \<Longrightarrow> enum_of_long (strtoll (int_dec i)) = i"
  by (simp add: strtoll_int_dec enum_of_long_def sint_sbintrunc' signed_take_bit_int_eq_self)

lemma plain_numbers:
  assumes "plain_step s"
  shows "object_type_of (enum_of_long (strtoll (int_dec (object_type_number (ks_object_type s))))) = ks_object_type s" (is ?O)
    and "intent_type_of (enum_of_long (strtoll (int_dec (intent_type_number (wi_intent_type (ks_intent s)))))) =
       wi_intent_type (ks_intent s)" (is ?I)
    and "condition_type_of (enum_of_long (strtoll (int_dec (condition_type_number (cond_type (wi_condition (ks_intent s))))))) =
       cond_type (wi_condition (ks_intent s))" (is ?C)
proof -
  show ?O using assms by (cases "ks_object_type s") (simp_all add: plain_step_def enum_number object_type_of_def)
  show ?I using assms by (cases "wi_intent_type (ks_intent s)") (simp_all add: plain_step_def enum_number intent_type_of_def)
  show ?C using assms
    by (cases "cond_type (wi_condition (ks_intent s))") (simp_all add: plain_step_def enum_number condition_type_of_def)
qed

lemma KvStepKind_roundtrip [simp]: "KvStepKindFromName (KvStepKindName k) = k"
  by (cases k) (simp_all add: KvStepKindFromName_def)

lemma kept_step:
  assumes k: "keeps_recovery program task" and i: "i < length (kt_recovery_steps program)"
    and p: "plain_step (kt_recovery_steps program ! i)"
  shows "load_step task i = loaded_step (kt_recovery_steps program ! i)"
proof -
  let ?s = "kt_recovery_steps program ! i"
  have "(i, ?s) \<in> set (enumerate 0 (kt_recovery_steps program))" using i by (simp add: in_set_enumerate_eq)
  then have "set (step_metadata (i, ?s)) \<subseteq> set (recovery_metadata program)" by (force simp: recovery_metadata_def)
  then have v: "task_metadata_value task q = v" if "(q, v) \<in> set (step_metadata (i, ?s))" for q v
    using that kept_value [OF k] by blast
  show ?thesis
    by (simp add: load_step_def Let_def loaded_step_def v step_metadata_def plain_numbers [OF p])
qed

lemma kept_recovery:
  assumes k: "keeps_recovery program task" and p: "\<forall>s \<in> set (kt_recovery_steps program). plain_step s"
    and n: "length (kt_recovery_steps program) < 2 ^ 64"
  shows "LoadRecoveryStepsFromTask task = map loaded_step (kt_recovery_steps program)"
    "task_metadata_value task ''recovery.score'' = to_string_double (kt_recovery_score program)"
    "task_metadata_value task ''recovery.summary'' = kt_recovery_summary program"
    "task_metadata_value task ''recovery.preferred_branch_id'' = kt_recovery_preferred_branch_id program"
proof -
  note v = kept_value [OF k]
  have "task_metadata_value task ''recovery.step_count'' = nat_dec (length (kt_recovery_steps program))"
    by (rule v) (simp add: recovery_metadata_def)
  then have "LoadRecoveryStepsFromTask task = map (load_step task) [0..<length (kt_recovery_steps program)]"
    by (simp add: LoadRecoveryStepsFromTask_def strtoull_nat_dec [OF n])
  also have "\<dots> = map loaded_step (kt_recovery_steps program)"
    by (rule nth_equalityI) (simp_all add: kept_step [OF k] p)
  finally show "LoadRecoveryStepsFromTask task = map loaded_step (kt_recovery_steps program)" .
qed (rule kept_value [OF k]; simp add: recovery_metadata_def)+

section \<open>Recovery keeps the metadata\<close>

lemma recovery_keys: "(q, v) \<in> set (recovery_metadata program) \<Longrightarrow> \<exists>x. q = ''recovery.'' @ x"
  by (auto simp: recovery_metadata_def step_metadata_def step_key_def)

lemma find_nonempty_keys: "q \<noteq> [] \<Longrightarrow> umap_find (filter (\<lambda>kv. fst kv \<noteq> []) m) q = umap_find m q"
  by (induction m) (auto simp: umap_find_def)

lemma plan_events_metadata: "tc_metadata (fst (fold plan_event es tp)) = tc_metadata (fst tp)"
proof (induction es arbitrary: tp)
  case (Cons e es)
  have "tc_metadata (fst (plan_event e tp)) = tc_metadata (fst tp)"
    by (simp add: plan_event_def Let_def AddInputObject_def AddOutputObject_def split: prod.split)
  with Cons show ?case by simp
qed simp

lemma recovered_task_metadata:
  assumes "RecoverSessionFromLog rt path st = Inr r" "ParseTaskEventLogArtifact path (snd st) = Some a"
  shows "tc_metadata (ts_task (rs_session r)) = tc_metadata (rp_task (BuildTaskRecoveryPlan path a))"
proof -
  obtain r0 s where r0: "RecoverTaskSessionFromArtifact path a = Inr r0"
      "RebuildRecoveredSessionState rt a st (rs_session r0) = Inr s" "r = ApplyRecoveredTerminalState (r0\<lparr>rs_session := s\<rparr>)"
    using assms by (auto simp: RecoverSessionFromLog_def split: sum.splits)
  have "ts_task (rs_session r0) = rp_task (BuildTaskRecoveryPlan path a)"
    using r0(1) by (auto simp: RecoverTaskSessionFromArtifact_def Let_def split: option.splits)
  moreover have "tc_metadata (ts_task s) = tc_metadata (ts_task (rs_session r0))"
    using r0(2) by (auto simp: RebuildRecoveredSessionState_def SubmitTask_iff submitted_def Let_def split: sum.splits option.splits)
  moreover have "tc_metadata (ts_task (rs_session r)) = tc_metadata (ts_task s)"
    by (simp add: r0(3) ApplyRecoveredTerminalState_def Let_def)
  ultimately show ?thesis by simp
qed

lemma recovered_keeps:
  assumes keeps: "keeps_recovery program (ts_task s)" and fits: "log_fits s"
    and parse: "ParseTaskEventLogArtifact path (snd st) = Some (logged_artifact s)"
    and r: "RecoverSessionFromLog rt path st = Inr r"
  shows "keeps_recovery program (ts_task (ex_session (BuildTaskRecoveryExecution r)))"
proof -
  let ?m = "filter (\<lambda>kv. fst kv \<noteq> []) (tc_metadata (ts_task s))"
  have "umap_find (tc_metadata (rp_task (BuildTaskRecoveryPlan path (logged_artifact s)))) (''recovery.'' @ x) =
      umap_find ?m (''recovery.'' @ x)" for x
    by (simp add: BuildTaskRecoveryPlan_def Let_def split_beta plan_events_metadata restore_logged [OF fits])
  then have "umap_find (tc_metadata (ts_task (ex_session (BuildTaskRecoveryExecution r)))) (''recovery.'' @ x) =
      umap_find (tc_metadata (ts_task s)) (''recovery.'' @ x)" for x
    using find_nonempty_keys [of "''recovery.'' @ x" "tc_metadata (ts_task s)"]
    by (simp add: BuildTaskRecoveryExecution_def Let_def split_beta recovered_task_metadata [OF r parse])
  with keeps show ?thesis unfolding keeps_recovery_def by (fastforce dest: recovery_keys)
qed

lemma loaded_step_runs:
  "(ks_kind s = StepWrite \<longrightarrow> wi_object_id (ks_intent s) = ks_object_id s) \<Longrightarrow>
     run_kv_step rt st b (loaded_step s) = run_kv_step rt st b s"
proof -
  assume w: "ks_kind s = StepWrite \<longrightarrow> wi_object_id (ks_intent s) = ks_object_id s"
  show ?thesis
  proof (cases "ks_kind s = StepWrite")
    case True
    with w have "(ks_intent s)\<lparr>wi_object_id := ks_object_id s\<rparr> = ks_intent s" by (cases "ks_intent s") simp
    with True show ?thesis by (simp add: run_kv_step_def loaded_step_def fun_eq_iff)
  next
    case False
    then show ?thesis by (cases "ks_kind s") (simp_all add: run_kv_step_def loaded_step_def fun_eq_iff)
  qed
qed

lemma loaded_steps_callback:
  assumes "\<forall>s \<in> set steps. ks_kind s = StepWrite \<longrightarrow> wi_object_id (ks_intent s) = ks_object_id s"
  shows "kv_callback rt (map loaded_step steps) = kv_callback rt steps"
proof -
  have "fold (run_kv_step rt st b) (map loaded_step steps) x = fold (run_kv_step rt st b) steps x" for st b x
    using assms by (induction steps arbitrary: x) (simp_all add: loaded_step_runs)
  then show ?thesis by (simp add: kv_callback_def fun_eq_iff)
qed

text \<open>
  C21. A scripted task keeps the script of its continuation through a crash. Take a task submitted
  from a script, interrupted after any operations, with its event log written. Recovering from the
  log succeeds, and the handler that reads the script back from the metadata then does exactly what
  the handler registered with the script itself does: the same steps (their numbers printed and
  parsed again), the same score, summary and preferred branch. The script's types are enumerators,
  a write's intent names the object it writes, and the score is a whole number a double holds.
\<close>

theorem scripted_task_continues_as_scripted:
  assumes "SubmitTask rt (kv_BuildTaskContext program) (kv_BuildExecutionPlan program) = Inr s0"
    and "log_fits (fold (task_op rt st0) ops s0)"
    and "WriteTaskEventLogArtifact (fold (task_op rt st0) ops s0) path w = (True, w')"
    and "length (kt_recovery_steps program) < 2 ^ 64"
    and "\<forall>s \<in> set (kt_recovery_steps program). plain_step s \<and>
           (ks_kind s = StepWrite \<longrightarrow> wi_object_id (ks_intent s) = ks_object_id s)"
    and "kt_recovery_score program = DFin (of_int score)" and "\<bar>score\<bar> < 2 ^ 53"
  shows "\<exists>r. RecoverSessionFromLog rt path (kv, w') = Inr r \<and>
    kv_metadata_handler rt (BuildTaskRecoveryExecution r) st =
      ContinueRecoveredKvTask (kt_recovery_steps program) (kt_recovery_score program)
        (kt_recovery_summary program) (kt_recovery_preferred_branch_id program)
        rt (BuildTaskRecoveryExecution r) st"
proof -
  let ?s = "fold (task_op rt st0) ops s0"
  have "\<forall>e \<in> set (ts_events ?s). te_sequence_number e < 2 ^ 64" using assms(2) by (simp add: log_fits_def)
  note parse = parse_task_log [OF written_task_log [OF assms(3)] this]
  obtain es where es: "ts_events ?s = ts_events s0 @ es" "op_events es" using run_events by blast
  obtain r where r: "RecoverSessionFromLog rt path (kv, w') = Inr r"
    using recovered_open_session [OF assms(1) refl assms(2) es refl parse] by blast
  have "tc_metadata (ts_task ?s) = tc_metadata (kv_BuildTaskContext program)"
    using assms(1) by (simp add: submitted_run_open SubmitTask_iff submitted_def)
  then have "keeps_recovery program (ts_task ?s)"
    using kv_task_value [of _ _ program] by (auto simp: keeps_recovery_def)
  from recovered_keeps [OF this assms(2) _ r] parse
  have k: "keeps_recovery program (ts_task (ex_session (BuildTaskRecoveryExecution r)))" by simp
  have plain: "\<forall>s \<in> set (kt_recovery_steps program). plain_step s" using assms(5) by blast
  have "strtod (to_string_double (kt_recovery_score program)) = kt_recovery_score program"
    unfolding assms(6) by (rule strtod_to_string [OF assms(7)])
  then have "kv_metadata_handler rt (BuildTaskRecoveryExecution r) st =
      ContinueRecoveredKvTask (map loaded_step (kt_recovery_steps program)) (kt_recovery_score program)
        (kt_recovery_summary program) (kt_recovery_preferred_branch_id program) rt (BuildTaskRecoveryExecution r) st"
    by (simp add: kv_metadata_handler_def Let_def kept_recovery [OF k plain assms(4)])
  with r assms(5) show ?thesis
    by (auto simp: ContinueRecoveredKvTask_def loaded_steps_callback)
qed

text \<open>A script with one branch, and its session right after the submission.\<close>

definition demo_script :: KvTaskScript where
  "demo_script = \<lparr>kt_task_id = ''t'', kt_objective = ''extend k'',
     kt_branches = [\<lparr>kb_branch_id = ''A'', kb_score = DFin 2, kb_summary = ''only'',
       kb_steps = [MakeReadStep ''k'', MakeWriteStep ''k'' kText kAppend ''+'' no_condition]\<rparr>],
     kt_recovery_steps = [MakeWriteStep ''k'' kText kCas ''mine'' \<lparr>cond_type = kValueEquals, cond_expected_value = ''old''\<rparr>,
       MakeSavepointStep ''p''],
     kt_recovery_score = DFin (of_int (- 7)), kt_recovery_summary = ''again'', kt_recovery_preferred_branch_id = ''A''\<rparr>"

lemma fold_SetMetadata_fields:
  "tc_task_id (fold (\<lambda>x. SetMetadata (f x) (g x)) xs t) = tc_task_id t"
  "tc_objective (fold (\<lambda>x. SetMetadata (f x) (g x)) xs t) = tc_objective t"
  by (induction xs arbitrary: t) simp_all

lemma set_step_metadata_fields:
  "tc_task_id (fold set_step_metadata iss t) = tc_task_id t"
  "tc_objective (fold set_step_metadata iss t) = tc_objective t"
  by (induction iss arbitrary: t) (simp_all add: set_step_metadata_def Let_def split: prod.split)

lemma kv_task_fields [simp]:
  "tc_task_id (kv_BuildTaskContext program) = kt_task_id program"
  "tc_objective (kv_BuildTaskContext program) = kt_objective program"
  by (simp_all add: kv_BuildTaskContext_def Let_def split_beta fold_SetMetadata_fields set_step_metadata_fields)

lemma kv_plan_branches:
  "ep_branch_plans (kv_BuildExecutionPlan program) = map (\<lambda>b. \<lparr>bp_branch_id = kb_branch_id b,
     bp_candidate_id = kb_branch_id b @ ''_candidate'', bp_rationale = ''scripted kv branch'',
     bp_initial_priority = kb_score b\<rparr>) (kt_branches program)"
proof -
  have gen: "ep_branch_plans (fold (\<lambda>b. AddBranchPlan (kb_branch_id b) (kb_branch_id b @ ''_candidate'') ''scripted kv branch''
      (kb_score b)) bs plan) = ep_branch_plans plan @ map (\<lambda>b. \<lparr>bp_branch_id = kb_branch_id b,
     bp_candidate_id = kb_branch_id b @ ''_candidate'', bp_rationale = ''scripted kv branch'',
     bp_initial_priority = kb_score b\<rparr>) bs" for bs plan
    by (induction bs arbitrary: plan) (simp_all add: AddBranchPlan_def)
  show ?thesis unfolding kv_BuildExecutionPlan_def gen by (simp add: default_ExecutionPlan_def)
qed

definition script_valid :: "KvTaskScript \<Rightarrow> bool" where
  "script_valid program \<longleftrightarrow> kt_task_id program \<noteq> [] \<and> kt_objective program \<noteq> [] \<and> kt_branches program \<noteq> [] \<and>
     distinct (map kb_branch_id (kt_branches program)) \<and> (\<forall>b \<in> set (kt_branches program). kb_branch_id b \<noteq> [])"

lemma kv_Submit:
  "script_valid program \<Longrightarrow> SubmitTask rt (kv_BuildTaskContext program) (kv_BuildExecutionPlan program) =
     Inr (submitted rt (kv_BuildTaskContext program) (kv_BuildExecutionPlan program))"
  by (auto simp: SubmitTask_iff task_Validate_iff plan_Validate_iff CandidateBranchIds_def script_valid_def
      kv_plan_branches comp_def)

text \<open>The metadata of a script is a map with one entry per field at most.\<close>

lemma store_all_size: "length (umap_store_all m ps) \<le> length m + length ps"
proof (induction ps arbitrary: m)
  case (Cons p ps)
  obtain k v where p: "p = (k, v)" by (cases p)
  have "length (umap_set m k v) \<le> Suc (length m)"
    by (induction m) (auto simp: umap_set_def)
  with Cons [of "umap_set m k v"] show ?case by (simp add: p)
qed simp

lemma store_all_wf: "umap_wf m \<Longrightarrow> umap_wf (umap_store_all m ps)"
  by (induction ps arbitrary: m) auto

lemma step_metadata_size: "length (concat (map step_metadata (enumerate n steps))) = 8 * length steps"
  by (induction steps arbitrary: n) (simp_all add: step_metadata_def)

lemma kv_metadata_fits:
  "umap_wf (tc_metadata (kv_BuildTaskContext program)) \<and>
   length (tc_metadata (kv_BuildTaskContext program)) \<le>
     length (kt_branches program) + 8 * length (kt_recovery_steps program) + 4"
proof -
  let ?b = "umap_store_all [] (map (\<lambda>b. (''branch:'' @ kb_branch_id b, kb_summary b)) (kt_branches program))"
  have m: "tc_metadata (kv_BuildTaskContext program) = umap_store_all ?b (recovery_metadata program)"
    by (simp add: kv_BuildTaskContext_def Let_def recovery_metadata_def set_step_metadata_all split_beta
        fold_SetMetadata default_TaskContext_def) (simp add: umap_store_all_def)
  have "length ?b \<le> length (kt_branches program)"
    using store_all_size [of "[]" "map (\<lambda>b. (''branch:'' @ kb_branch_id b, kb_summary b)) (kt_branches program)"] by simp
  moreover have "length (recovery_metadata program) = 8 * length (kt_recovery_steps program) + 4"
    using step_metadata_size [of 0 "kt_recovery_steps program"] by (simp add: recovery_metadata_def del: length_concat)
  moreover have "umap_wf (tc_metadata (kv_BuildTaskContext program))"
    unfolding m by (intro store_all_wf) simp
  ultimately show ?thesis using store_all_size [of ?b "recovery_metadata program"] m by simp
qed

theorem scripted_task_continues_as_scripted_witness:
  "\<exists>r. RecoverSessionFromLog demo_runtime ''t.log'' (demo_mem, snd (WriteTaskEventLogArtifact
       (submitted demo_runtime (kv_BuildTaskContext demo_script) (kv_BuildExecutionPlan demo_script)) ''t.log'' calm)) = Inr r \<and>
     kv_metadata_handler demo_runtime (BuildTaskRecoveryExecution r) demo_system =
       ContinueRecoveredKvTask (kt_recovery_steps demo_script) (DFin (- 7)) ''again'' ''A''
         demo_runtime (BuildTaskRecoveryExecution r) demo_system"
proof -
  let ?s0 = "submitted demo_runtime (kv_BuildTaskContext demo_script) (kv_BuildExecutionPlan demo_script)"
  have "script_valid demo_script" by (simp add: script_valid_def demo_script_def)
  note sub = kv_Submit [OF this, of demo_runtime]
  have w: "WriteTaskEventLogArtifact ?s0 ''t.log'' calm = (True, fs_put ''t.log'' (task_log_text ?s0) calm)"
    by (simp add: WriteTaskEventLogArtifact_def write_file_def next_fault_def calm_def)
  have "length (tc_metadata (kv_BuildTaskContext demo_script)) \<le> 21"
    using kv_metadata_fits [of demo_script] by (simp add: demo_script_def)
  moreover have "length (tc_input_objects (kv_BuildTaskContext demo_script)) \<le> 1" "length (tc_output_objects (kv_BuildTaskContext demo_script)) \<le> 1"
    by (simp_all add: kv_BuildTaskContext_def demo_script_def collect_step_refs_def AddKvObjectReferenceIfMissing_def
        MakeReadStep_def MakeWriteStep_def MakeSavepointStep_def default_KvStep_def umap_emplace_def umap_find_def
        umap_set_def set_step_metadata_def SetMetadata_def default_TaskContext_def Let_def)
  ultimately have fits: "log_fits ?s0"
    using kv_metadata_fits [of demo_script]
    by (auto simp: log_fits_def submitted_def kv_plan_branches demo_script_def created_event_def)
  have steps: "\<forall>s \<in> set (kt_recovery_steps demo_script). plain_step s \<and> (ks_kind s = StepWrite \<longrightarrow> wi_object_id (ks_intent s) = ks_object_id s)"
    "length (kt_recovery_steps demo_script) < 2 ^ 64" "kt_recovery_score demo_script = DFin (of_int (- 7))" "\<bar>- 7 :: int\<bar> < 2 ^ 53"
    by (simp_all add: demo_script_def plain_step_def MakeWriteStep_def MakeSavepointStep_def default_KvStep_def default_WriteIntent_def no_condition_def)
  from scripted_task_continues_as_scripted [where ops = "[]", OF sub _ _ steps(2,1,3,4)] fits w
  show ?thesis by (simp add: demo_script_def)
qed

end
