(* ===== verification/Workload_Script_Run.thy ===== *)
theory Workload_Script_Run
  imports Workload_Script
begin

text \<open>
  What a scripted task does on a store that nobody else changes: its branches end as their
  programs leave them, and the best of them is committed.
\<close>

section \<open>A scripted task on an undisturbed store\<close>

fun step_op :: "string \<Rightarrow> KvStep \<Rightarrow> TaskOp" where
  "step_op b s = (case ks_kind s of
     StepRead \<Rightarrow> DoRead b (ks_object_id s)
   | StepWrite \<Rightarrow> DoWrite b (ks_object_id s) (ks_object_type s) (ks_intent s)
   | StepSavepoint \<Rightarrow> DoSavepoint b (ks_savepoint_id s)
   | StepRollbackToSavepoint \<Rightarrow> DoRollback b (ks_savepoint_id s))"

definition branch_program :: "KvBranchProgram \<Rightarrow> TaskOp list" where
  "branch_program b = map (step_op (kb_branch_id b)) (kb_steps b) @ [DoStage (kb_branch_id b) (kb_score b) (kb_summary b)]"

text \<open>The branch that a program leaves on a store with the view \<open>V\<close>.\<close>

definition script_branch :: "view \<Rightarrow> KvBranchProgram \<Rightarrow> BranchContext" where
  "script_branch V b = fold (branch_op V) (branch_program b) (new_BranchContext (kb_branch_id b))"

lemma run_kv_step_op: "run_kv_step rt st b s = task_op rt st (step_op b s)"
  by (cases "ks_kind s") (simp_all add: run_kv_step_def fun_eq_iff)

lemma run_kv_branch_op: "run_kv_branch rt st b x = fold (task_op rt st) (branch_program b) x"
proof -
  have "run_kv_step rt st i = (\<lambda>s. task_op rt st (step_op i s))" for i by (rule ext) (rule run_kv_step_op)
  then show ?thesis by (simp add: run_kv_branch_def branch_program_def fold_map comp_def)
qed

lemma run_kv_branches: "fold (run_kv_branch rt st) bs x = fold (task_op rt st) (concat (map branch_program bs)) x"
  by (induction bs arbitrary: x) (simp_all add: run_kv_branch_op)

lemma script_branch_staged: "cr_score (bc_candidate_result (script_branch V b)) = kb_score b" "bc_branch_id (script_branch V b) = kb_branch_id b"
  by (simp_all add: script_branch_def branch_program_def score_frames branch_ops_id Stage_id)

lemma fresh_commit:
  assumes ok: "session_ok rt s" and fresh: "session_fresh (kv_Get (tk_store rt) (fst st)) s"
    and kv: "batch_store (tk_store rt) ok_state" and st: "ok_state st"
    and w: "w = best_branch (tx_branches (ts_txn s))"
  shows "\<exists>s' st'. rt_CommitTask rt s st = (Inr (ts_committed s'), s', st') \<and>
    (ts_committed s' \<longleftrightarrow> writes_resolve w (kv_Get (tk_store rt) (fst st))) \<and>
    outcome_of (tx_branches (ts_txn s)) w
      (kv_Get (tk_store rt) (fst st)) (ts_committed s') (ts_txn s') (kv_Get (tk_store rt) (fst st'))"
proof -
  let ?bs = "tx_branches (ts_txn s)" and ?V = "kv_Get (tk_store rt) (fst st)"
  have "\<forall>b \<in> set ?bs. cr_score (bc_candidate_result b) \<noteq> DNaN" using fresh by (simp add: session_fresh_def)
  then obtain r txn' st' where r: "rt_CommitTask rt s st =
      (Inr r, s\<lparr>ts_task := (ts_task s)\<lparr>tc_phase := if r then TaskCommitted else TaskAborted\<rparr>, ts_txn := txn',
         ts_commit_attempts := ts_commit_attempts s + 1, ts_committed := r,
         ts_events := ts_events s @ ended_events s r txn'\<rparr>, st')"
      "outcome_of ?bs w ?V r txn' (kv_Get (tk_store rt) (fst st'))"
    using commit_outcome [OF _ _ kv st] ok unfolding session_ok_def w by meson
  have "w \<in> set ?bs" using r(2) by (simp add: outcome_of_def)
  then have "commit_possible w ?V \<longleftrightarrow> writes_resolve w ?V"
    using fresh by (auto simp: session_fresh_def fresh_possible_iff)
  with r(2) have "r \<longleftrightarrow> writes_resolve w ?V" by (simp add: outcome_of_def)
  with r show ?thesis by auto
qed

text \<open>A branch of a script has the intents of the script's writes and is up to date.\<close>

lemma branch_op_intents:
  "intents_all P x \<Longrightarrow> (\<And>b k t i. op = DoWrite b k t i \<Longrightarrow> P i) \<Longrightarrow> intents_all P (branch_op V op x)"
  by (cases op) (simp_all add: intents_keep)

lemma branch_ops_intents:
  "intents_all P x \<Longrightarrow> \<forall>op \<in> set ops. \<forall>b k t i. op = DoWrite b k t i \<longrightarrow> P i \<Longrightarrow> intents_all P (fold (branch_op V) ops x)"
  by (induction ops arbitrary: x) (simp_all add: branch_op_intents)

lemma script_branch_intents:
  assumes "\<forall>s \<in> set (kb_steps b). ks_kind s = StepWrite \<longrightarrow> P (ks_intent s)"
  shows "intents_all P (script_branch V b)"
  unfolding script_branch_def
proof (rule branch_ops_intents [OF intents_keep(1)], intro ballI allI impI)
  fix op c k t i assume "op \<in> set (branch_program b)" and w: "op = DoWrite c k t i"
  then obtain s where s: "s \<in> set (kb_steps b)" "op = step_op (kb_branch_id b) s"
    by (auto simp: branch_program_def simp del: step_op.simps)
  with w have "ks_kind s = StepWrite" "ks_intent s = i" by (cases "ks_kind s"; simp)+
  with assms s(1) show "P i" by blast
qed

text \<open>
  C22. A scripted task on a store with atomic batches that nobody else changes. For every script
  that can be submitted, whose steps read, write with any intent, make savepoints and roll back in
  any order (a write step's intent is for the step's object, as the helpers that make steps see to,
  and no score is NaN), the run returns a session. The winner is a branch of the script with a
  maximal score. It commits exactly when all its buffered writes can be resolved, so always when
  its writes read, overwrite or append, add an integer to an integer or compare with the value the
  store has. Then the store is changed by exactly the writes that this branch's own steps leave,
  whatever the other branches do; otherwise the session ends uncommitted and nothing has changed.
\<close>

theorem scripted_task_commits:
  assumes "script_valid program" and "batch_store (tk_store rt) ok_state" and "ok_state st"
    and "\<forall>b \<in> set (kt_branches program). kb_score b \<noteq> DNaN \<and>
      (\<forall>s \<in> set (kb_steps b). ks_kind s = StepWrite \<longrightarrow> wi_object_id (ks_intent s) = ks_object_id s)"
  shows "let V = kv_Get (tk_store rt) (fst st) in
    \<exists>session st' b. RunScriptedKvTask rt program st = (Inr session, st') \<and>
      b \<in> set (kt_branches program) \<and> tx_winner_branch_id (ts_txn session) = kb_branch_id b \<and>
      (\<forall>c \<in> set (kt_branches program). \<not> dless (kb_score b) (kb_score c)) \<and>
      (ts_committed session \<longleftrightarrow> writes_resolve (script_branch V b) V) \<and>
      ((\<forall>s \<in> set (kb_steps b). ks_kind s = StepWrite \<longrightarrow> intent_resolves V (ks_intent s)) \<longrightarrow> ts_committed session) \<and>
      kv_Get (tk_store rt) (fst st') = (if ts_committed session then commit_view (script_branch V b) V else V)"
proof -
  let ?V = "kv_Get (tk_store rt) (fst st)" and ?bs = "kt_branches program"
  let ?init = "submitted rt (kv_BuildTaskContext program) (kv_BuildExecutionPlan program)"
  let ?m = "(tx_metrics (ts_txn ?init))\<lparr>tm_branch_count := length ?bs, tm_planned_loser_count := length ?bs - 1\<rparr>"
  let ?begun = "?init\<lparr>ts_txn := (ts_txn ?init)\<lparr>tx_metrics := ?m\<rparr>\<rparr>"
  let ?ps = "map (\<lambda>b. (kb_branch_id b, branch_program b)) ?bs"
  let ?s = "fold (task_op rt st) (concat (map branch_program ?bs)) ?begun"
  note sub = kv_Submit [OF assms(1), of rt]
  have "session_ok rt ?init" using sub unfolding SubmitTask_iff by (blast intro: submitted_ok)
  then have ok: "session_ok rt ?s" by (intro session_ok_run session_ok_metrics)
  have "fresh_op (step_op (kb_branch_id b) s)" if "b \<in> set ?bs" "s \<in> set (kb_steps b)" for b s
    using assms(4) that by (cases "ks_kind s") auto
  then have "list_all fresh_op (concat (map branch_program ?bs))"
    using assms(4) by (auto simp: list_all_iff branch_program_def simp del: step_op.simps)
  moreover have "session_fresh ?V ?begun"
    using session_fresh_submitted [of ?V rt "kv_BuildTaskContext program" "kv_BuildExecutionPlan program"]
    by (simp add: session_fresh_def)
  ultimately have fresh: "session_fresh ?V ?s" by (intro session_fresh_run)
  have "op_branch (step_op i s) = i" for i s by (cases "ks_kind s") simp_all
  then have "\<forall>p \<in> set ?ps. \<forall>op \<in> set (snd p). op_branch op = fst p"
    by (auto simp: branch_program_def simp del: step_op.simps)
  moreover have "distinct (map fst ?ps)" using assms(1) by (simp add: script_valid_def comp_def)
  moreover have "tx_branches (ts_txn ?begun) = [] @ map (\<lambda>p. new_BranchContext (fst p)) ?ps"
    by (simp add: submitted_def kv_plan_branches)
  ultimately have bs: "tx_branches (ts_txn ?s) = map (script_branch ?V) ?bs"
    using run_programs [of ?ps "[]" ?begun rt st] by (simp add: comp_def script_branch_def)
  obtain s' st' where c: "rt_CommitTask rt ?s st = (Inr (ts_committed s'), s', st')"
      "ts_committed s' \<longleftrightarrow> writes_resolve (best_branch (map (script_branch ?V) ?bs)) ?V"
      "outcome_of (map (script_branch ?V) ?bs) (best_branch (map (script_branch ?V) ?bs)) ?V (ts_committed s') (ts_txn s')
        (kv_Get (tk_store rt) (fst st'))"
    using fresh_commit [OF ok fresh assms(2,3) refl] unfolding bs by blast
  then obtain b where b: "b \<in> set ?bs" "best_branch (map (script_branch ?V) ?bs) = script_branch ?V b"
    by (auto simp: outcome_of_def)
  have run: "RunScriptedKvTask rt program st = (Inr s', st')"
    unfolding RunScriptedKvTask_def sub sum.case Let_def run_kv_branches c(1) prod.case ..
  have "branch_fresh ?V (script_branch ?V b)" using fresh b(1) unfolding session_fresh_def bs by simp
  from intents_resolve [OF this script_branch_intents]
  have "ts_committed s'" if "\<forall>s \<in> set (kb_steps b). ks_kind s = StepWrite \<longrightarrow> intent_resolves ?V (ks_intent s)"
    using that c(2) b(2) by simp
  with run c(2,3) b show ?thesis
    unfolding Let_def
    by (intro exI [of _ s'] exI [of _ st'] exI [of _ b]) (auto simp: outcome_of_def script_branch_staged)
qed

text \<open>A script that swaps the value of a key if it is the expected one.\<close>

definition cas_script :: "string \<Rightarrow> KvTaskScript" where
  "cas_script x = \<lparr>kt_task_id = ''t'', kt_objective = ''swap k'',
     kt_branches = [\<lparr>kb_branch_id = ''A'', kb_score = DFin 2, kb_summary = ''only'',
       kb_steps = [MakeWriteStep ''k'' kText kCas ''mine'' \<lparr>cond_type = kValueEquals, cond_expected_value = x\<rparr>]\<rparr>],
     kt_recovery_steps = [], kt_recovery_score = DFin 0, kt_recovery_summary = [], kt_recovery_preferred_branch_id = []\<rparr>"

lemma cas_script_branch:
  assumes "b = hd (kt_branches (cas_script x))"
  shows "writes_resolve (script_branch V b) W \<longleftrightarrow> vv_value (W ''k'') = x"
    "writes_key (script_branch V b) q \<longleftrightarrow> q = ''k''"
    "vv_value (W ''k'') = x \<Longrightarrow> committed_value (script_branch V b) W ''k'' = ''mine''"
proof -
  let ?i = "\<lparr>wi_object_id = ''k'', wi_intent_type = kCas, wi_payload = ''mine'',
    wi_condition = \<lparr>cond_type = kValueEquals, cond_expected_value = x\<rparr>\<rparr>"
  have i: "wi_object_id ?i = ''k''" by simp
  have x: "script_branch V b = bm_StageBranch (DFin 2) ''only'' (bm_BufferWrite ''k'' kText ?i V (new_BranchContext ''A''))"
    by (simp add: assms script_branch_def branch_program_def cas_script_def MakeWriteStep_def default_KvStep_def)
  have wb: "bc_write_buffer (new_BranchContext ''A'') = empty_WriteBuffer" "bc_intent_log (new_BranchContext ''A'') = []"
    by (simp_all add: new_BranchContext_def)
  note f = written_facts [OF branch_inv_new wb i x]
  show "writes_resolve (script_branch V b) W \<longleftrightarrow> vv_value (W ''k'') = x"
    by (simp add: writes_resolve_def f ResolveWrite_def default_ResolveResult_def Let_def)
  show "writes_key (script_branch V b) q \<longleftrightarrow> q = ''k''" by (auto simp: writes_key_def f)
  have "ce_current_value (buffered_entry ''k'' kText ?i V (new_BranchContext ''A'')) = ''mine''"
    by (simp add: buffered_entry_def Let_def f(4) intent_value_def)
  then show "committed_value (script_branch V b) W ''k'' = ''mine''" if "vv_value (W ''k'') = x"
    using that by (simp add: f committed_value_def ResolveWrite_def default_ResolveResult_def Let_def)
qed

theorem scripted_task_commits_witness:
  "(case RunScriptedKvTask demo_runtime (cas_script ''old'') demo_system of
      (Inr session, st') \<Rightarrow> ts_committed session \<and> tx_winner_branch_id (ts_txn session) = ''A'' \<and>
        mem_Get (fst st') ''k'' = \<lparr>vv_value = ''mine'', vv_version = 4, vv_exists = True\<rparr>
    | _ \<Rightarrow> False) \<and>
   (case RunScriptedKvTask demo_runtime (cas_script ''new'') demo_system of
      (Inr session, st') \<Rightarrow> \<not> ts_committed session \<and> mem_Get (fst st') = mem_Get demo_mem
    | _ \<Rightarrow> False)"
proof -
  have run: "\<exists>session st'. RunScriptedKvTask demo_runtime (cas_script x) demo_system = (Inr session, st') \<and>
      tx_winner_branch_id (ts_txn session) = ''A'' \<and>
      (ts_committed session \<longleftrightarrow> x = ''old'') \<and>
      mem_Get (fst st') = (if x = ''old'' then commit_view (script_branch (mem_Get demo_mem) (hd (kt_branches (cas_script x)))) (mem_Get demo_mem)
        else mem_Get demo_mem)" for x
  proof -
    have valid: "script_valid (cas_script x)" by (simp add: script_valid_def cas_script_def)
    have steps: "\<forall>b \<in> set (kt_branches (cas_script x)). kb_score b \<noteq> DNaN \<and>
        (\<forall>s \<in> set (kb_steps b). ks_kind s = StepWrite \<longrightarrow> wi_object_id (ks_intent s) = ks_object_id s)"
      by (simp add: cas_script_def MakeWriteStep_def default_KvStep_def)
    have only: "b = hd (kt_branches (cas_script x)) \<and> kb_branch_id b = ''A''" if "b \<in> set (kt_branches (cas_script x))" for b
      using that by (simp add: cas_script_def)
    obtain session st' b where r: "RunScriptedKvTask demo_runtime (cas_script x) demo_system = (Inr session, st')"
        "b \<in> set (kt_branches (cas_script x))" "tx_winner_branch_id (ts_txn session) = kb_branch_id b"
        "ts_committed session \<longleftrightarrow> writes_resolve (script_branch (mem_Get demo_mem) b) (mem_Get demo_mem)"
        "mem_Get (fst st') = (if ts_committed session then commit_view (script_branch (mem_Get demo_mem) b) (mem_Get demo_mem)
           else mem_Get demo_mem)"
      using scripted_task_commits [OF valid demo_memory TrueI steps, of demo_system]
      unfolding Let_def demo_fields memory_store_ops(2) by blast
    with only [OF r(2)] show ?thesis by (auto simp: cas_script_branch demo_get)
  qed
  have "mem_Get demo_mem ''k'' = \<lparr>vv_value = ''old'', vv_version = 3, vv_exists = True\<rparr>" by (simp add: demo_get)
  with run [of "''old''"] run [of "''new''"] show ?thesis
    by (auto simp: commit_view_def cas_script_branch)
qed

end
