(* ===== verification/Workload_Recovery.thy ===== *)
theory Workload_Recovery
  imports Workload_Script_Run
begin

text \<open>
  \<open>workloads/synthetic/synthetic_recovery.h\<close> and \<open>workloads/register_builtin_recovery_handlers.h\<close>:
  the continuation of a synthetic task, and the registry with the handlers of all workloads.
\<close>

section \<open>The handler of a synthetic task\<close>

definition SyntheticRecoveryInputKey :: "TaskRecoveryExecution \<Rightarrow> string" where
  "SyntheticRecoveryInputKey execution =
     (case tc_input_objects (ts_task (ex_session execution)) of
        x # _ \<Rightarrow> or_object_id x
      | [] \<Rightarrow> ''input:'' @ dc_task_id (rp_decision (ex_recovery_plan execution)))"

definition SyntheticRecoveryOutputKey :: "TaskRecoveryExecution \<Rightarrow> string" where
  "SyntheticRecoveryOutputKey execution =
     (case tc_output_objects (ts_task (ex_session execution)) of
        x # _ \<Rightarrow> or_object_id x
      | [] \<Rightarrow> ''output:'' @ dc_task_id (rp_decision (ex_recovery_plan execution)))"

definition SyntheticRecoveryResultValue :: "TaskRecoveryExecution \<Rightarrow> string" where
  "SyntheticRecoveryResultValue execution =
     (let task_id = dc_task_id (rp_decision (ex_recovery_plan execution)); prefix = ''task_'' in
      if task_id = ''task_resume'' then ''recovered_resume_result''
      else if take (length prefix) task_id = prefix \<and> length prefix < length task_id \<and>
              list_all is_digit (drop (length prefix) task_id)
      then ''recovered_result_'' @ drop (length prefix) task_id
      else ''recovered_result'')"

definition SyntheticRecoveryScore :: "TaskRecoveryExecution \<Rightarrow> double" where
  "SyntheticRecoveryScore execution =
     (if ex_command_type execution = CmdResumeFromSavepoint then DFin 130 else DFin 120)"

definition SyntheticRecoverySummary :: "TaskRecoveryExecution \<Rightarrow> string" where
  "SyntheticRecoverySummary execution =
     (if ex_command_type execution = CmdResumeFromSavepoint then ''recovered resume task''
      else ''recovered synthetic task'')"

definition ContinueRecoveredSyntheticTask :: "'s TaskContinuationHandler" where
  "ContinueRecoveredSyntheticTask rt execution st =
     ContinueRecoveredTask rt execution
       \<lparr>cs_preferred_branch_id = [], cs_score = SyntheticRecoveryScore execution,
        cs_summary = SyntheticRecoverySummary execution\<rparr>
       (overwrite_callback rt (SyntheticRecoveryInputKey execution) (SyntheticRecoveryOutputKey execution)
          (SyntheticRecoveryResultValue execution)) st"

definition RegisterSyntheticContinuation ::
    "'s TaskContinuationRegistry \<Rightarrow> bool \<times> 's TaskContinuationRegistry" where
  "RegisterSyntheticContinuation registry =
     RegisterHandler ''synthetic.candidate_selection'' (Some ContinueRecoveredSyntheticTask) registry"

section \<open>The built-in handlers\<close>

definition RegisterBuiltinRecoveryHandlers ::
    "'s TaskContinuationRegistry \<Rightarrow> bool \<times> 's TaskContinuationRegistry" where
  "RegisterBuiltinRecoveryHandlers registry =
     (let registered = True;
          (r, registry) = RegisterSyntheticContinuation registry;
          registered = (r \<and> registered);
          (r, registry) = RegisterMinimalCandidateContinuation_default registry;
          registered = (r \<and> registered);
          (r, registry) = RegisterScriptedKvContinuationFromTaskMetadata registry;
          registered = (r \<and> registered)
      in (registered, registry))"

lemma builtin_handlers:
  "fst (RegisterBuiltinRecoveryHandlers registry) \<and>
   FindHandler name (snd (RegisterBuiltinRecoveryHandlers registry)) =
     (if name = ''synthetic.candidate_selection'' then Some ContinueRecoveredSyntheticTask
      else if name = ''agent_task.minimal_candidate_task'' then
        Some (ContinueRecoveredMinimalCandidateTask ''recovered_agent_result'' (DFin 101)
                ''recovered minimal candidate task'' ''branch_B'')
      else if name = ''kv_style.scripted_kv_task'' then Some kv_metadata_handler
      else FindHandler name registry)"
  by (simp add: RegisterBuiltinRecoveryHandlers_def RegisterSyntheticContinuation_def Let_def RegisterHandler_def
      RegisterMinimalCandidateContinuation_default_def RegisterMinimalCandidateContinuation_def
      RegisterScriptedKvContinuationFromTaskMetadata_def FindHandler_def)

section \<open>Resuming a recovered session\<close>

lemma recovered_Read: "branch_recovered b \<Longrightarrow> branch_recovered (snd (bm_ReadObject k V b))"
  by (auto simp: branch_recovered_def branch_inv_Read bm_ReadObject_frame)

lemma recovered_running: "branch_recovered b \<Longrightarrow> branch_recovered (b\<lparr>bc_status := kRunning\<rparr>)"
  by (simp add: branch_recovered_def)

text \<open>What every session of a recovered execution satisfies, and what a step on a branch keeps.\<close>

definition execution_ok :: "'s RuntimeCore \<Rightarrow> TaskSession \<Rightarrow> bool" where
  "execution_ok rt s \<longleftrightarrow> plan_Validate (ts_plan s) = Inr () \<and> (\<exists>i. txn_ok rt i (ts_plan s) (ts_txn s)) \<and>
     (\<forall>b \<in> set (tx_branches (ts_txn s)). branch_recovered b)"

lemma execution_ok_recovered: "RecoverSessionFromLog rt path st = Inr r \<Longrightarrow> execution_ok rt (ex_session (BuildTaskRecoveryExecution r))"
  using recovered_session_ok by (fastforce simp: execution_ok_def BuildTaskRecoveryExecution_def Let_def split_beta)

lemma execution_ok_step:
  assumes "execution_ok rt s" "ts_plan s' = ts_plan s" "ts_txn s' = on_branch i f (ts_txn s)"
    and "\<And>b. bc_branch_id (f b) = bc_branch_id b" "\<And>b. branch_inv b \<Longrightarrow> branch_inv (f b)"
    and "\<And>b. branch_recovered b \<Longrightarrow> branch_recovered (f b)"
  shows "execution_ok rt s'"
proof -
  have "same_but_branches (ts_txn s) (ts_txn s')" unfolding assms(3) by (rule same_but_on_branch [OF assms(4-6)])
  with assms(1,2) show ?thesis unfolding execution_ok_def same_but_branches_def by (metis txn_ok_frame)
qed

lemma resume_ok:
  assumes ok: "execution_ok rt (ex_session ex)"
    and c: "ex_command_type ex \<in> {CmdResumeBranch, CmdResumeFromSavepoint}"
    and e: "ExecuteRecoveryExecution rt ex st = (Inr True, ex1, st1)"
  shows "execution_ok rt (ex_session ex1) \<and> st1 = st \<and> ex_target_branch_id ex1 = ex_target_branch_id ex \<and>
    ex_target_branch_id ex \<in> bc_branch_id ` set (tx_branches (ts_txn (ex_session ex1)))"
proof -
  let ?i = "ex_target_branch_id ex" and ?p = "ex_target_savepoint_id ex" and ?t = "ts_txn (ex_session ex)"
  let ?run = "\<lambda>b. b\<lparr>bc_status := kRunning\<rparr>" and ?rolled = "\<lambda>b. snd (rm_RollbackToSavepoint ?p b)"
  obtain n where n: "bm_FindBranch (tx_branches ?t) ?i = Some n"
    using c e by (auto simp: ExecuteRecoveryExecution_def Let_def split: option.splits)
  have found: "?i \<in> bc_branch_id ` set (tx_branches ?t)"
    using FindBranch_bound [OF n] by (metis image_eqI nth_mem)
  have ids: "bc_branch_id ` set (tx_branches (on_branch i f t)) = bc_branch_id ` set (tx_branches t)"
    if "\<And>b. bc_branch_id (f b) = bc_branch_id b" for i f t
    using on_branch_ids [OF that, of i t] by (metis set_map)
  let ?s1 = "(ex_session ex)\<lparr>ts_txn := on_branch ?i ?rolled ?t\<rparr>"
  have s1: "execution_ok rt ?s1"
    by (rule execution_ok_step [OF ok, of _ ?i ?rolled]) (simp_all add: Rollback_id branch_inv_Rollback recovered_Rollback)
  have run: "execution_ok rt (resumed ?i status s)" if "execution_ok rt s" for s status
    by (rule execution_ok_step [OF that, of _ ?i ?run]) (simp_all add: resumed_def recovered_running)
  from c show ?thesis
  proof
    assume "ex_command_type ex = CmdResumeBranch"
    with e have "st1 = st" "ex1 = ex\<lparr>ex_session := resumed ?i ''branch_resumed'' (ex_session ex)\<rparr>"
      by (auto simp: ExecuteRecoveryExecution_def Let_def split: option.splits)
    with found run [OF ok] show ?thesis by (simp add: resumed_def ids)
  next
    assume "ex_command_type ex \<in> {CmdResumeFromSavepoint}"
    then have "ex_command_type ex = CmdResumeFromSavepoint" by simp
    with e have "st1 = st" "ex1 = ex\<lparr>ex_session := resumed ?i ''savepoint_resumed'' ?s1\<rparr>"
      by (auto simp: ExecuteRecoveryExecution_def Let_def txn_Rollback_on_branch [symmetric] split: option.splits prod.splits if_splits)
    with found run [OF s1] show ?thesis by (simp add: resumed_def ids Rollback_id)
  qed
qed

section \<open>The outcome of a continuation that overwrites\<close>

text \<open>What such a continuation does to the branch it continues.\<close>

definition overwriting ::
    "view \<Rightarrow> string \<Rightarrow> string \<Rightarrow> string \<Rightarrow> double \<Rightarrow> string \<Rightarrow> BranchContext \<Rightarrow> BranchContext" where
  "overwriting V input_key output_key v d m b =
     bm_StageBranch d m (bm_BufferWrite output_key kText (overwrite output_key v) V
       (if input_key \<noteq> [] then snd (bm_ReadObject input_key V b) else b))"

lemma overwriting_keeps:
  "bc_branch_id (overwriting V i k v d m b) = bc_branch_id b"
  "branch_inv b \<Longrightarrow> branch_inv (overwriting V i k v d m b)"
  "branch_recovered b \<Longrightarrow> d \<noteq> DNaN \<Longrightarrow> branch_recovered (overwriting V i k v d m b)"
  "cr_score (bc_candidate_result (overwriting V i k v d m b)) = d"
  by (simp_all add: overwriting_def Stage_id bm_BufferWrite_frame bm_ReadObject_frame branch_inv_Stage branch_inv_Write
      branch_inv_Read recovered_Stage recovered_Write recovered_Read overwrite_def score_frames)

lemma found_buffered: "branch_inv b \<Longrightarrow> wb_Find (bc_write_buffer b) k = Some e \<Longrightarrow> k \<in> buffered_keys b"
  using wb_ok_of by (auto simp: branch_inv_def buffered_keys_def wb_ok_def wb_Find_def)

lemma overwriting_value:
  assumes "branch_inv b"
  shows "writes_key (overwriting V i k v d m b) k \<and> committed_value (overwriting V i k v d m b) W k = v"
proof -
  let ?b = "if i \<noteq> [] then snd (bm_ReadObject i V b) else b"
  let ?w = "bm_BufferWrite k kText (overwrite k v) V ?b"
  have inv: "branch_inv ?b" using assms by (simp add: branch_inv_Read)
  have log: "bc_write_buffer (overwriting V i k v d m b) = bc_write_buffer ?w"
      "bc_intent_log (overwriting V i k v d m b) = bc_intent_log ?b @ [overwrite k v]"
    by (simp_all add: overwriting_def bm_StageBranch_def bm_BufferWrite_frame)
  have find: "wb_Find (bc_write_buffer (overwriting V i k v d m b)) k = Some (buffered_entry k kText (overwrite k v) V ?b)"
    unfolding log(1) by (simp only: wb_Find_BufferWrite [OF inv] if_True simp_thms)
  have i: "latest_intent (bc_intent_log (overwriting V i k v d m b)) k = Some (overwrite k v)"
    by (simp add: log(2) latest_intent_def)
  have "ce_current_value (buffered_entry k kText (overwrite k v) V ?b) = v"
    by (simp add: buffered_entry_def Let_def intent_value_def)
  moreover have "k \<in> buffered_keys (overwriting V i k v d m b)"
    by (rule found_buffered [OF overwriting_keeps(2) [OF assms] find])
  ultimately show ?thesis
    by (simp add: writes_key_def committed_value_def find i ResolveWrite_overwrite)
qed

lemma find_index_map: "find_index (\<lambda>x. P (g x)) xs = find_index P (map g xs)"
  by (induction xs) simp_all

lemma FindBranch_ids: "map bc_branch_id bs = map bc_branch_id cs \<Longrightarrow> bm_FindBranch bs i = bm_FindBranch cs i"
  using find_index_map [of "\<lambda>x. x = i" bc_branch_id bs] find_index_map [of "\<lambda>x. x = i" bc_branch_id cs]
  by (simp add: bm_FindBranch_def)

lemma on_branch_twice:
  assumes "\<And>x. bc_branch_id (f x) = bc_branch_id x"
  shows "on_branch i g (on_branch i f t) = on_branch i (\<lambda>x. g (f x)) t"
proof (cases "bm_FindBranch (tx_branches t) i")
  case (Some n)
  have "bm_FindBranch (tx_branches (on_branch i f t)) i = Some n"
    using FindBranch_ids [OF on_branch_ids, of f i t, OF assms] Some by simp
  with Some FindBranch_bound [OF Some] show ?thesis by (simp add: on_branch_def)
qed (simp add: on_branch_def)

lemma overwrite_session:
  "ts_txn (rt_StageBranch b d m (ex_session (fst (snd (overwrite_callback rt i k v b ex st))))) =
     on_branch b (overwriting (kv_Get (tk_store rt) (fst st)) i k v d m) (ts_txn (ex_session ex)) \<and>
   ts_plan (rt_StageBranch b d m (ex_session (fst (snd (overwrite_callback rt i k v b ex st))))) = ts_plan (ex_session ex) \<and>
   fst (overwrite_callback rt i k v b ex st) \<and> snd (snd (overwrite_callback rt i k v b ex st)) = st"
proof -
  show ?thesis
    by (simp add: on_branch_twice overwrite_callback_def Let_def rt_defs txn_Write_def txn_StageBranch_def split_beta txn_Read_on_branch
        overwriting_def [abs_def] overwrite_def bm_ReadObject_frame bm_BufferWrite_frame)
qed

text \<open>The continuation of an execution that can be resumed, on a store with atomic batches.\<close>

lemma continue_overwriting:
  assumes ok: "execution_ok rt (ex_session ex1)" and e: "ExecuteRecoveryExecution rt ex st = (Inr True, ex1, st)"
    and b: "continuation_branch spec ex1 = b" "b \<noteq> []" and d: "cs_score spec \<noteq> DNaN"
    and kv: "batch_store (tk_store rt) ok_state" and st: "ok_state st"
  shows "\<exists>ok ex2 st2 w. ContinueRecoveredTask rt ex spec (overwrite_callback rt i k v) st = (Inr ok, ex2, st2) \<and> ok_state st2 \<and>
    outcome_of (tx_branches (on_branch b (overwriting (kv_Get (tk_store rt) (fst st)) i k v (cs_score spec) (cs_summary spec))
        (ts_txn (ex_session ex1)))) w (kv_Get (tk_store rt) (fst st)) ok (ts_txn (ex_session ex2)) (kv_Get (tk_store rt) (fst st2))"
proof -
  let ?f = "overwriting (kv_Get (tk_store rt) (fst st)) i k v (cs_score spec) (cs_summary spec)"
  let ?c = "overwrite_callback rt i k v b ex1 st"
  let ?s = "rt_StageBranch b (cs_score spec) (cs_summary spec) (ex_session (fst (snd ?c)))"
  note s = overwrite_session [where rt = rt and b = b and d = "cs_score spec" and m = "cs_summary spec" and i = i and k = k and
    v = v and ex = ex1 and st = st]
  have ok': "execution_ok rt ?s"
    by (rule execution_ok_step [OF ok, of _ b ?f]) (use s d in \<open>simp_all add: overwriting_keeps\<close>)
  then have "\<forall>x \<in> set (tx_branches (ts_txn ?s)). cr_score (bc_candidate_result x) \<noteq> DNaN"
    by (simp add: execution_ok_def branch_recovered_def)
  then obtain ok txn' st2 where c: "rt_CommitTask rt ?s st =
      (Inr ok, ?s\<lparr>ts_task := (ts_task ?s)\<lparr>tc_phase := if ok then TaskCommitted else TaskAborted\<rparr>, ts_txn := txn',
         ts_commit_attempts := ts_commit_attempts ?s + 1, ts_committed := ok,
         ts_events := ts_events ?s @ ended_events ?s ok txn'\<rparr>, st2)" (is "_ = (_, ?s2, _)") "ok_state st2"
      "outcome_of (tx_branches (ts_txn ?s)) (best_branch (tx_branches (ts_txn ?s)))
        (kv_Get (tk_store rt) (fst st)) ok txn' (kv_Get (tk_store rt) (fst st2))"
    using commit_outcome [OF _ _ kv st] ok' unfolding execution_ok_def by meson
  have "ContinueRecoveredTask rt ex spec (overwrite_callback rt i k v) st = (Inr ok, (fst (snd ?c))\<lparr>ex_session := ?s2\<rparr>, st2)"
    using s c(1) b by (simp add: ContinueRecoveredTask_def e Let_def split_beta)
  moreover have "ts_txn (ex_session ((fst (snd ?c))\<lparr>ex_session := ?s2\<rparr>)) = txn'" by simp
  ultimately show ?thesis using c(2,3) s by (metis (no_types, lifting))
qed

lemma on_branch_member:
  assumes "distinct (map bc_branch_id (tx_branches t))" "\<And>x. bc_branch_id (f x) = bc_branch_id x"
    and "w \<in> set (tx_branches (on_branch i f t))" "bc_branch_id w = i"
  shows "\<exists>x \<in> set (tx_branches t). w = f x"
proof (cases "bm_FindBranch (tx_branches t) i")
  case None
  then have "on_branch i f t = t" "\<forall>x \<in> set (tx_branches t). bc_branch_id x \<noteq> i"
    by (simp_all add: on_branch_def) (simp add: bm_FindBranch_def find_index_None)
  with assms(3,4) show ?thesis by auto
next
  case (Some n)
  note n = FindBranch_bound [OF Some]
  let ?x = "tx_branches t ! n"
  have bs: "tx_branches (on_branch i f t) = (tx_branches t)[n := f ?x]" by (simp add: on_branch_def Some)
  then obtain m where m: "m < length (tx_branches t)" "w = (tx_branches t)[n := f ?x] ! m"
    using assms(3) by (metis in_set_conv_nth length_list_update)
  have "m = n"
  proof (rule ccontr)
    assume "m \<noteq> n"
    then have "bc_branch_id (tx_branches t ! m) = bc_branch_id ?x" using m assms(4) n by simp
    with assms(1) m(1) n \<open>m \<noteq> n\<close> show False by (metis distinct_conv_nth length_map nth_map)
  qed
  with m n show ?thesis by auto
qed

lemma execution_ok_ids:
  assumes "execution_ok rt s"
  shows "distinct (map bc_branch_id (tx_branches (ts_txn s)))" "[] \<notin> bc_branch_id ` set (tx_branches (ts_txn s))"
proof -
  have "map bc_branch_id (tx_branches (ts_txn s)) = CandidateBranchIds (ts_plan s)" "plan_Validate (ts_plan s) = Inr ()"
    using assms by (auto simp: execution_ok_def txn_ok_def)
  moreover from this(1) have "bc_branch_id ` set (tx_branches (ts_txn s)) = set (CandidateBranchIds (ts_plan s))" by (metis set_map)
  ultimately show "distinct (map bc_branch_id (tx_branches (ts_txn s)))" "[] \<notin> bc_branch_id ` set (tx_branches (ts_txn s))"
    by (auto simp: plan_Validate_iff) (auto simp: CandidateBranchIds_def)
qed

text \<open>The continuation of a branch whose resumption has succeeded.\<close>

lemma resumed_synthetic_outcome:
  assumes "RecoverSessionFromLog rt path st0 = Inr r" and "ex = BuildTaskRecoveryExecution r"
    and "tc_workload_name (ts_task (ex_session ex)) = ''synthetic.candidate_selection''"
    and "ex_command_type ex \<in> {CmdResumeBranch, CmdResumeFromSavepoint}"
    and "ExecuteRecoveryExecution rt ex st = (Inr True, ex1, st1)"
    and "batch_store (tk_store rt) ok_state" and "ok_state st"
  shows "let V = kv_Get (tk_store rt) (fst st); b = ex_target_branch_id ex; k = SyntheticRecoveryOutputKey ex;
      v = SyntheticRecoveryResultValue ex;
      f = overwriting V (SyntheticRecoveryInputKey ex) k v (SyntheticRecoveryScore ex) (SyntheticRecoverySummary ex) in
    \<exists>ok ex2 st2 w. registry_Continue (snd (RegisterBuiltinRecoveryHandlers registry)) rt ex st = (Inr ok, ex2, st2) \<and>
      outcome_of (tx_branches (on_branch b f (ts_txn (ex_session ex1)))) w V ok (ts_txn (ex_session ex2))
        (kv_Get (tk_store rt) (fst st2)) \<and>
      (ok \<and> bc_branch_id w = b \<longrightarrow>
         kv_Get (tk_store rt) (fst st2) k = \<lparr>vv_value = v, vv_version = vv_version (V k) + 1, vv_exists = True\<rparr>)"
proof -
  let ?V = "kv_Get (tk_store rt) (fst st)" and ?b = "ex_target_branch_id ex" and ?k = "SyntheticRecoveryOutputKey ex"
  let ?v = "SyntheticRecoveryResultValue ex"
  let ?spec = "\<lparr>cs_preferred_branch_id = [], cs_score = SyntheticRecoveryScore ex, cs_summary = SyntheticRecoverySummary ex\<rparr>"
  let ?f = "overwriting ?V (SyntheticRecoveryInputKey ex) ?k ?v (SyntheticRecoveryScore ex) (SyntheticRecoverySummary ex)"
  have "execution_ok rt (ex_session ex)" unfolding assms(2) by (rule execution_ok_recovered [OF assms(1)])
  from resume_ok [OF this assms(4,5)]
  have r: "execution_ok rt (ex_session ex1)" "st1 = st" "ex_target_branch_id ex1 = ?b"
    "?b \<in> bc_branch_id ` set (tx_branches (ts_txn (ex_session ex1)))" by simp_all
  with execution_ok_ids(2) [OF r(1)] have ne: "?b \<noteq> []" by metis
  have branch: "continuation_branch ?spec ex1 = ?b" by (simp add: continuation_branch_def r(3) ne Let_def)
  have score: "cs_score ?spec \<noteq> DNaN" by (simp add: SyntheticRecoveryScore_def)
  have run: "registry_Continue (snd (RegisterBuiltinRecoveryHandlers registry)) rt ex st =
      ContinueRecoveredTask rt ex ?spec (overwrite_callback rt (SyntheticRecoveryInputKey ex) ?k ?v) st"
    using builtin_handlers [of registry "''synthetic.candidate_selection''"] assms(3)
    by (simp add: registry_Continue_def Let_def ContinueRecoveredSyntheticTask_def)
  obtain ok ex2 st2 w where o: "registry_Continue (snd (RegisterBuiltinRecoveryHandlers registry)) rt ex st = (Inr ok, ex2, st2)"
      "outcome_of (tx_branches (on_branch ?b ?f (ts_txn (ex_session ex1)))) w ?V ok (ts_txn (ex_session ex2))
        (kv_Get (tk_store rt) (fst st2))"
    unfolding run using continue_overwriting [OF r(1) assms(5) [unfolded r(2)] branch ne score assms(6,7),
        where i = "SyntheticRecoveryInputKey ex" and k = ?k and v = ?v]
    by (simp only: TaskContinuationSpec.select_convs) blast
  have "kv_Get (tk_store rt) (fst st2) ?k = \<lparr>vv_value = ?v, vv_version = vv_version (?V ?k) + 1, vv_exists = True\<rparr>"
    if win: "ok" "bc_branch_id w = ?b"
  proof -
    have "w \<in> set (tx_branches (on_branch ?b ?f (ts_txn (ex_session ex1))))" using o(2) by (simp add: outcome_of_def)
    then obtain x where x: "x \<in> set (tx_branches (ts_txn (ex_session ex1)))" "w = ?f x"
      using on_branch_member [OF execution_ok_ids(1) [OF r(1)], of ?f w ?b] win(2) by (auto simp: overwriting_keeps)
    have "branch_inv x" using r(1) x(1) by (simp add: execution_ok_def branch_recovered_def)
    from overwriting_value [OF this] win(1) o(2) show ?thesis by (simp add: x(2) outcome_of_def commit_view_def)
  qed
  with o show ?thesis unfolding Let_def by blast
qed

lemma resume_disk:
  assumes "ex_command_type ex \<in> {CmdResumeBranch, CmdResumeFromSavepoint}"
  shows "\<exists>res ex1. ExecuteRecoveryExecution rt ex st = (Inr res, ex1, st)"
  using assms by (auto simp: ExecuteRecoveryExecution_def Let_def split: option.split prod.split)

text \<open>
  C23. How a recovered synthetic task ends. Take a session recovered from any log whose workload
  is the synthetic one, registered handlers of all workloads, a recovery command that resumes
  a branch (after a rollback to a savepoint or not) and a store with atomic batches. Nothing throws.
  If the branch cannot be resumed, continuing the task through the registry returns false and leaves
  the store and the disk alone. Otherwise the resumed branch, with all it has buffered before, reads the
  input again, overwrites the output with the recovered result and is staged, and the transaction
  ends as every transaction does: a branch with a maximal score, which need not be the resumed one, is
  committed with all its writes, or nothing changes. When the committed branch is the resumed one, the
  output object holds the recovered result, one version later.
\<close>

theorem recovered_synthetic_task_outcome:
  assumes "RecoverSessionFromLog rt path st0 = Inr r" and "ex = BuildTaskRecoveryExecution r"
    and "tc_workload_name (ts_task (ex_session ex)) = ''synthetic.candidate_selection''"
    and "ex_command_type ex \<in> {CmdResumeBranch, CmdResumeFromSavepoint}"
    and "batch_store (tk_store rt) ok_state" and "ok_state st"
  shows "let V = kv_Get (tk_store rt) (fst st); b = ex_target_branch_id ex; k = SyntheticRecoveryOutputKey ex;
      v = SyntheticRecoveryResultValue ex;
      f = overwriting V (SyntheticRecoveryInputKey ex) k v (SyntheticRecoveryScore ex) (SyntheticRecoverySummary ex) in
    \<exists>res ex1. ExecuteRecoveryExecution rt ex st = (Inr res, ex1, st) \<and>
      (\<not> res \<longrightarrow> registry_Continue (snd (RegisterBuiltinRecoveryHandlers registry)) rt ex st = (Inr False, ex1, st)) \<and>
      (res \<longrightarrow> (\<exists>ok ex2 st2 w. registry_Continue (snd (RegisterBuiltinRecoveryHandlers registry)) rt ex st = (Inr ok, ex2, st2) \<and>
        outcome_of (tx_branches (on_branch b f (ts_txn (ex_session ex1)))) w V ok (ts_txn (ex_session ex2))
          (kv_Get (tk_store rt) (fst st2)) \<and>
        (ok \<and> bc_branch_id w = b \<longrightarrow>
           kv_Get (tk_store rt) (fst st2) k = \<lparr>vv_value = v, vv_version = vv_version (V k) + 1, vv_exists = True\<rparr>)))"
proof -
  obtain res ex1 where e: "ExecuteRecoveryExecution rt ex st = (Inr res, ex1, st)" using resume_disk [OF assms(4)] by blast
  show ?thesis
  proof (cases res)
    case True
    with e have "ExecuteRecoveryExecution rt ex st = (Inr True, ex1, st)" by simp
    from resumed_synthetic_outcome [OF assms(1-4) this assms(5,6), of registry] e True
    show ?thesis unfolding Let_def by blast
  next
    case False
    have "registry_Continue (snd (RegisterBuiltinRecoveryHandlers registry)) rt ex st = (Inr False, ex1, st)"
      using builtin_handlers [of registry "''synthetic.candidate_selection''"] assms(3) e False
      by (simp add: registry_Continue_def Let_def ContinueRecoveredSyntheticTask_def ContinueRecoveredTask_def)
    with e False show ?thesis unfolding Let_def by blast
  qed
qed

text \<open>The task that a recovered session carries.\<close>

lemma plan_event_objects:
  "tc_workload_name (fst (plan_event e tp)) = tc_workload_name (fst tp)"
  "tc_input_objects (fst tp) \<noteq> [] \<Longrightarrow> tc_input_objects (fst (plan_event e tp)) = tc_input_objects (fst tp)"
  "tc_output_objects (fst tp) \<noteq> [] \<Longrightarrow> tc_output_objects (fst (plan_event e tp)) = tc_output_objects (fst tp)"
proof -
  obtain t p where "tp = (t, p)" by fastforce
  then show "tc_workload_name (fst (plan_event e tp)) = tc_workload_name (fst tp)"
    "tc_input_objects (fst tp) \<noteq> [] \<Longrightarrow> tc_input_objects (fst (plan_event e tp)) = tc_input_objects (fst tp)"
    "tc_output_objects (fst tp) \<noteq> [] \<Longrightarrow> tc_output_objects (fst (plan_event e tp)) = tc_output_objects (fst tp)"
    by (simp_all add: plan_event_def Let_def AddInputObject_def AddOutputObject_def)
qed

lemma plan_events_objects:
  "tc_workload_name (fst (fold plan_event es tp)) = tc_workload_name (fst tp)"
  "tc_input_objects (fst tp) \<noteq> [] \<Longrightarrow> tc_input_objects (fst (fold plan_event es tp)) = tc_input_objects (fst tp)"
  "tc_output_objects (fst tp) \<noteq> [] \<Longrightarrow> tc_output_objects (fst (fold plan_event es tp)) = tc_output_objects (fst tp)"
  by (induction es arbitrary: tp) (simp_all add: plan_event_objects)

lemma recovered_task_same:
  assumes "RecoverSessionFromLog rt path st = Inr r" "ParseTaskEventLogArtifact path (snd st) = Some a"
  shows "\<exists>ph. ts_task (rs_session r) = (rp_task (BuildTaskRecoveryPlan path a))\<lparr>tc_phase := ph\<rparr> \<and>
    rs_recovery_plan r = BuildTaskRecoveryPlan path a"
proof -
  obtain r0 s where r0: "RecoverTaskSessionFromArtifact path a = Inr r0"
      "RebuildRecoveredSessionState rt a st (rs_session r0) = Inr s" "r = ApplyRecoveredTerminalState (r0\<lparr>rs_session := s\<rparr>)"
    using assms by (auto simp: RecoverSessionFromLog_def split: sum.splits)
  have "ts_task (rs_session r0) = rp_task (BuildTaskRecoveryPlan path a)" "rs_recovery_plan r0 = BuildTaskRecoveryPlan path a"
    using r0(1) by (auto simp: RecoverTaskSessionFromArtifact_def Let_def split: option.splits)
  moreover have "\<exists>ph. ts_task s = (ts_task (rs_session r0))\<lparr>tc_phase := ph\<rparr>"
    using r0(2) by (auto simp: RebuildRecoveredSessionState_def SubmitTask_iff submitted_def Let_def split: sum.splits option.splits)
  moreover have "\<exists>ph. ts_task (rs_session r) = (ts_task s)\<lparr>tc_phase := ph\<rparr>" "rs_recovery_plan r = rs_recovery_plan r0"
    by (auto simp: r0(3) ApplyRecoveredTerminalState_def Let_def)
  ultimately show ?thesis by auto
qed

lemma logged_task_fields:
  assumes "log_fits s" "tc_workload_name (ts_task s) \<noteq> []"
    and "filter (\<lambda>x. or_object_id x \<noteq> []) (tc_input_objects (ts_task s)) = i # is"
    and "filter (\<lambda>x. or_object_id x \<noteq> []) (tc_output_objects (ts_task s)) = k # ks"
  shows "tc_workload_name (rp_task (BuildTaskRecoveryPlan path (logged_artifact s))) = tc_workload_name (ts_task s)"
    "tc_input_objects (rp_task (BuildTaskRecoveryPlan path (logged_artifact s))) = i # is"
    "tc_output_objects (rp_task (BuildTaskRecoveryPlan path (logged_artifact s))) = k # ks"
  using assms(2)
  by (simp_all add: BuildTaskRecoveryPlan_def Let_def split_beta plan_events_objects restore_logged [OF assms(1)] assms(3,4)
      logged_fixed_values)

text \<open>A synthetic task with one branch, interrupted right after its submission.\<close>

definition demo_synthetic :: TaskSession where
  "demo_synthetic = submitted demo_runtime (synthetic_task (default_SyntheticRunConfig\<lparr>sy_branch_count := 1\<rparr>) 1 ''task_1'' ''in'' ''out'')
     (synthetic_plan (default_SyntheticRunConfig\<lparr>sy_branch_count := 1\<rparr>))"

lemma synthetic_id_0: "synthetic_id 0 = ''branch_0''"
  by (simp add: synthetic_id_def) code_simp

lemma demo_synthetic_events:
  "ts_events demo_synthetic =
     [\<lparr>te_sequence_number = 0, te_type = EvSubmitTask, te_branch_id = [], te_object_id = [],
        te_detail = ''synthetic candidate-selection workload'', te_numeric_value = 0\<rparr>,
      created_event 1 \<lparr>bp_branch_id = ''branch_0'', bp_candidate_id = ''candidate_'' @ nat_dec 0,
        bp_rationale = ''synthetic candidate '' @ nat_dec 0, bp_initial_priority = double_of_int (int 0)\<rparr>]"
  by (simp add: demo_synthetic_def submitted_def synthetic_plan_branches synthetic_id_0 synthetic_task_def Let_def
      AddInputObject_def AddOutputObject_def)

lemma demo_synthetic_task:
  "tc_workload_name (ts_task demo_synthetic) = ''synthetic.candidate_selection''" "tc_task_id (ts_task demo_synthetic) = ''task_1''"
  "tc_input_objects (ts_task demo_synthetic) = [\<lparr>or_object_id = ''in'', or_object_role = ''synthetic_input''\<rparr>]"
  "tc_output_objects (ts_task demo_synthetic) = [\<lparr>or_object_id = ''out'', or_object_role = ''synthetic_output''\<rparr>]"
  "tc_phase (ts_task demo_synthetic) = TaskRunning" "\<not> ts_committed demo_synthetic" "log_fits demo_synthetic"
proof -
  have "umap_set (umap_set [] k v) l w = [(k, v), (l, w)]" if "k \<noteq> l" for k l v w :: string
    using that by (simp add: umap_set_def)
  then have "tc_metadata (ts_task demo_synthetic) = [(''task_index'', nat_dec 1), (''branch_count'', nat_dec 1)]"
    by (simp add: demo_synthetic_def submitted_def synthetic_task_def Let_def AddInputObject_def AddOutputObject_def default_TaskContext_def)
  moreover show "tc_input_objects (ts_task demo_synthetic) = [\<lparr>or_object_id = ''in'', or_object_role = ''synthetic_input''\<rparr>]"
    "tc_output_objects (ts_task demo_synthetic) = [\<lparr>or_object_id = ''out'', or_object_role = ''synthetic_output''\<rparr>]"
    "tc_workload_name (ts_task demo_synthetic) = ''synthetic.candidate_selection''" "tc_task_id (ts_task demo_synthetic) = ''task_1''"
    "tc_phase (ts_task demo_synthetic) = TaskRunning" "\<not> ts_committed demo_synthetic"
    by (simp_all add: demo_synthetic_def submitted_def synthetic_task_def Let_def AddInputObject_def AddOutputObject_def default_TaskContext_def)
  moreover have "ts_commit_attempts demo_synthetic = 0" by (simp add: demo_synthetic_def submitted_def)
  ultimately show "log_fits demo_synthetic"
    by (simp add: log_fits_def demo_synthetic_events created_event_def umap_wf_def)
qed

lemma demo_synthetic_decision:
  "let d = RecoverTaskSessionDecision path (logged_artifact demo_synthetic) in
     dc_action d = RaResumeBranch \<and> dc_resume_branch_id d = ''branch_0'' \<and> dc_task_id d = ''task_1''"
proof -
  have e: "ts_events demo_synthetic \<noteq> []" "te_type (last (ts_events demo_synthetic)) = EvCreateBranch"
    by (simp_all add: demo_synthetic_events created_event_def)
  have "find_latest_branch (pl_events (logged_artifact demo_synthetic)) = ''branch_0''"
    "find_latest_savepoint (pl_events (logged_artifact demo_synthetic)) b = []" for b
    by (simp_all add: find_latest_branch_def find_latest_savepoint_def logged_events demo_synthetic_events logged_event_def created_event_def)
  then show ?thesis
    by (simp add: RecoverTaskSessionDecision_def Let_def logged_fixed_values final_event_names [OF e(1)] e(2) task_phase_digit
        demo_synthetic_task del: task_phase_number.simps)
qed

lemma fresh_overwriting:
  assumes "branch_fresh V b" shows "branch_fresh V (overwriting V i k v d m b)"
  unfolding overwriting_def
  by (intro fresh_Stage fresh_Write) (use assms in \<open>simp_all add: fresh_Read\<close>)

lemma plain_overwriting: "branch_plain b \<Longrightarrow> branch_plain (overwriting V i k v d m b)"
  by (simp add: overwriting_def intents_keep plain_type_def)

lemma fresh_status: "branch_fresh V b \<Longrightarrow> branch_fresh V (b\<lparr>bc_status := s\<rparr>)"
  by (simp add: branch_fresh_def)

theorem recovered_synthetic_task_outcome_witness:
  "let st = (demo_mem, snd (WriteTaskEventLogArtifact demo_synthetic ''t.log'' calm)) in
   \<exists>r. RecoverSessionFromLog demo_runtime ''t.log'' st = Inr r \<and>
     (case registry_Continue (snd (RegisterBuiltinRecoveryHandlers [])) demo_runtime (BuildTaskRecoveryExecution r) st of
        (Inr ok, _, st2) \<Rightarrow> ok \<and>
          mem_Get (fst st2) ''out'' = \<lparr>vv_value = ''recovered_result_1'', vv_version = 1, vv_exists = True\<rparr>
      | _ \<Rightarrow> False)"
proof -
  let ?w = "snd (WriteTaskEventLogArtifact demo_synthetic ''t.log'' calm)"
  have w: "WriteTaskEventLogArtifact demo_synthetic ''t.log'' calm = (True, fs_put ''t.log'' (task_log_text demo_synthetic) calm)"
    by (simp add: WriteTaskEventLogArtifact_def write_file_def next_fault_def calm_def)
  have "\<forall>e \<in> set (ts_events demo_synthetic). te_sequence_number e < 2 ^ 64"
    using demo_synthetic_task(7) by (simp add: log_fits_def)
  from parse_task_log [OF written_task_log [OF w] this]
  have parse: "ParseTaskEventLogArtifact ''t.log'' ?w = Some (logged_artifact demo_synthetic)" by (simp add: w)
  have ne: "sy_branch_count (default_SyntheticRunConfig\<lparr>sy_branch_count := 1\<rparr>) \<noteq> 0" by simp
  have one: "''task_'' @ nat_dec 1 = ''task_1''" by code_simp
  note sub = synthetic_Submit [OF ne, where rt = demo_runtime and t = 1 and a = "''in''" and k = "''out''", unfolded one, folded demo_synthetic_def]
  have run: "demo_synthetic = fold (task_op demo_runtime demo_system) [] demo_synthetic" "ts_events demo_synthetic = ts_events demo_synthetic @ []"
    "op_events []" by (simp_all add: op_events_def)
  obtain r where r: "RecoverSessionFromLog demo_runtime ''t.log'' (demo_mem, ?w) = Inr r"
      and bs: "tx_branches (ts_txn (rs_session r)) =
        map (set_status (dc_resume_branch_id (rp_decision (rs_recovery_plan r))) kRunning None) (tx_branches (ts_txn demo_synthetic))"
    using recovered_open_session [OF sub run(1) demo_synthetic_task(7) run(2,3) refl parse, where kv = demo_mem] by auto
  let ?ex = "BuildTaskRecoveryExecution r" and ?st = "(demo_mem, ?w)" and ?V = "mem_Get demo_mem"
  obtain ph where task: "ts_task (rs_session r) = (rp_task (BuildTaskRecoveryPlan ''t.log'' (logged_artifact demo_synthetic)))\<lparr>tc_phase := ph\<rparr>"
      "rs_recovery_plan r = BuildTaskRecoveryPlan ''t.log'' (logged_artifact demo_synthetic)"
    using recovered_task_same [OF r] parse by auto
  have "rp_decision (rs_recovery_plan r) = RecoverTaskSessionDecision ''t.log'' (logged_artifact demo_synthetic)"
    by (simp add: task(2) BuildTaskRecoveryPlan_def Let_def split_beta)
  then have d: "dc_action (rp_decision (rs_recovery_plan r)) = RaResumeBranch" "dc_resume_branch_id (rp_decision (rs_recovery_plan r)) = ''branch_0''"
      "dc_task_id (rp_decision (rs_recovery_plan r)) = ''task_1''"
    using demo_synthetic_decision [of "''t.log''"] by (simp_all add: Let_def)
  have "tx_branches (ts_txn demo_synthetic) = [new_BranchContext ''branch_0'']"
    by (simp add: demo_synthetic_def submitted_def synthetic_plan_branches synthetic_id_0)
  then have b: "tx_branches (ts_txn (rs_session r)) = [(new_BranchContext ''branch_0'')\<lparr>bc_status := kRunning\<rparr>]"
    by (simp add: bs d set_status_def)
  have filt: "filter (\<lambda>x. or_object_id x \<noteq> []) (tc_input_objects (ts_task demo_synthetic)) = [\<lparr>or_object_id = ''in'', or_object_role = ''synthetic_input''\<rparr>]"
    "filter (\<lambda>x. or_object_id x \<noteq> []) (tc_output_objects (ts_task demo_synthetic)) = [\<lparr>or_object_id = ''out'', or_object_role = ''synthetic_output''\<rparr>]"
    by (simp_all add: demo_synthetic_task)
  have "tc_workload_name (ts_task demo_synthetic) \<noteq> []" by (simp add: demo_synthetic_task)
  note fields = logged_task_fields [OF demo_synthetic_task(7) this filt, of "''t.log''"]
  have ex: "ex_command_type ?ex = CmdResumeBranch" "ex_target_branch_id ?ex = ''branch_0''" "ts_txn (ex_session ?ex) = ts_txn (rs_session r)"
      "tc_workload_name (ts_task (ex_session ?ex)) = ''synthetic.candidate_selection''" "SyntheticRecoveryInputKey ?ex = ''in''"
      "SyntheticRecoveryOutputKey ?ex = ''out''" "SyntheticRecoveryResultValue ?ex = ''recovered_result_1''"
    by (simp_all add: BuildTaskRecoveryExecution_def Let_def d task(1) fields demo_synthetic_task SyntheticRecoveryInputKey_def
        SyntheticRecoveryOutputKey_def SyntheticRecoveryResultValue_def is_digit_def)
  obtain ex1 where e: "ExecuteRecoveryExecution demo_runtime ?ex ?st = (Inr True, ex1, ?st)"
      "tx_branches (ts_txn (ex_session ex1)) = [(new_BranchContext ''branch_0'')\<lparr>bc_status := kRunning\<rparr>]"
    by (simp add: ExecuteRecoveryExecution_def Let_def ex bm_FindBranch_def b resumed_def on_branch_def)
  have cmd: "ex_command_type ?ex \<in> {CmdResumeBranch, CmdResumeFromSavepoint}" by (simp add: ex)
  let ?f = "overwriting ?V ''in'' ''out'' ''recovered_result_1'' (SyntheticRecoveryScore ?ex) (SyntheticRecoverySummary ?ex)"
  let ?b = "(new_BranchContext ''branch_0'')\<lparr>bc_status := kRunning\<rparr>"
  have one: "tx_branches (on_branch ''branch_0'' ?f (ts_txn (ex_session ex1))) = [?f ?b]"
    by (simp add: on_branch_def bm_FindBranch_def e(2))
  obtain ok ex2 st2 w where o: "registry_Continue (snd (RegisterBuiltinRecoveryHandlers [])) demo_runtime ?ex ?st = (Inr ok, ex2, st2)"
      "outcome_of [?f ?b] w ?V ok (ts_txn (ex_session ex2)) (mem_Get (fst st2))"
      "ok \<and> bc_branch_id w = ''branch_0'' \<longrightarrow>
         mem_Get (fst st2) ''out'' = \<lparr>vv_value = ''recovered_result_1'', vv_version = vv_version (?V ''out'') + 1, vv_exists = True\<rparr>"
    using recovered_synthetic_task_outcome [where registry = "[]" and st = ?st, OF r refl ex(4) cmd demo_memory TrueI]
    by (simp only: Let_def ex one demo_fields fst_conv memory_store_ops(2) e(1) prod.inject sum.inject ex_simps simp_thms) (metis one)
  have w': "w = ?f ?b" using o(2) by (simp add: outcome_of_def)
  have "branch_fresh ?V (?f ?b)" by (intro fresh_overwriting fresh_status fresh_new)
  moreover have "branch_plain (?f ?b)" by (intro plain_overwriting) (simp add: intents_all_def new_BranchContext_def)
  ultimately have "ok" using o(2) fresh_possible unfolding w' outcome_of_def by blast
  moreover have "bc_branch_id w = ''branch_0''" by (simp add: w' overwriting_keeps)
  moreover have "mem_Get demo_mem ''out'' = no_value" by (simp add: demo_mem_def mem_Get_def umap_find_def)
  ultimately show ?thesis using o(1,3) r by (auto simp: Let_def no_value_def)
qed

end
