(* ===== verification/Task_Limits.thy ===== *)
theory Task_Limits
  imports Workload_Recovery
begin

text \<open>
  What recovery guarantees for every log, and where a recovered task differs from its original:
  the scores lose their fractions, and a savepoint that was dropped by a rollback is looked for.
  Last, what the sweep of finished fallback artifacts leaves alone.
\<close>

section \<open>Recovered sessions are well formed\<close>

lemma Terminal_status:
  "let s = rs_session (ApplyRecoveredTerminalState r) in
   ts_committed s = ts_committed (rs_session r) \<and>
   (if ts_committed s then tc_phase (ts_task s) = TaskCommitted \<and> tx_status (ts_txn s) = TxnCommitted
    else (tc_phase (ts_task s), tx_status (ts_txn s)) \<in> {(TaskAborted, TxnAborted), (TaskRunning, TxnRunning)})"
  by (simp add: ApplyRecoveredTerminalState_def Let_def)

text \<open>
  C26. Recovery returns only well-formed sessions, whatever the log says. When it does not throw,
  the plan of the session is valid; the branches are those of the plan, with distinct ids, each with
  the invariant of branches and a score that is a number; the transaction carries the id of the
  task; and the phase of the task, its committed flag and the status of the transaction agree.
\<close>

theorem recovered_session_well_formed:
  assumes "RecoverSessionFromLog rt path st = Inr r"
  shows "let s = rs_session r; bs = tx_branches (ts_txn s) in
    plan_Validate (ts_plan s) = Inr () \<and> map bc_branch_id bs = CandidateBranchIds (ts_plan s) \<and>
    distinct (map bc_branch_id bs) \<and> (\<forall>b \<in> set bs. branch_inv b \<and> cr_score (bc_candidate_result b) \<noteq> DNaN) \<and>
    tx_task_id (ts_txn s) = tc_task_id (ts_task s) \<and>
    (if ts_committed s then tc_phase (ts_task s) = TaskCommitted \<and> tx_status (ts_txn s) = TxnCommitted
     else (tc_phase (ts_task s), tx_status (ts_txn s)) \<in> {(TaskAborted, TxnAborted), (TaskRunning, TxnRunning)})"
proof -
  obtain a r0 s where r: "r = ApplyRecoveredTerminalState (r0\<lparr>rs_session := s\<rparr>)"
    using assms by (auto simp: RecoverSessionFromLog_def split: option.splits sum.splits)
  note ok = recovered_session_ok [OF assms]
  moreover have "distinct (CandidateBranchIds (ts_plan (rs_session r)))" using ok by (simp add: plan_Validate_iff)
  ultimately show ?thesis
    using Terminal_status [of "r0\<lparr>rs_session := s\<rparr>"] unfolding r [symmetric] Let_def
    by (auto simp: txn_ok_def branch_recovered_def split: if_splits)
qed

theorem recovered_session_well_formed_witness:
  "\<exists>r. RecoverSessionFromLog demo_runtime ''t.log''
        (demo_mem, snd (WriteTaskEventLogArtifact cas_session ''t.log'' calm)) = Inr r \<and>
     map bc_branch_id (tx_branches (ts_txn (rs_session r))) = CandidateBranchIds (ts_plan (rs_session r)) \<and>
     tc_phase (ts_task (rs_session r)) \<noteq> TaskCreated"
proof -
  have w: "WriteTaskEventLogArtifact cas_session ''t.log'' calm = (True, fs_put ''t.log'' (task_log_text cas_session) calm)"
    by (simp add: WriteTaskEventLogArtifact_def write_file_def next_fault_def calm_def)
  have "\<forall>e \<in> set (ts_events cas_session). te_sequence_number e < 2 ^ 64" using cas_fits by (simp add: log_fits_def)
  note parse = parse_task_log [OF written_task_log [OF w] this]
  have ops: "op_events [\<lparr>te_sequence_number = 3, te_type = EvWrite, te_branch_id = ''A'', te_object_id = ''k'',
      te_detail = ''mine'', te_numeric_value = 4\<rparr>]" by (simp add: op_events_def)
  obtain r where r: "RecoverSessionFromLog demo_runtime ''t.log'' (demo_mem, snd (WriteTaskEventLogArtifact cas_session ''t.log'' calm)) = Inr r"
    using recovered_open_session [where kv = demo_mem, OF demo_Submit cas_session_def cas_fits cas_events ops refl parse] by (auto simp: w)
  from recovered_session_well_formed [OF r] show ?thesis
    using r by (auto simp: Let_def split: if_splits)
qed

section \<open>Scores lose their fractions\<close>

lemma round_half_even_le: "q \<le> of_int n \<Longrightarrow> round_half_even q \<le> n"
proof -
  assume q: "q \<le> of_int n"
  then have f: "\<lfloor>q\<rfloor> \<le> n" by (simp add: floor_le_iff)
  show ?thesis
  proof (cases "\<lfloor>q\<rfloor> = n")
    case True
    then have "of_int n \<le> q" using of_int_floor_le [of q] by simp
    with q have "q = of_int n" by (rule order_antisym)
    then show ?thesis by simp
  next
    case False
    with f show ?thesis by (simp add: round_half_even_def Let_def)
  qed
qed

lemma round_half_even_ge: "of_int n \<le> q \<Longrightarrow> n \<le> round_half_even q"
proof -
  assume "of_int n \<le> q"
  then have "n \<le> \<lfloor>q\<rfloor>" by (simp add: le_floor_iff)
  then show ?thesis by (simp add: round_half_even_def Let_def)
qed

lemma double_of_int_bound:
  assumes "\<bar>i\<bar> \<le> 2 ^ 63"
  shows "\<exists>n. double_of_int i = DFin (of_int n) \<and> \<bar>n\<bar> \<le> 2 ^ 63"
proof -
  let ?k = "bit_count (nat \<bar>i\<bar>) - 53"
  have "nat \<bar>i\<bar> < 2 ^ 64" using assms by (simp add: nat_less_iff)
  then have k: "?k \<le> 63" using bit_count_bound [of "nat \<bar>i\<bar>" 64] by simp
  then have split: "(2 :: int) ^ 63 = 2 ^ (63 - ?k) * 2 ^ ?k" by (simp add: power_add [symmetric])
  let ?n = "round_half_even (of_int i / 2 ^ ?k)"
  have "(of_int i :: rat) / 2 ^ ?k \<le> of_int (2 ^ (63 - ?k))" "of_int (- (2 ^ (63 - ?k))) \<le> (of_int i :: rat) / 2 ^ ?k"
  proof -
    have "(of_int i :: rat) \<le> of_int (2 ^ 63)" "(of_int (- (2 ^ 63)) :: rat) \<le> of_int i"
      using assms by (simp_all only: of_int_le_iff abs_le_iff) linarith+
    then show "(of_int i :: rat) / 2 ^ ?k \<le> of_int (2 ^ (63 - ?k))" "of_int (- (2 ^ (63 - ?k))) \<le> (of_int i :: rat) / 2 ^ ?k"
      unfolding split by (simp_all add: divide_le_eq le_divide_eq)
  qed
  then have "?n \<le> 2 ^ (63 - ?k)" "- (2 ^ (63 - ?k)) \<le> ?n" by (blast intro: round_half_even_le round_half_even_ge)+
  then have "\<bar>?n\<bar> \<le> 2 ^ (63 - ?k)" by linarith
  then have "\<bar>?n * 2 ^ ?k\<bar> \<le> 2 ^ 63" unfolding split abs_mult by (intro mult_mono) simp_all
  then show ?thesis by (intro exI [of _ "?n * 2 ^ ?k"]) (simp add: double_of_int_def Let_def)
qed

lemma i64_of_small: "\<bar>q\<bar> < 2 ^ 53 \<Longrightarrow>
    double_of_i64 (i64_of_double (DFin q)) = DFin (of_int (if 0 \<le> q then \<lfloor>q\<rfloor> else \<lceil>q\<rceil>))"
proof -
  assume q: "\<bar>q\<bar> < 2 ^ 53"
  let ?i = "if 0 \<le> q then \<lfloor>q\<rfloor> else \<lceil>q\<rceil>"
  have "- (2 ^ 53) < q" "q < 2 ^ 53" using q by (simp_all add: abs_less_iff)
  then have "?i < 2 ^ 53" "- (2 ^ 53) < ?i"
    by (auto simp: floor_less_iff less_ceiling_iff ceiling_less_iff less_floor_iff)
  then have "\<bar>?i\<bar> < 2 ^ 53" by (simp only: abs_less_iff minus_less_iff simp_thms)
  then have "double_of_i64 (i64_of_double (DFin (of_int ?i))) = DFin (of_int ?i)" by (rule double_round_trip)
  moreover have "i64_of_double (DFin (of_int ?i)) = i64_of_double (DFin q)" by simp
  ultimately show ?thesis by simp
qed

lemma truncation:
  fixes q :: rat
  defines "i \<equiv> if 0 \<le> q then \<lfloor>q\<rfloor> else \<lceil>q\<rceil>"
  shows "\<bar>of_int i\<bar> \<le> \<bar>q\<bar> \<and> \<bar>q - of_int i\<bar> < 1"
proof (cases "0 \<le> q")
  case True
  have "of_int \<lfloor>q\<rfloor> \<le> q" "q < of_int \<lfloor>q\<rfloor> + 1" using floor_correct [of q] by simp_all
  moreover have "(0 :: rat) \<le> of_int \<lfloor>q\<rfloor>" using True by simp
  ultimately have "\<bar>of_int \<lfloor>q\<rfloor>\<bar> \<le> \<bar>q\<bar>" "\<bar>q - of_int \<lfloor>q\<rfloor>\<bar> < 1" by linarith+
  with True show ?thesis by (simp add: i_def)
next
  case False
  have "of_int \<lceil>q\<rceil> - 1 < q" "q \<le> of_int \<lceil>q\<rceil>" using ceiling_correct [of q] by simp_all
  moreover have "of_int \<lceil>q\<rceil> \<le> (0 :: rat)" using False by simp
  ultimately have "\<bar>of_int \<lceil>q\<rceil>\<bar> \<le> \<bar>q\<bar>" "\<bar>q - of_int \<lceil>q\<rceil>\<bar> < 1" by linarith+
  with False show ?thesis by (simp add: i_def)
qed

text \<open>
  C28. What the log keeps of a score. The event of a staged branch, replayed by a recovery,
  stages the branch with a whole number between \<open>- 2 ^ 63\<close> and \<open>2 ^ 63\<close>, whatever the score was
  (infinite and NaN included); for a score below \<open>2 ^ 53\<close> in magnitude it is the score truncated
  towards zero.
\<close>

theorem recovered_score_bounds:
  "\<exists>i. rebuild_event V (logged_event (last (ts_events (rt_StageBranch b d m s)))) txn =
       txn_StageBranch b (DFin (of_int i)) m txn \<and> \<bar>i\<bar> \<le> 2 ^ 63 \<and>
     (\<forall>q. d = DFin q \<longrightarrow> \<bar>q\<bar> < 2 ^ 53 \<longrightarrow> \<bar>of_int i\<bar> \<le> \<bar>q\<bar> \<and> \<bar>q - of_int i\<bar> < 1)"
proof -
  let ?w = "i64_of_double d"
  have "\<bar>sint ?w\<bar> \<le> 2 ^ 63" using sint_range_size [of ?w] by (auto simp: word_size abs_le_iff)
  then obtain i where i: "double_of_i64 ?w = DFin (of_int i)" "\<bar>i\<bar> \<le> 2 ^ 63"
    using double_of_int_bound by (auto simp: double_of_i64_def)
  have "rebuild_event V (logged_event (last (ts_events (rt_StageBranch b d m s)))) txn = txn_StageBranch b (DFin (of_int i)) m txn"
    by (simp add: rt_StageBranch_def RecordEvent_def rebuild_logged i(1))
  moreover have "\<bar>of_int i\<bar> \<le> \<bar>q\<bar> \<and> \<bar>q - of_int i\<bar> < 1" if "d = DFin q" "\<bar>q\<bar> < 2 ^ 53" for q
  proof -
    have "i = (if 0 \<le> q then \<lfloor>q\<rfloor> else \<lceil>q\<rceil>)" using i(1) i64_of_small [OF that(2)] that(1) by simp
    then show ?thesis using truncation [of q] by simp
  qed
  ultimately show ?thesis using i(2) by blast
qed

theorem recovered_score_bounds_witness:
  "rebuild_event (mem_Get demo_mem) (logged_event (last (ts_events (rt_StageBranch ''A'' (DFin (29 / 10)) ''m'' demo_open))))
     (ts_txn demo_open) = txn_StageBranch ''A'' (DFin 2) ''m'' (ts_txn demo_open)"
proof -
  obtain i where i: "rebuild_event (mem_Get demo_mem) (logged_event (last (ts_events (rt_StageBranch ''A'' (DFin (29 / 10)) ''m'' demo_open))))
      (ts_txn demo_open) = txn_StageBranch ''A'' (DFin (of_int i)) ''m'' (ts_txn demo_open)"
      "\<And>q. DFin (29 / 10) = DFin q \<Longrightarrow> \<bar>q\<bar> < 2 ^ 53 \<Longrightarrow> \<bar>of_int i\<bar> \<le> \<bar>q\<bar> \<and> \<bar>q - of_int i\<bar> < 1"
    using recovered_score_bounds [of "mem_Get demo_mem" "''A''" "DFin (29 / 10)" "''m''" demo_open "ts_txn demo_open"] by blast
  have "\<bar>of_int i :: rat\<bar> \<le> \<bar>29 / 10\<bar> \<and> \<bar>29 / 10 - of_int i :: rat\<bar> < 1" by (rule i(2) [OF refl]) simp
  then have "of_int i < (3 :: rat)" "(1 :: rat) < of_int i" by linarith+
  then have "i < 3" "1 < i" by simp_all
  then have "i = 2" by simp
  with i(1) show ?thesis by simp
qed

section \<open>A recovery can choose another winner\<close>

lemma stage_two:
  assumes "map bc_branch_id (tx_branches t) = [A, B]" "A \<noteq> B"
  obtains x y where "tx_branches (txn_StageBranch B d' m' (txn_StageBranch A d m t)) = [bm_StageBranch d m x, bm_StageBranch d' m' y]"
    "bc_branch_id x = A" "bc_branch_id y = B"
proof -
  obtain x y where t: "tx_branches t = [x, y]" "bc_branch_id x = A" "bc_branch_id y = B"
    using assms(1) by (auto simp: map_eq_Cons_conv)
  with assms(2) have "tx_branches (txn_StageBranch B d' m' (txn_StageBranch A d m t)) = [bm_StageBranch d m x, bm_StageBranch d' m' y]"
    by (simp add: txn_StageBranch_def on_branch_def bm_FindBranch_def Stage_id)
  with t that show ?thesis by blast
qed

lemma best_of_two:
  "bc_branch_id x = A \<Longrightarrow> bc_branch_id y = B \<Longrightarrow>
     bc_branch_id (best_branch [bm_StageBranch d m x, bm_StageBranch d' m' y]) = (if dless d d' then B else A)"
  by (simp add: best_branch_def score_frames Stage_id)

lemma run_branch_ids:
  "map bc_branch_id (tx_branches (ts_txn (fold (task_op rt st) ops s))) = map bc_branch_id (tx_branches (ts_txn s))"
proof (induction ops arbitrary: s)
  case (Cons op ops)
  have "map bc_branch_id (tx_branches (ts_txn (task_op rt st op s))) = map bc_branch_id (tx_branches (ts_txn s))"
    unfolding task_op_on_branch by (rule on_branch_ids) (rule branch_op_id)
  with Cons show ?case by simp
qed simp

lemma replay_branch_ids:
  "map bc_branch_id (tx_branches (fold (rebuild_event V) es t)) = map bc_branch_id (tx_branches t)"
  using same_but_replay [of t V es] by (simp add: same_but_branches_def same_frame_def)

lemma best_set_status:
  "bs \<noteq> [] \<Longrightarrow> best_branch (map (set_status i x y) bs) = set_status i x y (best_branch bs)"
proof -
  have sc: "cr_score (bc_candidate_result (set_status i x y b)) = cr_score (bc_candidate_result b)" for b
    by (simp add: set_status_def split: option.split)
  have "max_element_score (set_status i x y b) (map (set_status i x y) cs) = set_status i x y (max_element_score b cs)" for b cs
    by (induction cs arbitrary: b) (simp_all add: sc)
  then show "bs \<noteq> [] \<Longrightarrow> ?thesis" by (cases bs) (simp_all add: best_branch_def)
qed

text \<open>
  C25. A recovered task can commit another branch than its original would have. Take a task with
  two branches and any operations on them, then staged with scores \<open>p < q\<close> that have the same whole
  part, the second one better. The best branch of the running session, the one a commit selects, is
  the second; in the session recovered from its log it is the first, since both scores have been
  truncated to the same number and the first of the best is selected.
\<close>

theorem recovery_changes_winner:
  assumes "SubmitTask rt task plan = Inr s0" and "CandidateBranchIds plan = [A, B]"
    and "0 \<le> p" and "p < q" and "\<lfloor>p\<rfloor> = \<lfloor>q\<rfloor>" and "q < 2 ^ 53"
    and "s = fold (task_op rt st) (ops @ [DoStage A (DFin p) m, DoStage B (DFin q) n]) s0" and "log_fits s"
    and "WriteTaskEventLogArtifact s path w = (True, w')"
  shows "bc_branch_id (best_branch (tx_branches (ts_txn s))) = B \<and>
    (\<exists>r. RecoverSessionFromLog rt path (kv, w') = Inr r \<and>
       bc_branch_id (best_branch (tx_branches (ts_txn (rs_session r)))) = A)"
proof -
  let ?pre = "fold (task_op rt st) ops s0" and ?V = "kv_Get (tk_store rt) kv"
  have s0: "s0 = submitted rt task plan" "plan_Validate plan = Inr ()" using assms(1) by (simp_all add: SubmitTask_iff)
  have ids0: "map bc_branch_id (tx_branches (ts_txn s0)) = [A, B]"
    using assms(2) by (simp add: s0(1) submitted_def CandidateBranchIds_def comp_def)
  have ne: "A \<noteq> B" using s0(2) assms(2) by (simp add: plan_Validate_iff)
  have txn: "ts_txn s = txn_StageBranch B (DFin q) n (txn_StageBranch A (DFin p) m (ts_txn ?pre))"
    by (simp add: assms(7) rt_StageBranch_def)
  have "map bc_branch_id (tx_branches (ts_txn ?pre)) = [A, B]" by (simp add: run_branch_ids ids0)
  from stage_two [OF this ne, of "DFin q" n "DFin p" m]
  obtain x y where "tx_branches (ts_txn s) = [bm_StageBranch (DFin p) m x, bm_StageBranch (DFin q) n y]"
      "bc_branch_id x = A" "bc_branch_id y = B" unfolding txn .
  then have B: "bc_branch_id (best_branch (tx_branches (ts_txn s))) = B" using best_of_two [of x A y B] assms(4) by simp
  obtain es where es: "ts_events ?pre = ts_events s0 @ es" "op_events es" using run_events by blast
  let ?a = "last (ts_events (rt_StageBranch A (DFin p) m ?pre))"
  let ?b = "last (ts_events (rt_StageBranch B (DFin q) n (rt_StageBranch A (DFin p) m ?pre)))"
  have ev: "ts_events s = ts_events s0 @ (es @ [?a, ?b])" "op_events (es @ [?a, ?b])"
    using es by (simp_all add: assms(7) rt_StageBranch_def RecordEvent_def op_events_def)
  have "\<forall>e \<in> set (ts_events s). te_sequence_number e < 2 ^ 64" using assms(8) by (simp add: log_fits_def)
  note parse = parse_task_log [OF written_task_log [OF assms(9)] this]
  let ?t = "fold (rebuild_event ?V) (map logged_event es) (ts_txn s0)"
  have num: "double_of_i64 (i64_of_double (DFin p)) = DFin (of_int \<lfloor>q\<rfloor>)" "double_of_i64 (i64_of_double (DFin q)) = DFin (of_int \<lfloor>q\<rfloor>)"
    using i64_of_small [of p] i64_of_small [of q] assms(3-6) by (simp_all add: abs_if)
  have ab: "rebuild_event ?V (logged_event ?b) (rebuild_event ?V (logged_event ?a) ?t) =
      txn_StageBranch B (DFin (of_int \<lfloor>q\<rfloor>)) n (txn_StageBranch A (DFin (of_int \<lfloor>q\<rfloor>)) m ?t)"
    using num by (simp add: rt_StageBranch_def RecordEvent_def rebuild_logged del: i64_of_double.simps)
  obtain r where r: "RecoverSessionFromLog rt path (kv, w') = Inr r"
      "ts_txn (rs_session r) = (rebuild_event ?V (logged_event ?b) (rebuild_event ?V (logged_event ?a) ?t))
        \<lparr>tx_status := TxnRunning, tx_branches := map (set_status (dc_resume_branch_id (rp_decision (rs_recovery_plan r))) kRunning None)
           (tx_branches (rebuild_event ?V (logged_event ?b) (rebuild_event ?V (logged_event ?a) ?t)))\<rparr>"
    using recovered_open_session [OF assms(1,7,8) ev refl parse, where kv = kv] by auto
  have "map bc_branch_id (tx_branches ?t) = [A, B]" by (simp add: replay_branch_ids ids0)
  from stage_two [OF this ne, of "DFin (of_int \<lfloor>q\<rfloor>)" n "DFin (of_int \<lfloor>q\<rfloor>)" m]
  obtain x y where "tx_branches (txn_StageBranch B (DFin (of_int \<lfloor>q\<rfloor>)) n (txn_StageBranch A (DFin (of_int \<lfloor>q\<rfloor>)) m ?t)) =
      [bm_StageBranch (DFin (of_int \<lfloor>q\<rfloor>)) m x, bm_StageBranch (DFin (of_int \<lfloor>q\<rfloor>)) n y]" "bc_branch_id x = A" "bc_branch_id y = B" .
  then have "bc_branch_id (best_branch (tx_branches (ts_txn (rs_session r)))) = A"
    unfolding r(2) ab using best_set_status [of "[_, _]"] best_of_two [of x A y B] by simp
  with B r(1) show ?thesis by blast
qed

definition close_session :: TaskSession where
  "close_session = fold (task_op demo_runtime demo_system) ([] @ [DoStage ''A'' (DFin (6 / 5)) [], DoStage ''B'' (DFin (19 / 10)) []])
     (submitted demo_runtime demo_task demo_plan)"

theorem recovery_changes_winner_witness:
  "bc_branch_id (best_branch (tx_branches (ts_txn close_session))) = ''B'' \<and>
   (\<exists>r. RecoverSessionFromLog demo_runtime ''t.log''
          (demo_mem, snd (WriteTaskEventLogArtifact close_session ''t.log'' calm)) = Inr r \<and>
      bc_branch_id (best_branch (tx_branches (ts_txn (rs_session r)))) = ''A'')"
proof -
  have w: "WriteTaskEventLogArtifact close_session ''t.log'' calm = (True, fs_put ''t.log'' (task_log_text close_session) calm)"
    by (simp add: WriteTaskEventLogArtifact_def write_file_def next_fault_def calm_def)
  have c: "CandidateBranchIds demo_plan = [''A'', ''B'']"
    by (simp add: CandidateBranchIds_def demo_plan_def AddBranchPlan_def default_ExecutionPlan_def)
  have f: "\<lfloor>6 / 5 :: rat\<rfloor> = 1" "\<lfloor>19 / 10 :: rat\<rfloor> = 1" by (simp_all add: floor_unique)
  have "ts_commit_attempts close_session = 0" "ts_task close_session = demo_task\<lparr>tc_phase := TaskRunning\<rparr>"
    unfolding close_session_def submitted_run_open by (simp_all add: submitted_def)
  moreover have "te_sequence_number e < 2 ^ 64" if "e \<in> set (ts_events close_session)" for e
    using that
    by (auto simp: close_session_def rt_StageBranch_def RecordEvent_def submitted_def demo_plan_def AddBranchPlan_def
        default_ExecutionPlan_def created_event_def)
  ultimately have fits: "log_fits close_session"
    by (auto simp: log_fits_def demo_task_def default_TaskContext_def umap_wf_def)
  show ?thesis
    using recovery_changes_winner [where p = "6 / 5" and q = "19 / 10" and kv = demo_mem, OF demo_Submit c _ _ _ _ close_session_def fits w]
    by (simp add: w f)
qed

section \<open>A dropped savepoint is looked for\<close>

definition lacks_savepoint :: "string \<Rightarrow> string \<Rightarrow> AgentTxnContext \<Rightarrow> bool" where
  "lacks_savepoint b p t \<longleftrightarrow>
     (\<forall>x \<in> set (tx_branches t). bc_branch_id x = b \<longrightarrow> p \<notin> sp_savepoint_id ` set (bc_savepoints x))"

lemma lacks_on_branch:
  assumes "lacks_savepoint b p t" and "\<And>x. bc_branch_id (f x) = bc_branch_id x"
    and "i = b \<Longrightarrow> (\<And>x. p \<notin> sp_savepoint_id ` set (bc_savepoints x) \<Longrightarrow> p \<notin> sp_savepoint_id ` set (bc_savepoints (f x)))"
  shows "lacks_savepoint b p (on_branch i f t)"
proof (cases "bm_FindBranch (tx_branches t) i")
  case (Some n)
  note n = FindBranch_bound [OF Some]
  show ?thesis
    unfolding lacks_savepoint_def on_branch_def Some
  proof (simp, intro ballI impI)
    fix x assume "x \<in> set ((tx_branches t)[n := f (tx_branches t ! n)])" and x: "bc_branch_id x = b"
    then have "x = f (tx_branches t ! n) \<or> x \<in> set (tx_branches t)" using set_update_subset_insert by fast
    then show "p \<notin> sp_savepoint_id ` set (bc_savepoints x)"
    proof
      assume "x = f (tx_branches t ! n)"
      moreover from this have "i = b" using x n assms(2) by metis
      moreover have "p \<notin> sp_savepoint_id ` set (bc_savepoints (tx_branches t ! n))"
        using assms(1) n \<open>i = b\<close> by (simp add: lacks_savepoint_def)
      ultimately show ?thesis using assms(3) by blast
    qed (use assms(1) x in \<open>simp add: lacks_savepoint_def\<close>)
  qed
qed (use assms(1) in \<open>simp add: on_branch_def\<close>)

lemma Rollback_savepoints: "set (bc_savepoints (snd (rm_RollbackToSavepoint q x))) \<subseteq> set (bc_savepoints x)"
  by (auto simp: rm_RollbackToSavepoint_def Let_def dest: in_set_takeD split: option.split)

lemma lacks_rebuild:
  assumes "lacks_savepoint b p t" "\<not> (te_type e = EvSavepoint \<and> te_branch_id e = b \<and> te_detail e = p)"
  shows "lacks_savepoint b p (rebuild_event V (logged_event e) t)"
proof -
  have "lacks_savepoint b p (txn_Savepoint i q t)" if "\<not> (i = b \<and> q = p)" for i q
    unfolding txn_Savepoint_def using that
    by (intro lacks_on_branch [OF assms(1)]) (auto simp: Savepoint_id bm_CreateSavepoint_def)
  moreover have "lacks_savepoint b p (snd (txn_RollbackToSavepoint i q t))" for i q
    unfolding txn_Rollback_on_branch using Rollback_savepoints
    by (intro lacks_on_branch [OF assms(1)]) (auto simp: Rollback_id)
  moreover have "lacks_savepoint b p (txn_Write i k ty w V t)" for i k ty w
    unfolding txn_Write_def by (intro lacks_on_branch [OF assms(1)]) (simp_all add: bm_BufferWrite_frame)
  moreover have "lacks_savepoint b p (txn_StageBranch i d m t)" for i d m
    unfolding txn_StageBranch_def by (intro lacks_on_branch [OF assms(1)]) (simp_all add: Stage_id bm_StageBranch_def)
  moreover have "lacks_savepoint b p (on_branch i (\<lambda>x. x\<lparr>bc_status := kRunning, bc_read_set := rs_Record k v (bc_read_set x)\<rparr>) t)" for i k v
    by (intro lacks_on_branch [OF assms(1)]) simp_all
  ultimately show ?thesis using assms by (cases "te_type e") (auto simp: rebuild_logged)
qed

lemma lacks_replay:
  "lacks_savepoint b p t \<Longrightarrow> (\<And>e. e \<in> set es \<Longrightarrow> \<not> (te_type e = EvSavepoint \<and> te_branch_id e = b \<and> te_detail e = p)) \<Longrightarrow>
     lacks_savepoint b p (fold (rebuild_event V) (map logged_event es) t)"
  by (induction es arbitrary: t) (simp_all add: lacks_rebuild)

lemma run_savepoint_events:
  "\<exists>es. ts_events (fold (task_op rt st) ops s) = ts_events s @ es \<and> op_events es \<and>
     (\<forall>e \<in> set es. te_type e = EvSavepoint \<longrightarrow> DoSavepoint (te_branch_id e) (te_detail e) \<in> set ops)"
proof (induction ops arbitrary: s)
  case (Cons op ops)
  have "\<exists>es. ts_events (task_op rt st op s) = ts_events s @ es \<and> op_events es \<and>
      (\<forall>e \<in> set es. te_type e = EvSavepoint \<longrightarrow> op = DoSavepoint (te_branch_id e) (te_detail e))"
    by (cases op) (auto simp: rt_defs RecordEvent_def op_events_def Let_def split: prod.split)
  with Cons.IH [of "task_op rt st op s"] show ?case by (fastforce simp: op_events_def)
qed (simp add: op_events_def)

lemma find_index_append_None:
  "find_index P xs = None \<Longrightarrow> find_index P (xs @ ys) = map_option (\<lambda>i. length xs + i) (find_index P ys)"
  by (intro find_index_append_skip) (simp add: find_index_None)

lemma find_index_append_Some: "find_index P xs = Some i \<Longrightarrow> find_index P (xs @ ys) = Some i"
  by (induction xs arbitrary: i) (auto split: if_splits)

text \<open>A rollback past a savepoint made after it drops that savepoint.\<close>

definition past_savepoint :: "string \<Rightarrow> string \<Rightarrow> BranchContext \<Rightarrow> BranchContext" where
  "past_savepoint p q x = snd (rm_RollbackToSavepoint p (bm_CreateSavepoint q (bm_CreateSavepoint p x)))"

lemma past_savepoint_keeps:
  "bc_branch_id (past_savepoint p q x) = bc_branch_id x" "fst (rm_RollbackToSavepoint p (bm_CreateSavepoint q (bm_CreateSavepoint p x)))"
  "p \<noteq> q \<Longrightarrow> q \<notin> sp_savepoint_id ` set (bc_savepoints x) \<Longrightarrow> q \<notin> sp_savepoint_id ` set (bc_savepoints (past_savepoint p q x))"
proof -
  let ?y = "bm_CreateSavepoint q (bm_CreateSavepoint p x)" and ?P = "\<lambda>sp. sp_savepoint_id sp = p"
  have "\<exists>i. find_index ?P (bc_savepoints ?y) = Some i \<and> i \<le> length (bc_savepoints x)"
  proof (cases "find_index ?P (bc_savepoints x)")
    case None
    then show ?thesis by (simp add: bm_CreateSavepoint_def find_index_append_None)
  next
    case (Some i)
    then have "i < length (bc_savepoints x)" by (simp add: find_index_Some)
    with Some show ?thesis by (simp add: bm_CreateSavepoint_def find_index_append_Some)
  qed
  then obtain i where i: "find_index ?P (bc_savepoints ?y) = Some i" "i \<le> length (bc_savepoints x)" by blast
  then show "bc_branch_id (past_savepoint p q x) = bc_branch_id x" "fst (rm_RollbackToSavepoint p ?y)"
    by (simp_all add: past_savepoint_def rm_RollbackToSavepoint_def Let_def Savepoint_id)
  have "bc_savepoints (past_savepoint p q x) = take (Suc i) (bc_savepoints x @ [\<lparr>sp_savepoint_id = p,
      sp_write_log_position = wb_Size (bc_write_buffer x), sp_intent_log_position = il_Size (bc_intent_log x)\<rparr>])"
  proof -
    have "Suc i - length (bc_savepoints x) = 0 \<or> Suc i - length (bc_savepoints x) = 1" using i(2) by arith
    then have "take (Suc i) (bc_savepoints x @ [u, v]) = take (Suc i) (bc_savepoints x @ [u])" for u v by auto
    then show ?thesis
      using i(1) by (simp add: past_savepoint_def rm_RollbackToSavepoint_def Let_def) (simp add: bm_CreateSavepoint_def)
  qed
  then show "p \<noteq> q \<Longrightarrow> q \<notin> sp_savepoint_id ` set (bc_savepoints x) \<Longrightarrow> q \<notin> sp_savepoint_id ` set (bc_savepoints (past_savepoint p q x))"
    by (auto dest: in_set_takeD)
qed

lemma decision_resumes:
  assumes "\<not> ts_committed s" "tc_phase (ts_task s) = TaskRunning" "ts_events s \<noteq> []"
    and "te_type (last (ts_events s)) \<notin> {EvCommitTask, EvAbortTask, EvCommitAttempt}"
    and "find_latest_branch (map logged_event (ts_events s)) = b" "find_latest_savepoint (map logged_event (ts_events s)) b = p" "p \<noteq> []"
  shows "dc_action (RecoverTaskSessionDecision path (logged_artifact s)) = RaResumeFromSavepoint \<and>
    dc_resume_branch_id (RecoverTaskSessionDecision path (logged_artifact s)) = b \<and>
    dc_resume_savepoint_id (RecoverTaskSessionDecision path (logged_artifact s)) = p"
  using assms
  by (simp add: RecoverTaskSessionDecision_def Let_def logged_fixed_values final_event_names task_phase_digit logged_events
      del: task_phase_number.simps)

lemma lacks_fails:
  assumes "lacks_savepoint b p t" shows "\<not> fst (txn_RollbackToSavepoint b p t)"
proof (cases "bm_FindBranch (tx_branches t) b")
  case (Some n)
  note n = FindBranch_bound [OF Some]
  then have "p \<notin> sp_savepoint_id ` set (bc_savepoints (tx_branches t ! n))" using assms by (simp add: lacks_savepoint_def)
  then have "find_index (\<lambda>sp. sp_savepoint_id sp = p) (bc_savepoints (tx_branches t ! n)) = None" by (auto simp: find_index_None)
  then show ?thesis by (simp add: txn_RollbackToSavepoint_def Some rm_RollbackToSavepoint_def)
qed (simp add: txn_RollbackToSavepoint_def)

lemma stuck_execution:
  assumes "ex_command_type ex = CmdResumeFromSavepoint"
    and "lacks_savepoint (ex_target_branch_id ex) (ex_target_savepoint_id ex) (ts_txn (ex_session ex))"
  shows "\<exists>ex'. ContinueRecoveredTask rt ex spec callback st = (Inr False, ex', st)"
  using assms(1) lacks_fails [OF assms(2)]
  by (auto simp: ContinueRecoveredTask_def ExecuteRecoveryExecution_def Let_def split: option.split prod.split)


lemma past_savepoint_ops:
  assumes "bm_FindBranch (tx_branches t) b \<noteq> None"
  shows "txn_RollbackToSavepoint b p (txn_Savepoint b q (txn_Savepoint b p t)) = (True, on_branch b (past_savepoint p q) t)"
proof -
  let ?f = "\<lambda>x. bm_CreateSavepoint q (bm_CreateSavepoint p x)"
  have t: "txn_Savepoint b q (txn_Savepoint b p t) = on_branch b ?f t"
    by (simp add: txn_Savepoint_def on_branch_twice Savepoint_id)
  obtain n where n: "bm_FindBranch (tx_branches t) b = Some n" using assms by blast
  have "bm_FindBranch (tx_branches (on_branch b ?f t)) b = Some n"
    using FindBranch_ids [OF on_branch_ids, of ?f b t b] n by (simp add: Savepoint_id)
  moreover have "tx_branches (on_branch b ?f t) ! n = ?f (tx_branches t ! n)"
    using FindBranch_bound [OF n] n by (simp add: on_branch_def)
  ultimately have "fst (txn_RollbackToSavepoint b p (on_branch b ?f t))"
    using past_savepoint_keeps(2) [of p q] by (simp add: txn_RollbackToSavepoint_def split_beta)
  moreover have "snd (txn_RollbackToSavepoint b p (on_branch b ?f t)) = on_branch b (past_savepoint p q) t"
    by (simp add: txn_Rollback_on_branch on_branch_twice Savepoint_id past_savepoint_def [abs_def])
  ultimately show ?thesis unfolding t by (simp add: prod_eq_iff)
qed

lemma past_savepoint_events:
  assumes "bm_FindBranch (tx_branches (ts_txn s)) b \<noteq> None"
  obtains e1 e2 e3 where
    "ts_events (fold (task_op rt st) [DoSavepoint b p, DoSavepoint b q, DoRollback b p] s) = ts_events s @ [e1, e2, e3]"
    "(te_type e1, te_branch_id e1, te_detail e1) = (EvSavepoint, b, p)"
    "(te_type e2, te_branch_id e2, te_detail e2) = (EvSavepoint, b, q)"
    "(te_type e3, te_branch_id e3, te_detail e3) = (EvRollbackToSavepoint, b, p)"
  using that past_savepoint_ops [OF assms, of p q] by (simp add: rt_defs RecordEvent_def)

lemma past_savepoint_replay:
  assumes "bm_FindBranch (tx_branches t) b \<noteq> None"
    and "(te_type e1, te_branch_id e1, te_detail e1) = (EvSavepoint, b, p)"
    and "(te_type e2, te_branch_id e2, te_detail e2) = (EvSavepoint, b, q)"
    and "(te_type e3, te_branch_id e3, te_detail e3) = (EvRollbackToSavepoint, b, p)"
  shows "fold (rebuild_event V) (map logged_event [e1, e2, e3]) t = on_branch b (past_savepoint p q) t"
  using assms(2-4) past_savepoint_ops [OF assms(1), of p q] by (simp add: rebuild_logged)

lemma latest_savepoint:
  assumes "(te_type e2, te_branch_id e2, te_detail e2) = (EvSavepoint, b, q)"
    and "(te_type e3, te_branch_id e3) = (EvRollbackToSavepoint, b)" and "b \<noteq> []"
  shows "find_latest_branch (map logged_event (es @ [e1, e2, e3])) = b"
    "find_latest_savepoint (map logged_event (es @ [e1, e2, e3])) b = q"
  using assms by (simp_all add: find_latest_branch_def find_latest_savepoint_def logged_event_def)

lemma lacks_set_status: "lacks_savepoint b p (t\<lparr>tx_status := v, tx_branches := map (set_status i x y) (tx_branches t)\<rparr>) =
    lacks_savepoint b p t"
proof -
  have "bc_savepoints (set_status i x y c) = bc_savepoints c" for c by (simp add: set_status_def split: option.split)
  then show ?thesis by (simp add: lacks_savepoint_def)
qed

lemma found_branch: "map bc_branch_id bs = ids \<Longrightarrow> b \<in> set ids \<Longrightarrow> bm_FindBranch bs b \<noteq> None"
  by (auto simp: bm_FindBranch_def find_index_None)

text \<open>
  C24. A recovery can depend on a savepoint that no longer exists. Take a submitted task and any
  operations, then make a savepoint of a branch, make a second one with a name not used before, and
  roll back to the first, which drops the second; all of it is in the log. The recovery from that
  log returns a session and decides to resume from a savepoint; the savepoint it names is the
  dropped one, so continuing the task fails and changes nothing in the store or on disk, for every
  continuation.
\<close>

theorem dropped_savepoint_is_stuck:
  assumes "SubmitTask rt task plan = Inr s0" and "b \<in> set (CandidateBranchIds plan)"
    and "p \<noteq> q" and "q \<noteq> []" and "DoSavepoint b q \<notin> set ops"
    and "s = fold (task_op rt st) (ops @ [DoSavepoint b p, DoSavepoint b q, DoRollback b p]) s0" and "log_fits s"
    and "WriteTaskEventLogArtifact s path w = (True, w')"
  shows "\<exists>r. RecoverSessionFromLog rt path (kv, w') = Inr r \<and>
    ex_command_type (BuildTaskRecoveryExecution r) = CmdResumeFromSavepoint \<and>
    ex_target_savepoint_id (BuildTaskRecoveryExecution r) = q \<and>
    (\<forall>spec callback st. \<exists>ex'. ContinueRecoveredTask rt (BuildTaskRecoveryExecution r) spec callback st = (Inr False, ex', st))"
proof -
  let ?pre = "fold (task_op rt st) ops s0" and ?V = "kv_Get (tk_store rt) kv"
  have s0: "s0 = submitted rt task plan" "plan_Validate plan = Inr ()" using assms(1) by (simp_all add: SubmitTask_iff)
  have ids0: "map bc_branch_id (tx_branches (ts_txn s0)) = CandidateBranchIds plan"
    by (simp add: s0(1) submitted_def CandidateBranchIds_def comp_def)
  have b: "b \<noteq> []" using s0(2) assms(2) by (auto simp: plan_Validate_iff CandidateBranchIds_def)
  have found: "bm_FindBranch (tx_branches t) b \<noteq> None" if "map bc_branch_id (tx_branches t) = CandidateBranchIds plan" for t
    using found_branch [OF that assms(2)] .
  obtain es where es: "ts_events ?pre = ts_events s0 @ es" "op_events es"
      "\<forall>e \<in> set es. te_type e = EvSavepoint \<longrightarrow> DoSavepoint (te_branch_id e) (te_detail e) \<in> set ops"
    using run_savepoint_events by blast
  have "map bc_branch_id (tx_branches (ts_txn ?pre)) = CandidateBranchIds plan" by (simp add: run_branch_ids ids0)
  from past_savepoint_events [OF found [OF this]]
  obtain e1 e2 e3 where e: "ts_events s = ts_events ?pre @ [e1, e2, e3]"
      "(te_type e1, te_branch_id e1, te_detail e1) = (EvSavepoint, b, p)"
      "(te_type e2, te_branch_id e2, te_detail e2) = (EvSavepoint, b, q)"
      "(te_type e3, te_branch_id e3, te_detail e3) = (EvRollbackToSavepoint, b, p)"
    unfolding assms(6) fold_append comp_apply .
  have ev: "ts_events s = ts_events s0 @ (es @ [e1, e2, e3])" "op_events (es @ [e1, e2, e3])"
    using es(1,2) e by (simp_all add: op_events_def)
  have open_s: "tc_phase (ts_task s) = TaskRunning" "\<not> ts_committed s" "tc_task_id (ts_task s) = tc_task_id task"
    unfolding assms(6) s0 submitted_run_open by (simp_all add: submitted_def)
  have "\<forall>e \<in> set (ts_events s). te_sequence_number e < 2 ^ 64" using assms(7) by (simp add: log_fits_def)
  note parse = parse_task_log [OF written_task_log [OF assms(8)] this]
  let ?events = "map logged_event (ts_events s)"
  have "find_latest_branch ?events = b" "find_latest_savepoint ?events b = q"
    using latest_savepoint [of e2 b q e3 "ts_events s0 @ es" e1] e(3,4) b unfolding ev(1) append_assoc by simp_all
  moreover have "ts_events s \<noteq> []" unfolding e(1) by simp
  ultimately have d: "dc_action (RecoverTaskSessionDecision path (logged_artifact s)) = RaResumeFromSavepoint"
      "dc_resume_branch_id (RecoverTaskSessionDecision path (logged_artifact s)) = b"
      "dc_resume_savepoint_id (RecoverTaskSessionDecision path (logged_artifact s)) = q"
    using decision_resumes [OF open_s(2,1) _ last_event_open [OF ev [unfolded s0]]] assms(4) by blast+
  let ?t = "fold (rebuild_event ?V) (map logged_event es) (ts_txn s0)"
  have x: "p \<noteq> q" by (rule assms(3))
  have "lacks_savepoint b q (ts_txn s0)" by (auto simp: lacks_savepoint_def s0(1) submitted_def new_BranchContext_def)
  then have "lacks_savepoint b q ?t" using es(3) assms(5) by (intro lacks_replay) auto
  then have "lacks_savepoint b q (on_branch b (past_savepoint p q) ?t)"
    by (rule lacks_on_branch) (simp add: past_savepoint_keeps(1), rule past_savepoint_keeps(3) [OF x])
  moreover have "fold (rebuild_event ?V) (map logged_event (es @ [e1, e2, e3])) (ts_txn s0) = on_branch b (past_savepoint p q) ?t"
    using past_savepoint_replay [OF found e(2-4), of ?t ?V] by (simp add: replay_branch_ids ids0)
  moreover obtain r where r: "RecoverSessionFromLog rt path (kv, w') = Inr (ApplyRecoveredTerminalState r)"
      "rp_decision (rs_recovery_plan r) = RecoverTaskSessionDecision path (logged_artifact s)"
      "ts_txn (rs_session r) = fold (rebuild_event ?V) (map logged_event (es @ [e1, e2, e3])) (ts_txn s0)"
      "ts_committed (rs_session r) = ts_committed s"
    using recovered_session [OF assms(1,7) open_s(3) ev(1) op_events_later [OF ev(2)] parse, where kv = kv] by auto
  ultimately have "lacks_savepoint b q (ts_txn (rs_session (ApplyRecoveredTerminalState r)))"
    using open_s(2) d(1) by (simp add: ApplyRecoveredTerminalState_def Let_def lacks_set_status)
  moreover have "rp_decision (rs_recovery_plan (ApplyRecoveredTerminalState r)) = RecoverTaskSessionDecision path (logged_artifact s)"
    by (simp add: ApplyRecoveredTerminalState_def Let_def r(2))
  ultimately show ?thesis
    using d r(1) by (intro exI [of _ "ApplyRecoveredTerminalState r"] conjI allI stuck_execution)
      (simp_all add: BuildTaskRecoveryExecution_def Let_def)
qed

definition dropped_session :: TaskSession where
  "dropped_session = fold (task_op demo_runtime demo_system)
     ([] @ [DoSavepoint ''A'' ''s1'', DoSavepoint ''A'' ''s2'', DoRollback ''A'' ''s1'']) (submitted demo_runtime demo_task demo_plan)"

theorem dropped_savepoint_is_stuck_witness:
  "\<exists>r. RecoverSessionFromLog demo_runtime ''t.log''
        (demo_mem, snd (WriteTaskEventLogArtifact dropped_session ''t.log'' calm)) = Inr r \<and>
     (\<forall>spec callback st. \<exists>ex'. ContinueRecoveredTask demo_runtime (BuildTaskRecoveryExecution r) spec callback st = (Inr False, ex', st))"
proof -
  have w: "WriteTaskEventLogArtifact dropped_session ''t.log'' calm = (True, fs_put ''t.log'' (task_log_text dropped_session) calm)"
    by (simp add: WriteTaskEventLogArtifact_def write_file_def next_fault_def calm_def)
  have c: "''A'' \<in> set (CandidateBranchIds demo_plan)"
    by (simp add: CandidateBranchIds_def demo_plan_def AddBranchPlan_def default_ExecutionPlan_def)
  have "ts_commit_attempts dropped_session = 0" "ts_task dropped_session = demo_task\<lparr>tc_phase := TaskRunning\<rparr>"
    unfolding dropped_session_def submitted_run_open by (simp_all add: submitted_def)
  moreover have "te_sequence_number e < 2 ^ 64" if "e \<in> set (ts_events dropped_session)" for e
    using that
    by (auto simp: dropped_session_def rt_defs Let_def RecordEvent_def submitted_def demo_plan_def AddBranchPlan_def
        default_ExecutionPlan_def created_event_def txn_Savepoint_def on_branch_def bm_FindBranch_def
        split: prod.splits if_splits)
  ultimately have fits: "log_fits dropped_session"
    by (auto simp: log_fits_def demo_task_def default_TaskContext_def umap_wf_def)
  have ne: "''s1'' \<noteq> ''s2''" "''s2'' \<noteq> ([] :: string)" "DoSavepoint ''A'' ''s2'' \<notin> set []" by simp_all
  show ?thesis
    using dropped_savepoint_is_stuck [OF demo_Submit c ne dropped_session_def fits w] w by fastforce
qed

end
