(* ===== verification/Task_Sweep.thy ===== *)
theory Task_Sweep
  imports Task_Limits
begin

text \<open>
  What the sweep of finished fallback artifacts does to the directory of artifacts: it never touches
  an artifact of a commit that is still to be recovered, and when it succeeds and finished artifacts
  are to be deleted, exactly those are gone.
\<close>

section \<open>Single steps\<close>

definition finished_artifact :: "string \<Rightarrow> world \<Rightarrow> bool" where
  "finished_artifact p w \<longleftrightarrow>
     (\<exists>a. ParseFallbackCommitArtifact p w = Some a \<and> IsTerminalFallbackPhase (fa_phase a))"

lemma parse_same: "fs_read p w' = fs_read p w \<Longrightarrow> ParseFallbackCommitArtifact p w' = ParseFallbackCommitArtifact p w"
  by (simp add: ParseFallbackCommitArtifact_def)

lemma finished_same: "fs_read p w' = fs_read p w \<Longrightarrow> finished_artifact p w' = finished_artifact p w"
  unfolding finished_artifact_def by (simp only: parse_same [of p w' w])

lemma fs_remove_other: "q \<noteq> p \<Longrightarrow> fs_read q (snd (fs_remove p w)) = fs_read q w"
  by (auto simp: fs_remove_def split: prod.splits io_fault.splits dest: next_fault_files)

lemma fs_remove_gone: "fst (fs_remove p w) \<Longrightarrow> fs_read p (snd (fs_remove p w)) = None"
  by (auto simp: fs_remove_def split: prod.splits io_fault.splits if_splits)

lemma EnsureDirectory_files: "fs_read q (snd (EnsureDirectory rt p w)) = fs_read q w"
  by (auto simp: EnsureDirectory_def create_directories_def Let_def fs_read_def next_fault_def
      split: prod.splits io_fault.splits if_splits list.splits)

lemma policy_other:
  assumes "q \<noteq> p" "policy = PolicyArchive \<Longrightarrow> fc_archive_dir (tk_config rt) \<noteq> [] \<Longrightarrow>
      q \<noteq> path_join (fc_archive_dir (tk_config rt)) (path_filename p)"
  shows "fs_read q (snd (ApplyTerminalFallbackArtifactPolicy rt p policy w)) = fs_read q w"
proof (cases policy)
  case PolicyArchive
  let ?d = "fc_archive_dir (tk_config rt)"
  obtain r w1 where e: "EnsureDirectory rt ?d w = (r, w1)" by (cases "EnsureDirectory rt ?d w")
  have w1: "fs_read q w1 = fs_read q w" using EnsureDirectory_files [of q rt ?d w] by (simp add: e)
  show ?thesis
    using assms w1
    by (auto simp: ApplyTerminalFallbackArtifactPolicy_def PolicyArchive e Let_def split_beta rename_file_other fs_remove_other
        split: sum.split)
qed (use assms in \<open>auto simp: ApplyTerminalFallbackArtifactPolicy_def Let_def split_beta fs_remove_other\<close>)

lemma policy_deletes:
  assumes "fst (ApplyTerminalFallbackArtifactPolicy rt p PolicyDelete w) = Inr True"
  shows "fs_read p (snd (ApplyTerminalFallbackArtifactPolicy rt p PolicyDelete w)) = None"
  using assms by (simp add: ApplyTerminalFallbackArtifactPolicy_def Let_def split_beta fs_remove_gone)

text \<open>One turn of the loop on an artifact that parses.\<close>

lemma sweep_turn:
  assumes "EndsWith f ''.fallback.log''" and "path_join (fc_artifact_dir (tk_config rt)) f = p"
    and "ParseFallbackCommitArtifact p w = Some a"
  obtains
    (pending) r' where "\<not> IsTerminalFallbackPhase (fa_phase a)" "sweep_loop rt (f # fs) w r = sweep_loop rt fs w r'"
      "fm_success r' = fm_success r"
  | (kept) r' where "IsTerminalFallbackPhase (fa_phase a)" "policy_for rt (fa_phase a) = PolicyKeep"
      "sweep_loop rt (f # fs) w r = sweep_loop rt fs w r'" "fm_success r' = fm_success r"
  | (stopped) r' where "IsTerminalFallbackPhase (fa_phase a)"
      "snd (sweep_loop rt (f # fs) w r) = snd (ApplyTerminalFallbackArtifactPolicy rt p (policy_for rt (fa_phase a)) w)"
      "\<And>r'. fst (sweep_loop rt (f # fs) w r) = Inr r' \<Longrightarrow> \<not> fm_success r'"
  | (applied) r' where "IsTerminalFallbackPhase (fa_phase a)"
      "fst (ApplyTerminalFallbackArtifactPolicy rt p (policy_for rt (fa_phase a)) w) = Inr True"
      "sweep_loop rt (f # fs) w r =
         sweep_loop rt fs (snd (ApplyTerminalFallbackArtifactPolicy rt p (policy_for rt (fa_phase a)) w)) r'"
      "fm_success r' = fm_success r"
proof (cases "IsTerminalFallbackPhase (fa_phase a) \<and> policy_for rt (fa_phase a) \<noteq> PolicyKeep")
  case False
  then show thesis using assms pending kept by (cases "IsTerminalFallbackPhase (fa_phase a)") auto
next
  case True
  obtain x w1 where x: "ApplyTerminalFallbackArtifactPolicy rt p (policy_for rt (fa_phase a)) w = (x, w1)"
    by (cases "ApplyTerminalFallbackArtifactPolicy rt p (policy_for rt (fa_phase a)) w")
  show thesis
  proof (cases "x = Inr True")
    case True': True
    let ?r = "if policy_for rt (fa_phase a) = PolicyArchive
        then r\<lparr>fm_archived_artifact_count := fm_archived_artifact_count r + 1\<rparr>
        else r\<lparr>fm_deleted_artifact_count := fm_deleted_artifact_count r + 1\<rparr>"
    show thesis by (rule applied [of ?r]) (use True True' x assms in \<open>auto simp: Let_def\<close>)
  next
    case False
    then consider e where "x = Inl e" | "x = Inr False" by (cases x) auto
    then show thesis by cases (use True x assms in \<open>(intro stopped, auto simp: Let_def)[1]\<close>)+
  qed
qed


lemma sweep_no_parse:
  assumes "EndsWith f ''.fallback.log''" "ParseFallbackCommitArtifact (path_join (fc_artifact_dir (tk_config rt)) f) w = None"
  shows "snd (sweep_loop rt (f # fs) w r) = w" "fst (sweep_loop rt (f # fs) w r) = Inr r' \<Longrightarrow> \<not> fm_success r'"
  using assms by (auto simp: Let_def)

section \<open>The loop\<close>

lemma sweep_loop_keeps:
  assumes "\<not> finished_artifact q w" and "UsesArchivePolicy rt \<Longrightarrow> fc_archive_dir (tk_config rt) \<noteq> [] \<Longrightarrow>
      (\<And>n. q \<noteq> path_join (fc_archive_dir (tk_config rt)) n)"
  shows "fs_read q (snd (sweep_loop rt fs w r)) = fs_read q w"
  using assms(1)
proof (induction fs arbitrary: w r)
  case (Cons f fs)
  let ?p = "path_join (fc_artifact_dir (tk_config rt)) f"
  show ?case
  proof (cases "EndsWith f ''.fallback.log''")
    case True
    show ?thesis
    proof (cases "ParseFallbackCommitArtifact ?p w")
      case (Some a)
      have other: "fs_read q (snd (ApplyTerminalFallbackArtifactPolicy rt ?p (policy_for rt ph) w)) = fs_read q w"
        if "IsTerminalFallbackPhase (fa_phase a)" for ph
      proof (rule policy_other)
        show "q \<noteq> ?p" using Cons.prems Some that by (auto simp: finished_artifact_def)
      qed (use assms(2) in \<open>simp add: policy_for_def UsesArchivePolicy_def split: if_splits\<close>)
      show ?thesis
      proof (rule sweep_turn [OF True refl Some, of fs r])
        fix r' assume "IsTerminalFallbackPhase (fa_phase a)"
          and turn: "sweep_loop rt (f # fs) w r =
            sweep_loop rt fs (snd (ApplyTerminalFallbackArtifactPolicy rt ?p (policy_for rt (fa_phase a)) w)) r'"
        then show ?thesis unfolding turn using Cons other finished_same [OF other] by simp
      qed (use Cons other in simp_all)
    qed (use True in \<open>simp add: sweep_no_parse\<close>)
  qed (use Cons in simp)
qed simp

lemma path_join_eq: "path_join d f = path_join d g \<longleftrightarrow> f = g"
  by (simp add: path_join_def)

lemma sweep_loop_exact:
  assumes policy: "fc_committed_artifact_policy (tk_config rt) = PolicyDelete"
      "fc_rolled_back_artifact_policy (tk_config rt) = PolicyDelete"
    and run: "sweep_loop rt fs w r = (Inr r', w')" "fm_success r'" and f: "f \<in> set fs" "EndsWith f ''.fallback.log''"
    and p: "p = path_join (fc_artifact_dir (tk_config rt)) f"
  shows "ParseFallbackCommitArtifact p w \<noteq> None \<and>
    fs_read p w' = (if finished_artifact p w then None else fs_read p w)"
  using run f(1)
proof (induction fs arbitrary: w r)
  case (Cons g fs)
  let ?q = "path_join (fc_artifact_dir (tk_config rt)) g"
  have del: "policy_for rt ph = PolicyDelete" for ph by (simp add: policy_for_def policy)
  show ?case
  proof (cases "EndsWith g ''.fallback.log''")
    case False
    then have "g \<noteq> f" using f(2) by blast
    with False Cons show ?thesis by simp
  next
    case True
    with Cons.prems obtain a where a: "ParseFallbackCommitArtifact ?q w = Some a"
      using sweep_no_parse(2) [OF True, of rt w fs r r'] by (cases "ParseFallbackCommitArtifact ?q w") simp_all
    show ?thesis
    proof (rule sweep_turn [OF True refl a, of fs r])
      fix r1 assume pending: "\<not> IsTerminalFallbackPhase (fa_phase a)" "sweep_loop rt (g # fs) w r = sweep_loop rt fs w r1"
      show ?thesis
      proof (cases "f \<in> set fs")
        case False
        then have "g = f" using Cons.prems by simp
        then have "\<not> finished_artifact p w" using a pending(1) by (simp add: finished_artifact_def p)
        moreover from this have "fs_read p (snd (sweep_loop rt fs w r1)) = fs_read p w"
          by (rule sweep_loop_keeps) (simp_all add: UsesArchivePolicy_def policy)
        ultimately show ?thesis using a \<open>g = f\<close> pending(2) Cons.prems(1) by (simp add: p)
      qed (use Cons pending(2) in simp)
    next
      fix r1 let ?w1 = "snd (ApplyTerminalFallbackArtifactPolicy rt ?q (policy_for rt (fa_phase a)) w)"
      assume fin: "IsTerminalFallbackPhase (fa_phase a)"
        and ok: "fst (ApplyTerminalFallbackArtifactPolicy rt ?q (policy_for rt (fa_phase a)) w) = Inr True"
        and turn: "sweep_loop rt (g # fs) w r = sweep_loop rt fs ?w1 r1"
      have gone: "fs_read ?q ?w1 = None" using policy_deletes [of rt ?q w] ok by (simp add: del)
      show ?thesis
      proof (cases "f = g")
        case True
        have "\<not> finished_artifact ?q ?w1" by (simp add: finished_artifact_def ParseFallbackCommitArtifact_def gone)
        then have "fs_read ?q (snd (sweep_loop rt fs ?w1 r1)) = fs_read ?q ?w1"
          by (rule sweep_loop_keeps) (simp_all add: UsesArchivePolicy_def policy)
        then show ?thesis using True gone turn Cons.prems(1) a fin by (simp add: p finished_artifact_def)
      next
        case False
        have "fs_read p ?w1 = fs_read p w" using False by (intro policy_other) (simp_all add: p path_join_eq del)
        moreover have "ParseFallbackCommitArtifact p ?w1 \<noteq> None \<and>
            fs_read p w' = (if finished_artifact p ?w1 then None else fs_read p ?w1)"
          using Cons.prems(3) False by (intro Cons.IH [OF Cons.prems(1) [unfolded turn] Cons.prems(2)]) simp
        ultimately show ?thesis by (simp only: parse_same [of p ?w1 w] finished_same [of p ?w1 w] simp_thms)
      qed
    qed (use Cons.prems del in auto)
  qed
qed simp


section \<open>The sweep\<close>

text \<open>
  C27. The sweep keeps every artifact that is still needed. A file that does not parse to an
  artifact in a terminal phase (in particular the artifact of an interrupted commit, and every file
  of another kind) is the same after the sweep, whatever the file system calls do and wherever the
  sweep stops, unless artifacts are archived and the file is itself in the archive directory.
\<close>

theorem sweep_keeps_pending:
  assumes "\<not> finished_artifact q w" and "UsesArchivePolicy rt \<Longrightarrow> fc_archive_dir (tk_config rt) \<noteq> [] \<Longrightarrow>
      (\<And>n. q \<noteq> path_join (fc_archive_dir (tk_config rt)) n)"
  shows "fs_read q (snd (SweepTerminalFallbackArtifacts rt w)) = fs_read q w"
  using sweep_loop_keeps [OF assms] by (simp add: SweepTerminalFallbackArtifacts_def Let_def split: option.split)

definition pending_artifact :: FallbackCommitArtifact where
  "pending_artifact = default_FallbackCommitArtifact\<lparr>fa_txn_id := ''x''\<rparr>"

definition sweep_runtime :: "MemoryKVStore RuntimeCore" where
  "sweep_runtime = demo_runtime\<lparr>tk_config := default_FallbackCommitRuntimeConfig
     \<lparr>fc_artifact_dir := ''a'', fc_archive_dir := ''old'', fc_committed_artifact_policy := PolicyArchive,
      fc_rolled_back_artifact_policy := PolicyDelete\<rparr>\<rparr>"

definition sweep_disk :: "io_fault list \<Rightarrow> world" where
  "sweep_disk faults = \<lparr>files = [(''a/p.fallback.log'', fallback_artifact_text pending_artifact),
     (''a/f.fallback.log'', fallback_artifact_text (pending_artifact\<lparr>fa_phase := FbRolledBack\<rparr>))],
     dirs = [''a''], script = faults\<rparr>"

lemma sweep_disk_parses:
  "ParseFallbackCommitArtifact ''a/p.fallback.log'' (sweep_disk faults) = Some pending_artifact"
  "ParseFallbackCommitArtifact ''a/f.fallback.log'' (sweep_disk faults) = Some (pending_artifact\<lparr>fa_phase := FbRolledBack\<rparr>)"
proof -
  have "fallback_ok pending_artifact" "fallback_ok (pending_artifact\<lparr>fa_phase := FbRolledBack\<rparr>)"
    by (simp_all add: fallback_ok_def pending_artifact_def default_FallbackCommitArtifact_def)
  then show "ParseFallbackCommitArtifact ''a/p.fallback.log'' (sweep_disk faults) = Some pending_artifact"
    "ParseFallbackCommitArtifact ''a/f.fallback.log'' (sweep_disk faults) = Some (pending_artifact\<lparr>fa_phase := FbRolledBack\<rparr>)"
    by (simp_all add: ParseFallbackCommitArtifact_def sweep_disk_def fs_read_def umap_find_def parse_fallback_text_written)
qed

lemma sweep_disk_pending: "\<not> finished_artifact ''a/p.fallback.log'' (sweep_disk faults)"
  by (simp add: finished_artifact_def sweep_disk_parses)
    (simp add: pending_artifact_def default_FallbackCommitArtifact_def IsTerminalFallbackPhase_def)

theorem sweep_keeps_pending_witness:
  "fs_read ''a/p.fallback.log'' (snd (SweepTerminalFallbackArtifacts sweep_runtime (sweep_disk [OpenFault]))) =
     Some (fallback_artifact_text pending_artifact)"
proof -
  have "''a/p.fallback.log'' \<noteq> path_join (fc_archive_dir (tk_config sweep_runtime)) n" for n
    by (simp add: sweep_runtime_def path_join_def)
  from sweep_keeps_pending [OF sweep_disk_pending this, of "[OpenFault]"] show ?thesis
    by (simp add: sweep_disk_def fs_read_def umap_find_def)
qed

lemma take_drop_suffix: "take (length d + 1) (d @ c # f) = d @ [c]" "drop (length d + 1) (d @ c # f) = f"
  by simp_all

lemma listed_artifact:
  assumes "d \<in> set (dirs w)" "CHR ''/'' \<notin> set f" "fs_read (d @ ''/'' @ f) w \<noteq> None"
  obtains names where "dir_entries d w = Some names" "f \<in> set names"
proof -
  have "d @ ''/'' @ f \<in> set (map fst (files w))" using assms(3) by (simp add: fs_read_def umap_find_None)
  then have "f \<in> set (map (drop (length d + 1))
      (filter (\<lambda>p. take (length d + 1) p = d @ ''/'' \<and> CHR ''/'' \<notin> set (drop (length d + 1) p)) (map fst (files w))))"
    unfolding set_map set_filter using assms(2)
    by (intro image_eqI [of _ _ "d @ ''/'' @ f"]) (simp_all add: take_drop_suffix)
  with assms(1) that show thesis by (simp add: dir_entries_def)
qed

lemma sweep_deletes_lemma:
  assumes "fc_committed_artifact_policy (tk_config rt) = PolicyDelete"
    and "fc_rolled_back_artifact_policy (tk_config rt) = PolicyDelete"
    and "fc_artifact_dir (tk_config rt) = d" and "d \<noteq> []" and "last d \<noteq> CHR ''/''" and "d \<in> set (dirs w)"
    and "SweepTerminalFallbackArtifacts rt w = (Inr r, w')" and "fm_success r"
    and "fs_read (d @ ''/'' @ f) w \<noteq> None" and "CHR ''/'' \<notin> set f" and "EndsWith f ''.fallback.log''"
  shows "ParseFallbackCommitArtifact (d @ ''/'' @ f) w \<noteq> None \<and>
    fs_read (d @ ''/'' @ f) w' = (if finished_artifact (d @ ''/'' @ f) w then None else fs_read (d @ ''/'' @ f) w)"
proof -
  have p: "d @ ''/'' @ f = path_join (fc_artifact_dir (tk_config rt)) f" using assms(3-5) by (simp add: path_join_def)
  obtain names where names: "dir_entries d w = Some names" "f \<in> set names"
    by (rule listed_artifact [OF assms(6,10,9)])
  have "f \<noteq> ''.'' \<and> f \<noteq> ''..''" using assms(11) by (auto simp: EndsWith_iff)
  with names(2) have "f \<in> set (filter (\<lambda>f. \<not> (f = ''.'' \<or> f = ''..'')) names)" by simp
  moreover have "sweep_loop rt (filter (\<lambda>f. \<not> (f = ''.'' \<or> f = ''..'')) names) w default_FallbackArtifactMaintenanceResult = (Inr r, w')"
    using assms(7) assms(3,4) names(1) by (simp add: SweepTerminalFallbackArtifacts_def Let_def)
  ultimately show ?thesis using sweep_loop_exact [OF assms(1,2) _ assms(8) _ assms(11) p] by blast
qed

text \<open>
  A successful sweep deletes exactly the finished artifacts. When finished artifacts are to be
  deleted and the sweep reports success, every file of the artifact directory with the suffix of
  artifacts did parse; those in a terminal phase are gone and the others are unchanged.
\<close>

theorem sweep_deletes_finished:
  assumes "fc_committed_artifact_policy (tk_config rt) = PolicyDelete"
    and "fc_rolled_back_artifact_policy (tk_config rt) = PolicyDelete"
    and "fc_artifact_dir (tk_config rt) = d" and "d \<noteq> []" and "last d \<noteq> CHR ''/''" and "d \<in> set (dirs w)"
    and "SweepTerminalFallbackArtifacts rt w = (Inr r, w')" and "fm_success r"
    and "fs_read (d @ ''/'' @ f) w \<noteq> None" and "CHR ''/'' \<notin> set f" and "EndsWith f ''.fallback.log''"
  shows "ParseFallbackCommitArtifact (d @ ''/'' @ f) w \<noteq> None \<and>
    fs_read (d @ ''/'' @ f) w' = (if finished_artifact (d @ ''/'' @ f) w then None else fs_read (d @ ''/'' @ f) w)"
  by (rule sweep_deletes_lemma [OF assms])

definition delete_runtime :: "MemoryKVStore RuntimeCore" where
  "delete_runtime = demo_runtime\<lparr>tk_config := default_FallbackCommitRuntimeConfig
     \<lparr>fc_artifact_dir := ''a'', fc_committed_artifact_policy := PolicyDelete, fc_rolled_back_artifact_policy := PolicyDelete\<rparr>\<rparr>"

lemma delete_runtime_config: "fc_committed_artifact_policy (tk_config delete_runtime) = PolicyDelete"
  "fc_rolled_back_artifact_policy (tk_config delete_runtime) = PolicyDelete" "fc_artifact_dir (tk_config delete_runtime) = ''a''"
  by (simp_all add: delete_runtime_def)

lemma sweep_disk_entries: "dir_entries ''a'' (sweep_disk []) = Some [''.'', ''..'', ''p.fallback.log'', ''f.fallback.log'']"
  by (simp add: dir_entries_def sweep_disk_def)

lemma demo_sweep: "\<exists>r. SweepTerminalFallbackArtifacts delete_runtime (sweep_disk []) =
    (Inr r, fs_drop ''a/f.fallback.log'' (sweep_disk [])) \<and> fm_success r"
proof -
  have ends: "EndsWith ''p.fallback.log'' ''.fallback.log''" "EndsWith ''f.fallback.log'' ''.fallback.log''"
    by (simp_all add: EndsWith_def)
  have join: "path_join ''a'' ''p.fallback.log'' = ''a/p.fallback.log''" "path_join ''a'' ''f.fallback.log'' = ''a/f.fallback.log''"
    by (simp_all add: path_join_def)
  have phases: "\<not> IsTerminalFallbackPhase (fa_phase pending_artifact)" "IsTerminalFallbackPhase FbRolledBack"
    by (simp_all add: pending_artifact_def default_FallbackCommitArtifact_def IsTerminalFallbackPhase_def)
  have "fs_remove ''a/f.fallback.log'' (sweep_disk []) = (True, fs_drop ''a/f.fallback.log'' (sweep_disk []))"
    by (simp add: fs_remove_def next_fault_def sweep_disk_def)
  then have "ApplyTerminalFallbackArtifactPolicy delete_runtime ''a/f.fallback.log'' PolicyDelete (sweep_disk []) =
      (Inr True, fs_drop ''a/f.fallback.log'' (sweep_disk []))"
    by (simp add: ApplyTerminalFallbackArtifactPolicy_def)
  then show ?thesis
    by (simp add: SweepTerminalFallbackArtifacts_def sweep_disk_entries delete_runtime_config ends join sweep_disk_parses phases
        policy_for_def default_FallbackArtifactMaintenanceResult_def)
qed

theorem sweep_deletes_finished_witness:
  "fs_read ''a/f.fallback.log'' (snd (SweepTerminalFallbackArtifacts delete_runtime (sweep_disk []))) = None \<and>
   fs_read ''a/p.fallback.log'' (snd (SweepTerminalFallbackArtifacts delete_runtime (sweep_disk []))) =
     Some (fallback_artifact_text pending_artifact)"
proof -
  obtain r where r: "SweepTerminalFallbackArtifacts delete_runtime (sweep_disk []) = (Inr r, fs_drop ''a/f.fallback.log'' (sweep_disk []))"
    "fm_success r" using demo_sweep by blast
  have d: "''a'' \<noteq> ([] :: string)" "last ''a'' \<noteq> CHR ''/''" "''a'' \<in> set (dirs (sweep_disk []))" by (simp_all add: sweep_disk_def)
  have f: "fs_read (''a'' @ ''/'' @ ''f.fallback.log'') (sweep_disk []) \<noteq> None" "CHR ''/'' \<notin> set ''f.fallback.log''"
    "EndsWith ''f.fallback.log'' ''.fallback.log''" by (simp_all add: sweep_disk_def fs_read_def umap_find_def EndsWith_def)
  have g: "fs_read (''a'' @ ''/'' @ ''p.fallback.log'') (sweep_disk []) \<noteq> None" "CHR ''/'' \<notin> set ''p.fallback.log''"
    "EndsWith ''p.fallback.log'' ''.fallback.log''" by (simp_all add: sweep_disk_def fs_read_def umap_find_def EndsWith_def)
  have "finished_artifact ''a/f.fallback.log'' (sweep_disk [])"
    by (simp add: finished_artifact_def sweep_disk_parses IsTerminalFallbackPhase_def)
  then show ?thesis
    using sweep_deletes_finished [OF delete_runtime_config d r f] sweep_deletes_finished [OF delete_runtime_config d r g]
      sweep_disk_pending [of "[]"]
    by (simp add: r(1)) (simp add: sweep_disk_def fs_read_def umap_find_def)
qed

end
