(* ===== verification/Demo_Semantics.thy ===== *)
theory Demo_Semantics
  imports Task_Sweep
begin

text \<open>
  Two demonstration programs of \<open>examples/\<close> about semantic concurrency control. In both a task
  reads an object and writes it while another client changes the object before the commit:
  \<open>semantic_contention_demo.cc\<close> does it in rounds with overwrites and with deltas,
  \<open>semantic_concurrency_demo.cc\<close> once per intent type.
\<close>

section \<open>A branch that reads an object and writes it\<close>

definition rmw_ops :: "string \<Rightarrow> string \<Rightarrow> ObjectType \<Rightarrow> WriteIntent \<Rightarrow> double \<Rightarrow> string \<Rightarrow> TaskOp list" where
  "rmw_ops b k t i d m = [DoRead b k, DoWrite b k t i, DoStage b d m]"

definition rmw_branch :: "view \<Rightarrow> string \<Rightarrow> string \<Rightarrow> ObjectType \<Rightarrow> WriteIntent \<Rightarrow> double \<Rightarrow> string \<Rightarrow> BranchContext" where
  "rmw_branch V b k t i d m =
     bm_StageBranch d m (bm_BufferWrite k t i V (snd (bm_ReadObject k V (new_BranchContext b))))"

definition rmw_entry :: "view \<Rightarrow> string \<Rightarrow> string \<Rightarrow> ObjectType \<Rightarrow> WriteIntent \<Rightarrow> ObjectCacheEntry" where
  "rmw_entry V b k t i = buffered_entry k t i V (snd (bm_ReadObject k V (new_BranchContext b)))"

lemma rmw_read:
  "branch_inv (snd (bm_ReadObject k V (new_BranchContext b)))"
  "bc_write_buffer (snd (bm_ReadObject k V (new_BranchContext b))) = empty_WriteBuffer"
  "bc_intent_log (snd (bm_ReadObject k V (new_BranchContext b))) = []"
  "bc_read_set (snd (bm_ReadObject k V (new_BranchContext b))) = [\<lparr>rd_object_id = k, rd_observed_version = vv_version (V k)\<rparr>]"
  by (simp_all add: branch_inv_Read bm_ReadObject_frame)
    (simp_all add: new_BranchContext_def bm_ReadObject_def Let_def wb_Find_def empty_WriteBuffer_def rs_Record_def)

lemma rmw_facts:
  fixes V b k t i d m
  defines "x \<equiv> rmw_branch V b k t i d m"
  assumes i: "wi_object_id i = k" "wi_intent_type i \<noteq> kRead"
  shows "writes_key x q \<longleftrightarrow> q = k"
    "committed_value x W k = rr_value (ResolveWrite (rmw_entry V b k t i) i (vv_value (W k)))"
    "commit_possible x W \<longleftrightarrow> (UsesSemanticRebase (wi_intent_type i) \<or> vv_version (W k) = vv_version (V k)) \<and>
       rr_success (ResolveWrite (rmw_entry V b k t i) i (vv_value (W k)))"
    "cr_score (bc_candidate_result x) = d" "bc_branch_id x = b"
proof -
  note f = written_facts [OF rmw_read(1-3) i(1) rmw_branch_def, folded rmw_entry_def]
  have k: "buffered_keys x = {k}" "latest_intent (bc_intent_log x) q = (if q = k then Some i else None)"
      "wb_Find (bc_write_buffer x) k = Some (rmw_entry V b k t i)"
      "bc_read_set x = [\<lparr>rd_object_id = k, rd_observed_version = vv_version (V k)\<rparr>]" for q
    by (simp_all add: x_def f rmw_read(4))
  show "writes_key x q \<longleftrightarrow> q = k" "committed_value x W k = rr_value (ResolveWrite (rmw_entry V b k t i) i (vv_value (W k)))"
    using i(2) by (auto simp: writes_key_def committed_value_def k)
  have "ce_base_version (rmw_entry V b k t i) = vv_version (V k)"
    by (simp add: rmw_entry_def buffered_entry_frame [OF rmw_read(1)] wb_Find_def rmw_read(2) empty_WriteBuffer_def)
  then have "base_version_of x k = vv_version (V k)" by (simp add: base_version_of_def k)
  then show "commit_possible x W \<longleftrightarrow> (UsesSemanticRebase (wi_intent_type i) \<or> vv_version (W k) = vv_version (V k)) \<and>
       rr_success (ResolveWrite (rmw_entry V b k t i) i (vv_value (W k)))"
    using i(2) by (auto simp: commit_possible_def versions_ok_def writes_resolve_def reads_agree_def writes_key_def rebased_key_def k)
  show "cr_score (bc_candidate_result x) = d" "bc_branch_id x = b" by (simp_all add: x_def f bm_ReadObject_frame)
qed

lemma rmw_entry_values:
  "wi_intent_type i = kAppend \<Longrightarrow> ce_current_value (rmw_entry V b k t i) = ce_base_value (rmw_entry V b k t i) @ wi_payload i"
  "ce_base_value (rmw_entry V b k t i) = vv_value (V k)"
  "wi_intent_type i = kDelta \<Longrightarrow> ParseInt (vv_value (V k)) = Some n \<Longrightarrow> ParseInt (wi_payload i) = Some d \<Longrightarrow>
     ce_current_value (rmw_entry V b k t i) = int_dec (ll_wrap (n + d))"
  "wi_intent_type i \<in> {kOverwrite, kCas} \<Longrightarrow> ce_current_value (rmw_entry V b k t i) = wi_payload i"
  by (auto simp: rmw_entry_def buffered_entry_frame [OF rmw_read(1)] wb_Find_def rmw_read(2) empty_WriteBuffer_def
      Let_def intent_value_def fresh_entry_def)

lemma rmw_session:
  assumes "ep_branch_plans plan = [p]" and "bp_branch_id p = b"
  shows "tx_branches (ts_txn (fold (task_op rt st) (rmw_ops b k t i d m) (submitted rt task plan))) =
    [rmw_branch (kv_Get (tk_store rt) (fst st)) b k t i d m]"
  by (simp add: assms rmw_ops_def task_op_txn submitted_def on_branch_def bm_FindBranch_def bm_ReadObject_frame
      bm_BufferWrite_frame Stage_id rmw_branch_def del: task_op.simps)

lemma rmw_read_value:
  assumes "ep_branch_plans plan = [p]" and "bp_branch_id p = b"
  shows "rd_value (fst (rt_Read rt b k st (submitted rt task plan))) = vv_value (kv_Get (tk_store rt) (fst st) k)"
proof -
  have "tx_branches (ts_txn (submitted rt task plan)) = [new_BranchContext b]" by (simp add: submitted_def assms)
  then show ?thesis
    by (simp add: rt_Read_def txn_Read_def bm_FindBranch_def split_beta bm_ReadObject_value branch_value_def)
qed

text \<open>The commit of such a task, after the store may have changed.\<close>

lemma rmw_commit:
  assumes v: "task_Validate task = Inr ()" "plan_Validate plan = Inr ()"
    and p: "ep_branch_plans plan = [p]" "bp_branch_id p = b"
    and s: "s = fold (task_op rt st) (rmw_ops b k t i (DFin d) m) (submitted rt task plan)"
    and kv: "batch_store (tk_store rt) ok_state" and st1: "ok_state st1"
    and i: "wi_object_id i = k" "wi_intent_type i \<noteq> kRead"
    and x: "x = rmw_branch (kv_Get (tk_store rt) (fst st)) b k t i (DFin d) m" and V: "V1 = kv_Get (tk_store rt) (fst st1)"
  shows "\<exists>s' st'. rt_CommitTask rt s st1 = (Inr (commit_possible x V1), s', st') \<and> ok_state st' \<and>
    tx_status (ts_txn s') = (if commit_possible x V1 then TxnCommitted else TxnAborted) \<and>
    kv_Get (tk_store rt) (fst st') = (if commit_possible x V1 then view_put k (committed_value x V1 k) V1 else V1)"
proof -
  have ok: "session_ok rt s" unfolding s using v by (intro session_ok_run submitted_ok)
  have bs: "tx_branches (ts_txn s) = [x]" unfolding s x by (rule rmw_session [OF p])
  have "\<forall>b \<in> set (tx_branches (ts_txn s)). cr_score (bc_candidate_result b) \<noteq> DNaN"
    by (simp add: bs x rmw_facts(4) [OF i])
  moreover have "plan_Validate (ts_plan s) = Inr ()" "txn_ok rt (tc_task_id (ts_task s)) (ts_plan s) (ts_txn s)"
    using ok by (simp_all add: session_ok_def)
  ultimately obtain c txn' st' where r: "rt_CommitTask rt s st1 =
      (Inr c, s\<lparr>ts_task := (ts_task s)\<lparr>tc_phase := if c then TaskCommitted else TaskAborted\<rparr>, ts_txn := txn',
         ts_commit_attempts := ts_commit_attempts s + 1, ts_committed := c,
         ts_events := ts_events s @ ended_events s c txn'\<rparr>, st')" "ok_state st'"
      "outcome_of [x] (best_branch [x]) V1 c txn' (kv_Get (tk_store rt) (fst st'))"
    using commit_outcome [OF _ _ kv st1, of s] unfolding bs V by blast
  have "best_branch [x] = x" by (simp add: best_branch_def)
  note o = r(3) [unfolded this outcome_of_def]
  have "commit_view x V1 = view_put k (committed_value x V1 k) V1"
    by (auto simp: commit_view_def view_put_def x rmw_facts(1) [OF i])
  with o r(1,2) show ?thesis by (auto split: if_splits)
qed

section \<open>semantic\_concurrency\_demo.cc\<close>

definition BuildSingleBranchScript :: "string \<Rightarrow> string \<Rightarrow> KvStep list \<Rightarrow> KvTaskScript" where
  "BuildSingleBranchScript task_id objective steps =
     \<lparr>kt_task_id = task_id, kt_objective = objective,
      kt_branches = [\<lparr>kb_branch_id = ''branch_semantic'', kb_score = DFin 100, kb_summary = ''semantic winner'',
        kb_steps = steps\<rparr>],
      kt_recovery_steps = [], kt_recovery_score = DFin 0, kt_recovery_summary = [], kt_recovery_preferred_branch_id = []\<rparr>"

definition run_mutated_step :: "'s RuntimeCore \<Rightarrow> 's sys \<Rightarrow> string \<Rightarrow> KvStep \<Rightarrow> TaskSession \<Rightarrow> TaskSession" where
  "run_mutated_step rt st branch_id step session =
     (case ks_kind step of
        StepRead \<Rightarrow> snd (rt_Read rt branch_id (ks_object_id step) st session)
      | StepWrite \<Rightarrow> rt_Write rt branch_id (ks_object_id step) (ks_object_type step) (ks_intent step) st session
      | _ \<Rightarrow> session)"

text \<open>The script has at least one branch in every call (\<open>front()\<close> is undefined otherwise).\<close>

definition RunMutatedCommit ::
    "'s RuntimeCore \<Rightarrow> KvTaskScript \<Rightarrow> string \<Rightarrow> ('s sys \<Rightarrow> 's sys) \<Rightarrow> 's sys \<Rightarrow> (exn + TaskSession) \<times> 's sys" where
  "RunMutatedCommit rt program branch_id mutate_store st =
     (case SubmitTask rt (kv_BuildTaskContext program) (kv_BuildExecutionPlan program) of
        Inl e \<Rightarrow> (Inl e, st)
      | Inr session \<Rightarrow>
          (let front = hd (kt_branches program);
               session = fold (run_mutated_step rt st branch_id) (kb_steps front) session;
               session = rt_StageBranch branch_id (kb_score front) (kb_summary front) session;
               st = mutate_store st in
           case rt_CommitTask rt session st of
             (Inl e, _, st) \<Rightarrow> (Inl e, st)
           | (Inr _, session, st) \<Rightarrow> (Inr session, st)))"

text \<open>
  The specification: the value that a write of type \<open>ty\<close> with payload \<open>p\<close> leaves after another
  client has put \<open>v\<close>, or nothing when the task aborts.
\<close>

definition concurrent_result :: "IntentType \<Rightarrow> string \<Rightarrow> Condition \<Rightarrow> string \<Rightarrow> string option" where
  "concurrent_result ty p cond v =
     (case ty of
        kAppend \<Rightarrow> Some (v @ p)
      | kDelta \<Rightarrow>
          (case (ParseInt v, ParseInt p) of (Some c, Some d) \<Rightarrow> Some (int_dec (ll_wrap (c + d))) | _ \<Rightarrow> None)
      | kCas \<Rightarrow> (if cond_type cond = kValueEquals \<and> v \<noteq> cond_expected_value cond then None else Some p)
      | _ \<Rightarrow> None)"

lemma rmw_resolve:
  assumes i: "wi_intent_type i = ty" "wi_payload i = p" "wi_condition i = cond" and ty: "ty \<in> {kAppend, kDelta, kCas}"
    and num: "ty = kDelta \<Longrightarrow> ParseInt (vv_value (V k)) \<noteq> None \<and> ParseInt p \<noteq> None"
  shows "rr_success (ResolveWrite (rmw_entry V b k t i) i v) \<longleftrightarrow> concurrent_result ty p cond v \<noteq> None"
    "concurrent_result ty p cond v = Some u \<Longrightarrow> rr_value (ResolveWrite (rmw_entry V b k t i) i v) = u"
proof -
  let ?e = "rmw_entry V b k t i"
  have "rr_success (ResolveWrite ?e i v) \<longleftrightarrow> concurrent_result ty p cond v \<noteq> None" and
    "concurrent_result ty p cond v = Some u \<longrightarrow> rr_value (ResolveWrite ?e i v) = u" if "ty = kAppend"
    using that by (simp_all add: ResolveWrite_append [OF _ rmw_entry_values(1)] i concurrent_result_def)
  moreover have "rr_success (ResolveWrite ?e i v) \<longleftrightarrow> concurrent_result ty p cond v \<noteq> None" and
    "concurrent_result ty p cond v = Some u \<longrightarrow> rr_value (ResolveWrite ?e i v) = u" if "ty = kCas"
    using that rmw_entry_values(4) [of i V b k t]
    by (simp_all add: ResolveWrite_def Let_def default_ResolveResult_def i concurrent_result_def)
  moreover have "rr_success (ResolveWrite ?e i v) \<longleftrightarrow> concurrent_result ty p cond v \<noteq> None" and
    "concurrent_result ty p cond v = Some u \<longrightarrow> rr_value (ResolveWrite ?e i v) = u" if delta: "ty = kDelta"
  proof -
    obtain n d where n: "ParseInt (vv_value (V k)) = Some n" "ParseInt p = Some d" using num delta by blast
    then have e: "ParseInt (ce_base_value ?e) = Some n" "ParseInt (ce_current_value ?e) = Some (ll_wrap (n + d))"
      using rmw_entry_values(2,3) delta i by simp_all
    show "rr_success (ResolveWrite ?e i v) \<longleftrightarrow> concurrent_result ty p cond v \<noteq> None"
      "concurrent_result ty p cond v = Some u \<longrightarrow> rr_value (ResolveWrite ?e i v) = u"
      using delta n
      by (cases "ParseInt v"; simp add: ResolveWrite_delta [OF _ _ e] i concurrent_result_def ll_wrap_rebase;
          simp add: ResolveWrite_def Let_def default_ResolveResult_def i)+
  qed
  ultimately show "rr_success (ResolveWrite ?e i v) \<longleftrightarrow> concurrent_result ty p cond v \<noteq> None"
    "concurrent_result ty p cond v = Some u \<Longrightarrow> rr_value (ResolveWrite ?e i v) = u" using ty by blast+
qed

text \<open>The commit after another client has put \<open>v\<close>.\<close>

lemma rmw_concurrent:
  assumes v: "task_Validate task = Inr ()" "plan_Validate plan = Inr ()"
    and p: "ep_branch_plans plan = [p']" "bp_branch_id p' = b"
    and s: "s = fold (task_op rt st) (rmw_ops b k t i (DFin d) m) (submitted rt task plan)"
    and kv: "batch_store (tk_store rt) ok_state" and st: "ok_state st" and V: "V = kv_Get (tk_store rt) (fst st)"
    and i: "wi_object_id i = k" "wi_intent_type i = ty" "wi_payload i = p" "wi_condition i = cond"
    and ty: "ty \<in> {kOverwrite, kAppend, kDelta, kCas}"
    and num: "ty = kDelta \<Longrightarrow> ParseInt (vv_value (V k)) \<noteq> None \<and> ParseInt p \<noteq> None"
  shows "\<exists>s' st'. rt_CommitTask rt s (snd (kv_Put (tk_store rt) k v st)) = (Inr (concurrent_result ty p cond v \<noteq> None), s', st') \<and>
    ok_state st' \<and> tx_status (ts_txn s') = (if concurrent_result ty p cond v = None then TxnAborted else TxnCommitted) \<and>
    kv_Get (tk_store rt) (fst st') =
      (case concurrent_result ty p cond v of None \<Rightarrow> view_put k v V | Some u \<Rightarrow> view_put k u (view_put k v V))"
proof -
  let ?st1 = "snd (kv_Put (tk_store rt) k v st)" and ?x = "rmw_branch V b k t i (DFin d) m"
  note vs = batch_store.axioms(1) [OF kv]
  have V1: "kv_Get (tk_store rt) (fst ?st1) = view_put k v V" "ok_state ?st1"
    using st by (simp_all add: versioned_store.put_view [OF vs] versioned_store.put_inv [OF vs] V)
  have nr: "wi_intent_type i \<noteq> kRead" using ty i(2) by auto
  note f = rmw_facts [OF i(1) nr]
  have poss: "commit_possible ?x (view_put k v V) \<longleftrightarrow> concurrent_result ty p cond v \<noteq> None"
  proof (cases "ty = kOverwrite")
    case True
    then show ?thesis by (simp add: f(3) i(2) UsesSemanticRebase_def view_put_def concurrent_result_def)
  next
    case False
    then have ty': "ty \<in> {kAppend, kDelta, kCas}" using ty by blast
    then have "UsesSemanticRebase ty" by (auto simp: UsesSemanticRebase_def)
    then show ?thesis using rmw_resolve(1) [where V = V and k = k, OF i(2-4) ty' num] by (simp add: f(3) i(2) view_put_def)
  qed
  have val: "committed_value ?x (view_put k v V) k = u" if "concurrent_result ty p cond v = Some u" for u
  proof -
    have "ty \<noteq> kOverwrite" using that by (auto simp: concurrent_result_def)
    then have "ty \<in> {kAppend, kDelta, kCas}" using ty by blast
    from rmw_resolve(2) [where V = V and k = k, OF i(2-4) this num that] show ?thesis by (simp add: f(2) view_put_def)
  qed
  show ?thesis
    using rmw_commit [OF v p s kv V1(2) i(1) nr refl refl] val
    unfolding V [symmetric] V1(1) poss by (cases "concurrent_result ty p cond v") auto
qed

text \<open>One of the four blocks of \<open>main\<close>: what it seeds, runs and prints.\<close>

record SemanticCase =
  sc_name :: string
  sc_key :: string
  sc_seed :: string
  sc_program :: KvTaskScript
  sc_external :: string

definition bool_text :: "bool \<Rightarrow> string" where
  "bool_text b = (if b then ''1'' else ''0'')"

definition run_semantic_case :: "'s RuntimeCore \<Rightarrow> SemanticCase \<Rightarrow> 's sys \<Rightarrow> (exn + string list) \<times> 's sys" where
  "run_semantic_case rt c st =
     (let (_, st) = kv_Put (tk_store rt) (sc_key c) (sc_seed c) st in
      case RunMutatedCommit rt (sc_program c) ''branch_semantic''
             (\<lambda>st. snd (kv_Put (tk_store rt) (sc_key c) (sc_external c) st)) st of
        (Inl e, st) \<Rightarrow> (Inl e, st)
      | (Inr session, st) \<Rightarrow>
          (Inr [sc_name c @ ''_committed='' @ bool_text (tx_status (ts_txn session) = TxnCommitted),
                sc_name c @ ''_value='' @ vv_value (kv_Get (tk_store rt) (fst st) (sc_key c)),
                sc_name c @ ''_reason='' @ vr_reason (tx_validation_result (ts_txn session))], st))"

fun run_semantic_cases :: "'s RuntimeCore \<Rightarrow> SemanticCase list \<Rightarrow> 's sys \<Rightarrow> (exn + string list) \<times> 's sys" where
  "run_semantic_cases rt [] st = (Inr [], st)"
| "run_semantic_cases rt (c # cs) st =
     (case run_semantic_case rt c st of
        (Inl e, st) \<Rightarrow> (Inl e, st)
      | (Inr out, st) \<Rightarrow>
          (case run_semantic_cases rt cs st of
             (Inl e, st) \<Rightarrow> (Inl e, st)
           | (Inr outs, st) \<Rightarrow> (Inr (out @ outs), st)))"

definition append_case :: SemanticCase where
  "append_case =
     \<lparr>sc_name = ''append'', sc_key = ''text:append:1'', sc_seed = ''draft'',
      sc_program = BuildSingleBranchScript ''semantic_append'' ''append after concurrent update''
        [MakeReadStep ''text:append:1'', MakeWriteStep ''text:append:1'' kText kAppend ''::agent'' no_condition],
      sc_external = ''draft::external''\<rparr>"

definition delta_case :: SemanticCase where
  "delta_case =
     \<lparr>sc_name = ''delta'', sc_key = ''counter:delta:1'', sc_seed = ''10'',
      sc_program = BuildSingleBranchScript ''semantic_delta'' ''delta after concurrent update''
        [MakeReadStep ''counter:delta:1'', MakeWriteStep ''counter:delta:1'' kRow kDelta ''5'' no_condition],
      sc_external = ''12''\<rparr>"

definition cas_success_case :: SemanticCase where
  "cas_success_case =
     \<lparr>sc_name = ''cas_success'', sc_key = ''state:cas:1'', sc_seed = ''pending'',
      sc_program = BuildSingleBranchScript ''semantic_cas_success'' ''cas success after unrelated refresh''
        [MakeReadStep ''state:cas:1'', MakeWriteStep ''state:cas:1'' kGeneric kCas ''confirmed''
           \<lparr>cond_type = kValueEquals, cond_expected_value = ''pending''\<rparr>],
      sc_external = ''pending''\<rparr>"

definition cas_fail_case :: SemanticCase where
  "cas_fail_case =
     \<lparr>sc_name = ''cas_fail'', sc_key = ''state:cas:2'', sc_seed = ''pending'',
      sc_program = BuildSingleBranchScript ''semantic_cas_fail'' ''cas fail when condition no longer holds''
        [MakeReadStep ''state:cas:2'', MakeWriteStep ''state:cas:2'' kGeneric kCas ''confirmed''
           \<lparr>cond_type = kValueEquals, cond_expected_value = ''pending''\<rparr>],
      sc_external = ''cancelled''\<rparr>"

definition semantic_cases :: "SemanticCase list" where
  "semantic_cases = [append_case, delta_case, cas_success_case, cas_fail_case]"

text \<open>A new in-memory store and a runtime on it; the error message of the file system never appears.\<close>

definition memory_runtime :: "string \<Rightarrow> MemoryKVStore RuntimeCore" where
  "memory_runtime error_message =
     \<lparr>tk_store = memory_store, tk_config = default_FallbackCommitRuntimeConfig, tk_error_message = error_message\<rparr>"

definition semantic_concurrency_main :: "string \<Rightarrow> world \<Rightarrow> (exn + string) \<times> MemoryKVStore sys" where
  "semantic_concurrency_main error_message w =
     (case run_semantic_cases (memory_runtime error_message) semantic_cases ([], w) of
        (Inl e, st) \<Rightarrow> (Inl e, st)
      | (Inr out, st) \<Rightarrow> (Inr (put_lines out), st))"


section \<open>A concurrent update of the object\<close>

lemma rmw_script_run:
  assumes "task_id \<noteq> []" "objective \<noteq> []"
    and prog: "program = BuildSingleBranchScript task_id objective [MakeReadStep k, MakeWriteStep k t ty p cond]"
  obtains s0 where "SubmitTask rt (kv_BuildTaskContext program) (kv_BuildExecutionPlan program) = Inr s0"
    "RunMutatedCommit rt program ''branch_semantic'' f st =
       (case rt_CommitTask rt (fold (task_op rt st) (rmw_ops ''branch_semantic'' k t
            \<lparr>wi_object_id = k, wi_intent_type = ty, wi_payload = p, wi_condition = cond\<rparr> (DFin 100) ''semantic winner'') s0) (f st) of
          (Inl e, _, st) \<Rightarrow> (Inl e, st) | (Inr _, session, st) \<Rightarrow> (Inr session, st))"
    "s0 = submitted rt (kv_BuildTaskContext program) (kv_BuildExecutionPlan program)"
proof -
  have "script_valid program" using assms(1,2) by (simp add: prog BuildSingleBranchScript_def script_valid_def)
  note sub = kv_Submit [OF this, of rt]
  let ?i = "\<lparr>wi_object_id = k, wi_intent_type = ty, wi_payload = p, wi_condition = cond\<rparr>"
  have front: "kb_steps (hd (kt_branches program)) = [MakeReadStep k, MakeWriteStep k t ty p cond]"
      "kb_score (hd (kt_branches program)) = DFin 100" "kb_summary (hd (kt_branches program)) = ''semantic winner''"
    by (simp_all add: prog BuildSingleBranchScript_def)
  have "rt_StageBranch b (DFin 100) m (fold (run_mutated_step rt st b) [MakeReadStep k, MakeWriteStep k t ty p cond] s) =
      fold (task_op rt st) (rmw_ops b k t ?i (DFin 100) m) s" for b m s
    by (simp add: rmw_ops_def run_mutated_step_def MakeReadStep_def MakeWriteStep_def default_KvStep_def)
  then show thesis using sub by (intro that [OF sub _ refl]) (simp only: RunMutatedCommit_def sub front Let_def sum.case)
qed

lemma concurrent_update_lemma:
  assumes "batch_store (tk_store rt) ok_state" and "ok_state st" and "task_id \<noteq> []" and "objective \<noteq> []"
    and "ty \<in> {kOverwrite, kAppend, kDelta, kCas}" and "V = kv_Get (tk_store rt) (fst st)"
    and "ty = kDelta \<Longrightarrow> ParseInt (vv_value (V k)) \<noteq> None \<and> ParseInt p \<noteq> None"
  shows "\<exists>session st'. RunMutatedCommit rt (BuildSingleBranchScript task_id objective
        [MakeReadStep k, MakeWriteStep k t ty p cond]) ''branch_semantic'' (\<lambda>st. snd (kv_Put (tk_store rt) k v st)) st =
      (Inr session, st') \<and> ok_state st' \<and>
    tx_status (ts_txn session) = (if concurrent_result ty p cond v = None then TxnAborted else TxnCommitted) \<and>
    kv_Get (tk_store rt) (fst st') =
      (case concurrent_result ty p cond v of None \<Rightarrow> view_put k v V | Some u \<Rightarrow> view_put k u (view_put k v V))"
proof -
  let ?program = "BuildSingleBranchScript task_id objective [MakeReadStep k, MakeWriteStep k t ty p cond]"
  let ?i = "\<lparr>wi_object_id = k, wi_intent_type = ty, wi_payload = p, wi_condition = cond\<rparr>"
  obtain s0 where s0: "SubmitTask rt (kv_BuildTaskContext ?program) (kv_BuildExecutionPlan ?program) = Inr s0"
      "RunMutatedCommit rt ?program ''branch_semantic'' (\<lambda>st. snd (kv_Put (tk_store rt) k v st)) st =
       (case rt_CommitTask rt (fold (task_op rt st) (rmw_ops ''branch_semantic'' k t ?i (DFin 100) ''semantic winner'') s0)
            (snd (kv_Put (tk_store rt) k v st)) of
          (Inl e, _, st) \<Rightarrow> (Inl e, st) | (Inr _, session, st) \<Rightarrow> (Inr session, st))"
      "s0 = submitted rt (kv_BuildTaskContext ?program) (kv_BuildExecutionPlan ?program)"
    by (rule rmw_script_run [OF assms(3,4) refl])
  have valid: "task_Validate (kv_BuildTaskContext ?program) = Inr ()" "plan_Validate (kv_BuildExecutionPlan ?program) = Inr ()"
    using s0(1) by (simp_all add: SubmitTask_iff)
  have plan: "ep_branch_plans (kv_BuildExecutionPlan ?program) = [\<lparr>bp_branch_id = ''branch_semantic'',
      bp_candidate_id = ''branch_semantic_candidate'', bp_rationale = ''scripted kv branch'', bp_initial_priority = DFin 100\<rparr>]"
    by (simp add: kv_plan_branches BuildSingleBranchScript_def)
  have sel: "wi_object_id ?i = k" "wi_intent_type ?i = ty" "wi_payload ?i = p" "wi_condition ?i = cond" by simp_all
  have b: "bp_branch_id \<lparr>bp_branch_id = ''branch_semantic'', bp_candidate_id = ''branch_semantic_candidate'',
      bp_rationale = ''scripted kv branch'', bp_initial_priority = DFin 100\<rparr> = ''branch_semantic''" by simp
  let ?s = "fold (task_op rt st) (rmw_ops ''branch_semantic'' k t ?i (DFin 100) ''semantic winner'')"
  have s: "?s s0 = ?s (submitted rt (kv_BuildTaskContext ?program) (kv_BuildExecutionPlan ?program))" by (simp only: s0(3))
  obtain s' st' where "rt_CommitTask rt (?s s0) (snd (kv_Put (tk_store rt) k v st)) = (Inr (concurrent_result ty p cond v \<noteq> None), s', st')"
      "ok_state st'" "tx_status (ts_txn s') = (if concurrent_result ty p cond v = None then TxnAborted else TxnCommitted)"
      "kv_Get (tk_store rt) (fst st') =
        (case concurrent_result ty p cond v of None \<Rightarrow> view_put k v V | Some u \<Rightarrow> view_put k u (view_put k v V))"
    using rmw_concurrent [OF valid plan b s assms(1,2,6) sel assms(5,7)] by blast
  then show ?thesis unfolding s0(2) by simp
qed

lemma semantic_case_outcome:
  assumes kv: "batch_store (tk_store rt) ok_state" and st: "ok_state st" and "task_id \<noteq> []" and "objective \<noteq> []"
    and ty: "ty \<in> {kOverwrite, kAppend, kDelta, kCas}" "ty = kDelta \<Longrightarrow> ParseInt (sc_seed c) \<noteq> None \<and> ParseInt p \<noteq> None"
    and prog: "sc_program c = BuildSingleBranchScript task_id objective [MakeReadStep (sc_key c), MakeWriteStep (sc_key c) t ty p cond]"
    and r: "concurrent_result ty p cond (sc_external c) = r"
  shows "\<exists>reason st'. run_semantic_case rt c st = (Inr [sc_name c @ ''_committed='' @ bool_text (r \<noteq> None),
      sc_name c @ ''_value='' @ (case r of None \<Rightarrow> sc_external c | Some u \<Rightarrow> u), sc_name c @ ''_reason='' @ reason], st') \<and> ok_state st'"
proof -
  let ?st = "snd (kv_Put (tk_store rt) (sc_key c) (sc_seed c) st)"
  note vs = batch_store.axioms(1) [OF kv]
  have ok: "ok_state ?st" and V: "vv_value (kv_Get (tk_store rt) (fst ?st) (sc_key c)) = sc_seed c"
    using st by (simp_all add: versioned_store.put_inv [OF vs] versioned_store.put_view [OF vs] view_put_def)
  obtain session st' where "RunMutatedCommit rt (sc_program c) ''branch_semantic''
        (\<lambda>st. snd (kv_Put (tk_store rt) (sc_key c) (sc_external c) st)) ?st = (Inr session, st')" "ok_state st'"
      "tx_status (ts_txn session) = (if r = None then TxnAborted else TxnCommitted)"
      "kv_Get (tk_store rt) (fst st') = (case r of None \<Rightarrow> view_put (sc_key c) (sc_external c) (kv_Get (tk_store rt) (fst ?st))
         | Some u \<Rightarrow> view_put (sc_key c) u (view_put (sc_key c) (sc_external c) (kv_Get (tk_store rt) (fst ?st))))"
    using concurrent_update_lemma [where v = "sc_external c" and t = t and cond = cond and p = p and k = "sc_key c",
        OF kv ok assms(3,4) ty(1) refl] ty(2)
    unfolding r prog V by blast
  then show ?thesis
    by (intro exI [of _ "vr_reason (tx_validation_result (ts_txn session))"] exI [of _ st'])
      (auto simp: run_semantic_case_def split_beta Let_def view_put_def split: option.split)
qed

text \<open>
  C29. What a concurrent update does to a task. A task reads an object of a store with atomic
  batches and writes it with an overwrite, an append, a delta or a compare-and-set; before it
  commits, another client puts \<open>v\<close> into the object. The run never throws, no other object changes,
  and by the type of the write: the overwrite aborts and \<open>v\<close> stays; the append commits \<open>v\<close> extended
  by its payload; the delta commits the number \<open>v\<close> plus the payload, and aborts when \<open>v\<close> is no
  number; the compare-and-set commits its payload exactly when its condition holds for \<open>v\<close>.
\<close>

theorem concurrent_update_outcome:
  assumes "batch_store (tk_store rt) ok_state" and "ok_state st" and "task_id \<noteq> []" and "objective \<noteq> []"
    and "ty \<in> {kOverwrite, kAppend, kDelta, kCas}" and "V = kv_Get (tk_store rt) (fst st)"
    and "ty = kDelta \<Longrightarrow> ParseInt (vv_value (V k)) \<noteq> None \<and> ParseInt p \<noteq> None"
  shows "\<exists>session st'. RunMutatedCommit rt (BuildSingleBranchScript task_id objective
        [MakeReadStep k, MakeWriteStep k t ty p cond]) ''branch_semantic'' (\<lambda>st. snd (kv_Put (tk_store rt) k v st)) st =
      (Inr session, st') \<and> ok_state st' \<and>
    tx_status (ts_txn session) = (if concurrent_result ty p cond v = None then TxnAborted else TxnCommitted) \<and>
    kv_Get (tk_store rt) (fst st') =
      (case concurrent_result ty p cond v of None \<Rightarrow> view_put k v V | Some u \<Rightarrow> view_put k u (view_put k v V))"
  by (rule concurrent_update_lemma [OF assms])

theorem concurrent_update_outcome_witness:
  "(\<exists>session st'. RunMutatedCommit (memory_runtime []) (BuildSingleBranchScript ''t'' ''o''
        [MakeReadStep ''k'', MakeWriteStep ''k'' kRow kDelta ''5'' no_condition]) ''branch_semantic''
        (\<lambda>st. snd (kv_Put (tk_store (memory_runtime [])) ''k'' ''12'' st))
        (snd (mem_Put ''k'' ''10'' ([], calm))) = (Inr session, st') \<and>
      tx_status (ts_txn session) = TxnCommitted \<and> vv_value (mem_Get (fst st') ''k'') = ''17'') \<and>
   concurrent_result kCas ''x'' \<lparr>cond_type = kValueEquals, cond_expected_value = ''y''\<rparr> ''z'' = None"
proof -
  let ?st = "snd (mem_Put ''k'' ''10'' ([], calm))"
  have num: "int_dec 5 = ''5''" "int_dec 10 = ''10''" "int_dec 12 = ''12''" "int_dec 17 = ''17''"
    by code_simp+
  have parse: "ParseInt ''5'' = Some 5" "ParseInt ''10'' = Some 10" "ParseInt ''12'' = Some 12"
    using ParseInt_int_dec [of 5] ParseInt_int_dec [of 10] ParseInt_int_dec [of 12] by (simp_all add: num ll_fits_def)
  have v: "vv_value (mem_Get (fst ?st) ''k'') = ''10''" by (simp add: mem_Put_def mem_Get_def mem_touch_def bump_entry_def)
  have r: "concurrent_result kDelta ''5'' no_condition ''12'' = Some ''17''"
    by (simp add: concurrent_result_def parse ll_wrap_def num)
  have d: "kDelta \<in> {kOverwrite, kAppend, kDelta, kCas}" "''t'' \<noteq> ([] :: string)" "''o'' \<noteq> ([] :: string)" by simp_all
  have m: "batch_store (tk_store (memory_runtime [])) (\<lambda>_. True)" by (simp add: memory_runtime_def mem.batch_store_axioms)
  have n: "kDelta = kDelta \<Longrightarrow> ParseInt (vv_value (mem_Get (fst ?st) ''k'')) \<noteq> None \<and> ParseInt ''5'' \<noteq> None"
    by (simp add: v parse)
  have V: "mem_Get (fst ?st) = kv_Get (tk_store (memory_runtime [])) (fst ?st)" by (simp add: memory_runtime_def memory_store_def)
  from concurrent_update_outcome [where t = kRow and cond = no_condition and v = "''12''", OF m TrueI d(2,3,1) V n]
  show ?thesis
    by (auto simp: r view_put_def memory_runtime_def memory_store_def) (simp_all add: concurrent_result_def)
qed

section \<open>semantic\_contention\_demo.cc\<close>

definition contention_task :: "string \<Rightarrow> TaskContext" where
  "contention_task task_id = default_TaskContext\<lparr>tc_task_id := task_id,
     tc_objective := ''semantic contention benchmark'', tc_workload_name := ''semantic_contention_demo'',
     tc_planner_id := ''demo''\<rparr>"

definition contention_plan :: ExecutionPlan where
  "contention_plan = AddBranchPlan ''branch_A'' ''candidate_A'' ''contention branch'' (DFin 100) default_ExecutionPlan"

text \<open>\<open>std::stoll\<close>.\<close>

definition stoll :: "string \<Rightarrow> exn + int" where
  "stoll s =
     (let (neg, t) = scan_sign (dropWhile is_space s);
          ds = takeWhile is_digit t;
          v = (if neg then - int (dec_val ds) else int (dec_val ds))
      in if ds = [] then Inl invalid_argument else if ll_fits v then Inr v else Inl out_of_range)"

text \<open>The other client: the object read as a number and put back plus one.\<close>

definition external_increment :: "'s RuntimeCore \<Rightarrow> string \<Rightarrow> 's sys \<Rightarrow> (exn + unit) \<times> 's sys" where
  "external_increment rt key st =
     (case stoll (vv_value (kv_Get (tk_store rt) (fst st) key)) of
        Inl e \<Rightarrow> (Inl e, st)
      | Inr n \<Rightarrow> (let (_, st) = kv_Put (tk_store rt) key (int_dec (ll_wrap (n + 1))) st in (Inr (), st)))"

text \<open>The end of a turn: stage, let the other client in, commit; the result is what is added to the counter.\<close>

definition finish_round :: "'s RuntimeCore \<Rightarrow> string \<Rightarrow> string \<Rightarrow> TaskSession \<Rightarrow> 's sys \<Rightarrow> (exn + nat) \<times> 's sys" where
  "finish_round rt key summary session st =
     (let session = rt_StageBranch ''branch_A'' (DFin 100) summary session in
      case external_increment rt key st of
        (Inl e, st) \<Rightarrow> (Inl e, st)
      | (Inr _, st) \<Rightarrow>
          (case rt_CommitTask rt session st of
             (Inl e, _, st) \<Rightarrow> (Inl e, st)
           | (Inr ok, _, st) \<Rightarrow> (Inr (if ok then 1 else 0), st)))"

definition overwrite_round :: "'s RuntimeCore \<Rightarrow> nat \<Rightarrow> 's sys \<Rightarrow> (exn + nat) \<times> 's sys" where
  "overwrite_round rt i st =
     (case SubmitTask rt (contention_task (''overwrite_'' @ nat_dec i)) contention_plan of
        Inl e \<Rightarrow> (Inl e, st)
      | Inr session \<Rightarrow>
          (let (before, session) = rt_Read rt ''branch_A'' ''counter:overwrite'' st session in
           case stoll (rd_value before) of
             Inl e \<Rightarrow> (Inl e, st)
           | Inr n \<Rightarrow>
               (let session = rt_Write rt ''branch_A'' ''counter:overwrite'' kRow
                      \<lparr>wi_object_id = ''counter:overwrite'', wi_intent_type = kOverwrite,
                       wi_payload = int_dec (ll_wrap (n + 1)), wi_condition = no_condition\<rparr> st session
                in finish_round rt ''counter:overwrite'' ''overwrite'' session st)))"

definition delta_round :: "'s RuntimeCore \<Rightarrow> nat \<Rightarrow> 's sys \<Rightarrow> (exn + nat) \<times> 's sys" where
  "delta_round rt i st =
     (case SubmitTask rt (contention_task (''delta_'' @ nat_dec i)) contention_plan of
        Inl e \<Rightarrow> (Inl e, st)
      | Inr session \<Rightarrow>
          (let (_, session) = rt_Read rt ''branch_A'' ''counter:delta'' st session;
               session = rt_Write rt ''branch_A'' ''counter:delta'' kRow
                 \<lparr>wi_object_id = ''counter:delta'', wi_intent_type = kDelta, wi_payload = ''1'', wi_condition = no_condition\<rparr> st session
           in finish_round rt ''counter:delta'' ''delta'' session st))"

text \<open>The loops: the turns in order, the numbers of commits added up; an exception ends them.\<close>

fun run_rounds :: "(nat \<Rightarrow> 's sys \<Rightarrow> (exn + nat) \<times> 's sys) \<Rightarrow> nat list \<Rightarrow> nat \<Rightarrow> 's sys \<Rightarrow> (exn + nat) \<times> 's sys" where
  "run_rounds turn [] committed st = (Inr committed, st)"
| "run_rounds turn (i # is) committed st =
     (case turn i st of
        (Inl e, st) \<Rightarrow> (Inl e, st)
      | (Inr c, st) \<Rightarrow> run_rounds turn is (committed + c) st)"

definition RunOverwriteRounds :: "'s RuntimeCore \<Rightarrow> nat \<Rightarrow> 's sys \<Rightarrow> (exn + nat) \<times> 's sys" where
  "RunOverwriteRounds rt rounds st = run_rounds (overwrite_round rt) [0..<rounds] 0 st"

definition RunDeltaRounds :: "'s RuntimeCore \<Rightarrow> nat \<Rightarrow> 's sys \<Rightarrow> (exn + nat) \<times> 's sys" where
  "RunDeltaRounds rt rounds st = run_rounds (delta_round rt) [0..<rounds] 0 st"

definition kRounds :: nat where
  "kRounds = 8"

definition semantic_contention_main :: "string \<Rightarrow> world \<Rightarrow> (exn + string) \<times> MemoryKVStore sys" where
  "semantic_contention_main error_message w =
     (let rt = memory_runtime error_message;
          (_, st) = kv_Put (tk_store rt) ''counter:overwrite'' ''0'' ([], w);
          (_, st) = kv_Put (tk_store rt) ''counter:delta'' ''0'' st in
      case RunOverwriteRounds rt kRounds st of
        (Inl e, st) \<Rightarrow> (Inl e, st)
      | (Inr overwrite_committed, st) \<Rightarrow>
          (case RunDeltaRounds rt kRounds st of
             (Inl e, st) \<Rightarrow> (Inl e, st)
           | (Inr delta_committed, st) \<Rightarrow>
               (Inr (put_lines
                 [''rounds='' @ nat_dec kRounds,
                  ''overwrite_rule='' @ ConcurrencyClassName kOverwrite,
                  ''overwrite_committed='' @ nat_dec overwrite_committed,
                  ''overwrite_aborted='' @ int_dec (int kRounds - int overwrite_committed),
                  ''overwrite_final_value='' @ vv_value (kv_Get (tk_store rt) (fst st) ''counter:overwrite''),
                  ''delta_rule='' @ ConcurrencyClassName kDelta,
                  ''delta_committed='' @ nat_dec delta_committed,
                  ''delta_aborted='' @ int_dec (int kRounds - int delta_committed),
                  ''delta_final_value='' @ vv_value (kv_Get (tk_store rt) (fst st) ''counter:delta'')]), st)))"

lemma stoll_int_dec: "ll_fits n \<Longrightarrow> stoll (int_dec n) = Inr n"
proof (cases "n < 0")
  case True
  moreover assume "ll_fits n"
  moreover have "scan_sign (dropWhile is_space (CHR ''-'' # nat_dec (nat (- n)))) = (True, nat_dec (nat (- n)))"
    by (simp add: scan_sign_def is_space_def)
  ultimately show ?thesis by (simp add: stoll_def int_dec_def)
next
  case False
  moreover assume "ll_fits n"
  ultimately show ?thesis by (simp add: stoll_def int_dec_def)
qed

lemma contention_valid:
  "i \<noteq> [] \<Longrightarrow> task_Validate (contention_task i) = Inr ()" "plan_Validate contention_plan = Inr ()"
  "\<exists>p. ep_branch_plans contention_plan = [p] \<and> bp_branch_id p = ''branch_A''"
  by (simp_all add: task_Validate_iff contention_task_def plan_Validate_iff contention_plan_def AddBranchPlan_def
      default_ExecutionPlan_def CandidateBranchIds_def)

text \<open>The state of a counter between two turns.\<close>

definition counter_at ::
    "'s RuntimeCore \<Rightarrow> ('s sys \<Rightarrow> bool) \<Rightarrow> string \<Rightarrow> view \<Rightarrow> int \<Rightarrow> 's sys \<Rightarrow> bool" where
  "counter_at rt ok_state k W n st \<longleftrightarrow> ok_state st \<and> vv_value (kv_Get (tk_store rt) (fst st) k) = int_dec n \<and>
     (\<forall>q. q \<noteq> k \<longrightarrow> kv_Get (tk_store rt) (fst st) q = W q)"

lemma finish_round:
  assumes kv: "batch_store (tk_store rt) ok_state" and at: "counter_at rt ok_state k W n st"
    and fits: "ll_fits n" "ll_fits (n + 1)" and id: "task_id \<noteq> []"
    and i: "wi_object_id i = k" "wi_intent_type i = ty" "wi_payload i = p" "wi_condition i = cond"
    and ty: "ty \<in> {kOverwrite, kDelta}" "ty = kDelta \<Longrightarrow> p = int_dec 1 \<and> ll_fits (n + 2)"
    and s: "rt_StageBranch ''branch_A'' (DFin 100) m s =
      fold (task_op rt st) (rmw_ops ''branch_A'' k t i (DFin 100) m) (submitted rt (contention_task task_id) contention_plan)"
  shows "\<exists>st'. finish_round rt k m s st = (Inr (if ty = kDelta then 1 else 0), st') \<and>
    counter_at rt ok_state k W (n + (if ty = kDelta then 2 else 1)) st'"
proof -
  let ?V = "kv_Get (tk_store rt) (fst st)"
  have st: "ok_state st" and V: "vv_value (?V k) = int_dec n" "\<And>q. q \<noteq> k \<Longrightarrow> ?V q = W q"
    using at by (simp_all add: counter_at_def)
  obtain pl where pl: "ep_branch_plans contention_plan = [pl]" "bp_branch_id pl = ''branch_A''" using contention_valid(3) by blast
  have one: "ParseInt (int_dec 1) = Some 1" by (rule ParseInt_int_dec) (simp add: ll_fits_def)
  have ext: "external_increment rt k st = (Inr (), snd (kv_Put (tk_store rt) k (int_dec (n + 1)) st))"
    using fits by (simp add: external_increment_def V stoll_int_dec split_beta)
  have res: "concurrent_result ty p cond (int_dec (n + 1)) = (if ty = kDelta then Some (int_dec (n + 2)) else None)"
    using ty fits one by (auto simp: concurrent_result_def add.assoc)
  have num: "ty = kDelta \<Longrightarrow> ParseInt (vv_value (?V k)) \<noteq> None \<and> ParseInt p \<noteq> None"
    using ty fits one by (simp add: V)
  have ty': "ty \<in> {kOverwrite, kAppend, kDelta, kCas}" using ty by blast
  from rmw_concurrent [where v = "int_dec (n + 1)", OF contention_valid(1) [OF id] contention_valid(2) pl s kv st refl i ty' num]
  obtain s' st' where "rt_CommitTask rt (rt_StageBranch ''branch_A'' (DFin 100) m s) (snd (kv_Put (tk_store rt) k (int_dec (n + 1)) st)) =
      (Inr (ty = kDelta), s', st')" "ok_state st'"
      "kv_Get (tk_store rt) (fst st') = (if ty = kDelta then view_put k (int_dec (n + 2)) (view_put k (int_dec (n + 1)) ?V)
        else view_put k (int_dec (n + 1)) ?V)"
    unfolding res by (auto split: if_splits)
  then show ?thesis by (auto simp: finish_round_def ext counter_at_def view_put_def V)
qed

lemma contention_Submit: "i \<noteq> [] \<Longrightarrow> SubmitTask rt (contention_task i) contention_plan = Inr (submitted rt (contention_task i) contention_plan)"
  by (simp add: SubmitTask_iff contention_valid)

lemma delta_turn:
  assumes "batch_store (tk_store rt) ok_state" and "counter_at rt ok_state ''counter:delta'' W n st" and "ll_fits n" and "ll_fits (n + 2)"
  shows "\<exists>st'. delta_round rt i st = (Inr 1, st') \<and> counter_at rt ok_state ''counter:delta'' W (n + 2) st'"
proof -
  let ?id = "''delta_'' @ nat_dec i"
  let ?i = "\<lparr>wi_object_id = ''counter:delta'', wi_intent_type = kDelta, wi_payload = ''1'', wi_condition = no_condition\<rparr>"
  let ?s = "fold (task_op rt st) [DoRead ''branch_A'' ''counter:delta'', DoWrite ''branch_A'' ''counter:delta'' kRow ?i]
      (submitted rt (contention_task ?id) contention_plan)"
  have "ll_fits (n + 1)" using assms(3,4) by (simp add: ll_fits_def)
  moreover have "''1'' = int_dec 1" by code_simp
  ultimately have "\<exists>st'. finish_round rt ''counter:delta'' ''delta'' ?s st = (Inr (if kDelta = kDelta then 1 else 0), st') \<and>
      counter_at rt ok_state ''counter:delta'' W (n + (if kDelta = kDelta then 2 else 1)) st'"
    using assms by (intro finish_round [where i = ?i and t = kRow and p = "''1''" and task_id = ?id and cond = no_condition])
      (simp_all add: rmw_ops_def)
  then show ?thesis by (simp add: delta_round_def contention_Submit split_beta Let_def)
qed

lemma overwrite_turn:
  assumes "batch_store (tk_store rt) ok_state" and "counter_at rt ok_state ''counter:overwrite'' W n st" and "ll_fits n" and "ll_fits (n + 1)"
  shows "\<exists>st'. overwrite_round rt i st = (Inr 0, st') \<and> counter_at rt ok_state ''counter:overwrite'' W (n + 1) st'"
proof -
  let ?id = "''overwrite_'' @ nat_dec i" and ?k = "''counter:overwrite''"
  let ?i = "\<lparr>wi_object_id = ?k, wi_intent_type = kOverwrite, wi_payload = int_dec (ll_wrap (n + 1)), wi_condition = no_condition\<rparr>"
  let ?init = "submitted rt (contention_task ?id) contention_plan"
  let ?s = "fold (task_op rt st) [DoRead ''branch_A'' ?k, DoWrite ''branch_A'' ?k kRow ?i] ?init"
  have "\<exists>st'. finish_round rt ?k ''overwrite'' ?s st = (Inr (if kOverwrite = kDelta then 1 else 0), st') \<and>
      counter_at rt ok_state ?k W (n + (if kOverwrite = kDelta then 2 else 1)) st'"
    using assms by (intro finish_round [where i = ?i and t = kRow and p = "int_dec (ll_wrap (n + 1))" and task_id = ?id and cond = no_condition])
      (simp_all add: rmw_ops_def)
  moreover have "rd_value (fst (rt_Read rt ''branch_A'' ?k st ?init)) = int_dec n"
  proof -
    obtain p where p: "ep_branch_plans contention_plan = [p]" "bp_branch_id p = ''branch_A''" using contention_valid(3) by blast
    show ?thesis using assms(2) by (simp add: rmw_read_value [OF p] counter_at_def)
  qed
  ultimately show ?thesis
    using assms(3) by (simp add: overwrite_round_def contention_Submit split_beta Let_def stoll_int_dec)
qed

lemma run_rounds_count:
  assumes turn: "\<And>i n st. P n st \<Longrightarrow> n + d \<le> limit \<Longrightarrow> \<exists>st'. turn i st = (Inr c, st') \<and> P (n + d) st'" and d: "0 \<le> d"
  shows "P n st \<Longrightarrow> n + d * int (length is) \<le> (limit :: int) \<Longrightarrow>
    \<exists>st'. run_rounds turn is a st = (Inr (a + c * length is), st') \<and> P (n + d * int (length is)) st'"
proof (induction "is" arbitrary: n st a)
  case (Cons i "is")
  have "0 \<le> d * int (length is)" using d by simp
  then obtain st1 where st1: "turn i st = (Inr c, st1)" "P (n + d) st1"
    using turn [OF Cons.prems(1)] Cons.prems(2) by (fastforce simp: algebra_simps)
  with Cons.IH [OF st1(2), of "a + c"] Cons.prems(2) show ?case by (simp add: algebra_simps)
qed simp

lemma contention_rounds_lemma:
  assumes "batch_store (tk_store rt) ok_state" and "ok_state st" and "V = kv_Get (tk_store rt) (fst st)" and "ll_fits n"
  shows "(vv_value (V ''counter:overwrite'') = int_dec n \<and> ll_fits (n + int rounds) \<longrightarrow>
      (\<exists>st'. RunOverwriteRounds rt rounds st = (Inr 0, st') \<and> ok_state st' \<and>
        vv_value (kv_Get (tk_store rt) (fst st') ''counter:overwrite'') = int_dec (n + int rounds) \<and>
        (\<forall>q. q \<noteq> ''counter:overwrite'' \<longrightarrow> kv_Get (tk_store rt) (fst st') q = V q))) \<and>
    (vv_value (V ''counter:delta'') = int_dec n \<and> ll_fits (n + 2 * int rounds) \<longrightarrow>
      (\<exists>st'. RunDeltaRounds rt rounds st = (Inr rounds, st') \<and> ok_state st' \<and>
        vv_value (kv_Get (tk_store rt) (fst st') ''counter:delta'') = int_dec (n + 2 * int rounds) \<and>
        (\<forall>q. q \<noteq> ''counter:delta'' \<longrightarrow> kv_Get (tk_store rt) (fst st') q = V q)))"
proof -
  note kv = assms(1)
  have at: "counter_at rt ok_state k V n st" if "vv_value (V k) = int_dec n" for k
    using that assms(2) by (simp add: counter_at_def assms(3) [symmetric])
  { assume v: "vv_value (V ''counter:overwrite'') = int_dec n" and f: "ll_fits (n + int rounds)"
    have "\<exists>st'. overwrite_round rt i st = (Inr 0, st') \<and> counter_at rt ok_state ''counter:overwrite'' V (m + 1) st'"
      if "counter_at rt ok_state ''counter:overwrite'' V m st \<and> n \<le> m" "m + 1 \<le> n + int rounds" for i m st
      using overwrite_turn [OF kv, of V m st i] that f assms(4) by (simp add: ll_fits_def)
    then have "\<exists>st'. run_rounds (overwrite_round rt) [0..<rounds] 0 st = (Inr (0 + 0 * length [0..<rounds]), st') \<and>
        counter_at rt ok_state ''counter:overwrite'' V (n + 1 * int (length [0..<rounds])) st' \<and> n \<le> n + 1 * int (length [0..<rounds])"
      using at [OF v]
      by (intro run_rounds_count [where P = "\<lambda>m st. counter_at rt ok_state ''counter:overwrite'' V m st \<and> n \<le> m" and limit = "n + int rounds"])
        fastforce+
    then have "\<exists>st'. RunOverwriteRounds rt rounds st = (Inr 0, st') \<and> ok_state st' \<and>
        vv_value (kv_Get (tk_store rt) (fst st') ''counter:overwrite'') = int_dec (n + int rounds) \<and>
        (\<forall>q. q \<noteq> ''counter:overwrite'' \<longrightarrow> kv_Get (tk_store rt) (fst st') q = V q)"
      by (auto simp: RunOverwriteRounds_def counter_at_def) }
  moreover
  { assume v: "vv_value (V ''counter:delta'') = int_dec n" and f: "ll_fits (n + 2 * int rounds)"
    have "\<exists>st'. delta_round rt i st = (Inr 1, st') \<and> counter_at rt ok_state ''counter:delta'' V (m + 2) st'"
      if "counter_at rt ok_state ''counter:delta'' V m st \<and> n \<le> m" "m + 2 \<le> n + 2 * int rounds" for i m st
      using delta_turn [OF kv, of V m st i] that f assms(4) by (simp add: ll_fits_def)
    then have "\<exists>st'. run_rounds (delta_round rt) [0..<rounds] 0 st = (Inr (0 + 1 * length [0..<rounds]), st') \<and>
        counter_at rt ok_state ''counter:delta'' V (n + 2 * int (length [0..<rounds])) st' \<and> n \<le> n + 2 * int (length [0..<rounds])"
      using at [OF v]
      by (intro run_rounds_count [where P = "\<lambda>m st. counter_at rt ok_state ''counter:delta'' V m st \<and> n \<le> m" and limit = "n + 2 * int rounds"])
        fastforce+
    then have "\<exists>st'. RunDeltaRounds rt rounds st = (Inr rounds, st') \<and> ok_state st' \<and>
        vv_value (kv_Get (tk_store rt) (fst st') ''counter:delta'') = int_dec (n + 2 * int rounds) \<and>
        (\<forall>q. q \<noteq> ''counter:delta'' \<longrightarrow> kv_Get (tk_store rt) (fst st') q = V q)"
      by (auto simp: RunDeltaRounds_def counter_at_def) }
  ultimately show ?thesis by blast
qed

text \<open>
  C30. Semantic concurrency control under contention, for any number of rounds on a store with
  atomic batches. In every round a task reads a counter and adds one to it while another client adds
  one as well before the commit. Written as an overwrite no task ever commits, and only the other
  client's increments arrive; written as a delta every task commits and the counter counts both.
  No other object changes and nothing is thrown, as long as the numbers fit into 64 bits.
\<close>

theorem contention_rounds:
  assumes "batch_store (tk_store rt) ok_state" and "ok_state st" and "V = kv_Get (tk_store rt) (fst st)" and "ll_fits n"
  shows "(vv_value (V ''counter:overwrite'') = int_dec n \<and> ll_fits (n + int rounds) \<longrightarrow>
      (\<exists>st'. RunOverwriteRounds rt rounds st = (Inr 0, st') \<and> ok_state st' \<and>
        vv_value (kv_Get (tk_store rt) (fst st') ''counter:overwrite'') = int_dec (n + int rounds) \<and>
        (\<forall>q. q \<noteq> ''counter:overwrite'' \<longrightarrow> kv_Get (tk_store rt) (fst st') q = V q))) \<and>
    (vv_value (V ''counter:delta'') = int_dec n \<and> ll_fits (n + 2 * int rounds) \<longrightarrow>
      (\<exists>st'. RunDeltaRounds rt rounds st = (Inr rounds, st') \<and> ok_state st' \<and>
        vv_value (kv_Get (tk_store rt) (fst st') ''counter:delta'') = int_dec (n + 2 * int rounds) \<and>
        (\<forall>q. q \<noteq> ''counter:delta'' \<longrightarrow> kv_Get (tk_store rt) (fst st') q = V q)))"
  using assms by (rule contention_rounds_lemma)

lemma memory_runtime_facts:
  "batch_store (tk_store (memory_runtime m)) (\<lambda>_. True)" "tk_store (memory_runtime m) = memory_store"
  by (simp_all add: memory_runtime_def mem.batch_store_axioms)

theorem contention_rounds_witness:
  "\<exists>st'. RunDeltaRounds (memory_runtime []) 3 (snd (mem_Put ''counter:delta'' ''10'' ([], calm))) = (Inr 3, st') \<and>
     vv_value (mem_Get (fst st') ''counter:delta'') = ''16''"
proof -
  let ?st = "snd (mem_Put ''counter:delta'' ''10'' ([], calm))"
  have num: "int_dec 10 = ''10''" "int_dec (10 + 2 * int 3) = ''16''" by code_simp+
  have "vv_value (mem_Get (fst ?st) ''counter:delta'') = int_dec 10"
    unfolding num by (simp add: mem_Put_def mem_Get_def mem_touch_def bump_entry_def)
  moreover have "ll_fits 10" "ll_fits (10 + 2 * int 3)" by (simp_all add: ll_fits_def)
  moreover have "mem_Get = kv_Get (tk_store (memory_runtime []))" by (simp add: memory_runtime_def memory_store_def)
  ultimately show ?thesis
    using contention_rounds [OF memory_runtime_facts(1) TrueI refl, of 10 "[]" ?st 3] unfolding num by auto
qed

text \<open>What the program prints, on every disk.\<close>

lemma semantic_contention_prints:
  "\<exists>st. semantic_contention_main error_message w = (Inr (put_lines
     [''rounds=8'', ''overwrite_rule=strict'', ''overwrite_committed=0'', ''overwrite_aborted=8'', ''overwrite_final_value=8'',
      ''delta_rule=commutative_rebase'', ''delta_committed=8'', ''delta_aborted=0'', ''delta_final_value=16'']), st)"
proof -
  let ?rt = "memory_runtime error_message" and ?o = "''counter:overwrite''" and ?d = "''counter:delta''"
  let ?st = "snd (mem_Put ?d ''0'' (snd (mem_Put ?o ''0'' ([], w))))"
  have num: "int_dec 0 = ''0''" "int_dec 8 = ''8''" "int_dec 16 = ''16''" "nat_dec 8 = ''8''" "nat_dec 0 = ''0''" by code_simp+
  have v: "vv_value (mem_Get (fst ?st) ?o) = ''0''" "vv_value (mem_Get (fst ?st) ?d) = ''0''"
    by (simp_all add: mem_Put_def mem_Get_def mem_touch_def bump_entry_def umap_find_def umap_set_def)
  have fits: "ll_fits 0" "ll_fits (0 + int 8)" "ll_fits (0 + 2 * int 8)" by (simp_all add: ll_fits_def)
  have get: "kv_Get (tk_store ?rt) = mem_Get" "kv_Put (tk_store ?rt) = mem_Put" by (simp_all add: memory_runtime_def memory_store_def)
  obtain st1 where st1: "RunOverwriteRounds ?rt 8 ?st = (Inr 0, st1)" "vv_value (mem_Get (fst st1) ?o) = int_dec 8"
      "\<And>q. q \<noteq> ?o \<Longrightarrow> mem_Get (fst st1) q = mem_Get (fst ?st) q"
    using contention_rounds_lemma [OF memory_runtime_facts(1) TrueI refl fits(1), of error_message ?st 8] v(1) fits(2)
    by (auto simp: get num)
  obtain st2 where st2: "RunDeltaRounds ?rt 8 st1 = (Inr 8, st2)" "vv_value (mem_Get (fst st2) ?d) = int_dec 16"
      "\<And>q. q \<noteq> ?d \<Longrightarrow> mem_Get (fst st2) q = mem_Get (fst st1) q"
    using contention_rounds_lemma [OF memory_runtime_facts(1) TrueI refl fits(1), of error_message st1 8] v(2) fits(3) st1(3)
    by (auto simp: get num)
  have names: "ConcurrencyClassName kOverwrite = ''strict''" "ConcurrencyClassName kDelta = ''commutative_rebase''"
    by (simp_all add: ConcurrencyClassName_def)
  show ?thesis
    by (simp add: semantic_contention_main_def kRounds_def get split_beta Let_def st1(1) st2(1,2) st2(3) st1(2) num names)
qed


text \<open>What the program prints, on every disk; the reasons are left open.\<close>

lemma semantic_concurrency_prints:
  "\<exists>r1 r2 r3 r4 st. semantic_concurrency_main error_message w = (Inr (put_lines
     [''append_committed=1'', ''append_value=draft::external::agent'', ''append_reason='' @ r1,
      ''delta_committed=1'', ''delta_value=17'', ''delta_reason='' @ r2,
      ''cas_success_committed=1'', ''cas_success_value=confirmed'', ''cas_success_reason='' @ r3,
      ''cas_fail_committed=0'', ''cas_fail_value=cancelled'', ''cas_fail_reason='' @ r4]), st)"
proof -
  let ?rt = "memory_runtime error_message"
  have num: "int_dec 5 = ''5''" "int_dec 10 = ''10''" "int_dec 12 = ''12''" "int_dec 17 = ''17''" by code_simp+
  have parse: "ParseInt ''5'' = Some 5" "ParseInt ''10'' = Some 10" "ParseInt ''12'' = Some 12"
    using ParseInt_int_dec [of 5] ParseInt_int_dec [of 10] ParseInt_int_dec [of 12] by (simp_all add: num ll_fits_def)
  have res: "concurrent_result kAppend ''::agent'' no_condition ''draft::external'' = Some ''draft::external::agent''"
    "concurrent_result kDelta ''5'' no_condition ''12'' = Some ''17''"
    "concurrent_result kCas ''confirmed'' \<lparr>cond_type = kValueEquals, cond_expected_value = ''pending''\<rparr> ''pending'' = Some ''confirmed''"
    "concurrent_result kCas ''confirmed'' \<lparr>cond_type = kValueEquals, cond_expected_value = ''pending''\<rparr> ''cancelled'' = None"
    by (simp_all add: concurrent_result_def parse ll_wrap_def num)
  note outcome = semantic_case_outcome [where ok_state = "\<lambda>_. True", OF memory_runtime_facts(1) [of error_message] TrueI]
  note defs = append_case_def delta_case_def cas_success_case_def cas_fail_case_def bool_text_def parse
  have append: "\<exists>r st'. run_semantic_case ?rt append_case st = (Inr [''append_committed=1'', ''append_value=draft::external::agent'', ''append_reason='' @ r], st')" for st
    using outcome [where r = "Some ''draft::external::agent''" and c = append_case and task_id = "''semantic_append''" and objective = "''append after concurrent update''" and ty = kAppend and t = kText
      and p = "''::agent''" and cond = "no_condition" and st = st]
    by (simp add: defs res)
  have delta: "\<exists>r st'. run_semantic_case ?rt delta_case st = (Inr [''delta_committed=1'', ''delta_value=17'', ''delta_reason='' @ r], st')" for st
    using outcome [where r = "Some ''17''" and c = delta_case and task_id = "''semantic_delta''" and objective = "''delta after concurrent update''" and ty = kDelta and t = kRow
      and p = "''5''" and cond = "no_condition" and st = st]
    by (simp add: defs res)
  have cas_success: "\<exists>r st'. run_semantic_case ?rt cas_success_case st = (Inr [''cas_success_committed=1'', ''cas_success_value=confirmed'', ''cas_success_reason='' @ r], st')" for st
    using outcome [where r = "Some ''confirmed''" and c = cas_success_case and task_id = "''semantic_cas_success''" and objective = "''cas success after unrelated refresh''" and ty = kCas and t = kGeneric
      and p = "''confirmed''" and cond = "\<lparr>cond_type = kValueEquals, cond_expected_value = ''pending''\<rparr>" and st = st]
    by (simp add: defs res)
  have cas_fail: "\<exists>r st'. run_semantic_case ?rt cas_fail_case st = (Inr [''cas_fail_committed=0'', ''cas_fail_value=cancelled'', ''cas_fail_reason='' @ r], st')" for st
    using outcome [where r = "None" and c = cas_fail_case and task_id = "''semantic_cas_fail''" and objective = "''cas fail when condition no longer holds''" and ty = kCas and t = kGeneric
      and p = "''confirmed''" and cond = "\<lparr>cond_type = kValueEquals, cond_expected_value = ''pending''\<rparr>" and st = st]
    by (simp add: defs res)
  obtain r1 st1 where 1: "run_semantic_case ?rt append_case ([], w) =
      (Inr [''append_committed=1'', ''append_value=draft::external::agent'', ''append_reason='' @ r1], st1)" using append by blast
  obtain r2 st2 where 2: "run_semantic_case ?rt delta_case st1 =
      (Inr [''delta_committed=1'', ''delta_value=17'', ''delta_reason='' @ r2], st2)" using delta by blast
  obtain r3 st3 where 3: "run_semantic_case ?rt cas_success_case st2 =
      (Inr [''cas_success_committed=1'', ''cas_success_value=confirmed'', ''cas_success_reason='' @ r3], st3)" using cas_success by blast
  obtain r4 st4 where 4: "run_semantic_case ?rt cas_fail_case st3 =
      (Inr [''cas_fail_committed=0'', ''cas_fail_value=cancelled'', ''cas_fail_reason='' @ r4], st4)" using cas_fail by blast
  show ?thesis
    unfolding semantic_concurrency_main_def semantic_cases_def
    by (intro exI [of _ r1] exI [of _ r2] exI [of _ r3] exI [of _ r4] exI [of _ st4]) (simp add: 1 2 3 4)
qed

end
