(* ===== verification/Demo_Tools.thy ===== *)
theory Demo_Tools
  imports Demo_Semantics
begin

text \<open>
  The command line programs of \<open>examples/\<close> that work on the files of the system: replay and
  recovery of commit logs, replay and recovery of task event logs, and the synthetic experiment.
  A program takes its arguments (\<open>argv[1]\<close> onwards) and the disk, and gives its exit code (or the
  exception that ends it), what it prints on \<open>cout\<close> and on \<open>cerr\<close>, and the disk it leaves.
\<close>

type_synonym program_end = "(exn + int) \<times> string \<times> string"

section \<open>Commit logs\<close>

definition recovery_report :: "RecoveryResult \<Rightarrow> string" where
  "recovery_report result = put_lines
     [''success='' @ bool_text (rc_success result),
      ''applied_entry_count='' @ nat_dec (rc_applied_entry_count result),
      ''skipped_committed_entry_count='' @ nat_dec (rc_skipped_committed_entry_count result),
      ''skipped_non_committed_log_count='' @ nat_dec (rc_skipped_non_committed_log_count result),
      ''parse_failure_count='' @ nat_dec (rc_parse_failure_count result),
      ''conflict_count='' @ nat_dec (rc_conflict_count result),
      ''reason='' @ rc_reason result]"

definition commit_log_recovery_main :: "string list \<Rightarrow> world \<Rightarrow> program_end \<times> world" where
  "commit_log_recovery_main args w =
     (if length args < 2
      then ((Inr 1, [], put_lines [''usage: commit_log_recovery_demo <store_path> <commit_log> [<commit_log> ...]'']), w)
      else
        (let store_path = hd args; commit_log_paths = tl args;
             st = NewFileKVStore store_path w;
             (result, st) = RecoverCommittedWrites file_store commit_log_paths st
         in ((Inr (if rc_success result then 0 else 1), recovery_report result, []), snd st)))"

definition commit_log_dir_recovery_main :: "string list \<Rightarrow> world \<Rightarrow> program_end \<times> world" where
  "commit_log_dir_recovery_main args w =
     (if length args \<noteq> 2
      then ((Inr 1, [], put_lines [''usage: commit_log_dir_recovery_demo <store_path> <commit_log_dir>'']), w)
      else
        (let st = NewFileKVStore (args ! 0) w;
             (result, st) = tm_RecoverCommittedWrites file_store (args ! 1) st
         in ((Inr (if rc_success result then 0 else 1), recovery_report result, []), snd st)))"

definition replayed_object_line :: "string \<times> ReplayedObjectState \<Rightarrow> string" where
  "replayed_object_line p =
     fst p @ [TAB] @ u64_dec (ro_expected_version (snd p)) @ [TAB] @ ro_value (snd p) @ [TAB] @ ro_source_log_path (snd p)"

definition commit_log_replay_main :: "string list \<Rightarrow> world \<Rightarrow> program_end" where
  "commit_log_replay_main args w =
     (if length args < 1
      then (Inr 1, [], put_lines [''usage: commit_log_replay_demo <commit_log> [<commit_log> ...]''])
      else (Inr 0, put_lines (map replayed_object_line (ReplayCommitLogArtifacts args w)), []))"

section \<open>Task event logs\<close>

definition tab_line :: "string list \<Rightarrow> string" where
  "tab_line texts = (case texts of [] \<Rightarrow> [] | f # fs \<Rightarrow> f @ concat (map (\<lambda>g. TAB # g) fs))"

definition replayed_session_line :: "ReplayedTaskSessionState \<Rightarrow> string" where
  "replayed_session_line state = tab_line
     [rt_task_id state, rt_txn_id state, rt_task_phase state, nat_dec (rt_commit_attempts state),
      bool_text (rt_committed state), nat_dec (rt_event_count state), rt_final_event_type state, rt_final_branch_id state,
      nat_dec (rt_read_event_count state), nat_dec (rt_write_event_count state), rt_source_log_path state]"

definition task_event_log_replay_main :: "string list \<Rightarrow> world \<Rightarrow> program_end" where
  "task_event_log_replay_main args w =
     (if length args < 1
      then (Inr 1, [], put_lines [''usage: task_event_log_replay_demo <task_log> [<task_log> ...]''])
      else (Inr 0, put_lines (map replayed_session_line (ReplayTaskEventLogArtifacts args w)), []))"

definition decision_line :: "TaskRecoveryDecision \<Rightarrow> string" where
  "decision_line decision = tab_line
     [dc_task_id decision, dc_txn_id decision, TaskRecoveryActionName (dc_action decision), dc_resume_branch_id decision,
      dc_resume_savepoint_id decision, dc_reason decision, dc_source_log_path decision]"

definition task_event_recovery_main :: "string list \<Rightarrow> world \<Rightarrow> program_end" where
  "task_event_recovery_main args w =
     (if length args \<noteq> 1 then (Inr 1, [], put_lines [''usage: task_event_recovery_demo <task_log_dir>''])
      else (Inr 0, put_lines (map decision_line (trm_RecoverFromDirectory (hd args) w)), []))"

definition execution_line :: "bool \<Rightarrow> TaskRecoveryExecution \<Rightarrow> string" where
  "execution_line executed execution =
     (let plan = ex_recovery_plan execution; session = ex_session execution in tab_line
     [tc_task_id (ts_task session), TaskRecoveryActionName (dc_action (rp_decision plan)),
      TaskRecoveryCommandTypeName (ex_command_type execution), ex_target_branch_id execution,
      ex_target_savepoint_id execution, bool_text executed, nat_dec (length (ep_branch_plans (ts_plan session))),
      nat_dec (length (ts_events session)), nat_dec (ts_commit_attempts session),
      nat_dec (task_phase_number (tc_phase (ts_task session))), ex_summary execution])"

text \<open>The loop over the executions; an exception leaves the lines printed so far.\<close>

fun execute_all :: "'s RuntimeCore \<Rightarrow> TaskRecoveryExecution list \<Rightarrow> 's sys \<Rightarrow> string list \<Rightarrow> program_end \<times> 's sys" where
  "execute_all rt [] st out = ((Inr 0, put_lines out, []), st)"
| "execute_all rt (execution # executions) st out =
     (case ExecuteRecoveryExecution rt execution st of
        (Inl e, _, st) \<Rightarrow> ((Inl e, put_lines out, []), st)
      | (Inr executed, execution, st) \<Rightarrow> execute_all rt executions st (out @ [execution_line executed execution]))"

definition task_runtime_recovery_main :: "string \<Rightarrow> string list \<Rightarrow> world \<Rightarrow> program_end \<times> world" where
  "task_runtime_recovery_main error_message args w =
     (if length args \<noteq> 1 then ((Inr 1, [], put_lines [''usage: task_runtime_recovery_demo <task_log_dir>'']), w)
      else
        (let rt = memory_runtime error_message in
         case BuildRecoveryExecutionsFromDirectory rt (hd args) ([], w) of
           Inl e \<Rightarrow> ((Inl e, [], []), w)
         | Inr executions \<Rightarrow> (let (r, st) = execute_all rt executions ([], w) [] in (r, snd st))))"

text \<open>The seeds of \<open>task_runtime_recovery_continue_demo.cc\<close> and its loop.\<close>

definition continue_demo_seeds :: "(string \<times> string) list" where
  "continue_demo_seeds =
     [(''input:task_2'', ''seed_2_retry''), (''output:task_2'', ''draft_2_retry''), (''input:task_resume'', ''seed_resume_1''),
      (''input:task_resume'', ''seed_resume_2''), (''input:task_resume'', ''seed_resume_3''), (''input:task_resume'', ''seed_resume'')]"

definition continued_line :: "string \<Rightarrow> bool \<Rightarrow> TaskRecoveryExecution \<Rightarrow> view \<Rightarrow> string list" where
  "continued_line task committed execution V =
     (if dc_task_id (rp_decision (ex_recovery_plan execution)) = task
      then [tab_line [task, bool_text committed, tx_winner_branch_id (ts_txn (ex_session execution)),
              nat_dec (length (tx_commit_log (ts_txn (ex_session execution)))), vv_value (V (''output:'' @ task))]]
      else [])"

fun continue_all ::
    "'s TaskContinuationRegistry \<Rightarrow> 's RuntimeCore \<Rightarrow> TaskRecoveryExecution list \<Rightarrow> 's sys \<Rightarrow> string list \<Rightarrow> program_end \<times> 's sys" where
  "continue_all registry rt [] st out = ((Inr 0, put_lines out, []), st)"
| "continue_all registry rt (execution # executions) st out =
     (case registry_Continue registry rt execution st of
        (Inl e, _, st) \<Rightarrow> ((Inl e, put_lines out, []), st)
      | (Inr committed, execution, st) \<Rightarrow>
          (let V = kv_Get (tk_store rt) (fst st) in
           continue_all registry rt executions st
             (out @ continued_line ''task_2'' committed execution V @ continued_line ''task_resume'' committed execution V)))"

definition task_runtime_recovery_continue_main :: "string \<Rightarrow> string list \<Rightarrow> world \<Rightarrow> program_end \<times> world" where
  "task_runtime_recovery_continue_main error_message args w =
     (if length args \<noteq> 1 then ((Inr 1, [], put_lines [''usage: task_runtime_recovery_continue_demo <task_log_dir>'']), w)
      else
        (let rt = memory_runtime error_message;
             st = fold (\<lambda>(k, v) st. snd (kv_Put (tk_store rt) k v st)) continue_demo_seeds ([], w);
             (_, registry) = RegisterBuiltinRecoveryHandlers [] in
         case BuildRecoveryExecutionsFromDirectory rt (hd args) st of
           Inl e \<Rightarrow> ((Inl e, [], []), snd st)
         | Inr executions \<Rightarrow> (let (r, st) = continue_all registry rt executions st [] in (r, snd st))))"

section \<open>The synthetic experiment\<close>

definition argument :: "string list \<Rightarrow> nat \<Rightarrow> string \<Rightarrow> string" where
  "argument args i fallback = (if i < length args then args ! i else fallback)"

definition synthetic_config :: "string list \<Rightarrow> SyntheticRunConfig" where
  "synthetic_config args =
     (let number = (\<lambda>i fallback. if i < length args then strtoull (args ! i) else fallback) in
      \<lparr>sy_task_count = number 0 (sy_task_count default_SyntheticRunConfig),
       sy_branch_count = number 1 (sy_branch_count default_SyntheticRunConfig),
       sy_conflict_every = number 2 (sy_conflict_every default_SyntheticRunConfig),
       sy_commit_log_dir = argument args 6 [], sy_task_event_log_dir = argument args 13 []\<rparr>)"

definition synthetic_store_config :: "StoreKind \<Rightarrow> string list \<Rightarrow> StoreConfig" where
  "synthetic_store_config kind args =
     \<lparr>sc_kind = kind, sc_path = argument args 5 [], sc_namespace_prefix = argument args 7 [],
      sc_host = argument args 8 ''127.0.0.1'',
      sc_port = (if 9 < length args then of_nat (strtoull (args ! 9)) else 6379),
      sc_database_index = (if 10 < length args then word_of_int (strtoll (args ! 10)) else 0),
      sc_column_family = argument args 11 ''default''\<rparr>"

text \<open>The part of \<open>main\<close> that runs on the store, whatever its class.\<close>

definition run_synthetic_on ::
    "'s VersionedKVStore \<Rightarrow> 's \<Rightarrow> SyntheticRunConfig \<Rightarrow> (nat \<Rightarrow> i64) \<Rightarrow> string \<Rightarrow> string \<Rightarrow> world \<Rightarrow> program_end \<times> world" where
  "run_synthetic_on kv s config elapsed error_message output_path w =
     (case RunSyntheticExperimentWithStore config
             \<lparr>tk_store = kv, tk_config = default_FallbackCommitRuntimeConfig, tk_error_message = error_message\<rparr> elapsed (s, w) of
        (Inl e, st) \<Rightarrow> ((Inl e, [], []), snd st)
      | (Inr result, st) \<Rightarrow>
          if output_path = [] then ((Inr 0, WriteSyntheticCsv result, []), snd st)
          else
            (case write_file output_path (WriteSyntheticCsv result) (snd st) of
               (NotOpened, w) \<Rightarrow> ((Inr 1, [], put_lines [''failed to open output path: '' @ output_path]), w)
             | (_, w) \<Rightarrow> ((Inr 0, [], []), w)))"

definition synthetic_experiment_main ::
    "(nat \<Rightarrow> i64) \<Rightarrow> string \<Rightarrow> string list \<Rightarrow> world \<Rightarrow> program_end \<times> world" where
  "synthetic_experiment_main elapsed error_message args w =
     (let config = synthetic_config args; output_path = argument args 3 []; backend = argument args 4 ''memory'';
          store_config_path = argument args 12 [] in
      case ParseStoreKind backend of
        None \<Rightarrow> ((Inr 1, [], put_lines [''unsupported backend name: '' @ backend]), w)
      | Some store_kind \<Rightarrow>
          (let store_config = synthetic_store_config store_kind args;
               (store, w) = CreateStore store_config w;
               (written, w) = (if store_config_path = [] then (True, w)
                 else WriteStoreConfigArtifact store_config store_config_path w) in
           if \<not> written
           then ((Inr 1, [], put_lines [''failed to write store config artifact: '' @ store_config_path]), w)
           else
             (case store of
                AMemory s \<Rightarrow> run_synthetic_on memory_store s config elapsed error_message output_path w
              | AFile s \<Rightarrow> run_synthetic_on file_store s config elapsed error_message output_path w
              | ARocksDb s \<Rightarrow> run_synthetic_on rocksdb_store s config elapsed error_message output_path w
              | ARedis s \<Rightarrow> run_synthetic_on redis_store s config elapsed error_message output_path w)))"

section \<open>The recovery tool on a store file\<close>

text \<open>What a file store and its disk look like between two operations that succeed.\<close>

definition file_clean :: "FileKVStore sys \<Rightarrow> bool" where
  "file_clean st \<longleftrightarrow> quiet (snd st) \<and> disk_holds (fst st) (fk_values (fst st)) (snd st) \<and> values_readable (fk_values (fst st))"

definition store_files :: "string \<Rightarrow> string set" where
  "store_files path = (let f = \<lparr>fk_path = path, fk_values = []\<rparr> in {path, TempPath f, JournalPath f})"

lemma PersistToDisk_other:
  assumes "q \<notin> store_files (fk_path f)"
  shows "fs_read q (snd (PersistToDisk f w)) = fs_read q w"
proof -
  have "q \<noteq> fk_path f" "q \<noteq> TempPath f" "q \<noteq> JournalPath f"
    using assms by (simp_all add: store_files_def Let_def TempPath_def JournalPath_def)
  then show ?thesis
    by (simp add: PersistToDisk_def WriteJournalUnlocked_def WriteSnapshotUnlocked_def Let_def split_beta
        write_file_other rename_file_other remove_file_other)
qed

lemma readable_write:
  "values_readable vals \<Longrightarrow> v \<noteq> [] \<Longrightarrow> mem_touch vals k = (entry, vals') \<Longrightarrow> values_readable (umap_set vals' k (bump_entry entry v))"
proof -
  assume r: "values_readable vals" and v: "v \<noteq> []" and t: "mem_touch vals k = (entry, vals')"
  have wf: "umap_wf vals" using r by (simp add: values_readable_def)
  have find: "umap_find vals' q = umap_find vals q" if "q \<noteq> k" for q
    using t that by (auto simp: mem_touch_def split: option.splits)
  show ?thesis
    unfolding values_readable_def
  proof (intro conjI ballI)
    show "umap_wf (umap_set vals' k (bump_entry entry v))"
      using t wf by (auto simp: mem_touch_def split: option.splits)
    fix p assume "p \<in> set (umap_set vals' k (bump_entry entry v))"
    moreover obtain q e where p: "p = (q, e)" by (cases p)
    ultimately have "umap_find (umap_set vals' k (bump_entry entry v)) q = Some e"
      using t wf by (subst umap_find_mem) (auto simp: mem_touch_def split: option.splits)
    then have "e = bump_entry entry v \<or> umap_find vals q = Some e" using find by (auto split: if_splits)
    then show "me_value (snd p) \<noteq> []"
      using r v wf by (auto simp: p bump_entry_def values_readable_def umap_find_mem)
  qed
qed

lemma file_PutIfVersion_clean:
  assumes "file_clean st" "v \<noteq> []" "file_PutIfVersion k n v st = (True, st')"
  shows "file_clean st' \<and> fk_path (fst st') = fk_path (fst st) \<and>
    (\<forall>q. q \<notin> store_files (fk_path (fst st)) \<longrightarrow> fs_read q (snd st') = fs_read q (snd st))"
proof -
  obtain entry vals where t: "mem_touch (fk_values (fst st)) k = (entry, vals)" by (metis surj_pair)
  let ?vals = "umap_set vals k (bump_entry entry v)"
  have run: "persist_values ?vals st = (True, st')" using assms(3) by (simp add: file_PutIfVersion_def t split: if_splits)
  have q: "quiet (snd st)" using assms(1) by (simp add: file_clean_def)
  have st': "quiet (snd st')" "fst st' = (fst st)\<lparr>fk_values := ?vals\<rparr>" "disk_holds (fst st) ?vals (snd st')"
    using persist_values_quiet [OF q, of ?vals] by (simp_all add: run)
  have "values_readable ?vals" using readable_write [OF _ assms(2) t] assms(1) by (simp add: file_clean_def)
  moreover have "fs_read q (snd st') = fs_read q (snd st)" if "q \<notin> store_files (fk_path (fst st))" for q
    using PersistToDisk_other [of q "(fst st)\<lparr>fk_values := ?vals\<rparr>" "snd st"] that run
    by (auto simp: persist_values_def Let_def split_beta)
  ultimately show ?thesis using st' by (simp add: file_clean_def disk_holds_def TempPath_def JournalPath_def)
qed

lemma recover_entries_clean:
  "recover_entries file_store es st r = (True, r', st') \<Longrightarrow> \<forall>e \<in> set es. pe_value e \<noteq> [] \<Longrightarrow> file_clean st \<Longrightarrow>
     file_clean st' \<and> fk_path (fst st') = fk_path (fst st) \<and>
     (\<forall>q. q \<notin> store_files (fk_path (fst st)) \<longrightarrow> fs_read q (snd st') = fs_read q (snd st))"
proof (induction es arbitrary: st r)
  case (Cons e es)
  let ?now = "file_Get (fst st) (pe_key e)"
  show ?case
  proof (cases "vv_exists ?now \<and> vv_version ?now = pe_expected_version e + 1 \<and> vv_value ?now = pe_value e")
    case True
    with Cons show ?thesis by (simp add: Let_def)
  next
    case False
    obtain ok st1 where put: "file_PutIfVersion (pe_key e) (pe_expected_version e) (pe_value e) st = (ok, st1)" by (metis surj_pair)
    with Cons.prems(1) False have ok: "ok" by (auto simp: Let_def split: if_splits)
    with Cons.prems(1) False put have rest: "recover_entries file_store es st1
        (r\<lparr>rc_applied_entry_count := rc_applied_entry_count r + 1\<rparr>) = (True, r', st')" by (auto simp: Let_def)
    have "file_clean st1 \<and> fk_path (fst st1) = fk_path (fst st) \<and>
        (\<forall>q. q \<notin> store_files (fk_path (fst st)) \<longrightarrow> fs_read q (snd st1) = fs_read q (snd st))"
      using file_PutIfVersion_clean [OF Cons.prems(3) _ put [unfolded eqTrueI [OF ok]]] Cons.prems(2) by simp
    with Cons.IH [OF rest] Cons.prems(2) show ?thesis by simp
  qed
qed simp

lemma recover_entries_skip:
  "\<forall>e \<in> set es. kv_Get kv (fst st) (pe_key e) = \<lparr>vv_value = pe_value e, vv_version = pe_expected_version e + 1, vv_exists = True\<rparr> \<Longrightarrow>
     recover_entries kv es st r =
       (True, r\<lparr>rc_skipped_committed_entry_count := rc_skipped_committed_entry_count r + length es\<rparr>, st)"
  by (induction es arbitrary: r) (simp_all add: Let_def)

lemma open_clean:
  assumes "quiet w" "disk_holds \<lparr>fk_path = store, fk_values = vals\<rparr> vals w" "values_readable vals"
  shows "NewFileKVStore store w = (\<lparr>fk_path = store, fk_values = vals\<rparr>, w)" "file_clean (\<lparr>fk_path = store, fk_values = vals\<rparr>, w)"
proof -
  have "disk_holds \<lparr>fk_path = store, fk_values = []\<rparr> vals w"
    using assms(2) by (simp add: disk_holds_def TempPath_def JournalPath_def)
  from load_disk_holds [OF this assms(3)] show "NewFileKVStore store w = (\<lparr>fk_path = store, fk_values = vals\<rparr>, w)"
    by (simp add: NewFileKVStore_def)
qed (use assms in \<open>simp add: file_clean_def\<close>)

text \<open>
  C31. The recovery tool repairs a store file, and running it again changes nothing. The disk holds a
  readable store file and the log of a committed transaction, some of whose keys were written
  before the process died and some not; no file operation fails. The tool exits with 0, and a store
  opened on the file afterwards has every key as after the transaction. A second run of the tool
  on the same log exits with 0, reports every entry as already committed, and leaves the disk
  exactly as it is.
\<close>

theorem recovery_tool_repairs_file:
  assumes "quiet w" and "disk_holds \<lparr>fk_path = store, fk_values = vals\<rparr> vals w" and "values_readable vals"
    and "fs_read path w = Some (commit_log_text txn)" and "path \<notin> store_files store"
    and "tx_status txn = TxnCommitted" and "\<forall>e \<in> set (tx_commit_log txn). cle_value e \<noteq> []"
    and "log_describes (tx_commit_log txn) V V'" and "half_recovered (tx_commit_log txn) V V' (mem_Get vals)"
  shows "\<exists>out w' vals'. commit_log_recovery_main [store, path] w = ((Inr 0, out, []), w') \<and>
    NewFileKVStore store w' = (\<lparr>fk_path = store, fk_values = vals'\<rparr>, w') \<and> mem_Get vals' = V' \<and>
    commit_log_recovery_main [store, path] w' =
      ((Inr 0, recovery_report (default_RecoveryResult\<lparr>rc_skipped_committed_entry_count := length (tx_commit_log txn)\<rparr>), []), w')"
proof -
  let ?st = "(\<lparr>fk_path = store, fk_values = vals\<rparr>, w)" and ?es = "map parsed_entry (tx_commit_log txn)"
  note opened = open_clean [OF assms(1-3)]
  have parse: "\<exists>a. ParseCommitLogArtifact path x = Some a \<and> pa_entries a = ?es \<and> log_committed a"
    if "fs_read path x = Some (commit_log_text txn)" for x
    using parse_commit_log(2) [OF that assms(7)] assms(6) by (auto simp: reads_back_def)
  obtain fin r st' where run: "recover_entries file_store ?es ?st default_RecoveryResult = (fin, r, st')" by (metis surj_pair)
  have "kv_Get file_store (fst ?st) k \<in> {V k, V' k}" if "k \<in> cle_key ` set (tx_commit_log txn)" for k
    using assms(9) that by (auto simp: half_recovered_def file_Get_mem)
  moreover have "kv_Get file_store (fst ?st) k = V k" if "k \<notin> cle_key ` set (tx_commit_log txn)" for k
    using assms(9) that by (auto simp: half_recovered_def file_Get_mem)
  ultimately have fin: "fin \<and> file_Get (fst st') = V' \<and> rc_success r"
    using versioned_store.recover_entries_correct [OF file_kv.versioned_store_axioms, of "[]" "tx_commit_log txn" V V' ?st
        default_RecoveryResult fin r st'] assms(1,8) run by (auto simp: default_RecoveryResult_def)
  have "\<forall>e \<in> set ?es. pe_value e \<noteq> []" using assms(7) by simp
  then have clean: "file_clean st'" "fk_path (fst st') = store" "fs_read path (snd st') = Some (commit_log_text txn)"
    using recover_entries_clean [of ?es ?st default_RecoveryResult r st'] run fin opened(2) assms(4,5) by simp_all
  obtain vals' w' where st': "st' = (\<lparr>fk_path = store, fk_values = vals'\<rparr>, w')"
    using clean(2) by (cases st'; cases "fst st'") simp
  have again: "NewFileKVStore store w' = (\<lparr>fk_path = store, fk_values = vals'\<rparr>, w')"
    using clean(1) open_clean(1) [of w' store vals'] by (simp add: st' file_clean_def)
  have first: "commit_log_recovery_main [store, path] w = ((Inr 0, recovery_report r, []), w')"
    using parse [OF assms(4)] run fin
    by (auto simp: commit_log_recovery_main_def opened(1) RecoverCommittedWrites_def st')
  have "\<forall>e \<in> set ?es. kv_Get file_store (fst st') (pe_key e) =
      \<lparr>vv_value = pe_value e, vv_version = pe_expected_version e + 1, vv_exists = True\<rparr>"
    using fin assms(8) by (auto simp: log_describes_def)
  from recover_entries_skip [OF this, of default_RecoveryResult]
  have "commit_log_recovery_main [store, path] w' =
      ((Inr 0, recovery_report (default_RecoveryResult\<lparr>rc_skipped_committed_entry_count := length (tx_commit_log txn)\<rparr>), []), w')"
    using parse [OF clean(3)]
    by (auto simp: commit_log_recovery_main_def st' again RecoverCommittedWrites_def default_RecoveryResult_def)
  with first again fin show ?thesis by (auto simp: st' file_Get_mem)
qed

definition tool_disk :: world where
  "tool_disk = \<lparr>files = [(''s'', snapshot_text [(''k'', \<lparr>me_value = ''old'', me_version = 3\<rparr>)]), (''l'', commit_log_text demo_log)],
     dirs = [], script = []\<rparr>"

theorem recovery_tool_repairs_file_witness:
  "\<exists>out w' vals'. commit_log_recovery_main [''s'', ''l''] tool_disk = ((Inr 0, out, []), w') \<and>
     fst (NewFileKVStore ''s'' w') = \<lparr>fk_path = ''s'', fk_values = vals'\<rparr> \<and> vv_value (mem_Get vals' ''k'') = ''new''"
proof -
  let ?vals = "[(''k'', \<lparr>me_value = ''old'', me_version = 3\<rparr>)] :: MemoryKVStore"
  let ?V = "mem_Get ?vals"
  have d: "quiet tool_disk" "disk_holds \<lparr>fk_path = ''s'', fk_values = ?vals\<rparr> ?vals tool_disk" "values_readable ?vals"
    "fs_read ''l'' tool_disk = Some (commit_log_text demo_log)" "''l'' \<notin> store_files ''s''"
    by (simp_all add: tool_disk_def quiet_def disk_holds_def fs_read_def TempPath_def JournalPath_def umap_find_def
        values_readable_def umap_wf_def store_files_def)
  have l: "tx_status demo_log = TxnCommitted" "\<forall>e \<in> set (tx_commit_log demo_log). cle_value e \<noteq> []"
    "log_describes (tx_commit_log demo_log) ?V (view_put ''k'' ''new'' ?V)"
    "half_recovered (tx_commit_log demo_log) ?V (view_put ''k'' ''new'' ?V) ?V"
    by (simp_all add: demo_log_def log_describes_def half_recovered_def mem_Get_def umap_find_def)
  from recovery_tool_repairs_file [OF d l] show ?thesis by auto
qed

end
