(* ===== verification/Txn_Sequential.thy ===== *)
theory Txn_Sequential
  imports Txn_Manager
begin

text \<open>
  Transactions on stores without atomic batches. The sequential commit of \<open>commit_manager.h\<close> checks
  less than the batch, but together with the validation before it a transaction has the same
  outcome on both kinds of stores.
\<close>

section \<open>The sequential commit is exact\<close>

context versioned_store
begin

lemma apply_writes_all:
  "distinct (map wo_key ws) \<Longrightarrow> inv st \<Longrightarrow>
     \<forall>w \<in> set ws. umap_find ev (wo_key w) = Some (vv_version (kv_Get kv (fst st) (wo_key w))) \<Longrightarrow>
     \<exists>st'. apply_writes kv ev ws applied st f = (True, st', f) \<and> inv st' \<and>
       kv_Get kv (fst st') = view_puts ws (kv_Get kv (fst st))"
proof (induction ws arbitrary: applied st)
  case (Cons w ws)
  let ?V = "kv_Get kv (fst st)"
  let ?put = "kv_PutIfVersion kv (wo_key w) (vv_version (?V (wo_key w))) (wo_value w) st"
  have put: "fst ?put" "inv (snd ?put)" "kv_Get kv (fst (snd ?put)) = view_put (wo_key w) (wo_value w) ?V"
    using Cons.prems(2) by (simp_all add: put_if_ok put_if_inv put_if_view)
  have "wo_key u \<noteq> wo_key w" if "u \<in> set ws" for u
    using Cons.prems(1) that by (simp, metis image_eqI)
  then have "\<forall>u \<in> set ws. umap_find ev (wo_key u) = Some (vv_version (kv_Get kv (fst (snd ?put)) (wo_key u)))"
    using Cons.prems(3) put(3) by simp
  from Cons.IH [OF _ put(2) this] Cons.prems(1,3) put(1,3) show ?case
    by (auto simp: Let_def split_beta)
qed simp

end

lemma expected_of_plan:
  assumes "branch_inv winner" "vr_reason f = []" "plan_commit winner V f = Inr (Inr (seen, ws, f'))" "write_versions_ok winner V"
  shows "\<forall>w \<in> set ws. umap_find (expected_versions_of (checks_of seen)) (wo_key w) = Some (vv_version (V (wo_key w)))"
  using planned_write_versions [OF assms(1-3)] assms(4) expected_versions_of_checks plan_commit_sound(2) [OF assms(1-3)] by auto

lemma sequential_commit_exact:
  assumes kv: "detached_store kv ok_state" and nb: "\<not> SupportsAtomicBatchConditionalWrite kv"
    and st: "ok_state st" and inv: "branch_inv winner" and f: "vr_reason f = []"
    and no_artifact: "fcc_artifact_path (tx_fallback_commit txn) = []" and V: "V = kv_Get kv (fst st)"
  shows "\<exists>ok txn' st' f'. CommitWinner kv txn winner st f = Inr (ok, txn', st', f') \<and> ok_state st' \<and>
    (ok \<longleftrightarrow> write_versions_ok winner V \<and> writes_resolve winner V \<and> reads_agree winner \<and> base_versions_agree winner) \<and>
    (ok \<longrightarrow> kv_Get kv (fst st') = commit_view winner V \<and> log_describes (tx_commit_log txn') V (kv_Get kv (fst st'))) \<and>
    (\<not> ok \<longrightarrow> same_values (kv_Get kv (fst st')) V \<and> txn' = txn \<and> vr_reason f' \<noteq> [])"
proof -
  obtain x where plan: "plan_commit winner V f = Inr x"
    using plan_commit_no_exn [OF inv] by (cases "plan_commit winner V f") auto
  show ?thesis
  proof (cases x)
    case (Inl g)
    have "vr_reason g \<noteq> []" by (rule plan_commit_reason [OF plan [unfolded Inl]])
    moreover have "\<not> (reads_agree winner \<and> writes_resolve winner V \<and> base_versions_agree winner)"
      using plan_commit_iff [OF inv f, of V] plan Inl by auto
    ultimately show ?thesis
      using plan Inl st by (auto simp: CommitWinner_def V)
  next
    case (Inr y)
    then obtain seen ws f0 where y: "x = Inr (seen, ws, f0)" by (cases y) auto
    note p = inv f plan [unfolded y]
    note s = plan_commit_sound [OF p]
    let ?ev = "expected_versions_of (checks_of seen)"
    have possible: "reads_agree winner \<and> writes_resolve winner V \<and> base_versions_agree winner"
      using plan_commit_iff [OF inv f, of V] plan y by auto
    obtain ok st1 f1 where ap: "apply_writes kv ?ev ws [] st f = (ok, st1, f1)" by (metis surj_pair)
    have "\<And>s k. \<not> vv_exists (kv_Get kv s k) \<Longrightarrow> kv_Get kv s k = no_value"
      using versioned_store.absent [OF detached_store.axioms(1) [OF kv]] by blast
    then have es: "entries_from V (entries_for V ws)" unfolding V by (intro entries_for_from s(3))
    have ev: "umap_find ?ev (wo_key w) \<noteq> None" if "w \<in> set ws" for w
      by (simp add: expected_versions_of_checks [OF s(2)] s(6) [OF that])
    from detached_store.apply_writes_correct [OF kv es _ _ st this f, of 0] ap
    have a: "ok_state st1"
      "ok \<longrightarrow> (\<forall>w \<in> set ws. umap_find ?ev (wo_key w) = Some (vv_version (V (wo_key w)))) \<and> kv_Get kv (fst st1) = view_puts ws V"
      "\<not> ok \<longrightarrow> same_values (kv_Get kv (fst st1)) V \<and> vr_reason f1 \<noteq> []"
      by (simp_all add: V)
    have "ok" if "write_versions_ok winner V"
      using versioned_store.apply_writes_all [OF detached_store.axioms(1) [OF kv] s(3) st, of ?ev "[]" f]
        expected_of_plan [OF p that] ap by (auto simp: V)
    then have iff: "ok \<longleftrightarrow> write_versions_ok winner V"
      using a(2) planned_write_versions [OF p] expected_versions_of_checks [OF s(2)] by auto
    have "CommitWinner kv txn winner st f =
        (if ok then Inr (True, txn\<lparr>tx_commit_log := commit_log_of seen ws\<rparr>, st1, f1)
         else Inr (False, txn, st1, or_reason ''fallback conditional write failed'' f1))"
      using plan y nb no_artifact ap s(1) by (auto simp: CommitWinner_def CommitWinnerWithoutBatch_def V)
    then show ?thesis
      using a iff possible planned_view [OF p] planned_log [OF p]
      by (cases ok) (auto simp: or_reason_def vr_fail_def)
  qed
qed

section \<open>The outcome of a transaction\<close>

text \<open>
  The intents of the branch that are resolved against the store belong to objects it has buffered,
  as when \<open>Write\<close> is called with an intent for its object.
\<close>

definition intents_buffered :: "BranchContext \<Rightarrow> bool" where
  "intents_buffered b \<longleftrightarrow> (\<forall>k. rebased_key b k \<longrightarrow> k \<in> buffered_keys b)"

lemma strict_read_rebased: "strict_read b r \<longleftrightarrow> \<not> rebased_key b (rd_object_id r)"
  by (simp add: strict_read_def rebased_key_def split: option.splits)

lemma rebased_writes: "intents_buffered b \<Longrightarrow> rebased_key b k \<Longrightarrow> writes_key b k"
  by (auto simp: intents_buffered_def writes_key_def rebased_key_def split: option.splits)

lemma validated_commit:
  assumes "intents_buffered b" and "vr_success (vm_ValidateWinner b (\<lambda>k. vv_version (V k)))"
  shows "write_versions_ok b V \<and> writes_resolve b V \<and> reads_agree b \<and> base_versions_agree b \<longleftrightarrow> commit_possible b V"
proof -
  have "write_versions_ok b V \<Longrightarrow> versions_ok b V"
    using assms by (auto simp: versions_ok_def write_versions_ok_def vm_ValidateWinner_success strict_read_rebased
        dest: rebased_writes)
  then show ?thesis using versions_ok_writes versions_ok_base by (auto simp: commit_possible_def)
qed

lemma sequential_outcome_lemma:
  assumes kv: "detached_store kv ok_state" and nb: "\<not> SupportsAtomicBatchConditionalWrite kv" and st: "ok_state st"
    and no_artifact: "fcc_artifact_path (tx_fallback_commit txn) = []"
    and b: "\<forall>b \<in> set (tx_branches txn). branch_inv b \<and> intents_buffered b" and ne: "tx_branches txn \<noteq> []"
    and ids: "distinct (map bc_branch_id (tx_branches txn))"
    and scores: "\<forall>b \<in> set (tx_branches txn). cr_score (bc_candidate_result b) \<noteq> DNaN" and V: "V = kv_Get kv (fst st)"
  shows "\<exists>ok txn' st'. tm_SelectWinnerAndCommit kv txn st = Inr (ok, txn', st') \<and> ok_state st' \<and>
    outcome_of (tx_branches txn) (best_branch (tx_branches txn)) V ok txn' (if ok then kv_Get kv (fst st') else V) \<and>
    (\<not> ok \<longrightarrow> same_values (kv_Get kv (fst st')) V)"
proof -
  have gv: "kv_GetVersion kv (fst st) = (\<lambda>k. vv_version (V k))"
    using versioned_store.get_version [OF detached_store.axioms(1) [OF kv]] by (auto simp: V)
  have f: "vr_reason default_ValidationResult = []" by (simp add: default_ValidationResult_def)
  have commit: "\<exists>ok txn' st' f'. CommitWinner kv t (w\<lparr>bc_status := s\<rparr>) st default_ValidationResult = Inr (ok, txn', st', f') \<and>
        ok_state st' \<and> (ok \<longleftrightarrow> commit_possible w V) \<and>
        (ok \<longrightarrow> kv_Get kv (fst st') = commit_view w V \<and> log_describes (tx_commit_log txn') V (kv_Get kv (fst st'))) \<and>
        (\<not> ok \<longrightarrow> same_values (kv_Get kv (fst st')) V \<and> txn' = t)"
    if t: "tx_fallback_commit t = tx_fallback_commit txn" and w: "w \<in> set (tx_branches txn)"
      and v: "vr_success (vm_ValidateWinner w (\<lambda>k. vv_version (V k)))" for t w s
  proof -
    have i: "branch_inv (w\<lparr>bc_status := s\<rparr>)" using b w by simp
    have n: "fcc_artifact_path (tx_fallback_commit t) = []" using t no_artifact by simp
    have "write_versions_ok (w\<lparr>bc_status := s\<rparr>) V \<and> writes_resolve (w\<lparr>bc_status := s\<rparr>) V \<and> reads_agree (w\<lparr>bc_status := s\<rparr>) \<and>
        base_versions_agree (w\<lparr>bc_status := s\<rparr>) \<longleftrightarrow> commit_possible (w\<lparr>bc_status := s\<rparr>) V"
      by (rule validated_commit) (use b w v in \<open>simp_all add: vm_ValidateWinner_success strict_read_def intents_buffered_def
          rebased_key_def buffered_keys_def\<close>)
    with sequential_commit_exact [OF kv nb st i f n V] show ?thesis unfolding branch_status_irrelevant commit_possible_status by blast
  qed
  from b have inv: "\<forall>b \<in> set (tx_branches txn). branch_inv b" by blast
  show ?thesis
    by (rule transaction_outcome_from [of txn V kv st ok_state "\<lambda>X. same_values X V", OF commit V _ gv st inv ne ids scores]) simp_all
qed

text \<open>
  C5. A transaction on a store without atomic batches, without an artifact and undisturbed while it
  commits, has the outcome it has with batches. It chooses a branch that no other exceeds in score
  and commits exactly when that branch can be committed on a store with batches: the sequential
  commit does not check the versions of what was only read, but the validation before it has. On
  success the store makes exactly the step of the winner, described by the log, and the losers are
  discarded; on failure every key has its old value, though its version may have moved, and the
  transaction is aborted.
\<close>

theorem sequential_transaction_outcome:
  assumes "detached_store kv ok_state" and "\<not> SupportsAtomicBatchConditionalWrite kv" and "ok_state st"
    and "fcc_artifact_path (tx_fallback_commit txn) = []"
    and "\<forall>b \<in> set (tx_branches txn). branch_inv b \<and> intents_buffered b" and "tx_branches txn \<noteq> []"
    and "distinct (map bc_branch_id (tx_branches txn))"
    and "\<forall>b \<in> set (tx_branches txn). cr_score (bc_candidate_result b) \<noteq> DNaN" and "V = kv_Get kv (fst st)"
  shows "\<exists>ok txn' st' w. tm_SelectWinnerAndCommit kv txn st = Inr (ok, txn', st') \<and> ok_state st' \<and>
    outcome_of (tx_branches txn) w V ok txn' (if ok then kv_Get kv (fst st') else V) \<and>
    (\<not> ok \<longrightarrow> same_values (kv_Get kv (fst st')) V)"
  using sequential_outcome_lemma [OF assms] by blast

theorem sequential_transaction_outcome_witness:
  "let txn = (tm_Begin ''t'' ''task'')\<lparr>tx_branches := [demo_branch (mem_Get demo_mem)]\<rparr> in
   case tm_SelectWinnerAndCommit non_batch_memory_store txn (demo_mem, calm) of
     Inl _ \<Rightarrow> False
   | Inr (ok, txn', st') \<Rightarrow> ok \<and> vv_value (mem_Get (fst st') ''k'') = ''old+''"
proof -
  let ?b = "demo_branch (mem_Get demo_mem)"
  let ?txn = "(tm_Begin ''t'' ''task'')\<lparr>tx_branches := [?b]\<rparr>"
  have g: "mem_Get demo_mem ''k'' = \<lparr>vv_value = ''old'', vv_version = 3, vv_exists = True\<rparr>"
    by (simp add: demo_mem_def mem_Get_def umap_find_def)
  have score: "cr_score (bc_candidate_result ?b) = DFin 0"
    by (simp add: demo_branch_def bm_BufferWrite_frame bm_ReadObject_frame new_BranchContext_def)
  have buffered: "intents_buffered ?b"
    by (auto simp: intents_buffered_def rebased_key_def demo_branch_facts latest_intent_def split: if_splits)
  have h: "fcc_artifact_path (tx_fallback_commit ?txn) = []" "\<forall>b \<in> set (tx_branches ?txn). branch_inv b \<and> intents_buffered b"
      "tx_branches ?txn \<noteq> []" "distinct (map bc_branch_id (tx_branches ?txn))"
      "\<forall>b \<in> set (tx_branches ?txn). cr_score (bc_candidate_result b) \<noteq> DNaN"
    using score buffered by (simp_all add: tm_Begin_def)
  have nb: "\<not> SupportsAtomicBatchConditionalWrite non_batch_memory_store" by simp
  have poss: "commit_possible ?b (mem_Get demo_mem)"
    by (auto simp: commit_possible_def versions_ok_def reads_agree_def demo_branch_facts)
  have v: "mem_Get demo_mem = kv_Get non_batch_memory_store (fst (demo_mem, calm))" by simp
  obtain ok txn' st' w where r: "tm_SelectWinnerAndCommit non_batch_memory_store ?txn (demo_mem, calm) = Inr (ok, txn', st')"
      "outcome_of (tx_branches ?txn) w (mem_Get demo_mem) ok txn' (if ok then kv_Get non_batch_memory_store (fst st') else mem_Get demo_mem)"
    using sequential_transaction_outcome [OF nonbatch_detached.detached_store_axioms nb TrueI h v] by blast
  then have w: "w = ?b" by (simp add: outcome_of_def)
  have ok: "ok" using r(2) poss unfolding w outcome_of_def by blast
  then have "mem_Get (fst st') = commit_view ?b (mem_Get demo_mem)" using r(2) ok unfolding w outcome_of_def by simp
  with r(1) ok show ?thesis by (simp add: Let_def commit_view_def demo_branch_facts g)
qed

end
