(* ===== verification/Commit_Shared.thy ===== *)
theory Commit_Shared
  imports Txn_Sequential
begin

text \<open>
  The commit of \<open>commit_manager.h\<close> without batches and without an artifact, on a store that another
  client writes to while the commit runs. The store is the model's own, put behind a script of one
  foreign write: every conditional write and delete has one moment before it and one after it, and
  the foreign write falls at a chosen one of them, so also between the version check of a key and
  the conditional write of it.
\<close>

section \<open>The writes of a commit\<close>

lemma entries_for_same: "(\<And>w. w \<in> set ws \<Longrightarrow> V (wo_key w) = W (wo_key w)) \<Longrightarrow> entries_for V ws = entries_for W ws"
  by (simp add: entries_for_def)

lemma view_puts_put:
  "k \<notin> wo_key ` set ws \<Longrightarrow> view_puts ws (view_put k v V) = view_put k v (view_puts ws V)"
proof (induction ws arbitrary: V)
  case (Cons w ws)
  then have "view_put (wo_key w) (wo_value w) (view_put k v V) = view_put k v (view_put (wo_key w) (wo_value w) V)"
    by (auto simp: view_put_def fun_eq_iff)
  with Cons show ?case by simp
qed simp

section \<open>A store shared with another client\<close>

text \<open>The write the other client still has to do: after so many moments, under a key, a value.\<close>

type_synonym 's shared = "'s \<times> (nat \<times> string \<times> string) option"

fun other_client :: "'s VersionedKVStore \<Rightarrow> 's shared sys \<Rightarrow> 's shared sys" where
  "other_client kv ((s, None), w) = ((s, None), w)"
| "other_client kv ((s, Some (0, k, v)), w) = (let (_, s, w) = kv_Put kv k v (s, w) in ((s, None), w))"
| "other_client kv ((s, Some (Suc m, k, v)), w) = ((s, Some (m, k, v)), w)"

definition shared_op ::
    "'s VersionedKVStore \<Rightarrow> ('s sys \<Rightarrow> bool \<times> 's sys) \<Rightarrow> 's shared sys \<Rightarrow> bool \<times> 's shared sys" where
  "shared_op kv op st =
     (let ((s, other), w) = other_client kv st; (ok, s, w) = op (s, w)
      in (ok, other_client kv ((s, other), w)))"

definition shared_store :: "'s VersionedKVStore \<Rightarrow> 's shared VersionedKVStore" where
  "shared_store kv =
     \<lparr>SupportsAtomicBatchConditionalWrite = SupportsAtomicBatchConditionalWrite kv,
      kv_Get = (\<lambda>s. kv_Get kv (fst s)),
      kv_GetVersion = (\<lambda>s. kv_GetVersion kv (fst s)),
      kv_Put = (\<lambda>k v. shared_op kv (kv_Put kv k v)),
      kv_PutIfVersion = (\<lambda>k n v. shared_op kv (kv_PutIfVersion kv k n v)),
      kv_DeleteIfVersion = (\<lambda>k n. shared_op kv (kv_DeleteIfVersion kv k n)),
      kv_BatchPutIfVersion = (\<lambda>cs ws. shared_op kv (kv_BatchPutIfVersion kv cs ws))\<rparr>"

lemma shared_store_ops [simp]:
  "SupportsAtomicBatchConditionalWrite (shared_store kv) \<longleftrightarrow> SupportsAtomicBatchConditionalWrite kv"
  "kv_Get (shared_store kv) s = kv_Get kv (fst s)"
  "kv_GetVersion (shared_store kv) s = kv_GetVersion kv (fst s)"
  "kv_Put (shared_store kv) k v = shared_op kv (kv_Put kv k v)"
  "kv_PutIfVersion (shared_store kv) k n v = shared_op kv (kv_PutIfVersion kv k n v)"
  "kv_DeleteIfVersion (shared_store kv) k n = shared_op kv (kv_DeleteIfVersion kv k n)"
  by (simp_all add: shared_store_def)

lemma shared_op_alone [simp]:
  "shared_op kv op ((s, None), w) = (fst (op (s, w)), (fst (snd (op (s, w))), None), snd (snd (op (s, w))))"
  by (simp add: shared_op_def Let_def split_beta)

lemma shared_op_cases:
  "shared_op kv op ((s, Some (0, k, v)), w) =
     shared_op kv op ((fst (snd (kv_Put kv k v (s, w))), None), snd (snd (kv_Put kv k v (s, w))))"
  "shared_op kv op ((s, Some (Suc 0, k, v)), w) = (let (ok, st) = op (s, w); (_, s, w) = kv_Put kv k v st in (ok, (s, None), w))"
  "shared_op kv op ((s, Some (Suc (Suc m), k, v)), w) = (let (ok, s, w) = op (s, w) in (ok, (s, Some (m, k, v)), w))"
  by (simp_all add: shared_op_def Let_def split_beta)

text \<open>What the other client has made of a view, once its write has happened.\<close>

definition with_other :: "(nat \<times> string \<times> string) option \<Rightarrow> (nat \<times> string \<times> string) option \<Rightarrow> view \<Rightarrow> view" where
  "with_other before after V =
     (case (before, after) of (Some (_, k, v), None) \<Rightarrow> view_put k v V | _ \<Rightarrow> V)"

lemma with_other_same [simp]: "with_other other other V = V" "with_other None after V = V"
  by (simp_all add: with_other_def split: option.splits)

text \<open>When the other client has nothing to write, the shared store keeps the contract of the store.\<close>

definition undisturbed :: "('s sys \<Rightarrow> bool) \<Rightarrow> 's shared sys \<Rightarrow> bool" where
  "undisturbed P st \<longleftrightarrow> P (fst (fst st), snd st) \<and> snd (fst st) = None"

lemma undisturbedE:
  assumes "undisturbed P st" obtains s w where "st = ((s, None), w)" "P (s, w)"
  using assms by (cases st) (auto simp: undisturbed_def)

lemma shared_op_undisturbed:
  assumes "undisturbed P st"
  shows "fst (shared_op kv op st) \<longleftrightarrow> fst (op (fst (fst st), snd st))"
    "fst (fst (snd (shared_op kv op st))) = fst (snd (op (fst (fst st), snd st)))"
    "snd (fst (snd (shared_op kv op st))) = None"
    "snd (snd (shared_op kv op st)) = snd (snd (op (fst (fst st), snd st)))"
    "undisturbed P (snd (shared_op kv op st)) \<longleftrightarrow> P (snd (op (fst (fst st), snd st)))"
proof -
  obtain s w where "st = ((s, None), w)" using assms by (rule undisturbedE)
  then show "fst (shared_op kv op st) \<longleftrightarrow> fst (op (fst (fst st), snd st))"
    "fst (fst (snd (shared_op kv op st))) = fst (snd (op (fst (fst st), snd st)))"
    "snd (fst (snd (shared_op kv op st))) = None"
    "snd (snd (shared_op kv op st)) = snd (snd (op (fst (fst st), snd st)))"
    "undisturbed P (snd (shared_op kv op st)) \<longleftrightarrow> P (snd (op (fst (fst st), snd st)))"
    by (simp_all add: undisturbed_def)
qed

context detached_store
begin

lemma undisturbed_inv: "undisturbed inv st \<Longrightarrow> inv (fst (fst st), snd st)"
  by (simp add: undisturbed_def)

lemma other_client_disk: "snd (other_client kv st) = snd st"
  using put_disk by (cases "(kv, st)" rule: other_client.cases) (simp_all add: Let_def split_beta)

lemma shared_op_disk:
  assumes "\<And>st. snd (snd (op st)) = snd st" shows "snd (snd (shared_op kv op st)) = snd st"
  using assms by (simp add: shared_op_def Let_def split_beta other_client_disk)

lemma shared_detached: "detached_store (shared_store kv) (undisturbed inv)"
proof (unfold_locales, goal_cases)
  case (17 s w w')
  then show ?case by (auto simp: undisturbed_def intro: inv_disk)
qed (simp_all add: shared_op_undisturbed undisturbed_inv get_version absent store_ok put_view put_if_view put_if_miss [where st = "(a, b)" for a b, unfolded fst_conv] delete_if_view
      delete_if_miss store_inv store_disk shared_op_disk)


text \<open>The loop over the writes once the other client has written \<open>k\<close>, with the first \<open>n\<close> of them applied.\<close>

lemma shared_writes_after:
  assumes d: "distinct (map wo_key ws)" and n: "n \<le> length ws" and i: "inv (s, w)" and f: "vr_reason f = []"
    and V: "\<And>q. \<not> vv_exists (V q) \<Longrightarrow> V q = no_value"
    and ev: "\<forall>u \<in> set ws. umap_find ev (wo_key u) = Some (vv_version (V (wo_key u)))"
    and s: "kv_Get kv s = view_put k v (view_puts (take n ws) V)"
    and run: "apply_writes (shared_store kv) ev (drop n ws) (map applied_of (take n (entries_for V ws))) ((s, None), w) f = (ok, st', f')"
  shows "snd (fst st') = None \<and> inv (fst (fst st'), snd st') \<and>
    (ok \<longrightarrow> kv_Get kv (fst (fst st')) = view_put k v (view_puts ws V)) \<and>
    (\<not> ok \<longrightarrow> same_values (kv_Get kv (fst (fst st'))) (view_put k v V) \<and> vr_reason f' \<noteq> [])"
proof -
  let ?W = "view_put k v V" and ?us = "take n ws" and ?rest = "drop n ws"
  let ?init = "((s, None), w)"
  have u: "undisturbed inv ?init" using i by (simp add: undisturbed_def)
  have keys: "wo_key ` set ws = wo_key ` set ?us \<union> wo_key ` set ?rest"
    by (metis append_take_drop_id image_Un set_append)
  have dd: "distinct (map wo_key ?us @ map wo_key ?rest)" using d by (metis append_take_drop_id map_append)
  have du: "distinct (map wo_key ?rest)" "wo_key ` set ?us \<inter> wo_key ` set ?rest = {}"
    using dd by (auto simp: distinct_append)
  show ?thesis
  proof (cases "k \<in> wo_key ` set ?rest")
    case True
    then obtain x where x: "x \<in> set ?rest" "wo_key x = k" by auto
    have k: "k \<notin> wo_key ` set ?us" using True du(2) by blast
    have "entries_for V ?us = entries_for ?W ?us"
      by (rule entries_for_same) (metis k image_eqI view_put_other)
    then have applied: "map applied_of (take n (entries_for V ws)) = map applied_of (take n (entries_for ?W ws))"
      by (simp add: entries_for_def take_map)
    have "map entry_write (take n (entries_for ?W ws)) = ?us"
      by (simp add: entries_for_def comp_def entry_write_def map_idI take_map)
    then have part: "kv_Get (shared_store kv) (fst ?init) = partly_applied ?W (entries_for ?W ws) n"
      by (simp add: s partly_applied_def view_puts_put [OF k])
    have "?W q = no_value" if "\<not> vv_exists (?W q)" for q
      using that V [of q] by (cases "q = k") simp_all
    then have es: "entries_from ?W (entries_for ?W ws)" by (rule entries_for_from [OF d])
    have "umap_find ev (wo_key y) \<noteq> None" if "y \<in> set ws" for y using ev that by simp
    from detached_store.apply_writes_correct [OF shared_detached es n part u this f run [unfolded applied]]
    have a: "undisturbed inv st'" "ok \<Longrightarrow> \<forall>y \<in> set ?rest. umap_find ev (wo_key y) = Some (vv_version (?W (wo_key y)))"
      "\<not> ok \<Longrightarrow> same_values (kv_Get kv (fst (fst st'))) ?W \<and> vr_reason f' \<noteq> []" by simp_all
    have "umap_find ev k = Some (vv_version (V k))" using ev x by (metis in_set_dropD)
    with a(2) x have "\<not> ok" by force
    with a show ?thesis by (simp add: undisturbed_def)
  next
    case False
    have "kv_Get (shared_store kv) (fst ?init) (wo_key y) = V (wo_key y)" if "y \<in> set ?rest" for y
    proof -
      have "wo_key y \<notin> wo_key ` set ?us" "wo_key y \<noteq> k" using du(2) False that by blast+
      then show ?thesis by (simp add: s view_puts_other)
    qed
    then have "\<forall>y \<in> set ?rest. umap_find ev (wo_key y) = Some (vv_version (kv_Get (shared_store kv) (fst ?init) (wo_key y)))"
      using ev by (metis in_set_dropD)
    from versioned_store.apply_writes_all [OF detached_store.axioms(1) [OF shared_detached] du(1) u this,
        of "map applied_of (take n (entries_for V ws))" f] run
    have "ok" "undisturbed inv st'" "kv_Get kv (fst (fst st')) = view_puts ?rest (kv_Get kv s)" by auto
    moreover have "view_puts ?rest (kv_Get kv s) = view_put k v (view_puts ws V)"
      by (metis s append_take_drop_id view_puts_append view_puts_put [OF False])
    ultimately show ?thesis by (simp add: undisturbed_def)
  qed
qed


lemma put_pair:
  assumes "inv (s, w)"
  obtains s1 w1 where "kv_Put kv k v (s, w) = (True, s1, w1)" "inv (s1, w1)" "kv_Get kv s1 = view_put k v (kv_Get kv s)"
  using put_ok [OF assms, of k v] put_inv [OF assms, of k v] put_view [OF assms, of k v] that
  by (cases "kv_Put kv k v (s, w)") simp

lemma put_if_pair:
  assumes "inv (s, w)" "vv_version (kv_Get kv s k) = n"
  obtains s1 w1 where "kv_PutIfVersion kv k n v (s, w) = (True, s1, w1)" "inv (s1, w1)"
    "kv_Get kv s1 = view_put k v (kv_Get kv s)"
proof -
  from assms have "vv_version (kv_Get kv (fst (s, w)) k) = n" by simp
  with put_if_ok [OF assms(1), of k n v] put_if_inv [OF assms(1), of k n v] put_if_view [OF assms(1) this, of v] that
  show thesis by (cases "kv_PutIfVersion kv k n v (s, w)") simp
qed

text \<open>The loop while the write of the other client is still ahead.\<close>

lemma shared_writes_before:
  assumes d: "distinct (map wo_key ws)" and f: "vr_reason f = []"
    and V: "\<And>q. \<not> vv_exists (V q) \<Longrightarrow> V q = no_value"
    and ev: "\<forall>u \<in> set ws. umap_find ev (wo_key u) = Some (vv_version (V (wo_key u)))"
    and wrap: "vv_version (V k) + 1 \<noteq> 0"
    and n: "n \<le> length ws" and i: "inv (s, w)" and s: "kv_Get kv s = view_puts (take n ws) V"
    and run: "apply_writes (shared_store kv) ev (drop n ws) (map applied_of (take n (entries_for V ws)))
      ((s, Some (m, k, v)), w) f = (ok, st', f')"
  shows "inv (fst (fst st'), snd st') \<and>
    (ok \<longrightarrow> kv_Get kv (fst (fst st')) = with_other (Some (m, k, v)) (snd (fst st')) (view_puts ws V)) \<and>
    (\<not> ok \<longrightarrow> snd (fst st') = None \<and> same_values (kv_Get kv (fst (fst st'))) (view_put k v V) \<and> vr_reason f' \<noteq> [])"
  using n i s run
proof (induction "length ws - n" arbitrary: n s w m)
  case 0
  then show ?case by (auto simp: with_other_def)
next
  case (Suc l)
  let ?w = "ws ! n" and ?es = "entries_for V ws" and ?K = "shared_store kv"
  let ?init = "((s, Some (m, k, v)), w)" and ?n = "vv_version (V (wo_key (ws ! n)))"
  from Suc.hyps(2) have n: "n < length ws" by simp
  then have drop: "drop n ws = ?w # drop (Suc n) ws" and take: "take (Suc n) ws = take n ws @ [?w]"
    by (simp_all add: Cons_nth_drop_Suc take_Suc_conv_app_nth)
  have fresh: "wo_key ?w \<notin> wo_key ` set (take n ws)"
    using d n by (metis distinct_take take distinct_append disjoint_iff list.set_intros(1) list.simps(9) map_append set_map take_map)
  have now: "kv_Get kv s (wo_key ?w) = V (wo_key ?w)" by (simp add: Suc.prems(3) view_puts_other [OF fresh])
  have e: "umap_find ev (wo_key ?w) = Some ?n" using ev n by simp
  obtain ok1 st1 where put: "kv_PutIfVersion ?K (wo_key ?w) ?n (wo_value ?w) ?init = (ok1, st1)" by (metis surj_pair)
  have applied: "map applied_of (take n ?es) @ [\<lparr>aw_key = wo_key ?w, aw_previous_value = vv_value (V (wo_key ?w)),
      aw_previous_version = ?n, aw_previous_exists = vv_exists (V (wo_key ?w))\<rparr>] = map applied_of (take (Suc n) ?es)"
    using n by (simp add: take_Suc_conv_app_nth applied_of_def entries_for_def)
  have go: "apply_writes ?K ev (drop n ws) (map applied_of (take n ?es)) ?init f =
      (if ok1 then apply_writes ?K ev (drop (Suc n) ws) (map applied_of (take (Suc n) ?es)) st1 f
       else (let (_, st, failure) = RollbackAppliedWrites ?K (map applied_of (take n ?es)) st1 f
             in (False, st, or_reason (''fallback conditional write failed for '' @ wo_key ?w) failure)))"
    by (simp add: drop e now put applied Let_def del: shared_store_ops(5))
  note after = shared_writes_after [OF d _ _ f V ev, of "Suc n"]
  consider "m = 0" "k = wo_key ?w" | "m = 0" "k \<noteq> wo_key ?w" | "m = 1" | m' where "m = Suc (Suc m')"
    by (metis One_nat_def not0_implies_Suc)
  then show ?case
  proof cases
    case 1
    obtain s0 w0 where p0: "kv_Put kv k v (s, w) = (True, s0, w0)" "inv (s0, w0)" "kv_Get kv s0 = view_put k v (kv_Get kv s)"
      by (rule put_pair [OF Suc.prems(2)])
    have ne: "vv_version (kv_Get kv (fst (s0, w0)) (wo_key ?w)) \<noteq> ?n" using 1 now p0(3) by simp
    obtain ok2 s1 w1 where p1: "kv_PutIfVersion kv (wo_key ?w) ?n (wo_value ?w) (s0, w0) = (ok2, s1, w1)" by (metis surj_pair)
    have refused: "\<not> ok2" "inv (s1, w1)" using put_if_ok [OF p0(2)] put_if_inv [OF p0(2)] p1 ne by (metis fst_conv snd_conv)+
    have "kv_Get kv s1 q = kv_Get kv s0 q" for q
    proof (cases "q = wo_key ?w")
      case True
      have "vv_exists (kv_Get kv s0 q)" "vv_version (kv_Get kv s0 q) \<noteq> 0" using p0(3) 1(2) True now wrap by simp_all
      moreover have "vv_value (kv_Get kv s1 q) = vv_value (kv_Get kv s0 q)" "vv_version (kv_Get kv s1 q) = vv_version (kv_Get kv s0 q)"
        using put_if_miss [OF p0(2) ne, of "wo_value ?w"] p1 by (simp_all add: same_content_def)
      moreover have "vv_exists (kv_Get kv s1 q)"
        using absent [of s1 q] calculation(2,4) by (cases "vv_exists (kv_Get kv s1 q)") (simp_all add: no_value_def)
      ultimately show ?thesis by (intro VersionedValue.equality) simp_all
    next
      case False
      then show ?thesis using put_if_miss [OF p0(2) ne, of "wo_value ?w"] p1 by simp
    qed
    then have view: "kv_Get kv s1 = view_puts (take n ws) (view_put k v V)"
      using view_puts_put [of k "take n ws" v V] fresh 1(2) p0(3) Suc.prems(3) by (simp add: fun_eq_iff)
    let ?W = "view_put k v V" and ?st1 = "((s1, None), w1)"
    have same: "entries_for V (take n ws) = entries_for ?W (take n ws)"
      by (rule entries_for_same) (metis fresh 1(2) image_eqI view_put_other)
    then have applied': "map applied_of (take n ?es) = map applied_of (take n (entries_for ?W ws))"
      by (simp add: entries_for_def take_map)
    have "map entry_write (take n (entries_for ?W ws)) = take n ws"
      by (simp add: entries_for_def comp_def entry_write_def map_idI take_map)
    then have undo: "undone_to ?W (entries_for ?W ws) n (kv_Get ?K (fst ?st1))"
      using undone_to_partly [of ?W "entries_for ?W ws" n] by (simp add: view partly_applied_def)
    have "?W q = no_value" if "\<not> vv_exists (?W q)" for q
      using that V [of q] by (cases "q = k") simp_all
    then have es: "entries_from ?W (entries_for ?W ws)" by (rule entries_for_from [OF d])
    obtain ok3 st3 f3 where rb: "rollback_applied_loop ?K (rev (map applied_of (take n (entries_for ?W ws)))) ?st1 f = (ok3, st3, f3)"
      by (metis surj_pair)
    have u: "undisturbed inv ?st1" using refused(2) by (simp add: undisturbed_def)
    from detached_store.rollback_applied_restores [OF shared_detached es _ undo u rb] n
    have r: "f3 = f" "undisturbed inv st3" "same_values (kv_Get kv (fst (fst st3))) ?W" by simp_all
    have "\<not> ok1" "st1 = ?st1" using put p0(1) p1 refused(1) by (simp_all add: 1(1) shared_op_cases)
    then have "\<not> ok" "st' = st3" "vr_reason f' \<noteq> []"
      using go Suc.prems(4) rb r(1) f by (auto simp: RollbackAppliedWrites_def applied' or_reason_def vr_fail_def)
    with r show ?thesis by (simp add: undisturbed_def)
  next
    case 2
    obtain s0 w0 where p0: "kv_Put kv k v (s, w) = (True, s0, w0)" "inv (s0, w0)" "kv_Get kv s0 = view_put k v (kv_Get kv s)"
      by (rule put_pair [OF Suc.prems(2)])
    from p0(3) now 2(2) have "vv_version (kv_Get kv s0 (wo_key ?w)) = ?n" by simp
    from put_if_pair [OF p0(2) this, of "wo_value ?w"] obtain s1 w1 where
      p1: "kv_PutIfVersion kv (wo_key ?w) ?n (wo_value ?w) (s0, w0) = (True, s1, w1)" "inv (s1, w1)"
        "kv_Get kv s1 = view_put (wo_key ?w) (wo_value ?w) (view_put k v (kv_Get kv s))"
      unfolding p0(3) by blast
    have "kv_Get kv s1 = view_put k v (view_puts (take (Suc n) ws) V)"
      using view_puts_put [of k "[?w]" v] 2(2) by (simp add: p1(3) take view_puts_append Suc.prems(3))
    moreover have "ok1" "st1 = ((s1, None), w1)" using put p0(1) p1(1) by (simp_all add: 2(1) shared_op_cases)
    ultimately show ?thesis
      using after [of s1 w1 k v ok st' f'] n p1(2) go Suc.prems(4) by (simp add: with_other_def)
  next
    case 3
    from now have "vv_version (kv_Get kv s (wo_key ?w)) = ?n" by simp
    from put_if_pair [OF Suc.prems(2) this, of "wo_value ?w"] obtain s1 w1 where
      p1: "kv_PutIfVersion kv (wo_key ?w) ?n (wo_value ?w) (s, w) = (True, s1, w1)" "inv (s1, w1)"
        "kv_Get kv s1 = view_put (wo_key ?w) (wo_value ?w) (kv_Get kv s)" by blast
    obtain s2 w2 where p2: "kv_Put kv k v (s1, w1) = (True, s2, w2)" "inv (s2, w2)" "kv_Get kv s2 = view_put k v (kv_Get kv s1)"
      by (rule put_pair [OF p1(2)])
    have "kv_Get kv s2 = view_put k v (view_puts (take (Suc n) ws) V)"
      by (simp add: p2(3) p1(3) take view_puts_append Suc.prems(3))
    moreover have "ok1" "st1 = ((s2, None), w2)" using put p1(1) p2(1) by (simp_all add: 3 shared_op_cases)
    ultimately show ?thesis
      using after [of s2 w2 k v ok st' f'] n p2(2) go Suc.prems(4) by (simp add: with_other_def)
  next
    case 4
    from now have "vv_version (kv_Get kv s (wo_key ?w)) = ?n" by simp
    from put_if_pair [OF Suc.prems(2) this, of "wo_value ?w"] obtain s1 w1 where
      p1: "kv_PutIfVersion kv (wo_key ?w) ?n (wo_value ?w) (s, w) = (True, s1, w1)" "inv (s1, w1)"
        "kv_Get kv s1 = view_put (wo_key ?w) (wo_value ?w) (kv_Get kv s)" by blast
    have "kv_Get kv s1 = view_puts (take (Suc n) ws) V" by (simp add: p1(3) take view_puts_append Suc.prems(3))
    moreover have "ok1" "st1 = ((s1, Some (m', k, v)), w1)" using put p1(1) by (simp_all add: 4 shared_op_cases)
    ultimately show ?thesis
      using Suc.hyps(1) [of "Suc n" s1 w1 m'] Suc.hyps(2) n p1(2) go Suc.prems(4) by (simp add: with_other_def)
  qed
qed


text \<open>
  The loop as \<open>CommitWinner\<close> starts it. Without a foreign write nothing is assumed of the versions;
  with one they are right at the start, so that a rollback can only come after that write.
\<close>

lemma shared_writes:
  assumes d: "distinct (map wo_key ws)" and f: "vr_reason f = []" and i: "inv (s, w)"
    and ev: "\<forall>u \<in> set ws. umap_find ev (wo_key u) \<noteq> None" and V: "V = kv_Get kv s"
    and other: "\<And>m k v. other = Some (m, k, v) \<Longrightarrow> vv_version (V k) + 1 \<noteq> 0 \<and>
      (\<forall>u \<in> set ws. umap_find ev (wo_key u) = Some (vv_version (V (wo_key u))))"
    and run: "apply_writes (shared_store kv) ev ws [] ((s, other), w) f = (ok, st', f')"
  shows "(ok \<longrightarrow> (\<forall>u \<in> set ws. umap_find ev (wo_key u) = Some (vv_version (V (wo_key u)))) \<and>
      kv_Get kv (fst (fst st')) = with_other other (snd (fst st')) (view_puts ws V)) \<and>
    (\<not> ok \<longrightarrow> same_values (kv_Get kv (fst (fst st'))) (with_other other (snd (fst st')) V) \<and> vr_reason f' \<noteq> [])"
proof (cases other)
  case None
  let ?init = "((s, None), w)"
  have u: "undisturbed inv ?init" using i by (simp add: undisturbed_def)
  have es: "entries_from V (entries_for V ws)" by (rule entries_for_from [OF d]) (simp add: V absent)
  have "umap_find ev (wo_key y) \<noteq> None" if "y \<in> set ws" for y using ev that by simp
  from detached_store.apply_writes_correct [OF shared_detached es _ _ u this f, of 0 ok st' f'] run
  show ?thesis by (simp add: None V with_other_def)
next
  case (Some x)
  obtain m k v where x: "x = (m, k, v)" by (cases x)
  note o = other [OF Some [unfolded x]]
  have abs: "V q = no_value" if "\<not> vv_exists (V q)" for q using that by (simp add: V absent)
  have start: "apply_writes (shared_store kv) ev (drop 0 ws) (map applied_of (take 0 (entries_for V ws))) ((s, Some (m, k, v)), w) f = (ok, st', f')"
    using run by (simp add: Some x)
  have s: "kv_Get kv s = view_puts (take 0 ws) V" by (simp add: V)
  note r = shared_writes_before [OF d f abs conjunct2 [OF o] conjunct1 [OF o] le0 i s start]
  have "\<not> ok \<Longrightarrow> with_other (Some (m, k, v)) (snd (fst st')) V = view_put k v V" using r by (simp add: with_other_def)
  with r conjunct2 [OF o] show ?thesis unfolding Some x by metis
qed

end

section \<open>The commit\<close>

text \<open>
  C4. A commit on a store without batches and without an artifact is all or nothing, whatever
  another client does with one key while it runs. The other client writes once, at any moment
  between the conditional operations of the commit or not at all: also between the version check of
  a key and its conditional write, which is then refused after earlier keys have been written, and
  on a key that is written already. On success every written key was at the version its intent
  requires, the store has made exactly the step to \<open>commit_view\<close>, described by the commit log, and
  has the write of the other client on top if that was done; on failure each key has its old value
  again (its version may have moved), but the key of the other client has the value that client
  gave it, and a reason is given. If the other client does write, it is assumed that the versions of
  the winner are right when the commit starts and that the version of that client's key does not wrap
  around; if it does not, neither is assumed. Unlike the batch, success does not say that the keys the
  branch only read are still at their versions.
\<close>

theorem sequential_commit_all_or_nothing:
  assumes kv: "detached_store kv ok_state" and nb: "\<not> SupportsAtomicBatchConditionalWrite kv"
    and st: "ok_state (s, w)" and inv: "branch_inv winner" and f: "vr_reason f = []"
    and no_artifact: "fcc_artifact_path (tx_fallback_commit txn) = []"
    and other: "\<forall>m k v. other = Some (m, k, v) \<longrightarrow>
      write_versions_ok winner (kv_Get kv s) \<and> vv_version (kv_Get kv s k) + 1 \<noteq> 0"
  shows "\<exists>ok txn' s' other' w' f'.
    CommitWinner (shared_store kv) txn winner ((s, other), w) f = Inr (ok, txn', ((s', other'), w'), f') \<and>
    (ok \<longrightarrow> write_versions_ok winner (kv_Get kv s) \<and>
       kv_Get kv s' = with_other other other' (commit_view winner (kv_Get kv s)) \<and>
       log_describes (tx_commit_log txn') (kv_Get kv s) (commit_view winner (kv_Get kv s))) \<and>
    (\<not> ok \<longrightarrow> same_values (kv_Get kv s') (with_other other other' (kv_Get kv s)) \<and> txn' = txn \<and> vr_reason f' \<noteq> [])"
proof -
  let ?V = "kv_Get kv s" and ?K = "shared_store kv" and ?init = "((s, other), w)"
  obtain x where plan: "plan_commit winner ?V f = Inr x"
    using plan_commit_no_exn [OF inv] by (cases "plan_commit winner ?V f") auto
  have get: "kv_Get ?K (fst ?init) = ?V" by (simp add: fun_eq_iff)
  show ?thesis
  proof (cases x)
    case (Inl g)
    have "vr_reason g \<noteq> []" by (rule plan_commit_reason [OF plan [unfolded Inl]])
    with plan Inl show ?thesis by (intro exI [of _ False]) (simp add: CommitWinner_def get [simplified])
  next
    case (Inr y)
    then obtain seen ws f0 where y: "x = Inr (seen, ws, f0)" by (cases y) auto
    note p = inv f plan [unfolded y]
    note r = plan_commit_sound [OF p]
    let ?ev = "expected_versions_of (checks_of seen)"
    have ev: "\<forall>u \<in> set ws. umap_find ?ev (wo_key u) \<noteq> None"
      by (simp add: expected_versions_of_checks [OF r(2)] r(6))
    obtain ok st' f1 where ap: "apply_writes ?K ?ev ws [] ?init f = (ok, st', f1)" by (metis surj_pair)
    obtain s' other' w' where st': "st' = ((s', other'), w')" by (metis surj_pair)
    have due: "vv_version (?V k) + 1 \<noteq> 0 \<and> (\<forall>u \<in> set ws. umap_find ?ev (wo_key u) = Some (vv_version (?V (wo_key u))))"
      if "other = Some (m, k, v)" for m k v
      using other that expected_of_plan [OF p] by blast
    note a = detached_store.shared_writes [OF kv r(3) f st ev refl due ap, unfolded st']
    have v: "write_versions_ok winner ?V" if "ok"
      using a that planned_write_versions [OF p] expected_versions_of_checks [OF r(2)] by auto
    have "CommitWinner ?K txn winner ?init f =
        (if ok then Inr (True, txn\<lparr>tx_commit_log := commit_log_of seen ws\<rparr>, st', f1)
         else Inr (False, txn, st', or_reason ''fallback conditional write failed'' f1))"
      using plan y nb no_artifact ap r(1) by (simp add: CommitWinner_def CommitWinnerWithoutBatch_def get [simplified])
    then show ?thesis
      using a v planned_view [OF p] planned_log [OF p] by (cases ok) (auto simp: st' or_reason_def vr_fail_def)
  qed
qed

text \<open>A branch with two writes; the other client takes the second key between its check and its write.\<close>

definition pair_mem :: MemoryKVStore where
  "pair_mem = [(''a'', \<lparr>me_value = ''old'', me_version = 3\<rparr>), (''b'', \<lparr>me_value = ''10'', me_version = 1\<rparr>)]"

definition pair_branch :: BranchContext where
  "pair_branch = bm_BufferWrite ''b'' kRow (typed_intent ''b'' kDelta ''5'') (mem_Get pair_mem)
     (bm_BufferWrite ''a'' kText (typed_intent ''a'' kAppend ''+'') (mem_Get pair_mem) (new_BranchContext ''w''))"

lemma pair_branch_versions: "write_versions_ok pair_branch (mem_Get pair_mem)"
proof -
  have inv: "branch_inv pair_branch" by (simp add: pair_branch_def branch_inv_Write)
  have f: "vr_reason default_ValidationResult = []" by (simp add: default_ValidationResult_def)
  have "plan_commit pair_branch (mem_Get pair_mem) default_ValidationResult =
     Inr (Inr ([(''a'', 3), (''b'', 1)],
       [\<lparr>wo_key = ''a'', wo_value = ''old+''\<rparr>, \<lparr>wo_key = ''b'', wo_value = ''15''\<rparr>], default_ValidationResult))"
    by code_simp
  note keys = plan_commit_sound(4) [OF inv f this]
  have rebased: "rebased_key pair_branch ''a''" "rebased_key pair_branch ''b''" by code_simp+
  have "k = ''a'' \<or> k = ''b''" if "writes_key pair_branch k" for k
  proof -
    from that have "k \<in> {k. writes_key pair_branch k}" by simp
    then show ?thesis unfolding keys [symmetric] by auto
  qed
  with rebased show ?thesis by (auto simp: write_versions_ok_def)
qed

theorem sequential_commit_all_or_nothing_witness:
  "\<exists>txn' s' w' f'. CommitWinner (shared_store non_batch_memory_store) (demo_txn []) pair_branch
       ((pair_mem, Some (2, ''b'', ''20'')), calm) default_ValidationResult = Inr (False, txn', ((s', None), w'), f') \<and>
     vv_value (mem_Get s' ''a'') = ''old'' \<and> vv_value (mem_Get s' ''b'') = ''20''"
proof -
  let ?run = "CommitWinner (shared_store non_batch_memory_store) (demo_txn []) pair_branch
    ((pair_mem, Some (2, ''b'', ''20'')), calm) default_ValidationResult"
  have inv: "branch_inv pair_branch" by (simp add: pair_branch_def branch_inv_Write)
  have f: "vr_reason default_ValidationResult = []" by (simp add: default_ValidationResult_def)
  have p: "fcc_artifact_path (tx_fallback_commit (demo_txn [])) = []" by (simp add: demo_txn_def)
  have nb: "\<not> SupportsAtomicBatchConditionalWrite non_batch_memory_store" by simp
  have due: "\<forall>m k v. Some (2 :: nat, ''b'', ''20'') = Some (m, k, v) \<longrightarrow>
      write_versions_ok pair_branch (kv_Get non_batch_memory_store pair_mem) \<and>
      vv_version (kv_Get non_batch_memory_store pair_mem k) + 1 \<noteq> 0"
    using pair_branch_versions by (auto simp: pair_mem_def mem_Get_def umap_find_def)
  have refused: "case ?run of Inl _ \<Rightarrow> False | Inr (ok, _, ((_, other), _), _) \<Rightarrow> \<not> ok \<and> other = None" by code_simp
  note outcome = sequential_commit_all_or_nothing [where other = "Some (2, ''b'', ''20'')" and w = calm and s = pair_mem,
      OF nonbatch_detached.detached_store_axioms nb TrueI inv f p due]
  obtain ok txn' s' other' w' f' where r: "?run = Inr (ok, txn', ((s', other'), w'), f')"
      "\<not> ok \<Longrightarrow> same_values (mem_Get s') (with_other (Some (2, ''b'', ''20'')) other' (mem_Get pair_mem))"
    using outcome unfolding non_batch_store_ops by blast
  from refused r(1) have no: "\<not> ok" "other' = None" by simp_all
  with r show ?thesis
    by (auto simp: with_other_def same_values_def pair_mem_def mem_Get_def umap_find_def)
qed

end
