(* ===== verification/Demo_Stores.thy ===== *)
theory Demo_Stores
  imports Demo_Tools Commit_Shared
begin

text \<open>
  The two stores that the demonstrations of the fallback commit define: \<open>NonBatchFileKVStore\<close> of
  \<open>examples/fallback_crash_safe_demo.cc\<close>, a file store without batches, and
  \<open>HookedNonBatchMemoryKVStore\<close> of \<open>examples/non_batch_fallback_demo.cc\<close>, whose hook lets another
  client write between two writes of a commit.
\<close>

section \<open>NonBatchFileKVStore\<close>

text \<open>The class has one field, its backing store, and forwards every operation but the batch to it.\<close>

definition NewNonBatchFileKVStore :: "string \<Rightarrow> world \<Rightarrow> FileKVStore sys" where
  "NewNonBatchFileKVStore path w = NewFileKVStore path w"

definition nbfile_BatchPutIfVersion ::
    "VersionCheck list \<Rightarrow> WriteOp list \<Rightarrow> FileKVStore sys \<Rightarrow> bool \<times> FileKVStore sys" where
  "nbfile_BatchPutIfVersion checks writes st = (False, st)"

definition nonbatch_file_store :: "FileKVStore VersionedKVStore" where
  "nonbatch_file_store =
     \<lparr>SupportsAtomicBatchConditionalWrite = False,
      kv_Get = (\<lambda>s key. file_Get s key),
      kv_GetVersion = (\<lambda>s key. file_GetVersion s key),
      kv_Put = (\<lambda>key v. file_Put key v),
      kv_PutIfVersion = (\<lambda>key expected_version v. file_PutIfVersion key expected_version v),
      kv_DeleteIfVersion = (\<lambda>key expected_version. file_DeleteIfVersion key expected_version),
      kv_BatchPutIfVersion = nbfile_BatchPutIfVersion\<rparr>"

lemma nonbatch_file_ops [simp]:
  "\<not> SupportsAtomicBatchConditionalWrite nonbatch_file_store"
  "kv_Get nonbatch_file_store = file_Get"
  "kv_GetVersion nonbatch_file_store = file_GetVersion"
  "kv_Put nonbatch_file_store = file_Put"
  "kv_PutIfVersion nonbatch_file_store = file_PutIfVersion"
  "kv_DeleteIfVersion nonbatch_file_store = file_DeleteIfVersion"
  "kv_BatchPutIfVersion nonbatch_file_store = nbfile_BatchPutIfVersion"
  by (simp_all add: nonbatch_file_store_def)

interpretation nonbatch_file: sequential_store nonbatch_file_store "\<lambda>st. quiet (snd st)"
proof -
  note laws = file_kv.get_version file_kv.absent file_kv.put_ok file_kv.put_view file_kv.put_inv file_kv.put_if_ok
    file_kv.put_if_view file_kv.put_if_miss file_kv.put_if_inv file_kv.delete_if_ok file_kv.delete_if_view
    file_kv.delete_if_miss file_kv.delete_if_inv
  show "sequential_store nonbatch_file_store (\<lambda>st. quiet (snd st))"
    by unfold_locales (use laws in \<open>simp_all add: nbfile_BatchPutIfVersion_def\<close>)
qed

section \<open>HookedNonBatchMemoryKVStore\<close>

record HookedNonBatchMemoryKVStore =
  hk_backing :: MemoryKVStore
  hk_hook_enabled :: bool
  hk_trigger_after_success_count :: nat
  hk_successful_put_if_version_count :: nat
  hk_hook_key :: string
  hk_hook_value :: string

definition NewHookedNonBatchMemoryKVStore :: HookedNonBatchMemoryKVStore where
  "NewHookedNonBatchMemoryKVStore =
     \<lparr>hk_backing = [], hk_hook_enabled = False, hk_trigger_after_success_count = 0,
      hk_successful_put_if_version_count = 0, hk_hook_key = [], hk_hook_value = []\<rparr>"

text \<open>An operation on the backing store.\<close>

definition on_backing ::
    "(MemoryKVStore sys \<Rightarrow> bool \<times> MemoryKVStore sys) \<Rightarrow> HookedNonBatchMemoryKVStore sys \<Rightarrow>
     bool \<times> HookedNonBatchMemoryKVStore sys" where
  "on_backing op st =
     (let (ok, m, w) = op (hk_backing (fst st), snd st) in (ok, (fst st)\<lparr>hk_backing := m\<rparr>, w))"

definition hooked_Get :: "HookedNonBatchMemoryKVStore \<Rightarrow> string \<Rightarrow> VersionedValue" where
  "hooked_Get h key = mem_Get (hk_backing h) key"

definition hooked_GetVersion :: "HookedNonBatchMemoryKVStore \<Rightarrow> string \<Rightarrow> u64" where
  "hooked_GetVersion h key = mem_GetVersion (hk_backing h) key"

definition hooked_Put ::
    "string \<Rightarrow> string \<Rightarrow> HookedNonBatchMemoryKVStore sys \<Rightarrow> bool \<times> HookedNonBatchMemoryKVStore sys" where
  "hooked_Put key v = on_backing (mem_Put key v)"

definition hooked_PutIfVersion ::
    "string \<Rightarrow> u64 \<Rightarrow> string \<Rightarrow> HookedNonBatchMemoryKVStore sys \<Rightarrow> bool \<times> HookedNonBatchMemoryKVStore sys" where
  "hooked_PutIfVersion key expected_version v st =
     (let (written, st) = on_backing (mem_PutIfVersion key expected_version v) st;
          h = fst st in
      if written \<and> hk_hook_enabled h then
        (let h = h\<lparr>hk_successful_put_if_version_count := hk_successful_put_if_version_count h + 1\<rparr> in
         if hk_successful_put_if_version_count h = hk_trigger_after_success_count h
         then (let (_, st) = on_backing (mem_Put (hk_hook_key h) (hk_hook_value h)) (h, snd st) in (written, st))
         else (written, h, snd st))
      else (written, st))"

definition hooked_DeleteIfVersion ::
    "string \<Rightarrow> u64 \<Rightarrow> HookedNonBatchMemoryKVStore sys \<Rightarrow> bool \<times> HookedNonBatchMemoryKVStore sys" where
  "hooked_DeleteIfVersion key expected_version = on_backing (mem_DeleteIfVersion key expected_version)"

definition hooked_BatchPutIfVersion ::
    "VersionCheck list \<Rightarrow> WriteOp list \<Rightarrow> HookedNonBatchMemoryKVStore sys \<Rightarrow> bool \<times> HookedNonBatchMemoryKVStore sys" where
  "hooked_BatchPutIfVersion checks writes st = (False, st)"

definition ConfigureConflictHook ::
    "nat \<Rightarrow> string \<Rightarrow> string \<Rightarrow> HookedNonBatchMemoryKVStore \<Rightarrow> HookedNonBatchMemoryKVStore" where
  "ConfigureConflictHook trigger_after_success_count hook_key hook_value h =
     h\<lparr>hk_hook_enabled := True, hk_trigger_after_success_count := trigger_after_success_count,
       hk_hook_key := hook_key, hk_hook_value := hook_value, hk_successful_put_if_version_count := 0\<rparr>"

definition hooked_store :: "HookedNonBatchMemoryKVStore VersionedKVStore" where
  "hooked_store =
     \<lparr>SupportsAtomicBatchConditionalWrite = False,
      kv_Get = hooked_Get, kv_GetVersion = hooked_GetVersion, kv_Put = hooked_Put,
      kv_PutIfVersion = hooked_PutIfVersion, kv_DeleteIfVersion = hooked_DeleteIfVersion,
      kv_BatchPutIfVersion = hooked_BatchPutIfVersion\<rparr>"

lemma hooked_ops [simp]:
  "\<not> SupportsAtomicBatchConditionalWrite hooked_store"
  "kv_Get hooked_store = hooked_Get"
  "kv_GetVersion hooked_store = hooked_GetVersion"
  "kv_Put hooked_store = hooked_Put"
  "kv_PutIfVersion hooked_store = hooked_PutIfVersion"
  "kv_DeleteIfVersion hooked_store = hooked_DeleteIfVersion"
  "kv_BatchPutIfVersion hooked_store = hooked_BatchPutIfVersion"
  by (simp_all add: hooked_store_def)

text \<open>A store whose hook cannot fire any more, or was never set, is an ordinary store without batches.\<close>

definition hook_idle :: "HookedNonBatchMemoryKVStore \<Rightarrow> bool" where
  "hook_idle h \<longleftrightarrow> hk_hook_enabled h \<longrightarrow>
     hk_trigger_after_success_count h \<le> hk_successful_put_if_version_count h"

lemma on_backing_sel [simp]:
  "fst (on_backing op st) = fst (op (hk_backing (fst st), snd st))"
  "fst (snd (on_backing op st)) = (fst st)\<lparr>hk_backing := fst (snd (op (hk_backing (fst st), snd st)))\<rparr>"
  "snd (snd (on_backing op st)) = snd (snd (op (hk_backing (fst st), snd st)))"
  by (simp_all add: on_backing_def split_beta)

lemma hooked_idle_put:
  assumes "hook_idle (fst st)"
  shows "fst (hooked_PutIfVersion k n v st) = fst (mem_PutIfVersion k n v (hk_backing (fst st), snd st))"
    "hk_backing (fst (snd (hooked_PutIfVersion k n v st))) = fst (snd (mem_PutIfVersion k n v (hk_backing (fst st), snd st)))"
    "snd (snd (hooked_PutIfVersion k n v st)) = snd st"
    "hook_idle (fst (snd (hooked_PutIfVersion k n v st)))"
  using assms by (auto simp: hooked_PutIfVersion_def hook_idle_def Let_def split_beta mem_views)

lemmas hooked_views = hooked_Put_def hooked_DeleteIfVersion_def hooked_Get_def [abs_def] hooked_GetVersion_def mem_views

interpretation hooked: sequential_store hooked_store "\<lambda>st. hook_idle (fst st)"
  by unfold_locales
    (simp_all add: hooked_views hooked_idle_put hooked_BatchPutIfVersion_def mem_absent mem_GetVersion_def
      mem_PutIfVersion_view(3) [of "(m, w)" for m w, simplified], simp_all add: hook_idle_def)

interpretation hooked_detached: detached_store hooked_store "\<lambda>st. hook_idle (fst st)"
  by unfold_locales (simp_all add: hooked_views, simp add: hooked_PutIfVersion_def Let_def split_beta mem_views)

section \<open>Another client between two writes of a commit\<close>

text \<open>The writes before the hook fires.\<close>

lemma hooked_put_armed:
  assumes "hk_hook_enabled h" "hk_successful_put_if_version_count h + 1 < hk_trigger_after_success_count h"
    and "vv_version (hooked_Get h k) = n" and "hooked_PutIfVersion k n v (h, w) = (ok, st')"
  shows "ok" "snd st' = w" "hooked_Get (fst st') = view_put k v (hooked_Get h)" "hk_hook_enabled (fst st')"
    "hk_successful_put_if_version_count (fst st') = hk_successful_put_if_version_count h + 1"
    "hk_trigger_after_success_count (fst st') = hk_trigger_after_success_count h"
    "hk_hook_key (fst st') = hk_hook_key h" "hk_hook_value (fst st') = hk_hook_value h"
  using assms by (auto simp: hooked_PutIfVersion_def Let_def split_beta hooked_Get_def [abs_def] mem_views
      mem_PutIfVersion_view(2) [of "(m, w)" for m w, simplified] split: if_splits)

lemma hooked_put_fires:
  assumes "hk_hook_enabled h" "hk_successful_put_if_version_count h + 1 = hk_trigger_after_success_count h"
    and "vv_version (hooked_Get h k) = n" and "hooked_PutIfVersion k n v (h, w) = (ok, st')"
  shows "ok" "snd st' = w" "hook_idle (fst st')"
    "hooked_Get (fst st') = view_put (hk_hook_key h) (hk_hook_value h) (view_put k v (hooked_Get h))"
  using assms by (auto simp: hooked_PutIfVersion_def Let_def split_beta hooked_Get_def [abs_def] mem_views hook_idle_def
      mem_PutIfVersion_view(2) [of "(m, w)" for m w, simplified]
      mem_Put_view(2) [of _ _ "(m, w)" for m w, simplified])

lemma apply_writes_step:
  assumes "umap_find ev (wo_key w) = Some (vv_version (kv_Get kv s (wo_key w)))"
    and "kv_PutIfVersion kv (wo_key w) (vv_version (kv_Get kv s (wo_key w))) (wo_value w) (s, x) = (True, st')"
  shows "apply_writes kv ev (w # ws) applied (s, x) f =
    apply_writes kv ev ws (applied @ map applied_of (entries_for (kv_Get kv s) [w])) st' f"
  using assms by (simp add: Let_def entries_for_def applied_of_def)

lemma hooked_prefix:
  "hk_hook_enabled h \<Longrightarrow> hk_successful_put_if_version_count h + length us = hk_trigger_after_success_count h \<Longrightarrow>
     us \<noteq> [] \<Longrightarrow> distinct (map wo_key us) \<Longrightarrow>
     \<forall>u \<in> set us. umap_find ev (wo_key u) = Some (vv_version (hooked_Get h (wo_key u))) \<Longrightarrow>
     \<exists>st'. apply_writes hooked_store ev (us @ rest) applied (h, w) f =
         apply_writes hooked_store ev rest (applied @ map applied_of (entries_for (hooked_Get h) us)) st' f \<and>
       snd st' = w \<and> hook_idle (fst st') \<and>
       hooked_Get (fst st') = view_put (hk_hook_key h) (hk_hook_value h) (view_puts us (hooked_Get h))"
proof (induction us arbitrary: h applied)
  case (Cons u us)
  let ?V = "hooked_Get h"
  obtain ok st1 where put: "hooked_PutIfVersion (wo_key u) (vv_version (?V (wo_key u))) (wo_value u) (h, w) = (ok, st1)"
    by (metis surj_pair)
  show ?case
  proof (cases "us = []")
    case True
    with Cons.prems(2) have c: "hk_successful_put_if_version_count h + 1 = hk_trigger_after_success_count h" by simp
    note fired = hooked_put_fires [OF Cons.prems(1) c refl put]
    have "apply_writes hooked_store ev ((u # us) @ rest) applied (h, w) f =
        apply_writes hooked_store ev rest (applied @ map applied_of (entries_for ?V (u # us))) st1 f"
      using apply_writes_step [of ev u hooked_store h w st1 rest applied f] Cons.prems(5) put fired(1)
      by (simp add: True del: apply_writes.simps)
    with fired True show ?thesis by (intro exI [of _ st1]) simp
  next
    case False
    with Cons.prems(2) have c: "hk_successful_put_if_version_count h + 1 < hk_trigger_after_success_count h"
      by (cases us) auto
    note armed = hooked_put_armed [OF Cons.prems(1) c refl put]
    obtain h1 where st1: "st1 = (h1, w)" using armed(2) by (cases st1) simp
    have other: "wo_key x \<noteq> wo_key u" if "x \<in> set us" for x using Cons.prems(4) that by (simp, metis image_eqI)
    have same: "hooked_Get h1 (wo_key x) = ?V (wo_key x)" if "x \<in> set us" for x
      using armed(3) other [OF that] by (simp add: st1)
    have step: "apply_writes hooked_store ev (u # us @ rest) applied (h, w) f =
        apply_writes hooked_store ev (us @ rest) (applied @ map applied_of (entries_for ?V [u])) (h1, w) f"
      using apply_writes_step [of ev u hooked_store h w st1 "us @ rest" applied f] Cons.prems(5) put armed(1)
      by (simp add: st1 del: apply_writes.simps)
    have split: "entries_for ?V [u] @ entries_for (hooked_Get h1) us = entries_for ?V (u # us)"
      using entries_for_same [of us "hooked_Get h1" ?V] same by (simp add: entries_for_def)
    from Cons.IH [of h1 "applied @ map applied_of (entries_for ?V [u])"] Cons.prems(2,4,5) armed same False
    show ?thesis by (simp add: st1 step split [symmetric] del: apply_writes.simps)
  qed
qed simp

text \<open>The loop over the writes when the other client writes \<open>k\<close> after the first \<open>n\<close> of them.\<close>

lemma interrupted_writes:
  assumes d: "distinct (map wo_key ws)" and ev: "\<forall>w \<in> set ws. umap_find ev (wo_key w) = Some (vv_version (hooked_Get h0 (wo_key w)))"
    and n: "0 < n" "n \<le> length ws" and k: "k \<notin> wo_key ` set (take n ws)" and f: "vr_reason f = []"
    and run: "apply_writes hooked_store ev ws [] (ConfigureConflictHook n k v h0, w) f = (ok, st', f')"
  shows "(ok \<longleftrightarrow> k \<notin> wo_key ` set ws) \<and> (ok \<longrightarrow> f' = f \<and> hooked_Get (fst st') = view_put k v (view_puts ws (hooked_Get h0))) \<and>
    (\<not> ok \<longrightarrow> same_values (hooked_Get (fst st')) (view_put k v (hooked_Get h0)) \<and> vr_reason f' \<noteq> [])"
proof -
  let ?V = "hooked_Get h0" and ?W = "view_put k v (hooked_Get h0)" and ?us = "take n ws" and ?rest = "drop n ws"
  let ?h = "ConfigureConflictHook n k v h0"
  have h: "hooked_Get ?h = ?V" "hk_hook_enabled ?h" "hk_hook_key ?h = k" "hk_hook_value ?h = v"
    "hk_successful_put_if_version_count ?h + length ?us = hk_trigger_after_success_count ?h" "?us \<noteq> []"
    using n by (auto simp: ConfigureConflictHook_def hooked_Get_def [abs_def])
  have keys: "wo_key ` set ws = wo_key ` set ?us \<union> wo_key ` set ?rest"
    by (metis append_take_drop_id image_Un set_append)
  have dd: "distinct (map wo_key ?us @ map wo_key ?rest)" using d by (metis append_take_drop_id map_append)
  have du: "distinct (map wo_key ?us)" "distinct (map wo_key ?rest)" "wo_key ` set ?us \<inter> wo_key ` set ?rest = {}"
    using dd by (auto simp: distinct_append)
  have evu: "\<forall>u \<in> set ?us. umap_find ev (wo_key u) = Some (vv_version (hooked_Get ?h (wo_key u)))"
    using ev h(1) by (metis in_set_takeD)
  obtain st1 where st1: "apply_writes hooked_store ev (?us @ ?rest) [] (?h, w) f =
        apply_writes hooked_store ev ?rest (map applied_of (entries_for ?V ?us)) st1 f"
      "hook_idle (fst st1)" "hooked_Get (fst st1) = view_put k v (view_puts ?us ?V)"
    using hooked_prefix [OF h(2,5,6) du(1) evu, of ?rest "[]" w f] unfolding h(1,3,4) by auto
  have run1: "apply_writes hooked_store ev ?rest (map applied_of (entries_for ?V ?us)) st1 f = (ok, st', f')"
    using run st1(1) by simp
  have V1: "hooked_Get (fst st1) = view_puts ?us ?W" by (simp add: st1(3) view_puts_put [OF k])
  show ?thesis
  proof (cases "k \<in> wo_key ` set ws")
    case True
    with k keys obtain x where x: "x \<in> set ?rest" "wo_key x = k" by auto
    have "entries_for ?V ?us = entries_for ?W ?us"
      by (rule entries_for_same) (metis k image_eqI view_put_other)
    then have applied: "map applied_of (entries_for ?V ?us) = map applied_of (take n (entries_for ?W ws))"
      by (simp add: entries_for_def take_map)
    have "map entry_write (take n (entries_for ?W ws)) = ?us"
      by (simp add: entries_for_def comp_def entry_write_def map_idI take_map)
    then have part: "kv_Get hooked_store (fst st1) = partly_applied ?W (entries_for ?W ws) n"
      by (simp add: V1 partly_applied_def)
    have "?W q = no_value" if "\<not> vv_exists (?W q)" for q
      using that mem_absent [of "hk_backing h0" q] by (cases "q = k") (simp_all add: hooked_Get_def)
    then have es: "entries_from ?W (entries_for ?W ws)" by (rule entries_for_from [OF d])
    have "umap_find ev (wo_key u) \<noteq> None" if "u \<in> set ws" for u using ev that by simp
    from detached_store.apply_writes_correct [OF hooked_detached.detached_store_axioms es n(2) part st1(2) this f run1 [unfolded applied]]
    have a: "ok \<Longrightarrow> \<forall>u \<in> set ?rest. umap_find ev (wo_key u) = Some (vv_version (?W (wo_key u)))"
      "\<not> ok \<Longrightarrow> same_values (hooked_Get (fst st')) ?W \<and> vr_reason f' \<noteq> []" by simp_all
    have "umap_find ev k = Some (vv_version (?V k))" using ev x by (metis in_set_dropD)
    with a(1) x have "\<not> ok" by force
    with a(2) True show ?thesis by simp
  next
    case False
    then have kr: "k \<notin> wo_key ` set ?rest" using keys by auto
    have "hooked_Get (fst st1) (wo_key u) = ?V (wo_key u)" if "u \<in> set ?rest" for u
    proof -
      have "wo_key u \<notin> wo_key ` set ?us" using du(3) that by blast
      moreover have "wo_key u \<noteq> k" using kr that by (metis image_eqI)
      ultimately show ?thesis by (simp add: st1(3) view_puts_other)
    qed
    then have "\<forall>u \<in> set ?rest. umap_find ev (wo_key u) = Some (vv_version (kv_Get hooked_store (fst st1) (wo_key u)))"
      using ev by (simp, metis in_set_dropD)
    from versioned_store.apply_writes_all [OF detached_store.axioms(1) [OF hooked_detached.detached_store_axioms]
        du(2) st1(2) this, of "map applied_of (entries_for ?V ?us)" f]
    have "ok" "f' = f" "hooked_Get (fst st') = view_puts ?rest (hooked_Get (fst st1))" using run1 by auto
    moreover have "view_puts ?rest (view_puts ?us ?W) = view_puts ws ?W" by (metis append_take_drop_id view_puts_append)
    ultimately show ?thesis using False by (simp add: V1 view_puts_put [OF False])
  qed
qed

text \<open>
  C8. A commit without batches notices another client on the keys it still has to write, and only
  there. On the store of \<open>non_batch_fallback_demo.cc\<close> another client puts a value under \<open>k\<close>
  after the first \<open>n\<close> writes of a commit whose versions are right. If the winner still
  has to write \<open>k\<close>, the commit fails, gives a reason, and every key has its old value again but
  \<open>k\<close>, which keeps the value of the other client. If the winner does not write \<open>k\<close>, the commit
  succeeds with both effects in place, even if its branch has read \<open>k\<close>.
\<close>

theorem interference_between_writes:
  assumes inv: "branch_inv winner" and f: "vr_reason f = []" and no_artifact: "fcc_artifact_path (tx_fallback_commit txn) = []"
    and plan: "plan_commit winner (hooked_Get h0) f = Inr (Inr (seen, ws, f1))"
    and versions: "write_versions_ok winner (hooked_Get h0)"
    and n: "0 < n" "n \<le> length ws" and k: "k \<notin> wo_key ` set (take n ws)"
  shows "\<exists>ok txn' st' f'. CommitWinner hooked_store txn winner (ConfigureConflictHook n k v h0, w) f = Inr (ok, txn', st', f') \<and>
    (ok \<longleftrightarrow> \<not> writes_key winner k) \<and>
    (ok \<longrightarrow> hooked_Get (fst st') = view_put k v (commit_view winner (hooked_Get h0))) \<and>
    (\<not> ok \<longrightarrow> same_values (hooked_Get (fst st')) (view_put k v (hooked_Get h0)) \<and> txn' = txn \<and> vr_reason f' \<noteq> [])"
proof -
  let ?h = "ConfigureConflictHook n k v h0"
  note pl = inv f plan
  note s = plan_commit_sound [OF pl]
  have h: "hooked_Get ?h = hooked_Get h0" by (simp add: ConfigureConflictHook_def hooked_Get_def [abs_def])
  obtain ok st' f' where run: "apply_writes hooked_store (expected_versions_of (checks_of seen)) ws [] (?h, w) f = (ok, st', f')"
    by (metis surj_pair)
  note i = interrupted_writes [OF s(3) expected_of_plan [OF pl versions] n k f run]
  have key: "k \<in> wo_key ` set ws \<longleftrightarrow> writes_key winner k" using s(4) by simp
  have commit: "CommitWinner hooked_store txn winner (?h, w) f =
      (if ok then Inr (True, txn\<lparr>tx_commit_log := commit_log_of seen ws\<rparr>, st', f')
       else Inr (False, txn, st', or_reason ''fallback conditional write failed'' f'))"
    using plan run no_artifact s(1) by (simp add: CommitWinner_def CommitWinnerWithoutBatch_def h)
  show ?thesis
    using i key commit planned_view [OF pl] by (cases ok) (auto simp: or_reason_def vr_fail_def)
qed

definition hooked_demo :: HookedNonBatchMemoryKVStore where
  "hooked_demo = NewHookedNonBatchMemoryKVStore\<lparr>hk_backing :=
     [(''a'', \<lparr>me_value = ''old'', me_version = 3\<rparr>), (''b'', \<lparr>me_value = ''10'', me_version = 1\<rparr>)]\<rparr>"

definition two_writes :: BranchContext where
  "two_writes = bm_BufferWrite ''b'' kRow (typed_intent ''b'' kDelta ''5'') (hooked_Get hooked_demo)
     (bm_BufferWrite ''a'' kText (typed_intent ''a'' kAppend ''+'') (hooked_Get hooked_demo) (new_BranchContext ''w''))"

lemma two_writes_plan:
  "plan_commit two_writes (hooked_Get hooked_demo) default_ValidationResult =
     Inr (Inr ([(''a'', 3), (''b'', 1)],
       [\<lparr>wo_key = ''a'', wo_value = ''old+''\<rparr>, \<lparr>wo_key = ''b'', wo_value = ''15''\<rparr>], default_ValidationResult))"
  by code_simp

theorem interference_between_writes_witness:
  "\<exists>txn' st' f'. CommitWinner hooked_store (demo_txn []) two_writes (ConfigureConflictHook 1 ''b'' ''20'' hooked_demo, calm)
       default_ValidationResult = Inr (False, txn', st', f') \<and>
     vv_value (hooked_Get (fst st') ''a'') = ''old'' \<and> vv_value (hooked_Get (fst st') ''b'') = ''20''"
proof -
  have inv: "branch_inv two_writes" by (simp add: two_writes_def branch_inv_Write)
  have f: "vr_reason default_ValidationResult = []" by (simp add: default_ValidationResult_def)
  note keys = plan_commit_sound(4) [OF inv f two_writes_plan]
  have rebased: "rebased_key two_writes ''a''" "rebased_key two_writes ''b''" by code_simp+
  have w: "writes_key two_writes ''b''" using keys by auto
  have "k = ''a'' \<or> k = ''b''" if "writes_key two_writes k" for k
  proof -
    from that have "k \<in> {k. writes_key two_writes k}" by simp
    then show ?thesis unfolding keys [symmetric] by auto
  qed
  then have v: "write_versions_ok two_writes (hooked_Get hooked_demo)"
    using rebased by (auto simp: write_versions_ok_def)
  have "fcc_artifact_path (tx_fallback_commit (demo_txn [])) = []" by (simp add: demo_txn_def)
  from interference_between_writes [OF inv f this two_writes_plan v, of 1 "''b''" "''20''" calm] w
  show ?thesis by (auto simp: same_values_def hooked_demo_def hooked_Get_def mem_Get_def umap_find_def)
qed

end
