(* ===== verification/Demo_Fallback.thy ===== *)
theory Demo_Fallback
  imports Demo_Stores
begin

text \<open>
  The programs \<open>examples/non_batch_fallback_demo.cc\<close> and \<open>examples/fallback_crash_safe_demo.cc\<close>, which
  run tasks on stores without batches. A program is a list of blocks; a block seeds a store, runs a
  task on it and then prints, so that an exception in a block loses only the lines of that block.
\<close>

type_synonym 'st program_block = "'st \<Rightarrow> (exn + string list) \<times> 'st"

fun run_blocks :: "'st program_block list \<Rightarrow> 'st \<Rightarrow> string list \<Rightarrow> program_end \<times> 'st" where
  "run_blocks [] st out = ((Inr 0, put_lines out, []), st)"
| "run_blocks (block # blocks) st out =
     (case block st of
        (Inl e, st) \<Rightarrow> ((Inl e, put_lines out, []), st)
      | (Inr texts, st) \<Rightarrow> run_blocks blocks st (out @ texts))"

definition put_all :: "'s VersionedKVStore \<Rightarrow> (string \<times> string) list \<Rightarrow> 's sys \<Rightarrow> 's sys" where
  "put_all kv seeds st = fold (\<lambda>(key, v) st. snd (kv_Put kv key v st)) seeds st"

definition plain_runtime :: "'s VersionedKVStore \<Rightarrow> string \<Rightarrow> 's RuntimeCore" where
  "plain_runtime kv error_message =
     \<lparr>tk_store = kv, tk_config = default_FallbackCommitRuntimeConfig, tk_error_message = error_message\<rparr>"

definition committed_text :: "TaskSession \<Rightarrow> string" where
  "committed_text session = bool_text (tx_status (ts_txn session) = TxnCommitted)"

definition kv_script :: "string \<Rightarrow> string \<Rightarrow> KvBranchProgram list \<Rightarrow> KvTaskScript" where
  "kv_script task_id objective branches =
     \<lparr>kt_task_id = task_id, kt_objective = objective, kt_branches = branches, kt_recovery_steps = [],
      kt_recovery_score = DFin 0, kt_recovery_summary = [], kt_recovery_preferred_branch_id = []\<rparr>"

section \<open>non\_batch\_fallback\_demo.cc\<close>

definition nb_BuildSuccessScript :: KvTaskScript where
  "nb_BuildSuccessScript = kv_script ''non_batch_success'' ''commit through fallback conditional writes''
     [\<lparr>kb_branch_id = ''branch_A'', kb_score = DFin 90, kb_summary = ''fallback winner'',
       kb_steps =
         [MakeReadStep ''input:fallback:1'',
          MakeWriteStep ''text:fallback:1'' kText kOverwrite ''fallback_result'' no_condition,
          MakeWriteStep ''counter:fallback:1'' kRow kDelta ''3'' no_condition]\<rparr>]"

definition nb_BuildConflictScript :: KvTaskScript where
  "nb_BuildConflictScript = kv_script ''non_batch_conflict'' ''rollback partial fallback writes after conflict''
     [\<lparr>kb_branch_id = ''branch_conflict'', kb_score = DFin 90, kb_summary = ''fallback conflict winner'',
       kb_steps =
         [MakeReadStep ''input:fallback:2'',
          MakeWriteStep ''text:fallback:2'' kText kOverwrite ''should_rollback'' no_condition,
          MakeWriteStep ''counter:fallback:2'' kRow kDelta ''5'' no_condition]\<rparr>]"

definition nb_BuildCreateThenRollbackScript :: KvTaskScript where
  "nb_BuildCreateThenRollbackScript = kv_script ''non_batch_create_conflict'' ''rollback newly created key after fallback conflict''
     [\<lparr>kb_branch_id = ''branch_create_conflict'', kb_score = DFin 90, kb_summary = ''fallback create conflict winner'',
       kb_steps =
         [MakeReadStep ''input:fallback:3'',
          MakeWriteStep ''new:fallback:3'' kText kOverwrite ''created'' no_condition,
          MakeWriteStep ''counter:fallback:3'' kRow kDelta ''2'' no_condition]\<rparr>]"

text \<open>A script run on a store: the lines to print are made from the session and the final store.\<close>

definition run_script_on ::
    "'s VersionedKVStore \<Rightarrow> string \<Rightarrow> KvTaskScript \<Rightarrow> (TaskSession \<Rightarrow> view \<Rightarrow> string list) \<Rightarrow> 's sys \<Rightarrow>
     (exn + string list) \<times> world" where
  "run_script_on kv error_message program report st =
     (case RunScriptedKvTask (plain_runtime kv error_message) program st of
        (Inl e, st) \<Rightarrow> (Inl e, snd st)
      | (Inr session, st) \<Rightarrow> (Inr (report session (kv_Get kv (fst st))), snd st))"

definition nb_success_report :: "TaskSession \<Rightarrow> view \<Rightarrow> string list" where
  "nb_success_report session V =
     [''success_committed='' @ committed_text session,
      ''success_summary='' @ vv_value (V ''text:fallback:1''),
      ''success_counter='' @ vv_value (V ''counter:fallback:1''),
      ''success_commit_log_size='' @ nat_dec (length (tx_commit_log (ts_txn session))),
      ''success_store_supports_batch='' @ bool_text (SupportsAtomicBatchConditionalWrite non_batch_memory_store)]"

definition nb_success_block :: "string \<Rightarrow> world program_block" where
  "nb_success_block error_message w =
     run_script_on non_batch_memory_store error_message nb_BuildSuccessScript nb_success_report
       (put_all non_batch_memory_store
          [(''input:fallback:1'', ''seed''), (''text:fallback:1'', ''draft''), (''counter:fallback:1'', ''10'')] ([], w))"

definition nb_conflict_report :: "TaskSession \<Rightarrow> view \<Rightarrow> string list" where
  "nb_conflict_report session V =
     [''conflict_committed='' @ committed_text session,
      ''conflict_reason='' @ vr_reason (tx_validation_result (ts_txn session)),
      ''conflict_summary='' @ vv_value (V ''text:fallback:2''),
      ''conflict_counter='' @ vv_value (V ''counter:fallback:2''),
      ''conflict_commit_log_size='' @ nat_dec (length (tx_commit_log (ts_txn session))),
      ''conflict_store_supports_batch='' @ bool_text (SupportsAtomicBatchConditionalWrite hooked_store)]"

text \<open>A new hooked store, seeded, with its hook set after the first conditional write.\<close>

definition hooked_seeded ::
    "(string \<times> string) list \<Rightarrow> string \<Rightarrow> string \<Rightarrow> world \<Rightarrow> HookedNonBatchMemoryKVStore sys" where
  "hooked_seeded seeds hook_key hook_value w =
     (let st = put_all hooked_store seeds (NewHookedNonBatchMemoryKVStore, w)
      in (ConfigureConflictHook 1 hook_key hook_value (fst st), snd st))"

definition nb_conflict_block :: "string \<Rightarrow> world program_block" where
  "nb_conflict_block error_message w =
     run_script_on hooked_store error_message nb_BuildConflictScript nb_conflict_report
       (hooked_seeded [(''input:fallback:2'', ''seed''), (''text:fallback:2'', ''draft_conflict''), (''counter:fallback:2'', ''20'')]
          ''counter:fallback:2'' ''20'' w)"

definition nb_create_report :: "TaskSession \<Rightarrow> view \<Rightarrow> string list" where
  "nb_create_report session V =
     [''create_conflict_committed='' @ committed_text session,
      ''create_conflict_reason='' @ vr_reason (tx_validation_result (ts_txn session)),
      ''create_conflict_new_key_exists='' @ bool_text (vv_exists (V ''new:fallback:3'')),
      ''create_conflict_counter='' @ vv_value (V ''counter:fallback:3'')]"

definition nb_create_block :: "string \<Rightarrow> world program_block" where
  "nb_create_block error_message w =
     run_script_on hooked_store error_message nb_BuildCreateThenRollbackScript nb_create_report
       (hooked_seeded [(''input:fallback:3'', ''seed''), (''counter:fallback:3'', ''30'')]
          ''counter:fallback:3'' ''30'' w)"

definition non_batch_fallback_main :: "string \<Rightarrow> world \<Rightarrow> program_end \<times> world" where
  "non_batch_fallback_main error_message w =
     run_blocks [nb_success_block error_message, nb_conflict_block error_message, nb_create_block error_message] w []"

section \<open>fallback\_crash\_safe\_demo.cc\<close>

definition fc_BuildTask :: TaskContext where
  "fc_BuildTask = default_TaskContext\<lparr>tc_task_id := ''fallback_crash_safe'', tc_objective := ''crash safe fallback commit'',
     tc_workload_name := ''demo'', tc_planner_id := ''demo''\<rparr>"

definition fc_BuildPlan :: ExecutionPlan where
  "fc_BuildPlan = AddBranchPlan ''branch_A'' ''candidate_A'' ''crash safe fallback'' (DFin 100) default_ExecutionPlan"

definition fc_Overwrite :: "string \<Rightarrow> string \<Rightarrow> WriteIntent" where
  "fc_Overwrite object_id v =
     \<lparr>wi_object_id = object_id, wi_intent_type = kOverwrite, wi_payload = v, wi_condition = no_condition\<rparr>"

definition fc_Delta :: "string \<Rightarrow> string \<Rightarrow> WriteIntent" where
  "fc_Delta object_id v =
     \<lparr>wi_object_id = object_id, wi_intent_type = kDelta, wi_payload = v, wi_condition = no_condition\<rparr>"

definition RunWinner :: "'s RuntimeCore \<Rightarrow> 's sys \<Rightarrow> TaskSession \<Rightarrow> TaskSession" where
  "RunWinner rt st session =
     (let (_, session) = rt_Read rt ''branch_A'' ''input:crash:1'' st session;
          session = rt_Write rt ''branch_A'' ''summary:crash:1'' kText
            (fc_Overwrite ''summary:crash:1'' ''committed_before_crash'') st session;
          session = rt_Write rt ''branch_A'' ''counter:crash:1'' kRow (fc_Delta ''counter:crash:1'' ''5'') st session
      in rt_StageBranch ''branch_A'' (DFin 100) ''winner'' session)"

text \<open>
  \<open>std::filesystem::remove_all\<close> with an error code: the path and everything below it. When it
  fails it may have removed some of the files.
\<close>

definition path_below :: "string \<Rightarrow> string \<Rightarrow> bool" where
  "path_below p q \<longleftrightarrow> q = p \<or> take (length p + 1) q = p @ ''/''"

definition fs_remove_all :: "string \<Rightarrow> world \<Rightarrow> world" where
  "fs_remove_all p w =
     (case next_fault w of
        (NoFault, w) \<Rightarrow>
          w\<lparr>files := filter (\<lambda>x. \<not> path_below p (fst x)) (files w), dirs := filter (\<lambda>d. \<not> path_below p d) (dirs w)\<rparr>
      | (OpenFault, w) \<Rightarrow> w
      | (WriteFault n, w) \<Rightarrow> fold fs_drop (take n (filter (path_below p) (map fst (files w)))) w)"

definition ResetDir :: "string \<Rightarrow> world \<Rightarrow> world" where
  "ResetDir path w = (let w = fs_remove_all path w; (_, w) = create_directories path w in w)"

definition BuildRuntimeConfig :: "string \<Rightarrow> string \<Rightarrow> bool \<Rightarrow> FallbackCommitRuntimeConfig" where
  "BuildRuntimeConfig artifact_dir archive_dir auto_recover_on_startup =
     default_FallbackCommitRuntimeConfig\<lparr>fc_artifact_dir := artifact_dir, fc_archive_dir := archive_dir,
       fc_auto_recover_on_startup := auto_recover_on_startup\<rparr>"

definition path_exists :: "string \<Rightarrow> world \<Rightarrow> bool" where
  "path_exists p w \<longleftrightarrow> fs_read p w \<noteq> None \<or> p \<in> set (dirs w)"

text \<open>
  An artifact variable after \<open>ParseFallbackCommitArtifact\<close>, whose result the program ignores: when
  there is no file the variable keeps its default members.
\<close>

definition parsed_or_default :: "string \<Rightarrow> world \<Rightarrow> FallbackCommitArtifact" where
  "parsed_or_default path w =
     (case ParseFallbackCommitArtifact path w of None \<Rightarrow> default_FallbackCommitArtifact | Some a \<Rightarrow> a)"

definition fc_root_dir :: string where
  "fc_root_dir = ''/tmp/das_fallback_crash_safe_demo''"

definition fc_log_name :: string where
  "fc_log_name = ''/txn:fallback_crash_safe.fallback.log''"

definition fc_seeds :: "(string \<times> string) list" where
  "fc_seeds = [(''input:crash:1'', ''seed''), (''summary:crash:1'', ''draft''), (''counter:crash:1'', ''10'')]"

text \<open>
  The first two blocks: a store and a runtime with its artifact directory, the winner run and
  committed after \<open>simulate\<close> has been set as the simulated crash, and the lines made from the result.
\<close>

definition fc_commit_block ::
    "string \<Rightarrow> string \<Rightarrow> string \<Rightarrow> string \<Rightarrow> nat \<Rightarrow> (TaskSession \<Rightarrow> view \<Rightarrow> world \<Rightarrow> string list) \<Rightarrow> world program_block" where
  "fc_commit_block error_message store_path artifact_dir archive_dir simulate report w =
     (let st = put_all nonbatch_file_store fc_seeds (NewNonBatchFileKVStore store_path w);
          rt = \<lparr>tk_store = nonbatch_file_store, tk_config = BuildRuntimeConfig artifact_dir archive_dir False,
                tk_error_message = error_message\<rparr> in
      case InitializeFallbackCommitRuntime rt st of
        (Inl e, st) \<Rightarrow> (Inl e, snd st)
      | (Inr _, st) \<Rightarrow>
          (case SubmitTask rt fc_BuildTask fc_BuildPlan of
             Inl e \<Rightarrow> (Inl e, snd st)
           | Inr session \<Rightarrow>
               (let session = session\<lparr>ts_txn := (ts_txn session)\<lparr>tx_fallback_commit :=
                      (tx_fallback_commit (ts_txn session))\<lparr>fcc_simulate_crash_after_apply_count := simulate\<rparr>\<rparr>\<rparr>;
                    session = RunWinner rt st session in
                case rt_CommitTask rt session st of
                  (Inl e, _, st) \<Rightarrow> (Inl e, snd st)
                | (Inr _, session, st) \<Rightarrow> (Inr (report session (file_Get (fst st)) (snd st)), snd st))))"

definition fc_success_report :: "TaskSession \<Rightarrow> view \<Rightarrow> world \<Rightarrow> string list" where
  "fc_success_report session V w =
     (let archived = fc_root_dir @ ''/success_archive'' @ fc_log_name in
      [''success_committed='' @ committed_text session,
       ''success_summary='' @ vv_value (V ''summary:crash:1''),
       ''success_counter='' @ vv_value (V ''counter:crash:1''),
       ''success_active_artifact_exists='' @ bool_text (path_exists (fc_root_dir @ ''/success_pending'' @ fc_log_name) w),
       ''success_archived_artifact_exists='' @ bool_text (path_exists archived w),
       ''success_archived_phase='' @ FallbackCommitPhaseName (fa_phase (parsed_or_default archived w))])"

definition fc_success_block :: "string \<Rightarrow> world program_block" where
  "fc_success_block error_message =
     fc_commit_block error_message (fc_root_dir @ ''/success_store.tsv'') (fc_root_dir @ ''/success_pending'')
       (fc_root_dir @ ''/success_archive'') 0 fc_success_report"

definition fc_crash_report :: "TaskSession \<Rightarrow> view \<Rightarrow> world \<Rightarrow> string list" where
  "fc_crash_report session V w =
     (let artifact = parsed_or_default (fc_root_dir @ ''/crash_pending'' @ fc_log_name) w in
      [''commit_after_simulated_crash='' @ committed_text session,
       ''crash_reason='' @ vr_reason (tx_validation_result (ts_txn session)),
       ''partial_summary='' @ vv_value (V ''summary:crash:1''),
       ''partial_counter='' @ vv_value (V ''counter:crash:1''),
       ''artifact_phase_before_recovery='' @ FallbackCommitPhaseName (fa_phase artifact),
       ''artifact_applied_count_before_recovery='' @ nat_dec (fa_applied_count artifact)])"

definition fc_crash_block :: "string \<Rightarrow> world program_block" where
  "fc_crash_block error_message =
     fc_commit_block error_message (fc_root_dir @ ''/crash_store.tsv'') (fc_root_dir @ ''/crash_pending'')
       (fc_root_dir @ ''/crash_archive'') 1 fc_crash_report"

text \<open>The third block: the restart, whose runtime recovers the pending artifact when it is built.\<close>

definition fc_recovery_report :: "FallbackArtifactMaintenanceResult option \<Rightarrow> view \<Rightarrow> world \<Rightarrow> string list" where
  "fc_recovery_report recovery V w =
     (let archived = fc_root_dir @ ''/crash_archive'' @ fc_log_name; artifact = parsed_or_default archived w;
          count = (\<lambda>f. case recovery of None \<Rightarrow> 0 | Some r \<Rightarrow> f r) in
      [''recovery_success='' @ bool_text (case recovery of None \<Rightarrow> False | Some r \<Rightarrow> fm_success r),
       ''recovered_artifact_count='' @ nat_dec (count fm_recovered_artifact_count),
       ''archived_artifact_count='' @ nat_dec (count fm_archived_artifact_count),
       ''recovered_summary='' @ vv_value (V ''summary:crash:1''),
       ''recovered_counter='' @ vv_value (V ''counter:crash:1''),
       ''artifact_phase_after_recovery='' @ FallbackCommitPhaseName (fa_phase artifact),
       ''artifact_applied_count_after_recovery='' @ nat_dec (fa_applied_count artifact),
       ''recovery_active_artifact_exists='' @ bool_text (path_exists (fc_root_dir @ ''/crash_pending'' @ fc_log_name) w),
       ''recovery_archived_artifact_exists='' @ bool_text (path_exists archived w)])"

definition fc_recovery_block :: "string \<Rightarrow> world program_block" where
  "fc_recovery_block error_message w =
     (let st = NewNonBatchFileKVStore (fc_root_dir @ ''/crash_store.tsv'') w;
          rt = \<lparr>tk_store = nonbatch_file_store,
                tk_config = BuildRuntimeConfig (fc_root_dir @ ''/crash_pending'') (fc_root_dir @ ''/crash_archive'') True,
                tk_error_message = error_message\<rparr> in
      case InitializeFallbackCommitRuntime rt st of
        (Inl e, st) \<Rightarrow> (Inl e, snd st)
      | (Inr recovery, st) \<Rightarrow> (Inr (fc_recovery_report recovery (file_Get (fst st)) (snd st)), snd st))"

definition fallback_crash_safe_main :: "string \<Rightarrow> world \<Rightarrow> program_end \<times> world" where
  "fallback_crash_safe_main error_message w =
     run_blocks [fc_success_block error_message, fc_crash_block error_message, fc_recovery_block error_message]
       (ResetDir fc_root_dir w) []"

end
