(* ===== verification/Demo_Flows.thy ===== *)
theory Demo_Flows
  imports Demo_Fallback
begin

text \<open>
  The demonstrations of \<open>examples/\<close> on the in-memory store: \<open>minimal_flow_demo.cc\<close>,
  \<open>multi_object_atomicity_demo.cc\<close>, \<open>kv_style_workflow.cc\<close>, \<open>task_runtime_workflow.cc\<close>,
  \<open>agent_retry_loop_demo.cc\<close> and \<open>workload_recovery_registry_demo.cc\<close>. As the programs of
  \<open>Demo_Fallback\<close> they are made of blocks that compute and then print.
\<close>

section \<open>minimal\_flow\_demo.cc\<close>

definition mf_make_entry :: "string \<Rightarrow> ObjectCacheEntry" where
  "mf_make_entry v =
     \<lparr>ce_object_id = ''output:task_001'', ce_object_type = kText, ce_base_value = ''draft'', ce_base_version = 1,
      ce_current_value = v, ce_dirty = True, ce_intent_type = kOverwrite,
      ce_undo_record = \<lparr>ur_previous_value = ''draft'', ur_existed = True\<rparr>\<rparr>"

definition mf_make_intent :: "string \<Rightarrow> WriteIntent" where
  "mf_make_intent v =
     \<lparr>wi_object_id = ''output:task_001'', wi_intent_type = kOverwrite, wi_payload = v, wi_condition = no_condition\<rparr>"

text \<open>A branch created and filled in by hand, past the branch manager.\<close>

definition mf_branch :: "string \<Rightarrow> string \<Rightarrow> double \<Rightarrow> MemoryKVStore \<Rightarrow> AgentTxnContext \<Rightarrow> AgentTxnContext" where
  "mf_branch branch_id v score store txn =
     on_branch branch_id
       (\<lambda>b. b\<lparr>bc_status := kRunning,
          bc_read_set := rs_Record ''input:task_001'' (mem_GetVersion store ''input:task_001'') (bc_read_set b),
          bc_write_buffer := wb_Upsert (mf_make_entry v) (bc_write_buffer b),
          bc_intent_log := il_Append (mf_make_intent v) (bc_intent_log b),
          bc_candidate_result := (bc_candidate_result b)\<lparr>cr_score := score\<rparr>\<rparr>)
       (tm_CreateBranch branch_id txn)"

definition minimal_flow_main :: "world \<Rightarrow> program_end \<times> MemoryKVStore sys" where
  "minimal_flow_main w =
     (let st = put_all memory_store [(''input:task_001'', ''seed''), (''output:task_001'', ''draft'')] ([], w);
          txn = tm_Begin ''txn_001'' ''task_001'';
          txn = mf_branch ''branch_A'' ''result_A'' (DFin 72) (fst st) txn;
          txn = mf_branch ''branch_B'' ''result_B'' (DFin 91) (fst st) txn;
          txn = mf_branch ''branch_C'' ''result_C'' (DFin 65) (fst st) txn in
      case tm_SelectWinnerAndCommit memory_store txn st of
        Inl e \<Rightarrow> ((Inl e, [], []), st)
      | Inr (committed, txn, st) \<Rightarrow>
          ((Inr (if committed then 0 else 1),
            put_lines
              [''committed='' @ bool_text committed,
               ''winner='' @ tx_winner_branch_id txn,
               ''output='' @ vv_value (mem_Get (fst st) ''output:task_001''),
               ''output_version='' @ u64_dec (mem_GetVersion (fst st) ''output:task_001'')], []), st))"

section \<open>multi\_object\_atomicity\_demo.cc\<close>

definition pending_condition :: Condition where
  "pending_condition = \<lparr>cond_type = kValueEquals, cond_expected_value = ''pending''\<rparr>"

definition mo_BuildSuccessScript :: KvTaskScript where
  "mo_BuildSuccessScript = kv_script ''multi_object_success'' ''commit one winner across multiple objects''
     [\<lparr>kb_branch_id = ''branch_A'', kb_score = DFin 10, kb_summary = ''fallback branch'',
       kb_steps =
         [MakeReadStep ''input:order:1'', MakeReadStep ''input:user:1'',
          MakeWriteStep ''text:summary:1'' kText kOverwrite ''fallback_summary'' no_condition]\<rparr>,
      \<lparr>kb_branch_id = ''branch_B'', kb_score = DFin 99, kb_summary = ''winner branch'',
       kb_steps =
         [MakeReadStep ''input:order:1'', MakeReadStep ''input:user:1'',
          MakeWriteStep ''text:summary:1'' kText kOverwrite ''winner_summary'' no_condition,
          MakeWriteStep ''row:inventory:1'' kRow kDelta ''-2'' no_condition,
          MakeWriteStep ''state:task:1'' kGeneric kCas ''confirmed'' pending_condition]\<rparr>]"

definition SeedStoreForSuccess :: "MemoryKVStore sys \<Rightarrow> MemoryKVStore sys" where
  "SeedStoreForSuccess = put_all memory_store
     [(''input:order:1'', ''order_seed''), (''input:user:1'', ''user_seed''), (''text:summary:1'', ''draft''),
      (''row:inventory:1'', ''10''), (''state:task:1'', ''pending'')]"

definition SeedStoreForConflict :: "MemoryKVStore sys \<Rightarrow> MemoryKVStore sys" where
  "SeedStoreForConflict = put_all memory_store
     [(''input:order:2'', ''order_seed''), (''input:user:2'', ''user_seed''), (''text:summary:2'', ''draft_conflict''),
      (''row:inventory:2'', ''20''), (''state:task:2'', ''pending'')]"

definition mo_success_block :: "string \<Rightarrow> MemoryKVStore sys program_block" where
  "mo_success_block error_message st =
     (case RunScriptedKvTask (memory_runtime error_message) mo_BuildSuccessScript (SeedStoreForSuccess st) of
        (Inl e, st) \<Rightarrow> (Inl e, st)
      | (Inr session, st) \<Rightarrow>
          (Inr [''success_committed='' @ committed_text session,
                ''success_winner='' @ tx_winner_branch_id (ts_txn session),
                ''success_summary='' @ vv_value (mem_Get (fst st) ''text:summary:1''),
                ''success_inventory='' @ vv_value (mem_Get (fst st) ''row:inventory:1''),
                ''success_state='' @ vv_value (mem_Get (fst st) ''state:task:1''),
                ''success_commit_log_size='' @ nat_dec (length (tx_commit_log (ts_txn session))),
                ''success_output_objects='' @ nat_dec (length (tc_output_objects (ts_task session)))], st))"

definition mo_conflict_script :: KvTaskScript where
  "mo_conflict_script = kv_script ''multi_object_conflict'' ''abort one winner across multiple objects''
     [\<lparr>kb_branch_id = ''branch_conflict'', kb_score = DFin 88, kb_summary = ''conflicting branch'',
       kb_steps =
         [MakeReadStep ''input:order:2'', MakeReadStep ''input:user:2'',
          MakeWriteStep ''text:summary:2'' kText kOverwrite ''should_not_commit'' no_condition,
          MakeWriteStep ''row:inventory:2'' kRow kDelta ''-5'' no_condition,
          MakeWriteStep ''state:task:2'' kGeneric kCas ''confirmed'' pending_condition]\<rparr>]"

definition mo_conflict_block :: "string \<Rightarrow> MemoryKVStore sys program_block" where
  "mo_conflict_block error_message st =
     (let rt = memory_runtime error_message; st = SeedStoreForConflict st; branch = hd (kt_branches mo_conflict_script) in
      case SubmitTask rt (kv_BuildTaskContext mo_conflict_script) (kv_BuildExecutionPlan mo_conflict_script) of
        Inl e \<Rightarrow> (Inl e, st)
      | Inr session \<Rightarrow>
          (let session = fold (run_mutated_step rt st (kb_branch_id branch)) (kb_steps branch) session;
               session = rt_StageBranch (kb_branch_id branch) (kb_score branch) (kb_summary branch) session;
               (_, st) = mem_Put ''input:order:2'' ''order_seed_mutated'' st in
           case rt_CommitTask rt session st of
             (Inl e, _, st) \<Rightarrow> (Inl e, st)
           | (Inr conflict_committed, session, st) \<Rightarrow>
               (Inr [''conflict_committed='' @ bool_text conflict_committed,
                     ''conflict_reason='' @ vr_reason (tx_validation_result (ts_txn session)),
                     ''conflict_summary='' @ vv_value (mem_Get (fst st) ''text:summary:2''),
                     ''conflict_inventory='' @ vv_value (mem_Get (fst st) ''row:inventory:2''),
                     ''conflict_state='' @ vv_value (mem_Get (fst st) ''state:task:2''),
                     ''conflict_commit_log_size='' @ nat_dec (length (tx_commit_log (ts_txn session))),
                     ''conflict_output_objects='' @ nat_dec (length (tc_output_objects (ts_task session)))], st)))"

definition multi_object_atomicity_main :: "string \<Rightarrow> world \<Rightarrow> program_end \<times> MemoryKVStore sys" where
  "multi_object_atomicity_main error_message w =
     run_blocks [mo_success_block error_message, mo_conflict_block error_message] ([], w) []"

section \<open>kv\_style\_workflow.cc\<close>

definition workflow_script :: KvTaskScript where
  "workflow_script = kv_script ''kv_task_001'' ''exercise scripted versioned-KV workflow''
     [\<lparr>kb_branch_id = ''branch_A'', kb_score = DFin 55, kb_summary = ''lower-score fallback'',
       kb_steps =
         [MakeReadStep ''text:summary:task_001'',
          MakeWriteStep ''text:summary:task_001'' kText kOverwrite ''fallback_summary'' no_condition]\<rparr>,
      \<lparr>kb_branch_id = ''branch_B'', kb_score = DFin 95, kb_summary = ''winner with append, delta, cas, and rollback'',
       kb_steps =
         [MakeReadStep ''text:summary:task_001'',
          MakeWriteStep ''text:summary:task_001'' kText kAppend ''::draft'' no_condition,
          MakeSavepointStep ''summary_sp'',
          MakeWriteStep ''text:summary:task_001'' kText kAppend ''::discard'' no_condition,
          MakeRollbackStep ''summary_sp'',
          MakeWriteStep ''text:summary:task_001'' kText kAppend ''::winner'' no_condition,
          MakeReadStep ''row:inventory:item_8'',
          MakeWriteStep ''row:inventory:item_8'' kRow kDelta ''2'' no_condition,
          MakeSavepointStep ''inventory_sp'',
          MakeWriteStep ''row:inventory:item_8'' kRow kDelta ''7'' no_condition,
          MakeRollbackStep ''inventory_sp'',
          MakeWriteStep ''row:inventory:item_8'' kRow kDelta ''3'' no_condition,
          MakeReadStep ''state:task_001'',
          MakeWriteStep ''state:task_001'' kGeneric kCas ''confirmed'' pending_condition]\<rparr>]"

definition workflow_seeds :: "(string \<times> string) list" where
  "workflow_seeds = [(''text:summary:task_001'', ''draft''), (''row:inventory:item_8'', ''10''), (''state:task_001'', ''pending'')]"

definition kv_style_workflow_main :: "string \<Rightarrow> world \<Rightarrow> program_end \<times> MemoryKVStore sys" where
  "kv_style_workflow_main error_message w =
     (case RunScriptedKvTask (memory_runtime error_message) workflow_script (put_all memory_store workflow_seeds ([], w)) of
        (Inl e, st) \<Rightarrow> ((Inl e, [], []), st)
      | (Inr session, st) \<Rightarrow>
          (let out = put_lines
                 [''committed='' @ committed_text session,
                  ''task_phase='' @ nat_dec (task_phase_number (tc_phase (ts_task session))),
                  ''winner='' @ tx_winner_branch_id (ts_txn session),
                  ''summary='' @ vv_value (mem_Get (fst st) ''text:summary:task_001''),
                  ''inventory='' @ vv_value (mem_Get (fst st) ''row:inventory:item_8''),
                  ''state='' @ vv_value (mem_Get (fst st) ''state:task_001''),
                  ''commit_log_size='' @ nat_dec (length (tx_commit_log (ts_txn session))),
                  ''commit_attempts='' @ nat_dec (ts_commit_attempts session)];
               (_, w) = WriteTaskEventLogArtifact session ''/tmp/data_agent_system_kv_style_workflow.task.log'' (snd st)
           in ((Inr (if tx_status (ts_txn session) = TxnCommitted then 0 else 1), out, []), fst st, w)))"

section \<open>task\_runtime\_workflow.cc\<close>

definition PrintSession :: "TaskSession \<Rightarrow> string list" where
  "PrintSession session =
     [''task='' @ tc_task_id (ts_task session),
      ''phase='' @ nat_dec (task_phase_number (tc_phase (ts_task session))),
      ''txn='' @ tx_txn_id (ts_txn session),
      ''winner='' @ tx_winner_branch_id (ts_txn session),
      ''validation='' @ bool_text (vr_success (tx_validation_result (ts_txn session))),
      ''commit_log_size='' @ nat_dec (length (tx_commit_log (ts_txn session))),
      ''commit_attempts='' @ nat_dec (ts_commit_attempts session)]"

definition workflow_success_block :: "string \<Rightarrow> MemoryKVStore sys program_block" where
  "workflow_success_block error_message st =
     (let st = put_all memory_store [(''input:task_001'', ''seed''), (''output:task_001'', ''draft'')] st in
      case RunMinimalCandidateTask (memory_runtime error_message) ''task_001'' ''input:task_001'' ''output:task_001'' st of
        (Inl e, st) \<Rightarrow> (Inl e, st)
      | (Inr session, st) \<Rightarrow>
          (let (_, w) = WriteTaskEventLogArtifact session ''/tmp/data_agent_system_task_runtime_success.task.log'' (snd st)
           in (Inr (PrintSession session @ [''output_after_success='' @ vv_value (mem_Get (fst st) ''output:task_001'')]),
               fst st, w)))"

definition workflow_task :: TaskContext where
  "workflow_task =
     AddOutputObject ''output:task_001'' ''workflow_output'' (AddInputObject ''input:task_001'' ''workflow_input''
       (default_TaskContext\<lparr>tc_task_id := ''task_002'', tc_objective := ''exercise savepoint and abort'',
          tc_workload_name := ''task_runtime.workflow'', tc_planner_id := ''workflow_demo'', tc_phase := TaskCreated\<rparr>))"

definition workflow_plan :: ExecutionPlan where
  "workflow_plan =
     AddBranchPlan ''branch_Y'' ''candidate_Y'' ''fallback branch'' (DFin 12)
       (AddBranchPlan ''branch_X'' ''candidate_X'' ''savepoint branch'' (DFin 95) default_ExecutionPlan)"

definition workflow_intent :: "IntentType \<Rightarrow> string \<Rightarrow> WriteIntent" where
  "workflow_intent ty payload =
     \<lparr>wi_object_id = ''output:task_001'', wi_intent_type = ty, wi_payload = payload, wi_condition = no_condition\<rparr>"

definition run_workflow_branches :: "'s RuntimeCore \<Rightarrow> 's sys \<Rightarrow> TaskSession \<Rightarrow> TaskSession" where
  "run_workflow_branches rt st session =
     (let (_, session) = rt_Read rt ''branch_X'' ''input:task_001'' st session;
          session = rt_Savepoint ''branch_X'' ''sp1'' session;
          session = rt_Write rt ''branch_X'' ''output:task_001'' kText (workflow_intent kAppend ''::candidate'') st session;
          (_, session) = rt_RollbackToSavepoint ''branch_X'' ''sp1'' session;
          session = rt_Write rt ''branch_X'' ''output:task_001'' kText (workflow_intent kOverwrite ''rolled_back_result'') st session;
          session = rt_StageBranch ''branch_X'' (DFin 95) ''branch X'' session;
          (_, session) = rt_Read rt ''branch_Y'' ''input:task_001'' st session;
          session = rt_Write rt ''branch_Y'' ''output:task_001'' kText (workflow_intent kOverwrite ''result_Y'') st session
      in rt_StageBranch ''branch_Y'' (DFin 12) ''branch Y'' session)"

definition workflow_abort_block :: "string \<Rightarrow> MemoryKVStore sys program_block" where
  "workflow_abort_block error_message st =
     (let rt = memory_runtime error_message in
      case SubmitTask rt workflow_task workflow_plan of
        Inl e \<Rightarrow> (Inl e, st)
      | Inr session \<Rightarrow>
          (let session = run_workflow_branches rt st session;
               (_, st) = mem_Put ''input:task_001'' ''seed_mutated'' st in
           case rt_CommitTask rt session st of
             (Inl e, _, st) \<Rightarrow> (Inl e, st)
           | (Inr committed, session, st) \<Rightarrow>
               (let (_, w) = WriteTaskEventLogArtifact session ''/tmp/data_agent_system_task_runtime_abort.task.log'' (snd st)
                in (Inr ([''conflict_commit='' @ bool_text committed] @ PrintSession session @
                         [''output_after_abort='' @ vv_value (mem_Get (fst st) ''output:task_001'')]),
                    fst st, w))))"

definition task_runtime_workflow_main :: "string \<Rightarrow> world \<Rightarrow> program_end \<times> MemoryKVStore sys" where
  "task_runtime_workflow_main error_message w =
     run_blocks [workflow_success_block error_message, workflow_abort_block error_message] ([], w) []"

section \<open>agent\_retry\_loop\_demo.cc\<close>

text \<open>
  A minimal candidate task whose input another client changes before its commit, its event log, and
  the lines printed from the first attempt.
\<close>

definition retry_log_path :: string where
  "retry_log_path = ''/tmp/data_agent_system_retry_loop.task.log''"

definition retry_first_block :: "string \<Rightarrow> MemoryKVStore sys program_block" where
  "retry_first_block error_message st =
     (let rt = memory_runtime error_message;
          st = put_all memory_store [(''input:retry_task'', ''seed''), (''output:retry_task'', ''draft'')] st in
      case SubmitTask rt (BuildMinimalCandidateTaskContext ''retry_task'' ''input:retry_task'' ''output:retry_task'')
             BuildMinimalCandidateExecutionPlan of
        Inl e \<Rightarrow> (Inl e, st)
      | Inr session \<Rightarrow>
          (let session = ExecuteMinimalCandidateBranches rt ''input:retry_task'' ''output:retry_task'' st session;
               (_, st) = mem_Put ''input:retry_task'' ''seed_mutated'' st in
           case rt_CommitTask rt session st of
             (Inl e, _, st) \<Rightarrow> (Inl e, st)
           | (Inr first_commit, session, st) \<Rightarrow>
               (let (_, w) = WriteTaskEventLogArtifact session retry_log_path (snd st)
                in (Inr [''first_commit='' @ bool_text first_commit,
                         ''first_reason='' @ vr_reason (tx_validation_result (ts_txn session)),
                         ''first_retry_count='' @ nat_dec (tm_retry_count (tx_metrics (ts_txn session))),
                         ''output_after_abort='' @ vv_value (mem_Get (fst st) ''output:retry_task'')], fst st, w))))"

definition retry_second_block :: "string \<Rightarrow> MemoryKVStore sys program_block" where
  "retry_second_block error_message st =
     (let rt = memory_runtime error_message; (_, registry) = RegisterBuiltinRecoveryHandlers [] in
      case BuildRecoveryExecutionFromLog rt retry_log_path st of
        Inl e \<Rightarrow> (Inl e, st)
      | Inr execution \<Rightarrow>
          (case registry_Continue registry rt execution st of
             (Inl e, _, st) \<Rightarrow> (Inl e, st)
           | (Inr retry_committed, execution, st) \<Rightarrow>
               (Inr [''recovery_action='' @ TaskRecoveryActionName (dc_action (rp_decision (ex_recovery_plan execution))),
                     ''recovery_command='' @ TaskRecoveryCommandTypeName (ex_command_type execution),
                     ''retry_committed='' @ bool_text retry_committed,
                     ''retry_retry_count='' @ nat_dec (tm_retry_count (tx_metrics (ts_txn (ex_session execution)))),
                     ''retry_winner='' @ tx_winner_branch_id (ts_txn (ex_session execution)),
                     ''output_after_retry='' @ vv_value (mem_Get (fst st) ''output:retry_task'')], st)))"

definition agent_retry_loop_main :: "string \<Rightarrow> world \<Rightarrow> program_end \<times> MemoryKVStore sys" where
  "agent_retry_loop_main error_message w =
     run_blocks [retry_first_block error_message, retry_second_block error_message] ([], w) []"

section \<open>workload\_recovery\_registry\_demo.cc\<close>

text \<open>The recovery half of both blocks: the log continued through a registry, and one line.\<close>

definition continue_from_log ::
    "string \<Rightarrow> MemoryKVStore TaskContinuationRegistry \<Rightarrow> string \<Rightarrow> string \<Rightarrow> string \<Rightarrow> MemoryKVStore sys program_block" where
  "continue_from_log error_message registry log_path label object_id st =
     (let rt = memory_runtime error_message in
      case BuildRecoveryExecutionFromLog rt log_path st of
        Inl e \<Rightarrow> (Inl e, st)
      | Inr execution \<Rightarrow>
          (case registry_Continue registry rt execution st of
             (Inl e, _, st) \<Rightarrow> (Inl e, st)
           | (Inr committed, execution, st) \<Rightarrow>
               (Inr [tab_line [label, bool_text committed, tx_winner_branch_id (ts_txn (ex_session execution)),
                       vv_value (mem_Get (fst st) object_id)]], st)))"

definition agent_log_path :: string where
  "agent_log_path = ''/tmp/data_agent_system_agent_recovery.task.log''"

definition agent_recovery_block :: "string \<Rightarrow> MemoryKVStore sys program_block" where
  "agent_recovery_block error_message st =
     (let rt = memory_runtime error_message;
          st = put_all memory_store [(''input:agent_recovery'', ''seed_agent''), (''output:agent_recovery'', ''draft_agent'')] st in
      case SubmitTask rt (BuildMinimalCandidateTaskContext ''agent_recovery'' ''input:agent_recovery'' ''output:agent_recovery'')
             BuildMinimalCandidateExecutionPlan of
        Inl e \<Rightarrow> (Inl e, st)
      | Inr session \<Rightarrow>
          (let session = ExecuteMinimalCandidateBranches rt ''input:agent_recovery'' ''output:agent_recovery'' st session;
               (_, w) = WriteTaskEventLogArtifact session agent_log_path (snd st);
               (_, registry) = RegisterBuiltinRecoveryHandlers [];
               (_, registry) = RegisterMinimalCandidateContinuation ''recovered_agent_result'' (DFin 111)
                 ''agent recovery winner'' ''branch_B'' registry
           in continue_from_log error_message registry agent_log_path ''agent_task'' ''output:agent_recovery'' (fst st, w)))"

definition kv_recovery_script :: KvTaskScript where
  "kv_recovery_script =
     (kv_script ''kv_recovery'' ''recover scripted kv workload''
        [\<lparr>kb_branch_id = ''branch_A'', kb_score = DFin 44, kb_summary = ''kv recovery branch'', kb_steps = []\<rparr>])
     \<lparr>kt_recovery_steps := [MakeReadStep ''text:kv_recovery'', MakeWriteStep ''text:kv_recovery'' kText kAppend ''::recovered'' no_condition],
      kt_recovery_score := DFin 77, kt_recovery_summary := ''kv recovery winner'', kt_recovery_preferred_branch_id := ''branch_A''\<rparr>"

definition kv_log_path :: string where
  "kv_log_path = ''/tmp/data_agent_system_kv_recovery.task.log''"

definition kv_recovery_block :: "string \<Rightarrow> MemoryKVStore sys program_block" where
  "kv_recovery_block error_message st =
     (let rt = memory_runtime error_message; st = put_all memory_store [(''text:kv_recovery'', ''draft'')] st in
      case SubmitTask rt (kv_BuildTaskContext kv_recovery_script) (kv_BuildExecutionPlan kv_recovery_script) of
        Inl e \<Rightarrow> (Inl e, st)
      | Inr session \<Rightarrow>
          (let (_, session) = rt_Read rt ''branch_A'' ''text:kv_recovery'' st session;
               session = rt_Savepoint ''branch_A'' ''before_edit'' session;
               session = rt_Write rt ''branch_A'' ''text:kv_recovery'' kText
                 (ks_intent (MakeWriteStep ''text:kv_recovery'' kText kAppend ''::draft'' no_condition)) st session;
               (_, w) = WriteTaskEventLogArtifact session kv_log_path (snd st);
               (_, registry) = RegisterBuiltinRecoveryHandlers []
           in continue_from_log error_message registry kv_log_path ''kv_style'' ''text:kv_recovery'' (fst st, w)))"

definition workload_recovery_registry_main :: "string \<Rightarrow> world \<Rightarrow> program_end \<times> MemoryKVStore sys" where
  "workload_recovery_registry_main error_message w =
     run_blocks [agent_recovery_block error_message, kv_recovery_block error_message] ([], w) []"

end
