(* ===== verification/Fallback_Progress.thy ===== *)
theory Fallback_Progress
  imports Task_Sweep
begin

text \<open>
  Why the recovery of the fallback artifacts comes to an end: a successful run leaves every
  artifact in a terminal phase, and nothing that a run does, however it is interrupted, takes an
  artifact out of one. The store and the artifacts are arbitrary here; they need not come from a
  commit of this program.
\<close>

text \<open>The artifacts that a later run still has to work on.\<close>

definition unfinished :: "string list \<Rightarrow> world \<Rightarrow> string list" where
  "unfinished paths w = filter (\<lambda>p. \<not> finished_artifact p w) paths"

text \<open>No artifact is the temporary file of another.\<close>

definition separate_paths :: "string list \<Rightarrow> bool" where
  "separate_paths paths \<longleftrightarrow> distinct paths \<and> (\<forall>p \<in> set paths. p @ ''.tmp'' \<notin> set paths)"

text \<open>
  What a part of the recovery of the artifact at \<open>p\<close> does to the disk and to the counters of the
  result: \<open>ok\<close> tells whether it goes on.
\<close>

definition artifact_resumed :: "bool \<Rightarrow> string \<Rightarrow> 's sys \<Rightarrow> 's sys \<Rightarrow> FallbackRecoveryResult \<Rightarrow> FallbackRecoveryResult \<Rightarrow> bool" where
  "artifact_resumed ok p st st' r r' \<longleftrightarrow>
     (\<forall>q. q \<noteq> p \<longrightarrow> q \<noteq> p @ ''.tmp'' \<longrightarrow> fs_read q (snd st') = fs_read q (snd st)) \<and>
     (quiet (snd st) \<longrightarrow> quiet (snd st')) \<and> dirs (snd st') = dirs (snd st) \<and>
     (umap_wf (files (snd st)) \<longrightarrow> umap_wf (files (snd st'))) \<and>
     fr_recovered_artifact_count r' = fr_recovered_artifact_count r \<and>
     fr_skipped_terminal_artifact_count r' = fr_skipped_terminal_artifact_count r \<and>
     fr_parse_failure_count r' = fr_parse_failure_count r \<and>
     (if ok then fr_success r' = fr_success r \<and> fr_conflict_count r' = fr_conflict_count r
      else \<not> fr_success r' \<and> (quiet (snd st) \<longrightarrow> fr_conflict_count r' = fr_conflict_count r + 1))"

lemma resumed_refl: "artifact_resumed True p st st r r"
  by (simp add: artifact_resumed_def)

lemma resumed_trans: "artifact_resumed True p st st1 r r1 \<Longrightarrow> artifact_resumed ok p st1 st' r1 r' \<Longrightarrow> artifact_resumed ok p st st' r r'"
  by (auto simp: artifact_resumed_def)

lemma resumed_count:
  "artifact_resumed ok p st st' (r\<lparr>fr_rolled_forward_write_count := n\<rparr>) r' = artifact_resumed ok p st st' r r'"
  "artifact_resumed ok p st st' (r\<lparr>fr_rolled_back_write_count := n\<rparr>) r' = artifact_resumed ok p st st' r r'"
  by (simp_all add: artifact_resumed_def)

lemma resumed_conflict: "snd st' = snd st \<Longrightarrow> artifact_resumed False p st st' r (fr_conflict x r)"
  by (simp add: artifact_resumed_def fr_conflict_def)

lemma resumed_disk: "snd st' = snd st \<Longrightarrow> artifact_resumed True p st st' r r"
  by (simp add: artifact_resumed_def)

text \<open>The calls keep the directories, and the paths of the files distinct.\<close>

lemma call_frame:
  "dirs (snd (write_file p t w)) = dirs w" "dirs (snd (rename_file p q w)) = dirs w" "dirs (snd (remove_file p w)) = dirs w"
  "umap_wf (files w) \<Longrightarrow> umap_wf (files (snd (write_file p t w)))"
  "umap_wf (files w) \<Longrightarrow> umap_wf (files (snd (rename_file p q w)))"
  "umap_wf (files w) \<Longrightarrow> umap_wf (files (snd (remove_file p w)))"
proof -
  obtain f w' where n: "next_fault w = (f, w')" by (cases "next_fault w")
  then have d: "dirs w' = dirs w" "files w' = files w" by (auto simp: next_fault_def split: list.splits)
  show "dirs (snd (write_file p t w)) = dirs w" "dirs (snd (rename_file p q w)) = dirs w" "dirs (snd (remove_file p w)) = dirs w"
    "umap_wf (files w) \<Longrightarrow> umap_wf (files (snd (write_file p t w)))"
    "umap_wf (files w) \<Longrightarrow> umap_wf (files (snd (rename_file p q w)))"
    "umap_wf (files w) \<Longrightarrow> umap_wf (files (snd (remove_file p w)))"
    by (cases f; simp add: write_file_def rename_file_def remove_file_def n d fs_put_def fs_drop_def split: option.split)+
qed

lemma write_frame:
  "dirs (snd (WriteFallbackCommitArtifact a p w)) = dirs w"
  "umap_wf (files w) \<Longrightarrow> umap_wf (files (snd (WriteFallbackCommitArtifact a p w)))"
proof -
  let ?t = "p @ ''.tmp''"
  obtain r w1 where 1: "write_file ?t (fallback_artifact_text a) w = (r, w1)" by (metis surj_pair)
  obtain m w2 where 2: "rename_file ?t p w1 = (m, w2)" by (metis surj_pair)
  have "dirs w1 = dirs w" "dirs w2 = dirs w1" "umap_wf (files w) \<Longrightarrow> umap_wf (files w1)" "umap_wf (files w1) \<Longrightarrow> umap_wf (files w2)"
    using call_frame(1,4) [where p = ?t and t = "fallback_artifact_text a" and w = w]
      call_frame(2,5) [where p = ?t and q = p and w = w1] 1 2 by simp_all
  then show "dirs (snd (WriteFallbackCommitArtifact a p w)) = dirs w"
    "umap_wf (files w) \<Longrightarrow> umap_wf (files (snd (WriteFallbackCommitArtifact a p w)))"
    by (cases r; simp add: WriteFallbackCommitArtifact_def Let_def 1 2 call_frame)+
qed

lemma write_resumed:
  assumes "write_artifact a p st = (ok, st')"
  shows "ok \<Longrightarrow> artifact_resumed True p st st' r r" "\<not> ok \<Longrightarrow> artifact_resumed False p st st' r (fr_fail x r)"
proof -
  obtain w where w: "WriteFallbackCommitArtifact a p (snd st) = (ok, w)" "snd st' = w"
    using assms by (auto simp: write_artifact_def split: prod.splits)
  have other: "fs_read q w = fs_read q (snd st)" if "q \<noteq> p" "q \<noteq> p @ ''.tmp''" for q
    by (cases rule: WriteFallback_cases [of a p "snd st"]) (use w that in auto)
  have q: "quiet (snd st) \<Longrightarrow> ok \<and> quiet w"
    using WriteFallback_quiet(1,2) [of "snd st" a p] w by simp
  have d: "dirs w = dirs (snd st)" "umap_wf (files (snd st)) \<Longrightarrow> umap_wf (files w)"
    using write_frame [where a = a and p = p and w = "snd st"] by (simp_all add: w(1))
  show "ok \<Longrightarrow> artifact_resumed True p st st' r r" "\<not> ok \<Longrightarrow> artifact_resumed False p st st' r (fr_fail x r)"
    using other q d(2) by (auto simp add: artifact_resumed_def fr_fail_def w(2) d(1))
qed

lemma write_parsed: "fallback_ok a \<Longrightarrow> write_artifact a p st = (True, st') \<Longrightarrow> ParseFallbackCommitArtifact p (snd st') = Some a"
  by (simp add: write_artifact_sim)

lemma target_prefix_le: "target_prefix V es \<le> length es"
  by (induction es) auto

lemma Detect_resumed:
  assumes "DetectCommittedPrefix kv a s r = (n, r')"
  shows "n > length (fa_entries a) \<Longrightarrow> artifact_resumed False p st st r r'" "n \<le> length (fa_entries a) \<Longrightarrow> r' = r"
  using assms target_prefix_le [of "kv_Get kv s" "fa_entries a"]
  by (auto simp: DetectCommittedPrefix_def Let_def resumed_conflict split: option.splits)

lemma separate_pathsD:
  assumes "separate_paths (p # ps)"
  shows "separate_paths ps" "p \<notin> set ps" "\<forall>q \<in> set ps. p \<noteq> q @ ''.tmp''" "p @ ''.tmp'' \<notin> set ps"
  using assms by (auto simp: separate_paths_def)

context detached_store
begin

lemma forward_loop_resumed:
  "resume_forward_loop kv p i rest a st r = (ok, a', st', r') \<Longrightarrow> i + length rest = length (fa_entries a) \<Longrightarrow>
     fallback_ok a \<Longrightarrow> artifact_resumed ok p st st' r r' \<and> fallback_ok a'"
proof (induction rest arbitrary: i a st r)
  case Nil
  then show ?case by (simp add: resumed_refl)
next
  case (Cons e rest)
  let ?a = "a\<lparr>fa_applied_count := i + 1, fa_phase := FbApplying\<rparr>"
  obtain put st1 where put: "kv_PutIfVersion kv (fe_key e) (fe_expected_version e) (fe_target_value e) st = (put, st1)"
    by (metis surj_pair)
  have disk: "snd st1 = snd st" using put_if_disk [of "fe_key e" "fe_expected_version e" "fe_target_value e" st] put by simp
  obtain wr st2 where wr: "write_artifact ?a p st1 = (wr, st2)" by (metis surj_pair)
  note w = write_resumed [OF wr]
  have ok: "fallback_ok ?a" using Cons.prems by (simp add: fallback_ok_def)
  show ?case
  proof (cases "put \<and> wr")
    case True
    with Cons.prems put wr have "resume_forward_loop kv p (Suc i) rest ?a st2
        (r\<lparr>fr_rolled_forward_write_count := fr_rolled_forward_write_count r + 1\<rparr>) = (ok, a', st', r')"
      by simp
    from Cons.IH [OF this _ ok] Cons.prems(2) have "artifact_resumed ok p st2 st' r r' \<and> fallback_ok a'"
      by (simp add: resumed_count)
    with True w(1) [of r] show ?thesis
      by (blast intro: resumed_trans [OF resumed_disk [OF disk]] resumed_trans)
  next
    case False
    then consider "\<not> put" | "put" "\<not> wr" by blast
    then show ?thesis
    proof cases
      case 1
      with Cons.prems put disk show ?thesis by (auto intro: resumed_conflict)
    next
      case 2
      then have "\<not> ok" "st' = st2" "\<exists>x. r' = fr_fail x r" "a' = ?a" using Cons.prems(1) put wr by auto
      with ok show ?thesis using resumed_trans [OF resumed_disk [OF disk, of p r] w(2) [OF 2(2)]] by auto
    qed
  qed
qed

lemma rollback_loop_resumed:
  "resume_rollback_loop kv p n a st r = (ok, a', st', r') \<Longrightarrow> n \<le> length (fa_entries a) \<Longrightarrow>
     fallback_ok a \<Longrightarrow> artifact_resumed ok p st st' r r' \<and> fallback_ok a'"
proof (induction n arbitrary: a st r)
  case 0
  then show ?case by (simp add: resumed_refl)
next
  case (Suc n)
  let ?e = "fa_entries a ! n" and ?a = "a\<lparr>fa_applied_count := n\<rparr>"
  let ?cur = "kv_Get kv (fst st) (fe_key ?e)"
  have ok: "fallback_ok ?a" "n \<le> length (fa_entries ?a)" using Suc.prems(2,3) by (simp_all add: fallback_ok_def)
  have rest: "artifact_resumed ok p st st' r r' \<and> fallback_ok a'"
    if disk: "snd st1 = snd st" and m: "m = r \<or> m = r\<lparr>fr_rolled_back_write_count := k\<rparr>"
      and run: "(let (written, st) = write_artifact ?a p st1 in
        if \<not> written then (False, ?a, st, fr_fail (''failed to persist fallback rollback progress: '' @ p) r)
        else resume_rollback_loop kv p n ?a st m) = (ok, a', st', r')" for st1 m k
  proof -
    obtain wr st2 where wr: "write_artifact ?a p st1 = (wr, st2)" by (metis surj_pair)
    note w = write_resumed [OF wr]
    show ?thesis
    proof (cases wr)
      case True
      with run wr have "resume_rollback_loop kv p n ?a st2 m = (ok, a', st', r')" by simp
      from Suc.IH [OF this ok(2,1)] m have "artifact_resumed ok p st2 st' r r' \<and> fallback_ok a'"
        by (auto simp: resumed_count)
      with True w(1) [of r] show ?thesis
        by (blast intro: resumed_trans [OF resumed_disk [OF disk]] resumed_trans)
    next
      case False
      then have "\<not> ok" "st' = st2" "\<exists>x. r' = fr_fail x r" "a' = ?a" using run wr by auto
      with ok show ?thesis using resumed_trans [OF resumed_disk [OF disk, of p r] w(2) [OF False]] by auto
    qed
  qed
  show ?case
  proof (cases "FallbackEntryMatchesPrevious ?e ?cur")
    case True
    with Suc.prems(1) show ?thesis by (intro rest [of st r]) (simp_all add: Let_def)
  next
    case prev: False
    show ?thesis
    proof (cases "FallbackEntryMatchesTarget ?e ?cur")
      case False
      with prev Suc.prems show ?thesis by (auto simp: Let_def intro: resumed_conflict)
    next
      case True
      obtain undo st1 where u: "(if fe_previous_exists ?e
          then kv_PutIfVersion kv (fe_key ?e) (fe_previous_version ?e + 1) (fe_previous_value ?e) st
          else kv_DeleteIfVersion kv (fe_key ?e) (fe_expected_version ?e + 1) st) = (undo, st1)"
        by (metis surj_pair)
      have disk: "snd st1 = snd st"
        using u put_if_disk [of "fe_key ?e" "fe_previous_version ?e + 1" "fe_previous_value ?e" st]
          delete_if_disk [of "fe_key ?e" "fe_expected_version ?e + 1" st] by (auto split: if_splits)
      show ?thesis
      proof (cases undo)
        case False
        with prev True u disk Suc.prems show ?thesis by (auto simp: Let_def intro: resumed_conflict)
      next
        case undone: True
        with prev True u Suc.prems(1) show ?thesis
          by (intro rest [OF disk, of "r\<lparr>fr_rolled_back_write_count := fr_rolled_back_write_count r + 1\<rparr>"])
            (auto simp: Let_def split: prod.splits if_splits)
      qed
    qed
  qed
qed

text \<open>The last write of a recovery that reports success puts the terminal phase on the disk.\<close>

lemma last_write:
  assumes "write_artifact (a\<lparr>fa_phase := phase\<rparr>) p st = (True, st')" "fallback_ok a" "IsTerminalFallbackPhase phase"
  shows "finished_artifact p (snd st')"
proof -
  have "fallback_ok (a\<lparr>fa_phase := phase\<rparr>)" using assms(2) by (simp add: fallback_ok_def)
  from write_parsed [OF this assms(1)] assms(3) show ?thesis by (simp add: finished_artifact_def)
qed

text \<open>The shape that both directions share: a first write, a loop, and the write of the terminal phase.\<close>

lemma resume_ends:
  assumes wr1: "write_artifact a p st = (w1, st1)" and f: "artifact_resumed l p st1 st2 r r2" "fallback_ok a2"
    and wr3: "write_artifact (a2\<lparr>fa_phase := phase\<rparr>) p st2 = (w3, st3)" and phase: "IsTerminalFallbackPhase phase"
    and ends: "(\<exists>x. \<not> w1 \<and> \<not> ok \<and> st' = st1 \<and> r' = fr_fail x r) \<or> (w1 \<and> \<not> l \<and> \<not> ok \<and> st' = st2 \<and> r' = r2) \<or>
      (\<exists>x. w1 \<and> l \<and> \<not> w3 \<and> \<not> ok \<and> st' = st3 \<and> r' = fr_fail x r2) \<or> (w1 \<and> l \<and> w3 \<and> ok \<and> st' = st3 \<and> r' = r2)"
  shows "artifact_resumed ok p st st' r r' \<and> (ok \<longrightarrow> finished_artifact p (snd st'))"
proof -
  note w = write_resumed [OF wr1] and w' = write_resumed [OF wr3]
  have t: "artifact_resumed l p st st2 r r2" if "w1" by (rule resumed_trans [OF w(1) [OF that] f(1)])
  from ends consider x where "\<not> w1" "\<not> ok" "st' = st1" "r' = fr_fail x r" | "w1" "\<not> l" "\<not> ok" "st' = st2" "r' = r2"
    | x where "w1" "l" "\<not> w3" "\<not> ok" "st' = st3" "r' = fr_fail x r2" | "w1" "l" "w3" "ok" "st' = st3" "r' = r2"
    by blast
  then show ?thesis
  proof cases
    case 1
    with w(2) show ?thesis by auto
  next
    case 2
    with t show ?thesis by auto
  next
    case 3
    with t have "artifact_resumed True p st st2 r r2" by simp
    from resumed_trans [OF this w'(2) [OF 3(3)]] 3 show ?thesis by auto
  next
    case 4
    with t have "artifact_resumed True p st st2 r r2" by simp
    from resumed_trans [OF this w'(1) [OF 4(3)]] last_write [OF wr3 [unfolded eqTrueI [OF 4(3)]] f(2) phase] 4
    show ?thesis by auto
  qed
qed

lemma ResumeForward_resumed:
  assumes run: "ResumeForwardFallbackCommit kv a p st r = (ok, a', st', r')" and a: "fallback_ok a"
  shows "artifact_resumed ok p st st' r r' \<and> (ok \<longrightarrow> finished_artifact p (snd st'))"
proof -
  obtain n r1 where det: "DetectCommittedPrefix kv a (fst st) r = (n, r1)" by fastforce
  note d = Detect_resumed(1) [OF det, of p st] Detect_resumed(2) [OF det]
  show ?thesis
  proof (cases "n > length (fa_entries a)")
    case True
    with run det d show ?thesis by (auto simp: ResumeForwardFallbackCommit_def)
  next
    case False
    then have r1: "r1 = r" and n: "n \<le> length (fa_entries a)" using d(2) by auto
    let ?a = "a\<lparr>fa_applied_count := n, fa_phase := (if n = length (fa_entries a) then FbCommitted else FbApplying)\<rparr>"
    obtain w1 st1 where wr1: "write_artifact ?a p st = (w1, st1)" by (metis surj_pair)
    obtain l a2 st2 r2 where loop: "resume_forward_loop kv p n (drop n (fa_entries ?a)) ?a st1 r = (l, a2, st2, r2)" by (metis surj_pair)
    obtain w3 st3 where wr3: "write_artifact (a2\<lparr>fa_phase := FbCommitted\<rparr>) p st2 = (w3, st3)" by (metis surj_pair)
    have "fallback_ok ?a" using a n by (simp add: fallback_ok_def)
    from forward_loop_resumed [OF loop _ this] n have f: "artifact_resumed l p st1 st2 r r2" "fallback_ok a2" by simp_all
    have "(\<exists>x. \<not> w1 \<and> \<not> ok \<and> st' = st1 \<and> r' = fr_fail x r) \<or> (w1 \<and> \<not> l \<and> \<not> ok \<and> st' = st2 \<and> r' = r2) \<or>
        (\<exists>x. w1 \<and> l \<and> \<not> w3 \<and> \<not> ok \<and> st' = st3 \<and> r' = fr_fail x r2) \<or> (w1 \<and> l \<and> w3 \<and> ok \<and> st' = st3 \<and> r' = r2)"
      using run det n r1 wr1 loop wr3 by (cases w1; cases l; cases w3) (auto simp: ResumeForwardFallbackCommit_def)
    from resume_ends [OF wr1 f wr3 _ this] show ?thesis by (simp add: IsTerminalFallbackPhase_def)
  qed
qed

lemma ResumeRollback_resumed:
  assumes run: "ResumeRollbackFallbackCommit kv a p st r = (ok, a', st', r')" and a: "fallback_ok a"
  shows "artifact_resumed ok p st st' r r' \<and> (ok \<longrightarrow> finished_artifact p (snd st'))"
proof -
  obtain n r1 where det: "DetectCommittedPrefix kv a (fst st) r = (n, r1)" by fastforce
  note d = Detect_resumed(1) [OF det, of p st] Detect_resumed(2) [OF det]
  show ?thesis
  proof (cases "n > length (fa_entries a)")
    case True
    with run det d show ?thesis by (auto simp: ResumeRollbackFallbackCommit_def)
  next
    case False
    then have r1: "r1 = r" and n: "n \<le> length (fa_entries a)" using d(2) by auto
    let ?a = "a\<lparr>fa_applied_count := n, fa_phase := FbRollingBack\<rparr>"
    obtain w1 st1 where wr1: "write_artifact ?a p st = (w1, st1)" by (metis surj_pair)
    obtain l a2 st2 r2 where loop: "resume_rollback_loop kv p n ?a st1 r = (l, a2, st2, r2)" by (metis surj_pair)
    obtain w3 st3 where wr3: "write_artifact (a2\<lparr>fa_phase := FbRolledBack\<rparr>) p st2 = (w3, st3)" by (metis surj_pair)
    have "fallback_ok ?a" using a n by (simp add: fallback_ok_def)
    from rollback_loop_resumed [OF loop _ this] n have f: "artifact_resumed l p st1 st2 r r2" "fallback_ok a2" by simp_all
    have "(\<exists>x. \<not> w1 \<and> \<not> ok \<and> st' = st1 \<and> r' = fr_fail x r) \<or> (w1 \<and> \<not> l \<and> \<not> ok \<and> st' = st2 \<and> r' = r2) \<or>
        (\<exists>x. w1 \<and> l \<and> \<not> w3 \<and> \<not> ok \<and> st' = st3 \<and> r' = fr_fail x r2) \<or> (w1 \<and> l \<and> w3 \<and> ok \<and> st' = st3 \<and> r' = r2)"
      using run det n r1 wr1 loop wr3 by (cases w1; cases l; cases w3) (auto simp: ResumeRollbackFallbackCommit_def)
    from resume_ends [OF wr1 f wr3 _ this] show ?thesis by (simp add: IsTerminalFallbackPhase_def)
  qed
qed

lemma recover_loop_progress:
  "recover_artifacts_loop kv ps st r = (r', st') \<Longrightarrow> separate_paths ps \<Longrightarrow> fr_success r \<Longrightarrow>
     (\<forall>p \<in> set ps. \<forall>a. ParseFallbackCommitArtifact p (snd st) = Some a \<longrightarrow> fallback_ok a) \<Longrightarrow>
     (\<forall>q. q \<notin> set ps \<longrightarrow> (\<forall>p \<in> set ps. q \<noteq> p @ ''.tmp'') \<longrightarrow> fs_read q (snd st') = fs_read q (snd st)) \<and>
     (\<forall>p \<in> set ps. finished_artifact p (snd st) \<longrightarrow> finished_artifact p (snd st')) \<and> dirs (snd st') = dirs (snd st) \<and>
     (quiet (snd st) \<longrightarrow> quiet (snd st')) \<and> (umap_wf (files (snd st)) \<longrightarrow> umap_wf (files (snd st'))) \<and>
     (if fr_success r' then unfinished ps (snd st') = [] \<and>
        fr_recovered_artifact_count r' = fr_recovered_artifact_count r + length (unfinished ps (snd st))
      else quiet (snd st) \<longrightarrow> fr_conflict_count r' + fr_parse_failure_count r' =
        fr_conflict_count r + fr_parse_failure_count r + 1)"
proof (induction ps arbitrary: st r)
  case Nil
  then show ?case by (simp add: unfinished_def)
next
  case (Cons p ps)
  note sep = separate_pathsD [OF Cons.prems(2)]
  show ?case
  proof (cases "ParseFallbackCommitArtifact p (snd st)")
    case None
    with Cons.prems(1) have "st' = st" "\<exists>x. r' = fr_fail x (r\<lparr>fr_parse_failure_count := fr_parse_failure_count r + 1\<rparr>)"
      by auto
    then show ?thesis by (auto simp: fr_fail_def)
  next
    case (Some a)
    show ?thesis
    proof (cases "IsTerminalFallbackPhase (fa_phase a)")
      case True
      let ?r = "r\<lparr>fr_skipped_terminal_artifact_count := fr_skipped_terminal_artifact_count r + 1\<rparr>"
      have run: "recover_artifacts_loop kv ps st ?r = (r', st')"
        using Cons.prems(1) Some True by (auto simp: IsTerminalFallbackPhase_def)
      have fin: "finished_artifact p (snd st)" using Some True by (auto simp: finished_artifact_def)
      have ok: "\<forall>p \<in> set ps. \<forall>a. ParseFallbackCommitArtifact p (snd st) = Some a \<longrightarrow> fallback_ok a"
        using Cons.prems(4) by simp
      from Cons.IH [OF run sep(1) _ ok] Cons.prems(3)
      have ih: "\<forall>q. q \<notin> set ps \<longrightarrow> (\<forall>p \<in> set ps. q \<noteq> p @ ''.tmp'') \<longrightarrow> fs_read q (snd st') = fs_read q (snd st)"
        "\<forall>p \<in> set ps. finished_artifact p (snd st) \<longrightarrow> finished_artifact p (snd st')" "dirs (snd st') = dirs (snd st)"
        "quiet (snd st) \<longrightarrow> quiet (snd st')" "umap_wf (files (snd st)) \<longrightarrow> umap_wf (files (snd st'))"
        "if fr_success r' then unfinished ps (snd st') = [] \<and>
           fr_recovered_artifact_count r' = fr_recovered_artifact_count r + length (unfinished ps (snd st))
         else quiet (snd st) \<longrightarrow> fr_conflict_count r' + fr_parse_failure_count r' =
           fr_conflict_count r + fr_parse_failure_count r + 1" by simp_all
      have "finished_artifact p (snd st')" using ih(1) sep(2,3) fin finished_same [of p "snd st'" "snd st"] by metis
      with ih fin show ?thesis by (auto simp: unfinished_def)
    next
      case False
      then have unf: "\<not> finished_artifact p (snd st)" using Some by (simp add: finished_artifact_def)
      obtain ok a1 st1 r1 where step: "(if fa_phase a = FbRollingBack
          then ResumeRollbackFallbackCommit kv a p st r else ResumeForwardFallbackCommit kv a p st r) = (ok, a1, st1, r1)"
        by (metis surj_pair)
      have a: "fallback_ok a" using Cons.prems(4) Some by simp
      have res: "artifact_resumed ok p st st1 r r1" "ok \<Longrightarrow> finished_artifact p (snd st1)"
        using step ResumeForward_resumed [OF _ a] ResumeRollback_resumed [OF _ a] by (auto split: if_splits)
      have disk: "fs_read q (snd st1) = fs_read q (snd st)" if "q \<noteq> p" "q \<noteq> p @ ''.tmp''" for q
        using res(1) that by (simp add: artifact_resumed_def)
      have same: "fs_read q (snd st1) = fs_read q (snd st)" if "q \<in> set ps" for q
        using disk [of q] sep(2,4) that by auto
      note fin1 = finished_same [OF same] and parse1 = parse_same [OF same]
      show ?thesis
      proof (cases ok)
        case False
        with Cons.prems(1) Some \<open>\<not> IsTerminalFallbackPhase (fa_phase a)\<close> step have "r' = r1" "st' = st1"
          by (auto simp: IsTerminalFallbackPhase_def Let_def)
        with res(1) False disk fin1 unf show ?thesis by (auto simp: artifact_resumed_def)
      next
        case True
        let ?r = "r1\<lparr>fr_recovered_artifact_count := fr_recovered_artifact_count r1 + 1\<rparr>"
        have run: "recover_artifacts_loop kv ps st1 ?r = (r', st')"
          using Cons.prems(1) Some \<open>\<not> IsTerminalFallbackPhase (fa_phase a)\<close> step True
          by (auto simp: IsTerminalFallbackPhase_def Let_def)
        have u1: "unfinished ps (snd st1) = unfinished ps (snd st)" using fin1 by (simp add: unfinished_def cong: filter_cong)
        have r1: "fr_success r1" "fr_recovered_artifact_count r1 = fr_recovered_artifact_count r"
          "fr_conflict_count r1 = fr_conflict_count r" "fr_parse_failure_count r1 = fr_parse_failure_count r"
          "quiet (snd st) \<longrightarrow> quiet (snd st1)" "dirs (snd st1) = dirs (snd st)"
          "umap_wf (files (snd st)) \<longrightarrow> umap_wf (files (snd st1))"
          using res(1) True Cons.prems(3) by (simp_all add: artifact_resumed_def)
        have ok1: "\<forall>p \<in> set ps. \<forall>a. ParseFallbackCommitArtifact p (snd st1) = Some a \<longrightarrow> fallback_ok a"
          using Cons.prems(4) by (simp add: parse1)
        from Cons.IH [OF run sep(1) _ ok1] r1
        have ih: "\<forall>q. q \<notin> set ps \<longrightarrow> (\<forall>p \<in> set ps. q \<noteq> p @ ''.tmp'') \<longrightarrow> fs_read q (snd st') = fs_read q (snd st1)"
          "\<forall>p \<in> set ps. finished_artifact p (snd st1) \<longrightarrow> finished_artifact p (snd st')" "dirs (snd st') = dirs (snd st)"
          "quiet (snd st) \<longrightarrow> quiet (snd st')" "umap_wf (files (snd st)) \<longrightarrow> umap_wf (files (snd st'))"
          "if fr_success r' then unfinished ps (snd st') = [] \<and>
             fr_recovered_artifact_count r' = fr_recovered_artifact_count r + 1 + length (unfinished ps (snd st))
           else quiet (snd st) \<longrightarrow> fr_conflict_count r' + fr_parse_failure_count r' =
             fr_conflict_count r + fr_parse_failure_count r + 1" by (simp_all add: u1 split: if_splits)
        have "finished_artifact p (snd st')"
          using ih(1) sep(2,3) res(2) [OF True] finished_same [of p "snd st'" "snd st1"] by metis
        with ih unf fin1 disk show ?thesis by (auto simp: unfinished_def)
      qed
    qed
  qed
qed

end

section \<open>The recovery ends\<close>

lemma parsed_applied: "parse_fallback_text t b = Some a \<Longrightarrow> fa_applied_count a \<le> length (fa_entries a)"
  by (auto simp: parse_fallback_text_def Let_def split: list.splits if_splits option.splits)

lemma parsed_ok: "ParseFallbackCommitArtifact p w = Some a \<Longrightarrow> length (fa_entries a) < 2 ^ 64 \<Longrightarrow> fallback_ok a"
  by (auto simp: ParseFallbackCommitArtifact_def fallback_ok_def dest: parsed_applied split: option.splits)

lemma recover_loop_finished:
  "\<forall>p \<in> set ps. finished_artifact p (snd st) \<Longrightarrow> recover_artifacts_loop kv ps st r =
     (r\<lparr>fr_skipped_terminal_artifact_count := fr_skipped_terminal_artifact_count r + length ps\<rparr>, st)"
proof (induction ps arbitrary: r)
  case (Cons p ps)
  then obtain a where "ParseFallbackCommitArtifact p (snd st) = Some a" "IsTerminalFallbackPhase (fa_phase a)"
    by (auto simp: finished_artifact_def)
  with Cons show ?case by (auto simp: IsTerminalFallbackPhase_def)
qed simp

lemma finished_script [simp]: "finished_artifact p (w\<lparr>script := fs\<rparr>) = finished_artifact p w"
  by (simp add: finished_artifact_def)

lemma sweep_disk_recovers:
  "\<exists>r st'. RecoverFallbackCommitArtifacts non_batch_memory_store [''a/f.fallback.log'', ''a/p.fallback.log''] (demo_mem, sweep_disk []) =
     (r, st') \<and> fr_success r"
proof -
  let ?ps = "[''a/f.fallback.log'', ''a/p.fallback.log'']" and ?w = "sweep_disk []" and ?kv = non_batch_memory_store
  let ?st = "(demo_mem, ?w)"
  obtain r st' where run: "RecoverFallbackCommitArtifacts ?kv ?ps ?st = (r, st')" by (metis surj_pair)
  have q: "quiet ?w" by (simp add: quiet_def sweep_disk_def)
  note kv = nonbatch_detached.detached_store_axioms
  let ?p = "''a/p.fallback.log''"
    and ?r = "default_FallbackRecoveryResult\<lparr>fr_skipped_terminal_artifact_count := 1\<rparr>"
  obtain ok a' st1 r1 where fw: "ResumeForwardFallbackCommit ?kv pending_artifact ?p ?st ?r = (ok, a', st1, r1)"
    by (metis surj_pair)
  have a: "fallback_ok pending_artifact" "fa_entries pending_artifact = []" "fa_phase pending_artifact = FbPrepared"
    by (simp_all add: fallback_ok_def pending_artifact_def default_FallbackCommitArtifact_def)
  have "commit_pending ?kv (\<lambda>_. True) ?p (mem_Get demo_mem) [] ?st"
    by (simp add: commit_pending_def asks_for_def sweep_disk_parses a)
  from detached_store.ResumeForward_pending [OF kv _ _ a(2) this fw] q have "ok" by (simp add: entries_from_def)
  with detached_store.ResumeForward_resumed [OF kv fw a(1)] have "fr_success r1" by (simp add: artifact_resumed_def default_FallbackRecoveryResult_def)
  moreover have "r = r1\<lparr>fr_recovered_artifact_count := fr_recovered_artifact_count r1 + 1\<rparr>"
    using run fw \<open>ok\<close> by (simp add: RecoverFallbackCommitArtifacts_def sweep_disk_parses a default_FallbackRecoveryResult_def)
  ultimately have "fr_success r" by simp
  with run show ?thesis by blast
qed

text \<open>
  C6. The recovery of the fallback artifacts comes to an end. No run ever takes an artifact out of
  a terminal phase, whatever calls fail. A run that reports success has recovered exactly the
  artifacts that were not in a terminal phase and leaves none; from then on every run over the same
  paths only skips them, whatever has become of the store and whatever calls fail, and changes nothing.
  On a healthy disk a run fails only because it meets one artifact that cannot be parsed or one
  conflict with the store.
\<close>

theorem recovery_comes_to_an_end:
  assumes kv: "detached_store kv ok_state" and sep: "separate_paths paths"
    and few: "\<And>p a. p \<in> set paths \<Longrightarrow> ParseFallbackCommitArtifact p (snd st) = Some a \<Longrightarrow> length (fa_entries a) < 2 ^ 64"
    and run: "RecoverFallbackCommitArtifacts kv paths st = (r, st')"
  shows "set (unfinished paths (snd st')) \<subseteq> set (unfinished paths (snd st)) \<and>
    (fr_success r \<longrightarrow> unfinished paths (snd st') = [] \<and>
       fr_recovered_artifact_count r = length (unfinished paths (snd st)) \<and>
       (\<forall>s fs. RecoverFallbackCommitArtifacts kv paths (s, (snd st')\<lparr>script := fs\<rparr>) =
          (default_FallbackRecoveryResult\<lparr>fr_skipped_terminal_artifact_count := length paths\<rparr>, s, (snd st')\<lparr>script := fs\<rparr>))) \<and>
    (quiet (snd st) \<and> \<not> fr_success r \<longrightarrow> fr_conflict_count r + fr_parse_failure_count r = 1)"
proof -
  have ok: "\<forall>p \<in> set paths. \<forall>a. ParseFallbackCommitArtifact p (snd st) = Some a \<longrightarrow> fallback_ok a"
    using few parsed_ok by blast
  have start: "fr_success default_FallbackRecoveryResult" "fr_recovered_artifact_count default_FallbackRecoveryResult = 0"
    "fr_skipped_terminal_artifact_count default_FallbackRecoveryResult = 0"
    "fr_conflict_count default_FallbackRecoveryResult = 0" "fr_parse_failure_count default_FallbackRecoveryResult = 0"
    by (simp_all add: default_FallbackRecoveryResult_def)
  note p = detached_store.recover_loop_progress [OF kv run [unfolded RecoverFallbackCommitArtifacts_def] sep start(1) ok]
  have fixed: "RecoverFallbackCommitArtifacts kv paths (s, (snd st')\<lparr>script := fs\<rparr>) =
      (default_FallbackRecoveryResult\<lparr>fr_skipped_terminal_artifact_count := length paths\<rparr>, s, (snd st')\<lparr>script := fs\<rparr>)"
    if "unfinished paths (snd st') = []" for s fs
    unfolding RecoverFallbackCommitArtifacts_def
    using that by (subst recover_loop_finished) (simp_all add: unfinished_def filter_empty_conv start)
  show ?thesis
    using p fixed by (auto simp: start unfinished_def split: if_splits)
qed

theorem recovery_comes_to_an_end_witness:
  "let paths = [''a/f.fallback.log'', ''a/p.fallback.log'']; w = sweep_disk [];
       (r, s, w') = RecoverFallbackCommitArtifacts non_batch_memory_store paths (demo_mem, w)
   in unfinished paths w = [''a/p.fallback.log''] \<and> fr_success r \<and> fr_recovered_artifact_count r = 1 \<and> unfinished paths w' = []"
proof -
  let ?ps = "[''a/f.fallback.log'', ''a/p.fallback.log'']" and ?w = "sweep_disk []" and ?kv = non_batch_memory_store
  let ?st = "(demo_mem, ?w)"
  obtain r st' where run: "RecoverFallbackCommitArtifacts ?kv ?ps ?st = (r, st')" by (metis surj_pair)
  have sep: "separate_paths ?ps" by (simp add: separate_paths_def)
  have few: "length (fa_entries a) < 2 ^ 64" if "p \<in> set ?ps" "ParseFallbackCommitArtifact p (snd ?st) = Some a" for p a
    using that by (auto simp: sweep_disk_parses pending_artifact_def default_FallbackCommitArtifact_def)
  have q: "quiet ?w" by (simp add: quiet_def sweep_disk_def)
  have un: "unfinished ?ps ?w = [''a/p.fallback.log'']"
    using sweep_disk_pending [of "[]"]
    by (simp add: unfinished_def finished_artifact_def sweep_disk_parses IsTerminalFallbackPhase_def)
  have "fr_success r" using sweep_disk_recovers run by auto
  with recovery_comes_to_an_end [OF nonbatch_detached.detached_store_axioms sep few run] un q
  show ?thesis by (auto simp: run Let_def)
qed

end
