(* ===== verification/Runtime_Facade.thy ===== *)
theory Runtime_Facade
  imports Fallback_Progress
begin

text \<open>
  \<open>runtime/task_runtime.h\<close>: the class \<open>TaskRuntime\<close> itself, its two constructors and the operations
  that forward to its members, and what the constructor with a configuration guarantees about the
  artifacts of interrupted commits.
\<close>

section \<open>TaskRuntime\<close>

record 's TaskRuntime =
  tr_core :: "'s RuntimeCore"
  tr_registry :: "'s TaskContinuationRegistry"
  tr_startup_result :: "FallbackArtifactMaintenanceResult option"

definition NewTaskRuntime :: "'s VersionedKVStore \<Rightarrow> string \<Rightarrow> 's TaskRuntime" where
  "NewTaskRuntime store error_message =
     \<lparr>tr_core = \<lparr>tk_store = store, tk_config = default_FallbackCommitRuntimeConfig, tk_error_message = error_message\<rparr>,
      tr_registry = [], tr_startup_result = None\<rparr>"

definition NewConfiguredTaskRuntime ::
    "'s VersionedKVStore \<Rightarrow> FallbackCommitRuntimeConfig \<Rightarrow> string \<Rightarrow> 's sys \<Rightarrow> (exn + 's TaskRuntime) \<times> 's sys" where
  "NewConfiguredTaskRuntime store config error_message st =
     (let core = \<lparr>tk_store = store, tk_config = config, tk_error_message = error_message\<rparr> in
      case InitializeFallbackCommitRuntime core st of
        (Inl e, st) \<Rightarrow> (Inl e, st)
      | (Inr startup, st) \<Rightarrow> (Inr \<lparr>tr_core = core, tr_registry = [], tr_startup_result = startup\<rparr>, st))"

definition LastStartupFallbackMaintenanceResult :: "'s TaskRuntime \<Rightarrow> FallbackArtifactMaintenanceResult option" where
  "LastStartupFallbackMaintenanceResult runtime = tr_startup_result runtime"

definition RegisterContinuationHandler ::
    "string \<Rightarrow> 's TaskContinuationHandler option \<Rightarrow> 's TaskRuntime \<Rightarrow> bool \<times> 's TaskRuntime" where
  "RegisterContinuationHandler workload_name handler runtime =
     (let (ok, registry) = RegisterHandler workload_name handler (tr_registry runtime)
      in (ok, runtime\<lparr>tr_registry := registry\<rparr>))"

definition FindContinuationHandler :: "string \<Rightarrow> 's TaskRuntime \<Rightarrow> 's TaskContinuationHandler option" where
  "FindContinuationHandler workload_name runtime = FindHandler workload_name (tr_registry runtime)"

definition tr_ContinueRecoveredTask ::
    "'s TaskRuntime \<Rightarrow> TaskRecoveryExecution \<Rightarrow> 's sys \<Rightarrow> (exn + bool) \<times> TaskRecoveryExecution \<times> 's sys" where
  "tr_ContinueRecoveredTask runtime execution st = registry_Continue (tr_registry runtime) (tr_core runtime) execution st"

definition txn_FindBranch :: "AgentTxnContext \<Rightarrow> string \<Rightarrow> nat option" where
  "txn_FindBranch txn branch_id = bm_FindBranch (tx_branches txn) branch_id"

definition rt_FindBranch :: "TaskSession \<Rightarrow> string \<Rightarrow> nat option" where
  "rt_FindBranch session branch_id = txn_FindBranch (ts_txn session) branch_id"

definition txn_CommitTask :: "'s RuntimeCore \<Rightarrow> AgentTxnContext \<Rightarrow> 's sys \<Rightarrow> exn + (bool \<times> AgentTxnContext \<times> 's sys)" where
  "txn_CommitTask rt txn st = tm_SelectWinnerAndCommit (tk_store rt) txn st"

section \<open>The artifacts after the construction\<close>

lemma created_dirs:
  assumes "EnsureDirectory rt p w = (Inr (), w')" "p \<noteq> []"
  shows "p \<in> set (dirs w')" "files w' = files w"
proof -
  obtain ok w1 where c: "create_directories p w = (ok, w1)" by (metis surj_pair)
  with assms have "ok" "w1 = w'" by (auto simp: EnsureDirectory_def split: if_splits)
  then show "p \<in> set (dirs w')" "files w' = files w"
    using c by (auto simp: create_directories_def path_prefixes_def next_fault_def split: prod.splits io_fault.splits if_splits list.splits)
qed

lemma listed_paths:
  assumes "d \<in> set (dirs w)" "CHR ''/'' \<notin> set f" "EndsWith f s" "fs_read (d @ ''/'' @ f) w \<noteq> None" "f \<noteq> ''.''" "f \<noteq> ''..''"
  shows "d @ ''/'' @ f \<in> set (ListPathsWithSuffix d s w)"
proof -
  obtain names where "dir_entries d w = Some names" "f \<in> set names"
    by (rule listed_artifact [OF assms(1,2,4)])
  with assms(3,5,6) show ?thesis by (simp add: ListPathsWithSuffix_def image_iff)
qed

lemma distinct_entries:
  assumes "distinct ps" shows "distinct (map (drop n) (filter (\<lambda>p. take n p = q \<and> P p) ps))"
proof -
  have "inj_on (drop n) (set (filter (\<lambda>p. take n p = q \<and> P p) ps))"
    by (rule inj_onI) (simp, metis append_take_drop_id)
  with assms show ?thesis by (simp add: distinct_map)
qed

lemma ListPaths_distinct:
  assumes "umap_wf (files w)" "\<not> EndsWith ''.'' s" "\<not> EndsWith ''..'' s"
  shows "distinct (ListPathsWithSuffix d s w)"
proof (cases "d \<in> set (dirs w)")
  case True
  let ?names = "map (drop (length d + 1))
      (filter (\<lambda>p. take (length d + 1) p = d @ ''/'' \<and> CHR ''/'' \<notin> set (drop (length d + 1) p)) (map fst (files w)))"
  have "distinct ?names" using assms(1) unfolding umap_wf_def by (rule distinct_entries)
  then have "distinct (filter (\<lambda>name. \<not> (name = ''.'' \<or> name = ''..'') \<and> EndsWith name s) ?names)" by (rule distinct_filter)
  moreover have "ListPathsWithSuffix d s w = sort (map (\<lambda>name. d @ ''/'' @ name)
      (filter (\<lambda>name. \<not> (name = ''.'' \<or> name = ''..'') \<and> EndsWith name s) ?names))"
    using True assms(2,3) by (simp add: ListPathsWithSuffix_def dir_entries_def)
  ultimately show ?thesis by (simp only: distinct_sort distinct_map inj_on_def append_same_eq same_append_eq) simp
qed (simp add: ListPathsWithSuffix_def dir_entries_def)

text \<open>A recovery that reports success leaves every listed artifact finished, and the files it does not name alone.\<close>

lemma recovered_directory:
  assumes kv: "detached_store kv ok_state" and wf: "umap_wf (files (snd st))"
    and few: "\<And>p a. ParseFallbackCommitArtifact p (snd st) = Some a \<Longrightarrow> length (fa_entries a) < 2 ^ 64"
    and run: "tm_RecoverFallbackCommits kv d st = (r, st')" and ok: "fr_success r"
    and d: "d \<in> set (dirs (snd st))" and f: "CHR ''/'' \<notin> set f" "EndsWith f ''.fallback.log''"
  shows "dirs (snd st') = dirs (snd st)" "quiet (snd st) \<Longrightarrow> quiet (snd st')" "umap_wf (files (snd st'))"
    "fs_read (d @ ''/'' @ f) (snd st') \<noteq> None \<Longrightarrow> finished_artifact (d @ ''/'' @ f) (snd st')"
proof -
  let ?ps = "ListPathsWithSuffix d ''.fallback.log'' (snd st)" and ?q = "d @ ''/'' @ f"
  have dots: "f \<noteq> ''.''" "f \<noteq> ''..''" using f(2) by (auto simp: EndsWith_def)
  have tmp: "\<not> EndsWith (p @ ''.tmp'') ''.fallback.log''" for p by (auto simp: EndsWith_def)
  have "distinct ?ps" by (rule ListPaths_distinct [OF wf]) (simp_all add: EndsWith_def)
  moreover have "p @ ''.tmp'' \<notin> set ?ps" for p using ListPathsWithSuffix_set(2) tmp by blast
  ultimately have sep: "separate_paths ?ps" by (simp add: separate_paths_def)
  have oks: "\<forall>p \<in> set ?ps. \<forall>a. ParseFallbackCommitArtifact p (snd st) = Some a \<longrightarrow> fallback_ok a"
    using few parsed_ok by blast
  have "fr_success default_FallbackRecoveryResult" by (simp add: default_FallbackRecoveryResult_def)
  note p = detached_store.recover_loop_progress [OF kv run [unfolded tm_RecoverFallbackCommits_def
      RecoverFallbackCommitsFromDirectory_def ListFallbackCommitArtifacts_def RecoverFallbackCommitArtifacts_def] sep this oks]
  show "dirs (snd st') = dirs (snd st)" "quiet (snd st) \<Longrightarrow> quiet (snd st')" "umap_wf (files (snd st'))"
    using p wf by simp_all
  assume there: "fs_read ?q (snd st') \<noteq> None"
  show "finished_artifact ?q (snd st')"
  proof (cases "?q \<in> set ?ps")
    case True
    with p ok show ?thesis by (simp add: unfinished_def filter_empty_conv)
  next
    case False
    have "EndsWith ?q ''.fallback.log''" using f(2) unfolding EndsWith_iff by (metis append.assoc)
    then have "?q \<noteq> p @ ''.tmp''" for p using tmp by metis
    with p False there have "fs_read ?q (snd st) \<noteq> None" by metis
    with False listed_paths [OF d f this dots] show ?thesis by blast
  qed
qed

text \<open>
  C7. A runtime that is constructed with recovery at startup starts with a clean artifact
  directory. Take any store that keeps off the disk, any artifacts of whatever
  origin in the directory, and any failing calls. If the constructor returns and finished artifacts
  are to be deleted, then it has stored a successful maintenance result, and no file
  with the suffix of artifacts is left in the directory: every interrupted commit has been finished.
\<close>

theorem construction_clears_artifacts:
  assumes kv: "detached_store store ok_state"
    and c: "fc_auto_recover_on_startup config" "fc_artifact_dir config = d" "d \<noteq> []" "last d \<noteq> CHR ''/''"
      "fc_committed_artifact_policy config = PolicyDelete" "fc_rolled_back_artifact_policy config = PolicyDelete"
    and wf: "umap_wf (files (snd st))"
    and few: "\<And>p a. ParseFallbackCommitArtifact p (snd st) = Some a \<Longrightarrow> length (fa_entries a) < 2 ^ 64"
    and run: "NewConfiguredTaskRuntime store config error_message st = (Inr runtime, st')"
    and f: "CHR ''/'' \<notin> set f" "EndsWith f ''.fallback.log''"
  shows "(\<exists>m. LastStartupFallbackMaintenanceResult runtime = Some m \<and> fm_success m) \<and>
    fs_read (d @ ''/'' @ f) (snd st') = None"
proof -
  let ?rt = "\<lparr>tk_store = store, tk_config = config, tk_error_message = error_message\<rparr>" and ?q = "d @ ''/'' @ f"
  have cfg: "tk_config ?rt = config" "tk_store ?rt = store" by simp_all
  have noarch: "\<not> UsesArchivePolicy ?rt" by (simp add: UsesArchivePolicy_def c)
  obtain e w1 where e: "EnsureDirectory ?rt d (snd st) = (e, w1)" by (metis surj_pair)
  with run c noarch have eI: "e = Inr ()"
    by (cases e) (auto simp: NewConfiguredTaskRuntime_def InitializeFallbackCommitRuntime_def Let_def)
  note w1 = created_dirs [OF e [unfolded eI] c(3)]
  obtain x st2 where rec: "RecoverPendingFallbackCommits ?rt (fst st, w1) = (x, st2)" by (metis surj_pair)
  have x: "\<exists>m. x = Inr m \<and> fm_success m \<and> tr_startup_result runtime = Some m" "st' = st2"
    using run c noarch e eI rec
    by (auto simp: NewConfiguredTaskRuntime_def InitializeFallbackCommitRuntime_def Let_def split: sum.splits if_splits)
  then obtain m where m: "x = Inr m" "fm_success m" "tr_startup_result runtime = Some m" by blast
  obtain r st3 where r: "tm_RecoverFallbackCommits store d (fst st, w1) = (r, st3)" by (metis surj_pair)
  have ok: "fr_success r"
    using rec m c r by (auto simp: RecoverPendingFallbackCommits_def Let_def split: if_splits)
  obtain y w4 where y: "SweepTerminalFallbackArtifacts ?rt (snd st3) = (y, w4)" by (metis surj_pair)
  have sw: "\<exists>n. y = Inr n \<and> fm_success n" "w4 = snd st2"
    using rec m c r ok y by (auto simp: RecoverPendingFallbackCommits_def Let_def split: sum.splits)
  then obtain n where n: "SweepTerminalFallbackArtifacts ?rt (snd st3) = (Inr n, w4)" "fm_success n" using y by blast
  have wf1: "umap_wf (files (snd (fst st, w1)))" using wf w1(2) by simp
  have few1: "ParseFallbackCommitArtifact p (snd (fst st, w1)) = Some a \<Longrightarrow> length (fa_entries a) < 2 ^ 64" for p a
    using few [of p a] parse_same [of p w1 "snd st"] w1(2) by (simp add: fs_read_def)
  have d1: "d \<in> set (dirs (snd (fst st, w1)))" using w1(1) by simp
  note fin = recovered_directory [OF kv wf1 few1 r ok d1 f]
  have d3: "d \<in> set (dirs (snd st3))" using fin(1) d1 by simp
  have "fs_read ?q w4 = None"
  proof (cases "fs_read ?q (snd st3) = None")
    case True
    then have "\<not> finished_artifact ?q (snd st3)" by (simp add: finished_artifact_def ParseFallbackCommitArtifact_def)
    moreover have "fs_read ?q (snd (SweepTerminalFallbackArtifacts ?rt (snd st3))) = fs_read ?q (snd st3)"
      using sweep_loop_keeps [OF calculation, of ?rt] noarch
      by (simp add: SweepTerminalFallbackArtifacts_def Let_def split: option.split)
    ultimately show ?thesis using True by (simp add: y)
  next
    case False
    with sweep_deletes_lemma [of ?rt, unfolded cfg, OF c(5,6,2,3,4) d3 n False f] fin(4) show ?thesis by simp
  qed
  then show ?thesis using m x(2) sw(2) by (auto simp: LastStartupFallbackMaintenanceResult_def)
qed

definition clean_config :: FallbackCommitRuntimeConfig where
  "clean_config = default_FallbackCommitRuntimeConfig\<lparr>fc_artifact_dir := ''a'', fc_auto_recover_on_startup := True,
     fc_committed_artifact_policy := PolicyDelete, fc_rolled_back_artifact_policy := PolicyDelete\<rparr>"

text \<open>On a healthy disk the constructor returns once the recovery has succeeded.\<close>

lemma sweep_loop_quiet:
  assumes policy: "fc_committed_artifact_policy (tk_config rt) = PolicyDelete"
      "fc_rolled_back_artifact_policy (tk_config rt) = PolicyDelete"
  shows "distinct fs \<Longrightarrow> quiet w \<Longrightarrow>
     \<forall>f \<in> set fs. EndsWith f ''.fallback.log'' \<longrightarrow>
       finished_artifact (path_join (fc_artifact_dir (tk_config rt)) f) w \<and> path_join (fc_artifact_dir (tk_config rt)) f \<notin> set (dirs w) \<Longrightarrow>
     \<exists>r' w'. sweep_loop rt fs w r = (Inr r', w') \<and> fm_success r' = fm_success r"
proof (induction fs arbitrary: w r)
  case (Cons f fs)
  let ?p = "path_join (fc_artifact_dir (tk_config rt)) f"
  show ?case
  proof (cases "EndsWith f ''.fallback.log''")
    case False
    with Cons show ?thesis by simp
  next
    case True
    then obtain a where a: "ParseFallbackCommitArtifact ?p w = Some a" "IsTerminalFallbackPhase (fa_phase a)" "?p \<notin> set (dirs w)"
      using Cons.prems(3) by (auto simp: finished_artifact_def)
    obtain w1 where w1: "next_fault w = (NoFault, w1)" "quiet w1" "\<forall>p. fs_read p w1 = fs_read p w"
      using next_fault_quiet_ex [OF Cons.prems(2)] by blast
    have d: "dirs w1 = dirs w" using w1(1) by (auto simp: next_fault_def split: list.splits)
    let ?w = "fs_drop ?p w1"
    have step: "ApplyTerminalFallbackArtifactPolicy rt ?p PolicyDelete w = (Inr True, ?w)"
      using a(3) by (simp add: ApplyTerminalFallbackArtifactPolicy_def fs_remove_def w1(1) d)
    have "finished_artifact (path_join (fc_artifact_dir (tk_config rt)) g) ?w = finished_artifact (path_join (fc_artifact_dir (tk_config rt)) g) w"
      if "g \<in> set fs" for g
      using that Cons.prems(1) by (intro finished_same) (auto simp: w1(3) path_join_eq)
    then have ih: "\<exists>r' w'. sweep_loop rt fs ?w s = (Inr r', w') \<and> fm_success r' = fm_success s" for s
      using Cons.prems w1(2) by (intro Cons.IH) (auto simp: fs_drop_def d quiet_def)
    have "policy_for rt ph = PolicyDelete" for ph by (simp add: policy_for_def policy)
    with ih [of "r\<lparr>fm_deleted_artifact_count := fm_deleted_artifact_count r + 1\<rparr>"] True a step show ?thesis
      by (simp add: Let_def)
  qed
qed simp

lemma sweep_quiet:
  assumes policy: "fc_committed_artifact_policy (tk_config rt) = PolicyDelete"
      "fc_rolled_back_artifact_policy (tk_config rt) = PolicyDelete"
    and d: "fc_artifact_dir (tk_config rt) = d" "d \<noteq> []" "last d \<noteq> CHR ''/''"
    and w: "quiet w" "umap_wf (files w)" "\<And>f. d @ ''/'' @ f \<notin> set (dirs w)"
    and fin: "\<And>f. CHR ''/'' \<notin> set f \<Longrightarrow> EndsWith f ''.fallback.log'' \<Longrightarrow> fs_read (d @ ''/'' @ f) w \<noteq> None \<Longrightarrow>
      finished_artifact (d @ ''/'' @ f) w"
  shows "\<exists>r w'. SweepTerminalFallbackArtifacts rt w = (Inr r, w') \<and> fm_success r"
proof (cases "d \<in> set (dirs w)")
  case False
  then show ?thesis
    by (simp add: SweepTerminalFallbackArtifacts_def dir_entries_def d default_FallbackArtifactMaintenanceResult_def)
next
  case True
  let ?ps = "filter (\<lambda>p. take (length d + 1) p = d @ ''/'' \<and> CHR ''/'' \<notin> set (drop (length d + 1) p)) (map fst (files w))"
  let ?fs = "filter (\<lambda>f. \<not> (f = ''.'' \<or> f = ''..'')) (map (drop (length d + 1)) ?ps)"
  have join: "path_join (fc_artifact_dir (tk_config rt)) f = d @ ''/'' @ f" for f using d by (simp add: path_join_def)
  have "distinct (map fst (files w))" using w(2) by (simp add: umap_wf_def)
  then have dist: "distinct ?fs" by (intro distinct_filter distinct_entries)
  have "finished_artifact (d @ ''/'' @ f) w" if f: "f \<in> set ?fs" "EndsWith f ''.fallback.log''" for f
  proof (rule fin [OF _ f(2)])
    from f(1) obtain p where p: "p \<in> set (map fst (files w))" "take (length d + 1) p = d @ ''/''" "CHR ''/'' \<notin> set (drop (length d + 1) p)"
        "f = drop (length d + 1) p" by auto
    then show "CHR ''/'' \<notin> set f" by simp
    have "d @ ''/'' @ f = p" using p(2,4) append_take_drop_id [of "length d + 1" p] by simp
    with p(1) show "fs_read (d @ ''/'' @ f) w \<noteq> None" by (simp add: fs_read_def umap_find_None)
  qed
  then have "\<forall>f \<in> set ?fs. EndsWith f ''.fallback.log'' \<longrightarrow>
      finished_artifact (path_join (fc_artifact_dir (tk_config rt)) f) w \<and> path_join (fc_artifact_dir (tk_config rt)) f \<notin> set (dirs w)"
    using w(3) unfolding join by blast
  from sweep_loop_quiet [OF policy dist w(1) this, of default_FallbackArtifactMaintenanceResult] True d
  show ?thesis
    by (auto simp: SweepTerminalFallbackArtifacts_def dir_entries_def default_FallbackArtifactMaintenanceResult_def)
qed

lemma sweep_disk_listed: "ListPathsWithSuffix ''a'' ''.fallback.log'' (sweep_disk []) = [''a/f.fallback.log'', ''a/p.fallback.log'']"
  unfolding ListPathsWithSuffix_def sweep_disk_entries by code_simp

theorem construction_clears_artifacts_witness:
  "case NewConfiguredTaskRuntime non_batch_memory_store clean_config [] (demo_mem, sweep_disk []) of
     (Inl _, _) \<Rightarrow> False
   | (Inr _, _, w) \<Rightarrow> fs_read ''a/p.fallback.log'' w = None"
proof -
  let ?kv = non_batch_memory_store and ?w = "sweep_disk []"
  let ?rt = "\<lparr>tk_store = ?kv, tk_config = clean_config, tk_error_message = []\<rparr>"
  note kv = nonbatch_detached.detached_store_axioms
  have cfg: "fc_auto_recover_on_startup clean_config" "fc_artifact_dir clean_config = ''a''" "''a'' \<noteq> ([] :: string)" "last ''a'' \<noteq> CHR ''/''"
    "fc_committed_artifact_policy clean_config = PolicyDelete" "fc_rolled_back_artifact_policy clean_config = PolicyDelete"
    by (simp_all add: clean_config_def)
  have e: "EnsureDirectory ?rt ''a'' ?w = (Inr (), ?w)"
    by (simp add: EnsureDirectory_def create_directories_def next_fault_def sweep_disk_def path_prefixes_def fs_read_def umap_find_def)
  obtain r st3 where r: "tm_RecoverFallbackCommits ?kv ''a'' (demo_mem, ?w) = (r, st3)" "fr_success r"
    using sweep_disk_recovers
    by (auto simp: tm_RecoverFallbackCommits_def RecoverFallbackCommitsFromDirectory_def ListFallbackCommitArtifacts_def sweep_disk_listed)
  have wf: "umap_wf (files (snd (demo_mem, ?w)))" by (simp add: sweep_disk_def umap_wf_def)
  have few: "length (fa_entries a) < 2 ^ 64" if "ParseFallbackCommitArtifact p (snd (demo_mem, ?w)) = Some a" for p a
  proof -
    have "p \<in> {''a/f.fallback.log'', ''a/p.fallback.log''}"
      using that by (auto simp: ParseFallbackCommitArtifact_def sweep_disk_def fs_read_def umap_find_def split: if_splits)
    then show ?thesis using that by (auto simp: sweep_disk_parses pending_artifact_def default_FallbackCommitArtifact_def)
  qed
  have w: "''a'' \<in> set (dirs (snd (demo_mem, ?w)))" "quiet (snd (demo_mem, ?w))" by (simp_all add: sweep_disk_def quiet_def)
  have rec: "dirs (snd st3) = dirs (snd (demo_mem, ?w))" "quiet (snd st3)" "umap_wf (files (snd st3))"
    "fs_read (''a'' @ ''/'' @ g) (snd st3) \<noteq> None \<Longrightarrow> finished_artifact (''a'' @ ''/'' @ g) (snd st3)"
    if "CHR ''/'' \<notin> set g" "EndsWith g ''.fallback.log''" for g
    by (rule recovered_directory [OF kv wf few r w(1) that]; (assumption | rule w(2)))+
  have f: "CHR ''/'' \<notin> set ''p.fallback.log''" "EndsWith ''p.fallback.log'' ''.fallback.log''" by (simp_all add: EndsWith_def)
  have st3: "dirs (snd st3) = [''a'']" "quiet (snd st3)" "umap_wf (files (snd st3))"
    using rec(1-3) [OF f] by (simp_all add: sweep_disk_def)
  have policies: "fc_committed_artifact_policy (tk_config ?rt) = PolicyDelete" "fc_rolled_back_artifact_policy (tk_config ?rt) = PolicyDelete"
    "fc_artifact_dir (tk_config ?rt) = ''a''" by (simp_all add: cfg)
  have "\<exists>n w4. SweepTerminalFallbackArtifacts ?rt (snd st3) = (Inr n, w4) \<and> fm_success n"
    by (rule sweep_quiet [OF policies cfg(3,4) st3(2,3)]) (use st3(1) rec(4) in simp_all)
  then obtain n w4 where n: "SweepTerminalFallbackArtifacts ?rt (snd st3) = (Inr n, w4)" "fm_success n" by blast
  have "\<exists>x. RecoverPendingFallbackCommits ?rt (demo_mem, ?w) = (Inr x, fst st3, w4) \<and> fm_success x"
    unfolding RecoverPendingFallbackCommits_def Let_def RuntimeCore.select_convs cfg(2) r(1) prod.case fst_conv snd_conv n(1) sum.case
    by (simp add: r(2) n(2))
  then obtain x where x: "RecoverPendingFallbackCommits ?rt (demo_mem, ?w) = (Inr x, fst st3, w4)" "fm_success x" by blast
  have no: "\<not> UsesArchivePolicy ?rt" by (simp add: UsesArchivePolicy_def cfg)
  have "InitializeFallbackCommitRuntime ?rt (demo_mem, ?w) = (Inr (Some x), fst st3, w4)"
    by (simp only: InitializeFallbackCommitRuntime_def Let_def RuntimeCore.select_convs cfg(1,2,3) fst_conv snd_conv e prod.case sum.case
        no simp_thms if_True if_False x)
  then obtain m where m: "NewConfiguredTaskRuntime ?kv clean_config [] (demo_mem, ?w) = (Inr m, fst st3, w4)"
    by (simp only: NewConfiguredTaskRuntime_def Let_def prod.case sum.case)
  from construction_clears_artifacts [OF kv cfg wf few m f] show ?thesis by (simp add: m)
qed

end
