(* ===== verification/Task_Retry.thy ===== *)
theory Task_Retry
  imports Workload_Recovery
begin

text \<open>
  The whole way of a task that another client disturbs: its commit fails, its event log says that it
  was aborted, and the recovery from that log, at any later time and on any later state of the store,
  submits the task again from scratch and commits it.
\<close>

section \<open>The first attempt\<close>

lemma candidate_disturbed:
  assumes "vv_version (W i) \<noteq> vv_version (V i)"
  shows "\<not> commit_possible (candidate V i k b v d m) W"
proof -
  have inv: "branch_inv (snd (bm_ReadObject i V (new_BranchContext b)))" by (rule branch_inv_Read) simp
  have wb: "bc_write_buffer (snd (bm_ReadObject i V (new_BranchContext b))) = empty_WriteBuffer"
      "bc_intent_log (snd (bm_ReadObject i V (new_BranchContext b))) = []"
    by (simp_all add: bm_ReadObject_frame new_BranchContext_def)
  note f = written_facts [OF inv wb overwrite_sel(1) candidate_def]
  let ?r = "\<lparr>rd_object_id = i, rd_observed_version = vv_version (V i)\<rparr>"
  have "?r \<in> set (bc_read_set (candidate V i k b v d m))"
    by (simp add: f bm_ReadObject_def Let_def rs_Record_def)
  moreover have "\<not> rebased_key (candidate V i k b v d m) i"
    by (rule overwritten_facts(2) [OF inv wb overwrite_sel(1,2) candidate_def])
  ultimately show ?thesis using assms by (force simp: commit_possible_def versions_ok_def)
qed

lemma run_length: "length (ts_events (fold (task_op rt st) ops s)) \<le> length (ts_events s) + length ops"
proof (induction ops arbitrary: s)
  case (Cons op ops)
  have "length (ts_events (task_op rt st op s)) \<le> length (ts_events s) + 1"
    by (cases op) (auto simp: rt_defs Let_def split: prod.split)
  with Cons.IH [of "task_op rt st op s"] show ?case by simp
qed simp

text \<open>The session of the first attempt, and what its commit does after another client has changed the input.\<close>

lemma disturbed_attempt:
  assumes sub: "SubmitTask rt (BuildMinimalCandidateTaskContext task_id i k) BuildMinimalCandidateExecutionPlan = Inr s0"
    and kv: "batch_store (tk_store rt) ok_state" and st1: "ok_state st1"
    and changed: "vv_version (kv_Get (tk_store rt) (fst st1) i) \<noteq> vv_version (kv_Get (tk_store rt) (fst st) i)"
    and commit: "rt_CommitTask rt (ExecuteMinimalCandidateBranches rt i k st s0) st1 = (c, s1, st2)"
  shows "c = Inr False \<and> kv_Get (tk_store rt) (fst st2) = kv_Get (tk_store rt) (fst st1) \<and>
    \<not> ts_committed s1 \<and> tc_phase (ts_task s1) = TaskAborted \<and>
    ts_task s1 = (BuildMinimalCandidateTaskContext task_id i k)\<lparr>tc_phase := TaskAborted\<rparr> \<and>
    (\<exists>es. ts_events s1 = ts_events s0 @ es \<and> later_events es \<and> es \<noteq> [] \<and> te_type (last es) = EvAbortTask) \<and> log_fits s1"
proof -
  let ?task = "BuildMinimalCandidateTaskContext task_id i k" and ?ops = "minimal_ops i k"
  let ?s = "fold (task_op rt st) ?ops s0" and ?V = "kv_Get (tk_store rt) (fst st)" and ?W = "kv_Get (tk_store rt) (fst st1)"
  let ?B = "candidate ?V i k ''branch_B'' ''result_B'' (DFin 91) ''candidate B''"
  have s0: "s0 = submitted rt ?task BuildMinimalCandidateExecutionPlan" and v: "task_Validate ?task = Inr ()"
      "plan_Validate BuildMinimalCandidateExecutionPlan = Inr ()"
    using sub by (simp_all add: SubmitTask_iff)
  have ok: "session_ok rt ?s" unfolding s0 by (intro session_ok_run submitted_ok v)
  note bs = minimal_branches [OF s0 refl, where k = k and i = i]
  have scores: "\<forall>b \<in> set (tx_branches (ts_txn ?s)). cr_score (bc_candidate_result b) \<noteq> DNaN"
    by (simp add: bs candidate_facts)
  obtain c' txn' st' where r: "rt_CommitTask rt ?s st1 =
      (Inr c', ?s\<lparr>ts_task := (ts_task ?s)\<lparr>tc_phase := if c' then TaskCommitted else TaskAborted\<rparr>, ts_txn := txn',
         ts_commit_attempts := ts_commit_attempts ?s + 1, ts_committed := c',
         ts_events := ts_events ?s @ ended_events ?s c' txn'\<rparr>, st')"
      and o: "outcome_of (tx_branches (ts_txn ?s)) (best_branch (tx_branches (ts_txn ?s))) ?W c' txn' (kv_Get (tk_store rt) (fst st'))"
    using commit_outcome [OF _ _ kv st1 scores] ok unfolding session_ok_def by meson
  have "best_branch (tx_branches (ts_txn ?s)) = ?B"
    by (simp add: bs best_branch_def candidate_facts)
  then have c': "\<not> c'" using o candidate_disturbed [of ?W i ?V, OF changed] by (simp add: outcome_of_def)
  have s1: "s1 = ?s\<lparr>ts_task := (ts_task ?s)\<lparr>tc_phase := TaskAborted\<rparr>, ts_txn := txn',
         ts_commit_attempts := ts_commit_attempts ?s + 1, ts_committed := False,
         ts_events := ts_events ?s @ ended_events ?s False txn'\<rparr>" and c: "c = Inr False" "st2 = st'"
    using commit r c' by (simp_all add: Execute_ops)
  obtain es where es: "ts_events ?s = ts_events s0 @ es" "op_events es" using run_events by blast
  have task: "ts_task ?s = ?task\<lparr>tc_phase := TaskRunning\<rparr>" "ts_commit_attempts ?s = 0"
    by (simp_all add: submitted_run_open s0) (simp_all add: submitted_def)
  have "length (ts_events ?s) \<le> length (ts_events s0) + length ?ops" by (rule run_length)
  also have "\<dots> = 13"
    by (simp add: s0 submitted_def minimal_ops_def candidate_ops_def BuildMinimalCandidateExecutionPlan_def Let_def
        AddBranchPlan_def default_ExecutionPlan_def)
  finally have few: "length (ts_events ?s) \<le> 13" .
  have num: "numbered (ts_events ?s)" using ok by (simp add: session_ok_def)
  have lt: "te_sequence_number e < 13" if "e \<in> set (ts_events ?s)" for e
  proof -
    have "te_sequence_number e \<in> set (map te_sequence_number (ts_events ?s))" using that by simp
    with num few show ?thesis by (simp add: numbered_def)
  qed
  have seq: "\<forall>e \<in> set (ts_events s1). te_sequence_number e < 2 ^ 64"
    using few by (auto simp: s1 ended_events_def dest!: lt)
  have fields: "length (tc_input_objects ?task) \<le> 1" "length (tc_output_objects ?task) \<le> 1"
      "length (tc_metadata ?task) \<le> 1" "umap_wf (tc_metadata ?task)"
    by (simp_all add: BuildMinimalCandidateTaskContext_def Let_def AddInputObject_def AddOutputObject_def
        default_TaskContext_def SetMetadata_def umap_set_def umap_wf_def)
  have "log_fits s1" using seq fields by (auto simp: log_fits_def s1 task)
  moreover have "ts_events s1 = ts_events s0 @ (es @ ended_events ?s False txn')" "later_events (es @ ended_events ?s False txn')"
      "te_type (last (es @ ended_events ?s False txn')) = EvAbortTask"
    using es op_events_later [OF es(2)] by (simp_all add: s1 later_events_def ended_events_def)
  moreover have "kv_Get (tk_store rt) (fst st') = ?W" using o c' by (simp add: outcome_of_def)
  moreover have "ts_task s1 = ?task\<lparr>tc_phase := TaskAborted\<rparr>" "\<not> ts_committed s1" "tc_phase (ts_task s1) = TaskAborted"
    by (simp_all add: s1 task)
  ultimately show ?thesis using c by (auto simp: ended_events_def)
qed

section \<open>The retry\<close>

text \<open>
  The execution recovered from the log of any aborted task: to carry it out is to submit the task
  anew, with the branches of its plan empty.
\<close>

lemma aborted_decision:
  assumes "\<not> ts_committed s" "tc_phase (ts_task s) = TaskAborted" "ts_events s \<noteq> []" "te_type (last (ts_events s)) = EvAbortTask"
  shows "dc_action (RecoverTaskSessionDecision path (logged_artifact s)) = RaRetryFromScratch"
  using assms
  by (simp add: RecoverTaskSessionDecision_def Let_def logged_fixed_values final_event_names task_phase_digit del: task_phase_number.simps)

lemma fresh_execution:
  assumes sub: "SubmitTask rt task plan = Inr s0" and ex: "ex_command_type ex = CmdSubmitFreshTask"
    and p: "tc_task_id (rp_task (ex_recovery_plan ex)) = tc_task_id task" "tc_objective (rp_task (ex_recovery_plan ex)) = tc_objective task"
      "ep_branch_plans (rp_plan (ex_recovery_plan ex)) = map recovered_plan (ep_branch_plans plan)"
  shows "\<exists>ex1. ExecuteRecoveryExecution rt ex st = (Inr True, ex1, st) \<and> execution_ok rt (ex_session ex1) \<and>
    tx_branches (ts_txn (ex_session ex1)) = map new_BranchContext (CandidateBranchIds plan)"
proof -
  let ?p = "rp_plan (ex_recovery_plan ex)"
  let ?t = "SetMetadata ''recovery_execution_status'' ''fresh_submit'' ((rp_task (ex_recovery_plan ex))\<lparr>tc_phase := TaskCreated\<rparr>)"
  let ?m = "(tx_metrics (ts_txn (submitted rt ?t ?p)))\<lparr>tm_retry_count := tm_retry_count (tx_metrics (ts_txn (ex_session ex))) + 1\<rparr>"
  let ?s = "(submitted rt ?t ?p)\<lparr>ts_txn := (ts_txn (submitted rt ?t ?p))\<lparr>tx_metrics := ?m\<rparr>\<rparr>"
  have v: "task_Validate task = Inr ()" "plan_Validate plan = Inr ()" using sub by (simp_all add: SubmitTask_iff)
  have ids: "CandidateBranchIds ?p = CandidateBranchIds plan" by (simp add: CandidateBranchIds_def p(3) comp_def)
  have v': "task_Validate ?t = Inr ()" "plan_Validate ?p = Inr ()"
    using v p ids by (simp_all add: task_Validate_iff plan_Validate_iff)
  have "session_ok rt ?s" by (intro session_ok_metrics submitted_ok v')
  then have "execution_ok rt ?s"
    by (auto simp: execution_ok_def session_ok_def submitted_def recovered_new)
  moreover have "tx_branches (ts_txn ?s) = map new_BranchContext (CandidateBranchIds plan)"
    by (simp add: submitted_def CandidateBranchIds_def p(3) comp_def)
  moreover have "SubmitTask rt ?t ?p = Inr (submitted rt ?t ?p)" using v' by (simp add: SubmitTask_iff)
  ultimately show ?thesis by (simp add: ExecuteRecoveryExecution_def Let_def ex)
qed

lemma aborted_execution:
  assumes sub: "SubmitTask rt task plan = Inr s0" and fits: "log_fits s"
    and id: "tc_task_id (ts_task s) = tc_task_id task" and es: "ts_events s = ts_events s0 @ es" "later_events es" "es \<noteq> []"
    and abort: "\<not> ts_committed s" "tc_phase (ts_task s) = TaskAborted" "te_type (last es) = EvAbortTask"
    and parse: "ParseTaskEventLogArtifact path w = Some (logged_artifact s)"
    and objects: "tc_workload_name (ts_task s) \<noteq> []"
      "filter (\<lambda>x. or_object_id x \<noteq> []) (tc_input_objects (ts_task s)) = i # is"
      "filter (\<lambda>x. or_object_id x \<noteq> []) (tc_output_objects (ts_task s)) = k # ks"
  shows "\<exists>ex. BuildRecoveryExecutionFromLog rt path (kv, w) = Inr ex \<and>
    dc_action (rp_decision (ex_recovery_plan ex)) = RaRetryFromScratch \<and>
    tc_workload_name (ts_task (ex_session ex)) = tc_workload_name (ts_task s) \<and>
    tc_input_objects (ts_task (ex_session ex)) = i # is \<and> tc_output_objects (ts_task (ex_session ex)) = k # ks \<and>
    (\<forall>st. \<exists>ex1. ExecuteRecoveryExecution rt ex st = (Inr True, ex1, st) \<and> execution_ok rt (ex_session ex1) \<and>
       tx_branches (ts_txn (ex_session ex1)) = map new_BranchContext (CandidateBranchIds plan))"
proof -
  let ?p = "BuildTaskRecoveryPlan path (logged_artifact s)"
  have s0: "s0 = submitted rt task plan" and v: "task_Validate task = Inr ()" "plan_Validate plan = Inr ()"
    using sub by (simp_all add: SubmitTask_iff)
  obtain r where r: "RecoverSessionFromLog rt path (kv, w) = Inr r"
    using recovered_session [OF sub fits id es(1,2) parse, where kv = kv] by blast
  obtain ph where task: "ts_task (rs_session r) = (rp_task ?p)\<lparr>tc_phase := ph\<rparr>" "rs_recovery_plan r = ?p"
    using recovered_task_same [OF r] parse by auto
  have p: "ep_branch_plans (rp_plan ?p) = map recovered_plan (ep_branch_plans plan)" "tc_task_id (rp_task ?p) = tc_task_id task"
      "tc_objective (rp_task ?p) = tc_objective task" "rp_decision ?p = RecoverTaskSessionDecision path (logged_artifact s)"
    using plan_of_log [OF fits _ _ es(1) [unfolded s0] es(2), of path] v id by (simp_all add: plan_Validate_iff task_Validate_iff)
  have "ts_events s \<noteq> []" "te_type (last (ts_events s)) = EvAbortTask" using es abort(3) by simp_all
  from aborted_decision [OF abort(1,2) this]
  have d: "dc_action (rp_decision ?p) = RaRetryFromScratch" by (simp add: p(4))
  note fields = logged_task_fields [OF fits objects, of path]
  let ?ex = "BuildTaskRecoveryExecution r"
  have ex: "ex_recovery_plan ?ex = ?p" "ex_command_type ?ex = CmdSubmitFreshTask"
      "tc_workload_name (ts_task (ex_session ?ex)) = tc_workload_name (ts_task s)"
      "tc_input_objects (ts_task (ex_session ?ex)) = i # is" "tc_output_objects (ts_task (ex_session ?ex)) = k # ks"
    by (simp_all add: BuildTaskRecoveryExecution_def Let_def task d fields)
  have "\<exists>ex1. ExecuteRecoveryExecution rt ?ex st = (Inr True, ex1, st) \<and> execution_ok rt (ex_session ex1) \<and>
       tx_branches (ts_txn (ex_session ex1)) = map new_BranchContext (CandidateBranchIds plan)" for st
    by (rule fresh_execution [OF sub ex(2)]) (simp_all add: ex(1) p)
  then show ?thesis using r d ex by (intro exI [of _ ?ex]) (simp add: BuildRecoveryExecutionFromLog_def)
qed

text \<open>The handler of the minimal task on a fresh submission.\<close>

lemma retry_commits:
  assumes kv: "batch_store (tk_store rt) ok_state" and st: "ok_state st" and keys: "i \<noteq> []" "k \<noteq> []"
    and e: "ExecuteRecoveryExecution rt ex st = (Inr True, ex1, st)" "execution_ok rt (ex_session ex1)"
      "tx_branches (ts_txn (ex_session ex1)) = map new_BranchContext [''branch_A'', ''branch_B'', ''branch_C'']"
    and fields: "tc_input_objects (ts_task (ex_session ex)) = [\<lparr>or_object_id = i, or_object_role = x\<rparr>]"
      "tc_output_objects (ts_task (ex_session ex)) = [\<lparr>or_object_id = k, or_object_role = y\<rparr>]"
      "tc_workload_name (ts_task (ex_session ex)) = ''agent_task.minimal_candidate_task''"
  shows "\<exists>ex2 st2. registry_Continue (snd (RegisterBuiltinRecoveryHandlers registry)) rt ex st = (Inr True, ex2, st2) \<and>
    tx_status (ts_txn (ex_session ex2)) = TxnCommitted \<and> tx_winner_branch_id (ts_txn (ex_session ex2)) = ''branch_B'' \<and>
    kv_Get (tk_store rt) (fst st2) = view_put k ''recovered_agent_result'' (kv_Get (tk_store rt) (fst st))"
proof -
  let ?V = "kv_Get (tk_store rt) (fst st)" and ?m = "''recovered minimal candidate task''"
  let ?spec = "\<lparr>cs_preferred_branch_id = ''branch_B'', cs_score = DFin 101, cs_summary = ?m\<rparr>"
  let ?f = "overwriting ?V i k ''recovered_agent_result'' (DFin 101) ?m" and ?B = "new_BranchContext ''branch_B''"
  have run: "registry_Continue (snd (RegisterBuiltinRecoveryHandlers registry)) rt ex st =
      ContinueRecoveredTask rt ex ?spec (overwrite_callback rt i k ''recovered_agent_result'') st"
    using builtin_handlers [of registry "''agent_task.minimal_candidate_task''"] keys
    by (simp add: registry_Continue_def Let_def fields ContinueRecoveredMinimalCandidateTask_def first_object_def)
  have b: "continuation_branch ?spec ex1 = ''branch_B''" by (simp add: continuation_branch_def Let_def)
  have d: "cs_score ?spec \<noteq> DNaN" "''branch_B'' \<noteq> []" by simp_all
  have bs: "tx_branches (on_branch ''branch_B'' ?f (ts_txn (ex_session ex1))) =
      [new_BranchContext ''branch_A'', ?f ?B, new_BranchContext ''branch_C'']"
    by (simp add: on_branch_def bm_FindBranch_def e(3))
  obtain ok ex2 st2 w where o: "ContinueRecoveredTask rt ex ?spec (overwrite_callback rt i k ''recovered_agent_result'') st = (Inr ok, ex2, st2)"
      "outcome_of [new_BranchContext ''branch_A'', ?f ?B, new_BranchContext ''branch_C''] w ?V ok (ts_txn (ex_session ex2))
        (kv_Get (tk_store rt) (fst st2))"
    using continue_overwriting [OF e(2,1) b d(2,1) kv st, where i = i and k = k and v = "''recovered_agent_result''"]
    by (simp only: TaskContinuationSpec.select_convs bs) blast
  have new: "cr_score (bc_candidate_result (new_BranchContext b)) = DFin 0" for b
    by (simp add: new_BranchContext_def)
  have w: "w = ?f ?B"
    using o(2) by (auto simp: outcome_of_def new overwriting_keeps)
  have "branch_fresh ?V (?f ?B)" by (intro fresh_overwriting fresh_new)
  moreover have "branch_plain (?f ?B)" by (intro plain_overwriting intents_keep)
  ultimately have ok: "ok" using o(2) fresh_possible unfolding w outcome_of_def by blast
  have cand: "?f ?B = candidate ?V i k ''branch_B'' ''recovered_agent_result'' (DFin 101) ?m"
    using keys(1) by (simp add: overwriting_def candidate_def)
  have "kv_Get (tk_store rt) (fst st2) = view_put k ''recovered_agent_result'' ?V"
    using o(2) ok unfolding w cand outcome_of_def by (auto simp: commit_view_def candidate_facts view_put_def)
  moreover have "tx_winner_branch_id (ts_txn (ex_session ex2)) = ''branch_B''" "tx_status (ts_txn (ex_session ex2)) = TxnCommitted"
    using o(2) ok unfolding w cand outcome_of_def by (simp_all add: candidate_id)
  ultimately show ?thesis using o(1) ok run by simp
qed

text \<open>
  C16. A disturbed task is retried and commits. The minimal agent task has run its branches on a
  store with atomic batches, and another client changes its input before the commit: the commit
  fails and changes nothing. Once its event log is written, the recovery from it decides, at any later
  time and whatever has become of the store, to start the task from scratch; continued through the
  built-in handlers, the fresh task commits, and the only change to the store is the recovered
  result in the output object.
\<close>

theorem disturbed_task_retries:
  assumes "SubmitTask rt (BuildMinimalCandidateTaskContext task_id i k) BuildMinimalCandidateExecutionPlan = Inr s0"
    and "batch_store (tk_store rt) ok_state" and "ok_state st1" and "i \<noteq> []" and "k \<noteq> []"
    and "vv_version (kv_Get (tk_store rt) (fst st1) i) \<noteq> vv_version (kv_Get (tk_store rt) (fst st) i)"
    and "rt_CommitTask rt (ExecuteMinimalCandidateBranches rt i k st s0) st1 = (c, s1, st2)"
    and "WriteTaskEventLogArtifact s1 path w0 = (True, w)" and "ok_state (kv', w)"
  shows "c = Inr False \<and> kv_Get (tk_store rt) (fst st2) = kv_Get (tk_store rt) (fst st1) \<and>
    (\<exists>ex ex2 st'. BuildRecoveryExecutionFromLog rt path (kv', w) = Inr ex \<and>
       dc_action (rp_decision (ex_recovery_plan ex)) = RaRetryFromScratch \<and>
       registry_Continue (snd (RegisterBuiltinRecoveryHandlers registry)) rt ex (kv', w) = (Inr True, ex2, st') \<and>
       tx_status (ts_txn (ex_session ex2)) = TxnCommitted \<and> tx_winner_branch_id (ts_txn (ex_session ex2)) = ''branch_B'' \<and>
       kv_Get (tk_store rt) (fst st') = view_put k ''recovered_agent_result'' (kv_Get (tk_store rt) kv'))"
proof -
  let ?task = "BuildMinimalCandidateTaskContext task_id i k"
  from disturbed_attempt [OF assms(1,2,3,6,7)] obtain es where
      a: "c = Inr False" "kv_Get (tk_store rt) (fst st2) = kv_Get (tk_store rt) (fst st1)" "\<not> ts_committed s1"
        "tc_phase (ts_task s1) = TaskAborted" "ts_task s1 = ?task\<lparr>tc_phase := TaskAborted\<rparr>" "log_fits s1"
      and es: "ts_events s1 = ts_events s0 @ es" "later_events es" "es \<noteq> []" "te_type (last es) = EvAbortTask"
    by blast
  have "\<forall>e \<in> set (ts_events s1). te_sequence_number e < 2 ^ 64" using a(6) by (simp add: log_fits_def)
  note parse = parse_task_log [OF written_task_log [OF assms(8)] this]
  have task: "tc_task_id (ts_task s1) = tc_task_id ?task" "tc_workload_name (ts_task s1) = ''agent_task.minimal_candidate_task''"
      "filter (\<lambda>x. or_object_id x \<noteq> []) (tc_input_objects (ts_task s1)) = [\<lparr>or_object_id = i, or_object_role = ''task_input''\<rparr>]"
      "filter (\<lambda>x. or_object_id x \<noteq> []) (tc_output_objects (ts_task s1)) = [\<lparr>or_object_id = k, or_object_role = ''task_output''\<rparr>]"
    using assms(4,5) by (simp_all add: a(5) BuildMinimalCandidateTaskContext_def Let_def AddInputObject_def AddOutputObject_def default_TaskContext_def)
  have wl: "tc_workload_name (ts_task s1) \<noteq> []" by (simp add: task(2))
  obtain ex where ex: "BuildRecoveryExecutionFromLog rt path (kv', w) = Inr ex"
      "dc_action (rp_decision (ex_recovery_plan ex)) = RaRetryFromScratch"
      "tc_workload_name (ts_task (ex_session ex)) = ''agent_task.minimal_candidate_task''"
      "tc_input_objects (ts_task (ex_session ex)) = [\<lparr>or_object_id = i, or_object_role = ''task_input''\<rparr>]"
      "tc_output_objects (ts_task (ex_session ex)) = [\<lparr>or_object_id = k, or_object_role = ''task_output''\<rparr>]"
      and fresh: "\<And>st. \<exists>ex1. ExecuteRecoveryExecution rt ex st = (Inr True, ex1, st) \<and> execution_ok rt (ex_session ex1) \<and>
        tx_branches (ts_txn (ex_session ex1)) = map new_BranchContext (CandidateBranchIds BuildMinimalCandidateExecutionPlan)"
    using aborted_execution [OF assms(1) a(6) task(1) es(1-3) a(3,4) es(4) parse wl task(3,4), of kv'] unfolding task(2) by blast
  have "CandidateBranchIds BuildMinimalCandidateExecutionPlan = [''branch_A'', ''branch_B'', ''branch_C'']"
    by (simp add: CandidateBranchIds_def BuildMinimalCandidateExecutionPlan_def Let_def AddBranchPlan_def default_ExecutionPlan_def)
  then obtain ex1 where ex1: "ExecuteRecoveryExecution rt ex (kv', w) = (Inr True, ex1, (kv', w))" "execution_ok rt (ex_session ex1)"
      "tx_branches (ts_txn (ex_session ex1)) = map new_BranchContext [''branch_A'', ''branch_B'', ''branch_C'']"
    using fresh [of "(kv', w)"] by auto
  from retry_commits [OF assms(2,9,4,5) ex1 ex(4,5,3), of registry] a(1,2) ex(1,2)
  show ?thesis unfolding fst_conv by blast
qed

theorem disturbed_task_retries_witness:
  "let rt = demo_runtime; st1 = snd (mem_Put ''k'' ''other'' demo_system) in
   case SubmitTask rt (BuildMinimalCandidateTaskContext ''t'' ''k'' ''out'') BuildMinimalCandidateExecutionPlan of
     Inl _ \<Rightarrow> False
   | Inr s0 \<Rightarrow>
       (let (c, s1, st2) = rt_CommitTask rt (ExecuteMinimalCandidateBranches rt ''k'' ''out'' demo_system s0) st1;
            w = snd (WriteTaskEventLogArtifact s1 ''t.log'' calm)
        in c = Inr False \<and>
          (case BuildRecoveryExecutionFromLog rt ''t.log'' (fst st2, w) of
             Inl _ \<Rightarrow> False
           | Inr ex \<Rightarrow>
               (let (c2, ex2, st3) = registry_Continue (snd (RegisterBuiltinRecoveryHandlers [])) rt ex (fst st2, w)
                in c2 = Inr True \<and> vv_value (mem_Get (fst st3) ''out'') = ''recovered_agent_result'' \<and>
                   vv_value (mem_Get (fst st3) ''k'') = ''other'')))"
proof -
  let ?rt = demo_runtime and ?st1 = "snd (mem_Put ''k'' ''other'' demo_system)"
  let ?t = "BuildMinimalCandidateTaskContext ''t'' ''k'' ''out''"
  have kv: "batch_store (tk_store ?rt) (\<lambda>_. True)" by (rule demo_memory)
  have sub: "SubmitTask ?rt ?t BuildMinimalCandidateExecutionPlan = Inr (submitted ?rt ?t BuildMinimalCandidateExecutionPlan)"
    by (rule minimal_Submit) simp
  have V1: "mem_Get (fst ?st1) = view_put ''k'' ''other'' (mem_Get demo_mem)"
    using mem_Put_view(2) [of "''k''" "''other''" demo_system] by simp
  have changed: "vv_version (kv_Get (tk_store ?rt) (fst ?st1) ''k'') \<noteq> vv_version (kv_Get (tk_store ?rt) (fst demo_system) ''k'')"
    by (simp add: V1)
  obtain c s1 st2 where c: "rt_CommitTask ?rt (ExecuteMinimalCandidateBranches ?rt ''k'' ''out'' demo_system
      (submitted ?rt ?t BuildMinimalCandidateExecutionPlan)) ?st1 = (c, s1, st2)"
    by (metis surj_pair)
  have w: "WriteTaskEventLogArtifact s1 ''t.log'' calm = (True, fs_put ''t.log'' (task_log_text s1) calm)"
    by (simp add: WriteTaskEventLogArtifact_def write_file_def next_fault_def calm_def)
  have ne: "''k'' \<noteq> []" "''out'' \<noteq> []" by simp_all
  from disturbed_task_retries [OF sub kv TrueI ne changed c w TrueI, where registry = "[]" and kv' = "fst st2"] V1
  show ?thesis by (auto simp: sub c w Let_def)
qed

end
