(* ===== verification/Spec2Isabelle.thy ===== *)
theory Spec2Isabelle
  imports Demo_Flows Runtime_Facade Task_Retry
begin

text \<open>
  A verification development for the Data Agent System, a C++17 library
  (\<open>src/data_agent_system/\<close>) that runs the tasks of an agent as transactions with several
  candidate branches over a versioned key-value store. All file names below are relative to
  that directory.

  \<^bold>\<open>The program.\<close> A task (\<open>runtime/\<close>) is submitted with a plan of candidate branches. Each branch
  (\<open>branch/\<close>) reads from the store, buffers its writes as semantic intents (\<open>intent/\<close>,
  \<open>cache/\<close>), makes savepoints and rolls back to them, and is staged with a score. Committing
  selects the branch with the highest score, validates what it read, resolves its intents
  against the current store and applies them (\<open>agent_txn/\<close>): as one conditional batch where the
  store (\<open>storage/\<close>) has batches, otherwise key by key with a rollback, or key by key under a
  fallback artifact on disk from which an interrupted commit is recovered. The commit log and
  the event log of a session are text files; recovery reads them back, decides what to do with
  the task and rebuilds its session.

  \<^bold>\<open>Reading guide.\<close> Every definition keeps the name of the code it models; a prefix marks the
  class where the name is shared (\<open>mem_\<close>, \<open>file_\<close>, \<open>redis_\<close>, \<open>rocks_\<close> for the stores, \<open>wb_\<close>
  and \<open>il_\<close> for the buffers, \<open>bm_\<close>, \<open>rm_\<close>, \<open>vm_\<close>, \<open>tm_\<close> for the managers, \<open>rt_\<close> and \<open>txn_\<close>
  for the two overloads of a runtime operation). Record fields carry a two-letter prefix.
  The theories, in the order of their imports:

  \<^item> \<open>Das_Prelude\<close>: C++ types, unordered maps, exceptions, doubles, shared list facts.
  \<^item> \<open>Cpp_Text\<close>, \<open>Cpp_Double\<close>: the standard library's decimal output and parsing, \<open>getline\<close>, the
    escape code of the artifacts (locale \<open>text_codec\<close>), and the default output of a double.
  \<^item> \<open>Disk\<close>: files, directories and the script of faults that the environment injects.
  \<^item> \<open>Storage\<close>: the store interface as a record of operations, its contracts as the locales
    \<open>versioned_store\<close>, \<open>batch_store\<close>, \<open>sequential_store\<close>, \<open>detached_store\<close>, and the in-memory
    stores and the Redis adapter that satisfy them; \<open>File_Store\<close>: the file-backed store;
    \<open>Store_Factory\<close>: the RocksDB adapter, the factory and its configuration artifact.
  \<^item> \<open>Intent\<close>, \<open>Cache\<close>, \<open>Branch\<close>, \<open>Rebase\<close>: intents and their resolution, the write buffer with
    undo (a refinement of the list of writes), branches and savepoints, what appends and deltas
    of a branch mean at commit time.
  \<^item> \<open>Txn\<close>, \<open>Commit\<close>, \<open>Commit_Correct\<close>: validation of the winner, the plan of a commit, and the
    specification \<open>commit_view\<close> that the batch and the sequential commit implement.
  \<^item> \<open>Fallback_Log\<close>, \<open>Fallback_Recovery\<close>, \<open>Commit_Crash\<close>: the artifact of the crash-safe commit,
    its recovery, and both together under any faults.
  \<^item> \<open>Commit_Log\<close>: the commit log, its replay and the recovery of committed writes.
  \<^item> \<open>Txn_Manager\<close>: the life of a transaction and its outcome (\<open>outcome_of\<close>); \<open>Txn_Sequential\<close>: the
    same outcome on stores without batches; \<open>Commit_Shared\<close>: the sequential commit while another
    client writes between its conditional operations, and so makes its writes fail.
  \<^item> \<open>Task_Model\<close>, \<open>Task_Log\<close>, \<open>Task_Recovery\<close>, \<open>Task_Runtime\<close>: tasks, plans and sessions, the event
    log, the recovery decision and plan, the facade with all its operations, continuations.
  \<^item> \<open>Task_Session\<close>: sessions as a state machine (\<open>task_step\<close>, \<open>task_reachable\<close>) with their
    invariant and the outcome of their commit; \<open>Task_Live\<close>: what an undisturbed branch needs to
    commit, and undisturbed tasks that do;
    \<open>Task_Demo\<close>: a concrete task.
  \<^item> \<open>Task_Rebuild\<close>: recovery from the event log rebuilds the session that wrote it;
    \<open>Task_Hazards\<close> and \<open>Task_Limits\<close>: what recovery guarantees for every log, and where a
    recovered task differs from its original (conditions of writes, fractions of scores, dropped
    savepoints, tasks that had committed).
  \<^item> \<open>Workload_Agent\<close>, \<open>Workload_Synthetic\<close>, \<open>Workload_Script\<close>: the workloads under
    \<open>workloads/\<close> and their continuation handlers; \<open>Task_Programs\<close> and \<open>Workload_Script_Run\<close>:
    branch programs run on an undisturbed store, and the outcome of a scripted task with any intents;
    \<open>Cpp_Strtod\<close>: the decimal text of a score and \<open>strtod\<close>, which the scripted tasks use;
    \<open>Workload_Recovery\<close>: the continuation of synthetic tasks and the registration of all
    built-in handlers.
  \<^item> \<open>Task_Sweep\<close>: what the sweep of finished fallback artifacts removes and keeps;
    \<open>Fallback_Progress\<close>: why the recovery of the artifacts ends; \<open>Runtime_Facade\<close>: the class
    \<open>TaskRuntime\<close> with its constructors, and the artifacts it leaves when it is constructed.
  \<^item> \<open>Task_Retry\<close>: the way of a disturbed task from its abort through its event log to its retry.
  \<^item> The programs of \<open>src/examples/\<close>: \<open>Demo_Semantics\<close> (tasks with another client between their reads and
    their commit), \<open>Demo_Tools\<close> (the command line tools with their arguments, exit codes and
    output), \<open>Demo_Stores\<close> (the two stores that the fallback demonstrations define, one of them
    with a client that writes between two writes of a commit), \<open>Demo_Fallback\<close> (these
    demonstrations, with a simulated crash and its recovery) and \<open>Demo_Flows\<close> (the workflows on the
    in-memory store).

  \<^bold>\<open>Model.\<close> Strings are lists of bytes, \<open>std::uint64_t\<close> and \<open>std::int64_t\<close> are words,
  \<open>std::size_t\<close> counters are natural numbers, a double is a rational, an infinity or NaN. An
  unordered map is an association list, so its iteration order is fixed in the model and left
  open in C++; no property depends on it. A system (\<open>'s sys\<close>) is the state of a store with the
  state of the disk. Every disk call first takes a fault from the script of the disk, so a
  property that quantifies over the disk covers every failure and every crash; no recursion
  uses fuel. Concurrent clients appear as arbitrary changes of the store between the steps,
  and in \<open>Commit_Shared\<close> and \<open>Demo_Stores\<close> as a write inside a step.

  \<^bold>\<open>Not modelled.\<close> The mutexes of the stores (each operation is atomic), null pointer arguments,
  failing memory allocations, the clock (the synthetic driver takes the measured time of each task
  as the parameter \<open>elapsed\<close>), what a parser leaves in its output argument when it fails (callers
  that ignore the failure are taken to see the default members), subdirectories in a listing of
  artifacts (\<open>ListPathsWithSuffix\<close> lists files only; the code would also return a directory whose name
  ends in the suffix, and then fail to read it), and the experiment scripts, which are not C++.
\<close>

end
